(* ===== verification/Moon_Prelude.thy ===== *)
theory Moon_Prelude
  imports Main "HOL-Library.Word"
begin

text \<open>
  The shared layer of the MoonNet development: the machine types of the sources, the faults
  a C++ operation can run into instead of returning, the sequencing of operations that may
  fault, and the lemmas on words and lists that every component uses.
\<close>

unbundle bit_operations_syntax

section \<open>Types of the sources\<close>

text \<open>
  The library is built for 64-bit Linux: \<^verbatim>\<open>size_t\<close> and \<^verbatim>\<open>uint64_t\<close> are 64-bit words,
  \<^verbatim>\<open>uint32_t\<close> a 32-bit word and \<^verbatim>\<open>char\<close> data an 8-bit word.
\<close>

type_synonym size_t = "64 word"
type_synonym u32 = "32 word"
type_synonym byte = "8 word"

section \<open>Faults\<close>

text \<open>
  What happens instead of a normal return: an access outside an array, a pointer in front of the
  first element of an array (the one that \<^verbatim>\<open>sendout\<close> computes has a fault of its own), a null or dangling
  pointer, the use of a member no constructor set, exceptions of the standard library,
  a division by zero, \<^verbatim>\<open>std::terminate\<close>, the \<^verbatim>\<open>exit\<close> calls of the sources, and a loop that never returns.
  Undefined behaviour is a fault here, so that "never faults" is memory safety.
\<close>

datatype fault =
    Out_of_bounds
  | Underrun
  | Null_pointer
  | Dangling_pointer
  | Uninitialised
  | Length_error
  | Division_by_zero
  | Exit int
  | Bad_function_call
  | Terminate
  | Diverges

type_synonym 'a res = "fault + 'a"

definition bindR :: "'a res \<Rightarrow> ('a \<Rightarrow> 'b res) \<Rightarrow> 'b res" where
  "bindR r f = (case r of Inl e \<Rightarrow> Inl e | Inr x \<Rightarrow> f x)"

lemma bindR_Inl [simp]: "bindR (Inl e) f = Inl e"
  by (simp add: bindR_def)

lemma bindR_Inr [simp]: "bindR (Inr x) f = f x"
  by (simp add: bindR_def)

lemma bindR_eq_Inr: "bindR r f = Inr y \<longleftrightarrow> (\<exists>x. r = Inr x \<and> f x = Inr y)"
  by (cases r) auto

lemma bindR_assoc: "bindR (bindR r f) g = bindR r (\<lambda>x. bindR (f x) g)"
  by (cases r) auto

text \<open>Loops are partial functions with \<open>None\<close> for not returning; a call of one is a step that may diverge.\<close>

definition returned :: "'a res option \<Rightarrow> 'a res" where
  "returned r = (case r of None \<Rightarrow> Inl Diverges | Some x \<Rightarrow> x)"

lemma returned_Some [simp]: "returned (Some x) = x"
  by (simp add: returned_def)

lemma returned_None [simp]: "returned None = Inl Diverges"
  by (simp add: returned_def)

text \<open>A loop given by its turn, which tells whether to go on; \<open>None\<close> if it never ends.\<close>

partial_function (option) repeat_turn :: "('s \<Rightarrow> (bool \<times> 's) res) \<Rightarrow> 's \<Rightarrow> 's res option" where
  "repeat_turn turn s =
     (case turn s of
        Inl e \<Rightarrow> Some (Inl e)
      | Inr (go, s') \<Rightarrow> if go then repeat_turn turn s' else Some (Inr s'))"

lemma repeat_turn_done: "turn s = Inr (False, s') \<Longrightarrow> repeat_turn turn s = Some (Inr s')"
  by (subst repeat_turn.simps) simp

lemma repeat_turn_again: "turn s = Inr (True, s') \<Longrightarrow> repeat_turn turn s = repeat_turn turn s'"
  by (subst repeat_turn.simps) simp

text \<open>A loop whose turns keep an invariant, do not fault and decrease a measure returns.\<close>

lemma repeat_turn_returns:
  fixes m :: "'s \<Rightarrow> nat"
  assumes "I s"
    and "\<And>s. I s \<Longrightarrow> \<exists>go s'. turn s = Inr (go, s') \<and> (if go then I s' \<and> m s' < m s else Q s')"
  shows "\<exists>s'. repeat_turn turn s = Some (Inr s') \<and> Q s'"
  using assms(1)
proof (induction "m s" arbitrary: s rule: less_induct)
  case less
  obtain go s' where t: "turn s = Inr (go, s')" "if go then I s' \<and> m s' < m s else Q s'"
    using assms(2) [OF less.prems] by blast
  then show ?case
    using less.hyps [of s'] by (cases go) (simp_all add: repeat_turn_done repeat_turn_again)
qed

section \<open>Words\<close>

lemma unat_of_nat_size_t: "n < 2 ^ 64 \<Longrightarrow> unat (of_nat n :: size_t) = n"
  by (simp add: unat_of_nat)

lemma unat_add_nowrap:
  fixes a b :: size_t
  assumes "unat a + unat b < 2 ^ 64"
  shows "unat (a + b) = unat a + unat b"
  using assms by (simp add: unat_word_ariths)

lemma unat_sub_nowrap:
  fixes a b :: size_t
  assumes "unat b \<le> unat a"
  shows "unat (a - b) = unat a - unat b"
  using assms by (simp add: unat_sub word_le_nat_alt)

lemma unat_size_t_less: "unat (w :: size_t) < 2 ^ 64"
  using unsigned_less [of w] by simp

lemma bit_unat_eq: "bit (unat w) j = bit w j" for w :: "'a::len word"
  by transfer (auto simp: bit_nat_iff bit_take_bit_iff)

lemma unat_take_bit_eq: "unat (take_bit k w) = take_bit k (unat w)" for w :: "'a::len word"
  by (rule bit_eqI) (simp add: bit_unat_eq bit_take_bit_iff)

lemma unat_two_power: "k < 64 \<Longrightarrow> unat (2 ^ k :: size_t) = 2 ^ k"
  using unat_of_nat_size_t [of "2 ^ k"] power_strict_increasing [of k 64 "2 :: nat"] by simp

lemma and_pow2_pred:
  fixes x c :: size_t
  assumes "unat c = 2 ^ k" "k < 64"
  shows "unat (x AND (c - 1)) = unat x mod 2 ^ k"
proof -
  have "c = 2 ^ k"
    by (metis assms unat_two_power word_unat_eq_iff)
  then have "c - 1 = mask k" by (simp add: mask_eq_exp_minus_1)
  then show ?thesis
    by (simp add: unat_take_bit_eq flip: take_bit_eq_mask take_bit_eq_mod)
qed

section \<open>Lists\<close>

lemma take_drop_append [simp]: "take n xs @ drop n xs @ ys = xs @ ys"
  by (metis append_assoc append_take_drop_id)

section \<open>Writing a block into an array\<close>

text \<open>
  \<open>write_at i xs ys\<close> is \<open>ys\<close> after \<^verbatim>\<open>memcpy(ys + i, xs, length xs)\<close>, for a block that fits.
\<close>

definition write_at :: "nat \<Rightarrow> 'a list \<Rightarrow> 'a list \<Rightarrow> 'a list" where
  "write_at i xs ys = take i ys @ xs @ drop (i + length xs) ys"

lemma length_write_at [simp]:
  "i + length xs \<le> length ys \<Longrightarrow> length (write_at i xs ys) = length ys"
  by (simp add: write_at_def)

lemma take_write_at [simp]: "n \<le> i \<Longrightarrow> i \<le> length ys \<Longrightarrow> take n (write_at i xs ys) = take n ys"
  by (simp add: write_at_def min_def)

lemma take_write_at_end:
  "i \<le> length ys \<Longrightarrow> take (i + length xs) (write_at i xs ys) = take i ys @ xs"
  by (simp add: write_at_def min_def)

end
