(* ===== verification/Bounded_Fifo.thy ===== *)
theory Bounded_Fifo
  imports Moon_Prelude
begin

text \<open>
  The contract a task queue offers to its users: a bounded first-in first-out queue whose
  \<open>push\<close> refuses when the queue holds its limit and whose \<open>pop\<close> refuses when it is empty.
  The lemmas of the users (filling a queue, draining it with \<^verbatim>\<open>while (q.pop(x))\<close>) are proved
  here once, from the laws alone.
\<close>

section \<open>Draining a queue\<close>

text \<open>
  \<^verbatim>\<open>while (q.pop(item)) use(item);\<close> with the used items collected in order. The loop has no
  bound of its own, so the model spends fuel; \<open>None\<close> is a loop that has not ended yet.
\<close>

fun drain :: "('a \<Rightarrow> 'q \<Rightarrow> (bool \<times> 'a \<times> 'q) res) \<Rightarrow> nat \<Rightarrow> 'a \<Rightarrow> 'q \<Rightarrow> ('a list \<times> 'q) res option" where
  "drain pp 0 item q = None"
| "drain pp (Suc fuel) item q =
     (case pp item q of
        Inl e \<Rightarrow> Some (Inl e)
      | Inr (ok, item', q') \<Rightarrow>
          if ok
          then map_option (\<lambda>r. bindR r (\<lambda>(xs, q''). Inr (item' # xs, q''))) (drain pp fuel item' q')
          else Some (Inr ([], q')))"

fun push_all :: "('a \<Rightarrow> 'q \<Rightarrow> (bool \<times> 'q) res) \<Rightarrow> 'a list \<Rightarrow> 'q \<Rightarrow> (bool list \<times> 'q) res" where
  "push_all ps [] q = Inr ([], q)"
| "push_all ps (x # xs) q =
     bindR (ps x q) (\<lambda>(ok, q'). bindR (push_all ps xs q') (\<lambda>(oks, q''). Inr (ok # oks, q'')))"

section \<open>The contract\<close>

locale bounded_fifo =
  fixes ps :: "'a \<Rightarrow> 'q \<Rightarrow> (bool \<times> 'q) res"
    and pp :: "'a \<Rightarrow> 'q \<Rightarrow> (bool \<times> 'a \<times> 'q) res"
    and contents :: "'q \<Rightarrow> 'a list"
    and limit :: "'q \<Rightarrow> nat"
    and invar :: "'q \<Rightarrow> bool"
  assumes push_room:
      "invar q \<Longrightarrow> length (contents q) < limit q \<Longrightarrow>
       \<exists>q'. ps x q = Inr (True, q') \<and> invar q' \<and> contents q' = contents q @ [x] \<and> limit q' = limit q"
    and push_full: "invar q \<Longrightarrow> limit q \<le> length (contents q) \<Longrightarrow> ps x q = Inr (False, q)"
    and pop_some:
      "invar q \<Longrightarrow> contents q = y # ys \<Longrightarrow>
       \<exists>q'. pp item q = Inr (True, y, q') \<and> invar q' \<and> contents q' = ys \<and> limit q' = limit q"
    and pop_none: "invar q \<Longrightarrow> contents q = [] \<Longrightarrow> pp item q = Inr (False, item, q)"
begin

text \<open>Enough fuel drains everything, in order, and leaves the queue empty.\<close>

lemma drain_all:
  assumes "invar q" and "length (contents q) < fuel"
  shows "\<exists>q'. drain pp fuel item q = Some (Inr (contents q, q')) \<and>
              invar q' \<and> contents q' = [] \<and> limit q' = limit q"
  using assms
proof (induction fuel arbitrary: item q)
  case 0
  then show ?case by simp
next
  case (Suc fuel)
  show ?case
  proof (cases "contents q")
    case Nil
    with Suc.prems show ?thesis by (simp add: pop_none)
  next
    case (Cons y ys)
    then obtain q1 where q1: "pp item q = Inr (True, y, q1)" "invar q1" "contents q1 = ys"
        "limit q1 = limit q"
      using pop_some [OF Suc.prems(1)] by blast
    have "length (contents q1) < fuel"
      using Suc.prems(2) Cons q1(3) by simp
    from Suc.IH [OF q1(2) this, of y] obtain q2
      where "drain pp fuel y q1 = Some (Inr (ys, q2))" "invar q2" "contents q2 = []"
        "limit q2 = limit q"
      using q1(3,4) by auto
    with q1 Cons show ?thesis by simp
  qed
qed

text \<open>
  Filling: the first items that fit are accepted, in order, the rest is refused, and no
  push faults.
\<close>

lemma push_all_fills:
  assumes "invar q" and "length (contents q) \<le> limit q"
  shows "\<exists>q'. push_all ps xs q =
                Inr (replicate (min (length xs) (limit q - length (contents q))) True @
                     replicate (length xs - (limit q - length (contents q))) False, q') \<and>
              invar q' \<and> limit q' = limit q \<and>
              contents q' = contents q @ take (limit q - length (contents q)) xs"
  using assms
proof (induction xs arbitrary: q)
  case Nil
  then show ?case by simp
next
  case (Cons x xs)
  show ?case
  proof (cases "length (contents q) < limit q")
    case True
    then obtain q1 where q1: "ps x q = Inr (True, q1)" "invar q1"
        "contents q1 = contents q @ [x]" "limit q1 = limit q"
      using push_room [OF Cons.prems(1)] by blast
    have "length (contents q1) \<le> limit q1"
      using True q1(3,4) by simp
    from Cons.IH [OF q1(2) this] obtain q2 where q2:
      "push_all ps xs q1 =
         Inr (replicate (min (length xs) (limit q - Suc (length (contents q)))) True @
              replicate (length xs - (limit q - Suc (length (contents q)))) False, q2)"
      "invar q2" "limit q2 = limit q"
      "contents q2 = contents q @ x # take (limit q - Suc (length (contents q))) xs"
      using q1(3,4) by auto
    obtain k where k: "limit q - length (contents q) = Suc k"
        "limit q - Suc (length (contents q)) = k"
      using True by (metis Suc_diff_Suc)
    show ?thesis
      using q1(1) q2 by (simp add: k)
  next
    case False
    with Cons.prems have full: "limit q \<le> length (contents q)" by simp
    with Cons.prems(1) have "ps x q = Inr (False, q)" by (rule push_full)
    with Cons.IH [OF Cons.prems] full show ?thesis by auto
  qed
qed

end

end
