(* ===== verification/Ring_Slice.thy ===== *)
theory Ring_Slice
  imports Moon_Prelude
begin

text \<open>
  Index arithmetic of a circular array and the list of elements between two of its indices.
  These are the facts that both the sequential ring buffer and its concurrent use rest on.
\<close>

section \<open>Distance around the ring\<close>

definition ring_dist :: "nat \<Rightarrow> nat \<Rightarrow> nat \<Rightarrow> nat" where
  "ring_dist c t h = (h + c - t) mod c"

lemma ring_dist_if:
  assumes "h < c" and "t < c"
  shows "ring_dist c t h = (if t \<le> h then h - t else h + c - t)"
proof (cases "t \<le> h")
  case True
  then have "(h + c - t) mod c = (h - t) mod c"
    by (metis Nat.add_diff_assoc2 mod_add_self2)
  with True assms show ?thesis by (simp add: ring_dist_def)
next
  case False
  with assms show ?thesis by (simp add: ring_dist_def)
qed

lemma Suc_mod_if: "h < c \<Longrightarrow> Suc h mod c = (if Suc h = c then 0 else Suc h)"
  by (auto simp: mod_Suc)

lemma ring_dist_less: "0 < c \<Longrightarrow> ring_dist c t h < c"
  by (simp add: ring_dist_def)

lemma ring_dist_0: "h < c \<Longrightarrow> t < c \<Longrightarrow> ring_dist c t h = 0 \<longleftrightarrow> t = h"
  by (auto simp: ring_dist_if)

lemma ring_dist_add: "h < c \<Longrightarrow> t < c \<Longrightarrow> (t + ring_dist c t h) mod c = h"
  by (auto simp: ring_dist_if)

lemma ring_dist_full:
  "h < c \<Longrightarrow> t < c \<Longrightarrow> Suc h mod c = t \<longleftrightarrow> ring_dist c t h = c - 1"
  by (auto simp: ring_dist_if Suc_mod_if)

lemma ring_dist_Suc:
  "h < c \<Longrightarrow> t < c \<Longrightarrow> Suc h mod c \<noteq> t \<Longrightarrow> ring_dist c t (Suc h mod c) = Suc (ring_dist c t h)"
  by (auto simp: ring_dist_if Suc_mod_if)

lemma ring_dist_Suc_tail:
  "h < c \<Longrightarrow> t < c \<Longrightarrow> t \<noteq> h \<Longrightarrow> Suc (ring_dist c (Suc t mod c) h) = ring_dist c t h"
  by (auto simp: ring_dist_if Suc_mod_if)

section \<open>The elements from an index on\<close>

definition ring_slice :: "'a list \<Rightarrow> nat \<Rightarrow> nat \<Rightarrow> 'a list" where
  "ring_slice buf t n = map (\<lambda>i. buf ! ((t + i) mod length buf)) [0..<n]"

lemma length_ring_slice [simp]: "length (ring_slice buf t n) = n"
  by (simp add: ring_slice_def)

lemma ring_slice_0 [simp]: "ring_slice buf t 0 = []"
  by (simp add: ring_slice_def)

lemma nth_ring_slice: "i < n \<Longrightarrow> ring_slice buf t n ! i = buf ! ((t + i) mod length buf)"
  by (simp add: ring_slice_def)

lemma ring_slice_Suc:
  "t < length buf \<Longrightarrow>
   ring_slice buf t (Suc n) = buf ! t # ring_slice buf (Suc t mod length buf) n"
  by (rule nth_equalityI) (auto simp: nth_ring_slice nth_Cons mod_simps split: nat.split)

lemma ring_slice_snoc:
  "ring_slice buf t (Suc n) = ring_slice buf t n @ [buf ! ((t + n) mod length buf)]"
  by (simp add: ring_slice_def)

text \<open>Two positions less than one lap apart are different.\<close>

lemma ring_index_inj:
  assumes "i < j" and "j < i + c"
  shows "(t + i) mod c \<noteq> (t + j) mod (c :: nat)"
proof
  assume "(t + i) mod c = (t + j) mod c"
  then have "c dvd (t + j) - (t + i)"
    using assms(1) by (intro mod_eq_dvd_iff_nat [THEN iffD1]) auto
  then have "c dvd j - i" by simp
  with assms show False by (auto dest: dvd_imp_le)
qed

lemma ring_slice_update_end:
  assumes "n < length buf"
  shows "ring_slice (buf[(t + n) mod length buf := x]) t n = ring_slice buf t n"
proof (rule nth_equalityI)
  fix i assume i: "i < length (ring_slice (buf[(t + n) mod length buf := x]) t n)"
  then have "(t + i) mod length buf \<noteq> (t + n) mod length buf"
    using assms by (intro ring_index_inj) auto
  with i show "ring_slice (buf[(t + n) mod length buf := x]) t n ! i = ring_slice buf t n ! i"
    by (simp add: nth_ring_slice)
qed simp

lemma ring_slice_push:
  assumes "n < length buf"
  shows "ring_slice (buf[(t + n) mod length buf := x]) t (Suc n) = ring_slice buf t n @ [x]"
proof -
  have "(t + n) mod length buf < length buf" using assms by (intro mod_less_divisor) auto
  with assms show ?thesis by (simp add: ring_slice_snoc ring_slice_update_end)
qed

lemma ring_slice_update_before:
  assumes "Suc n \<le> length buf" and "t < length buf"
  shows "ring_slice (buf[t := x]) (Suc t mod length buf) n = ring_slice buf (Suc t mod length buf) n"
proof (rule nth_equalityI)
  fix i assume i: "i < length (ring_slice (buf[t := x]) (Suc t mod length buf) n)"
  then have "(t + 0) mod length buf \<noteq> (t + Suc i) mod length buf"
    using assms by (intro ring_index_inj) auto
  with i assms show "ring_slice (buf[t := x]) (Suc t mod length buf) n ! i =
      ring_slice buf (Suc t mod length buf) n ! i"
    by (simp add: nth_ring_slice mod_simps nth_list_update)
qed simp

lemma ring_slice_straight:
  "t + n \<le> length buf \<Longrightarrow> ring_slice buf t n = take n (drop t buf)"
  by (rule nth_equalityI) (auto simp: nth_ring_slice)

lemma ring_slice_wrapped:
  assumes "t \<le> length buf" and "length buf \<le> t + n" and "n \<le> length buf"
  shows "ring_slice buf t n = drop t buf @ take (t + n - length buf) buf"
proof (rule nth_equalityI)
  fix i assume i: "i < length (ring_slice buf t n)"
  show "ring_slice buf t n ! i = (drop t buf @ take (t + n - length buf) buf) ! i"
  proof (cases "t + i < length buf")
    case True
    with i show ?thesis by (auto simp: nth_ring_slice nth_append)
  next
    case False
    with i assms have "(t + i) mod length buf = t + i - length buf"
      by (simp add: mod_if)
    with False i assms show ?thesis by (auto simp: nth_ring_slice nth_append add.commute)
  qed
qed (use assms in simp)

end
