(* ===== verification/Ringbuff.thy ===== *)
theory Ringbuff
  imports Bounded_Fifo Ring_Slice
begin

text \<open>
  The lock-free ring buffer of \<^verbatim>\<open>include/moonnet/ringbuff.h\<close> and \<^verbatim>\<open>src/ringbuff.tpp\<close>: its
  capacity computation, \<^verbatim>\<open>push\<close>, \<^verbatim>\<open>push_move\<close>, \<^verbatim>\<open>pop\<close>, \<^verbatim>\<open>pop_move\<close>, the observers, \<^verbatim>\<open>swap\<close>
  and the four \<^verbatim>\<open>swap_to_*\<close> functions, each as one sequential operation.

  The element type is a template parameter. What a moved-from element holds is decided by
  that type, so every moving operation takes a function \<open>mv\<close> that gives the value a move
  leaves behind; the default-constructed element of \<^verbatim>\<open>new T[capacity_]\<close> is the parameter \<open>dflt\<close>.
\<close>

section \<open>State\<close>

record 'a ringbuff =
  rb_head :: size_t
  rb_tail :: size_t
  rb_capacity :: size_t
  rb_buffer :: "'a list"

section \<open>Capacity\<close>

definition is_powtwo :: "size_t \<Rightarrow> bool" where
  "is_powtwo n \<longleftrightarrow> n \<noteq> 0 \<and> n AND (n - 1) = 0"

definition next_powtwo :: "size_t \<Rightarrow> size_t" where
  "next_powtwo n =
     (if n = 0 then 1
      else let n = n - 1;
               n = n OR drop_bit 1 n;
               n = n OR drop_bit 2 n;
               n = n OR drop_bit 4 n;
               n = n OR drop_bit 8 n;
               n = n OR drop_bit 16 n;
               n = n OR drop_bit 32 n
           in n + 1)"

definition adj_size :: "size_t \<Rightarrow> size_t" where
  "adj_size sz = (if is_powtwo sz then sz else next_powtwo sz)"

definition new_ringbuff :: "'a \<Rightarrow> size_t \<Rightarrow> 'a ringbuff" where
  "new_ringbuff dflt sz =
     \<lparr>rb_head = 0, rb_tail = 0, rb_capacity = adj_size sz,
      rb_buffer = replicate (unat (adj_size sz)) dflt\<rparr>"

section \<open>Operations\<close>

definition push :: "'a \<Rightarrow> 'a ringbuff \<Rightarrow> (bool \<times> 'a ringbuff) res" where
  "push item rb =
     (let head = rb_head rb;
          nhead = (head + 1) AND (rb_capacity rb - 1)
      in if nhead = rb_tail rb then Inr (False, rb)
         else if unat head < length (rb_buffer rb)
         then Inr (True, rb\<lparr>rb_buffer := (rb_buffer rb)[unat head := item], rb_head := nhead\<rparr>)
         else Inl Out_of_bounds)"

text \<open>
  \<^verbatim>\<open>push_move\<close> also changes the caller's object, which is moved from only when there is room.
\<close>

definition push_move :: "('a \<Rightarrow> 'a) \<Rightarrow> 'a \<Rightarrow> 'a ringbuff \<Rightarrow> (bool \<times> 'a \<times> 'a ringbuff) res" where
  "push_move mv item rb =
     (let head = rb_head rb;
          nhead = (head + 1) AND (rb_capacity rb - 1)
      in if nhead = rb_tail rb then Inr (False, item, rb)
         else if unat head < length (rb_buffer rb)
         then Inr (True, mv item,
                   rb\<lparr>rb_buffer := (rb_buffer rb)[unat head := item], rb_head := nhead\<rparr>)
         else Inl Out_of_bounds)"

text \<open>
  The reference parameter \<^verbatim>\<open>T& item\<close> of \<^verbatim>\<open>pop\<close> is passed in and returned.
\<close>

definition pop :: "'a \<Rightarrow> 'a ringbuff \<Rightarrow> (bool \<times> 'a \<times> 'a ringbuff) res" where
  "pop item rb =
     (let tail = rb_tail rb
      in if tail = rb_head rb then Inr (False, item, rb)
         else if unat tail < length (rb_buffer rb)
         then Inr (True, rb_buffer rb ! unat tail,
                   rb\<lparr>rb_tail := (tail + 1) AND (rb_capacity rb - 1)\<rparr>)
         else Inl Out_of_bounds)"

definition pop_move :: "('a \<Rightarrow> 'a) \<Rightarrow> 'a \<Rightarrow> 'a ringbuff \<Rightarrow> (bool \<times> 'a \<times> 'a ringbuff) res" where
  "pop_move mv item rb =
     (let tail = rb_tail rb
      in if tail = rb_head rb then Inr (False, item, rb)
         else if unat tail < length (rb_buffer rb)
         then Inr (True, rb_buffer rb ! unat tail,
                   rb\<lparr>rb_buffer := (rb_buffer rb)[unat tail := mv (rb_buffer rb ! unat tail)],
                      rb_tail := (tail + 1) AND (rb_capacity rb - 1)\<rparr>)
         else Inl Out_of_bounds)"

definition rb_empty :: "'a ringbuff \<Rightarrow> bool" where
  "rb_empty rb \<longleftrightarrow> rb_head rb = rb_tail rb"

definition rb_full :: "'a ringbuff \<Rightarrow> bool" where
  "rb_full rb \<longleftrightarrow> (rb_head rb + 1) AND (rb_capacity rb - 1) = rb_tail rb"

definition rb_size :: "'a ringbuff \<Rightarrow> size_t" where
  "rb_size rb =
     (if rb_head rb \<ge> rb_tail rb then rb_head rb - rb_tail rb
      else rb_capacity rb - rb_tail rb + rb_head rb)"

text \<open>
  \<^verbatim>\<open>swap\<close> returns the two objects afterwards, this one first. The exchanged values of
  \<^verbatim>\<open>head_\<close> and \<^verbatim>\<open>tail_\<close> are dropped by the source, and \<^verbatim>\<open>capacity_\<close> is not touched.
\<close>

definition rb_swap :: "'a ringbuff \<Rightarrow> 'a ringbuff \<Rightarrow> 'a ringbuff \<times> 'a ringbuff" where
  "rb_swap this other =
     (this\<lparr>rb_head := rb_head other, rb_tail := rb_tail other, rb_buffer := rb_buffer other\<rparr>,
      other\<lparr>rb_buffer := rb_buffer this\<rparr>)"

text \<open>
  The copying loop \<^verbatim>\<open>for (i = from; i < to; ++i) out.emplace_back(std::move(buffer_[i]))\<close>.
\<close>

function move_range :: "('a \<Rightarrow> 'a) \<Rightarrow> nat \<Rightarrow> nat \<Rightarrow> 'a list \<Rightarrow> 'a list \<Rightarrow> ('a list \<times> 'a list) res" where
  "move_range mv i to buf out =
     (if i < to then
        (if i < length buf then move_range mv (Suc i) to (buf[i := mv (buf ! i)]) (out @ [buf ! i])
         else Inl Out_of_bounds)
      else Inr (buf, out))"
  by pat_completeness auto
termination
  by (relation "measure (\<lambda>(mv, i, to, buf, out). to - i)") auto

declare move_range.simps [simp del]

definition swap_to_list :: "('a \<Rightarrow> 'a) \<Rightarrow> 'a list \<Rightarrow> 'a ringbuff \<Rightarrow> ('a list \<times> 'a ringbuff) res" where
  "swap_to_list mv out rb =
     (let head = rb_head rb; tail = rb_tail rb
      in if tail = head then Inr (out, rb)
         else if tail < head
         then bindR (move_range mv (unat tail) (unat head) (rb_buffer rb) out) (\<lambda>(buf, out).
                Inr (out, rb\<lparr>rb_buffer := buf, rb_tail := head\<rparr>))
         else bindR (move_range mv (unat tail) (unat (rb_capacity rb)) (rb_buffer rb) out)
                (\<lambda>(buf, out).
              bindR (move_range mv 0 (unat head) buf out) (\<lambda>(buf, out).
                Inr (out, rb\<lparr>rb_buffer := buf, rb_tail := head\<rparr>))))"

text \<open>
  \<^verbatim>\<open>swap_to_vector\<close> computes the number of elements for \<^verbatim>\<open>reserve\<close> first; \<open>max_size\<close> is the
  \<^verbatim>\<open>vector<T>::max_size()\<close> of the element type, beyond which \<^verbatim>\<open>reserve\<close> throws.
\<close>

definition reserve_size :: "'a ringbuff \<Rightarrow> size_t" where
  "reserve_size rb = (rb_head rb + rb_capacity rb - rb_tail rb) mod rb_capacity rb"

definition swap_to_vector ::
  "nat \<Rightarrow> ('a \<Rightarrow> 'a) \<Rightarrow> 'a list \<Rightarrow> 'a ringbuff \<Rightarrow> ('a list \<times> 'a ringbuff) res" where
  "swap_to_vector max_size mv out rb =
     (let head = rb_head rb; tail = rb_tail rb
      in if tail = head then Inr (out, rb)
         else if rb_capacity rb = 0 then Inl Division_by_zero
         else if max_size < unat (of_nat (length out) + reserve_size rb) then Inl Length_error
         else if tail < head
         then bindR (move_range mv (unat tail) (unat head) (rb_buffer rb) out) (\<lambda>(buf, out).
                Inr (out, rb\<lparr>rb_buffer := buf, rb_tail := head\<rparr>))
         else bindR (move_range mv (unat tail) (unat (rb_capacity rb)) (rb_buffer rb) out)
                (\<lambda>(buf, out).
              bindR (move_range mv 0 (unat head) buf out) (\<lambda>(buf, out).
                Inr (out, rb\<lparr>rb_buffer := buf, rb_tail := head\<rparr>))))"

definition swap_to_list_new :: "('a \<Rightarrow> 'a) \<Rightarrow> 'a ringbuff \<Rightarrow> ('a list \<times> 'a ringbuff) res" where
  "swap_to_list_new mv rb = swap_to_list mv [] rb"

definition swap_to_vector_new ::
  "nat \<Rightarrow> ('a \<Rightarrow> 'a) \<Rightarrow> 'a ringbuff \<Rightarrow> ('a list \<times> 'a ringbuff) res" where
  "swap_to_vector_new max_size mv rb = swap_to_vector max_size mv [] rb"

section \<open>The capacity is the least power of two that is large enough\<close>

text \<open>
  \<open>smear\<close> is the bit-spreading middle part of \<open>next_powtwo\<close>: after the shift by \<open>s\<close>, a bit is
  set exactly when one of the \<open>2 * s\<close> bits from it upwards was set in the input.
\<close>

lemma smear_step:
  fixes x n :: size_t
  assumes "\<And>i. bit x i \<longleftrightarrow> (\<exists>d < s. bit n (i + d))" and t: "t = 2 * s"
  shows "bit (x OR drop_bit s x) i \<longleftrightarrow> (\<exists>d < t. bit n (i + d))"
proof -
  have "(\<exists>d < 2 * s. bit n (i + d)) \<longleftrightarrow> (\<exists>d < s. bit n (i + d)) \<or> (\<exists>d < s. bit n (s + i + d))"
    (is "?l \<longleftrightarrow> ?r")
  proof
    assume ?l
    then obtain d where d: "d < 2 * s" "bit n (i + d)" by blast
    show ?r
    proof (cases "d < s")
      case False
      with d have "d - s < s" "bit n (s + i + (d - s))" by auto
      then show ?thesis by blast
    qed (use d in blast)
  next
    assume ?r
    then consider d where "d < s" "bit n (i + d)" | d where "d < s" "bit n (i + (s + d))"
      by (auto simp: ac_simps)
    then show ?l
    proof cases
      case 1
      then show ?thesis by (intro exI [of _ d]) simp
    next
      case 2
      then show ?thesis by (intro exI [of _ "s + d"]) simp
    qed
  qed
  then show ?thesis
    by (simp add: bit_or_iff bit_drop_bit_eq assms(1) t)
qed

lemma bit_top:
  fixes w :: size_t
  assumes "2 ^ k \<le> unat w" "unat w < 2 ^ Suc k"
  shows "bit w k"
proof -
  have "unat w div 2 ^ k = 1"
    using assms by (simp add: div_nat_eqI)
  then show ?thesis by (simp flip: bit_unat_eq add: bit_iff_odd)
qed

lemma bit_below_top:
  fixes w :: size_t
  assumes "2 ^ k \<le> unat w" "unat w < 2 ^ Suc k"
  shows "(\<exists>j \<ge> i. bit w j) \<longleftrightarrow> i \<le> k"
proof -
  have top: "bit w k" using assms by (rule bit_top)
  have "j \<le> k" if "bit w j" for j
  proof (rule ccontr)
    assume "\<not> j \<le> k"
    then have "(2::nat) ^ Suc k \<le> 2 ^ j" by (intro power_increasing) auto
    with assms have "unat w div 2 ^ j = 0" by simp
    with that show False by (simp flip: bit_unat_eq add: bit_iff_odd)
  qed
  with top show ?thesis by (meson order_trans)
qed

definition smear :: "size_t \<Rightarrow> size_t" where
  "smear n = (let n = n OR drop_bit 1 n;
               n = n OR drop_bit 2 n;
               n = n OR drop_bit 4 n;
               n = n OR drop_bit 8 n;
               n = n OR drop_bit 16 n
           in n OR drop_bit 32 n)"

lemma bit_smear: "bit (smear n) i \<longleftrightarrow> (\<exists>j \<ge> i. bit n j)"
proof -
  have s1: "bit n i \<longleftrightarrow> (\<exists>d < 1. bit n (i + d))" for i by simp
  define x2 where "x2 = n OR drop_bit 1 n"
  have s2: "bit x2 i \<longleftrightarrow> (\<exists>d < 2. bit n (i + d))" for i
    unfolding x2_def by (rule smear_step [OF s1]) simp
  define x4 where "x4 = x2 OR drop_bit 2 x2"
  have s4: "bit x4 i \<longleftrightarrow> (\<exists>d < 4. bit n (i + d))" for i
    unfolding x4_def by (rule smear_step [OF s2]) simp
  define x8 where "x8 = x4 OR drop_bit 4 x4"
  have s8: "bit x8 i \<longleftrightarrow> (\<exists>d < 8. bit n (i + d))" for i
    unfolding x8_def by (rule smear_step [OF s4]) simp
  define x16 where "x16 = x8 OR drop_bit 8 x8"
  have s16: "bit x16 i \<longleftrightarrow> (\<exists>d < 16. bit n (i + d))" for i
    unfolding x16_def by (rule smear_step [OF s8]) simp
  define x32 where "x32 = x16 OR drop_bit 16 x16"
  have s32: "bit x32 i \<longleftrightarrow> (\<exists>d < 32. bit n (i + d))" for i
    unfolding x32_def by (rule smear_step [OF s16]) simp
  define x64 where "x64 = x32 OR drop_bit 32 x32"
  have s64: "bit x64 i \<longleftrightarrow> (\<exists>d < 64. bit n (i + d))" for i
    unfolding x64_def by (rule smear_step [OF s32]) simp
  have "smear n = x64"
    by (simp add: smear_def Let_def x2_def x4_def x8_def x16_def x32_def x64_def)
  then have "bit (smear n) i \<longleftrightarrow> (\<exists>d < 64. bit n (i + d))"
    by (simp only: s64)
  also have "\<dots> \<longleftrightarrow> (\<exists>j \<ge> i. bit n j)"
  proof
    assume "\<exists>j \<ge> i. bit n j"
    then obtain j where j: "j \<ge> i" "bit n j" by blast
    from bit_imp_le_length [OF j(2)] have "j < 64" by simp
    with j show "\<exists>d < 64. bit n (i + d)" by (intro exI [of _ "j - i"]) auto
  next
    assume "\<exists>d < 64. bit n (i + d)"
    then show "\<exists>j \<ge> i. bit n j" using le_add1 by blast
  qed
  finally show ?thesis .
qed

lemma smear_eq_mask:
  assumes "2 ^ k \<le> unat n" "unat n < 2 ^ Suc k"
  shows "smear n = mask (Suc k)"
  by (rule bit_word_eqI) (simp add: bit_smear bit_below_top [OF assms] bit_mask_iff less_Suc_eq_le)

lemma next_powtwo_smear: "n \<noteq> 0 \<Longrightarrow> next_powtwo n = smear (n - 1) + 1"
  by (simp add: next_powtwo_def smear_def Let_def)

lemma next_powtwo_between:
  assumes "2 ^ k < unat n" and "unat n \<le> 2 ^ Suc k"
  shows "next_powtwo n = 2 ^ Suc k"
proof -
  have n: "n \<noteq> 0" using assms(1) by auto
  have "unat (n - 1) = unat n - 1"
    using assms(1) by (subst unat_sub_nowrap) auto
  with assms have "2 ^ k \<le> unat (n - 1)" "unat (n - 1) < 2 ^ Suc k" by auto
  then have "smear (n - 1) = mask (Suc k)" by (rule smear_eq_mask)
  with n show ?thesis by (simp add: next_powtwo_smear inc_mask_eq_exp del: power_Suc)
qed

lemma is_powtwo_iff: "is_powtwo n \<longleftrightarrow> (\<exists>k < 64. unat n = 2 ^ k)"
proof
  assume pow: "is_powtwo n"
  then have "1 \<le> unat n" by (simp add: is_powtwo_def Suc_le_eq unat_gt_0)
  then obtain k where k: "2 ^ k \<le> unat n" "unat n < 2 ^ Suc k"
    using ex_power_ivl1 [of 2 "unat n"] by auto
  have "k < 64"
    using k(1) unat_size_t_less [of n] power_less_imp_less_exp [of "2 :: nat" k 64] by simp
  have "unat n = 2 ^ k"
  proof (rule ccontr)
    assume "unat n \<noteq> 2 ^ k"
    with k have "2 ^ k \<le> unat (n - 1)" "unat (n - 1) < 2 ^ Suc k"
      using \<open>1 \<le> unat n\<close> by (auto simp: unat_sub_nowrap)
    then have "bit (n - 1) k" by (rule bit_top)
    moreover have "bit n k" using k by (rule bit_top)
    ultimately have "bit (n AND (n - 1)) k" by (simp add: bit_and_iff)
    with pow show False by (simp add: is_powtwo_def)
  qed
  with \<open>k < 64\<close> show "\<exists>k < 64. unat n = 2 ^ k" by blast
next
  assume "\<exists>k < 64. unat n = 2 ^ k"
  then obtain k where k: "k < 64" "unat n = 2 ^ k" by blast
  then have "unat (n AND (n - 1)) = 0" by (simp add: and_pow2_pred)
  moreover have "n \<noteq> 0" using k by auto
  ultimately show "is_powtwo n" by (simp add: is_powtwo_def unat_eq_zero)
qed

lemma adj_size_power:
  assumes "unat n \<le> 2 ^ 63"
  shows "\<exists>k < 64. unat (adj_size n) = 2 ^ k \<and> unat n \<le> 2 ^ k \<and> (\<forall>j. unat n \<le> 2 ^ j \<longrightarrow> k \<le> j)"
proof (cases "is_powtwo n")
  case True
  then obtain k where "k < 64" "unat n = 2 ^ k" by (auto simp: is_powtwo_iff)
  with True show ?thesis by (auto simp: adj_size_def intro!: exI [of _ k])
next
  case False
  then have one: "unat n \<noteq> 1" by (auto simp: is_powtwo_iff dest: spec [of _ 0])
  show ?thesis
  proof (cases "n = 0")
    case True
    with False show ?thesis
      by (auto simp: adj_size_def next_powtwo_def intro!: exI [of _ 0])
  next
    case nz: False
    with one have "1 \<le> unat n - 1" by (simp add: unat_eq_zero Suc_le_eq)
      (metis One_nat_def Suc_lessI diff_is_0_eq' not_gr0 not_less unat_eq_zero zero_less_diff)
    then obtain k where k: "2 ^ k \<le> unat n - 1" "unat n - 1 < 2 ^ Suc k"
      using ex_power_ivl1 [of 2 "unat n - 1"] by auto
    then have b: "2 ^ k < unat n" "unat n \<le> 2 ^ Suc k" using \<open>1 \<le> unat n - 1\<close> by auto
    with assms have "(2::nat) ^ k < 2 ^ 63" by simp
    then have "k < 63" by (rule power_less_imp_less_exp [rotated]) simp
    then have "Suc k < 64" by simp
    moreover have "Suc k \<le> j" if "unat n \<le> 2 ^ j" for j
    proof -
      from b(1) that have "(2::nat) ^ k < 2 ^ j" by (rule less_le_trans)
      then show ?thesis by simp
    qed
    ultimately show ?thesis
      using False b next_powtwo_between [OF b] unat_two_power [of "Suc k"]
      by (intro exI [of _ "Suc k"]) (simp add: adj_size_def)
  qed
qed

lemma adj_size_overflow:
  assumes "2 ^ 63 < unat n"
  shows "adj_size n = 0"
proof -
  have "\<not> is_powtwo n"
  proof
    assume "is_powtwo n"
    then obtain k where k: "k < 64" "unat n = 2 ^ k" by (auto simp: is_powtwo_iff)
    then have "(2::nat) ^ 63 < 2 ^ k" using assms by simp
    then have "63 < k" by (simp only: power_strict_increasing_iff)
    with k show False by simp
  qed
  moreover have "next_powtwo n = 2 ^ Suc 63"
    using assms unat_size_t_less [of n] by (intro next_powtwo_between) auto
  ultimately show ?thesis by (simp add: adj_size_def)
qed

section \<open>The contents of a ring and its invariant\<close>

definition rb_inv :: "'a ringbuff \<Rightarrow> bool" where
  "rb_inv rb \<longleftrightarrow>
     is_powtwo (rb_capacity rb) \<and>
     length (rb_buffer rb) = unat (rb_capacity rb) \<and>
     rb_head rb < rb_capacity rb \<and> rb_tail rb < rb_capacity rb"

definition rb_contents :: "'a ringbuff \<Rightarrow> 'a list" where
  "rb_contents rb =
     ring_slice (rb_buffer rb) (unat (rb_tail rb))
       (ring_dist (unat (rb_capacity rb)) (unat (rb_tail rb)) (unat (rb_head rb)))"

definition rb_limit :: "'a ringbuff \<Rightarrow> nat" where
  "rb_limit rb = unat (rb_capacity rb) - 1"

text \<open>The invariant read on natural numbers.\<close>

lemma rb_inv_nat:
  assumes "rb_inv rb"
  shows "length (rb_buffer rb) = unat (rb_capacity rb)"
    and "unat (rb_head rb) < unat (rb_capacity rb)" and "unat (rb_tail rb) < unat (rb_capacity rb)"
    and "0 < unat (rb_capacity rb)"
  using assms by (auto simp: rb_inv_def word_less_nat_alt)

text \<open>The masked increment of an index is the increment modulo the capacity.\<close>

lemma unat_next_index:
  assumes "is_powtwo c" and "i < c"
  shows "unat ((i + 1) AND (c - 1)) = Suc (unat i) mod unat c"
proof -
  obtain k where k: "k < 64" "unat c = 2 ^ k"
    using assms(1) by (auto simp: is_powtwo_iff)
  have "unat i < unat c"
    using assms(2) by (simp add: word_less_nat_alt)
  then have "unat (i + 1) = Suc (unat i)"
    using unat_size_t_less [of c] by (subst unat_add_nowrap) auto
  then show ?thesis
    using k by (simp add: and_pow2_pred)
qed

lemma next_index_less:
  "is_powtwo c \<Longrightarrow> i < c \<Longrightarrow> (i + 1) AND (c - 1) < c"
  by (simp add: word_less_nat_alt unat_next_index is_powtwo_def unat_gt_0)

lemma next_index_eq:
  "is_powtwo c \<Longrightarrow> i < c \<Longrightarrow> (i + 1) AND (c - 1) = j \<longleftrightarrow> Suc (unat i) mod unat c = unat j"
  by (metis unat_next_index word_unat_eq_iff)

lemma rb_full_iff:
  assumes "rb_inv rb"
  shows "rb_full rb \<longleftrightarrow> length (rb_contents rb) = rb_limit rb"
  using assms rb_inv_nat [OF assms]
  by (simp add: rb_full_def rb_contents_def rb_limit_def rb_inv_def next_index_eq ring_dist_full)

lemma rb_empty_iff:
  assumes "rb_inv rb"
  shows "rb_empty rb \<longleftrightarrow> rb_contents rb = []"
proof -
  have "rb_contents rb = [] \<longleftrightarrow> length (rb_contents rb) = 0" by simp
  also have "\<dots> \<longleftrightarrow> unat (rb_tail rb) = unat (rb_head rb)"
    using rb_inv_nat [OF assms] by (simp only: rb_contents_def length_ring_slice ring_dist_0)
  finally show ?thesis by (auto simp: rb_empty_def word_unat_eq_iff)
qed

lemma length_rb_contents:
  assumes "rb_inv rb"
  shows "length (rb_contents rb) \<le> rb_limit rb"
  using ring_dist_less [OF rb_inv_nat(4) [OF assms]]
  by (simp add: rb_contents_def rb_limit_def Suc_leI less_imp_le_nat Suc_le_eq)
    (metis One_nat_def Suc_pred assms less_Suc_eq_le rb_inv_nat(4))

lemma rb_size_contents:
  assumes "rb_inv rb"
  shows "unat (rb_size rb) = length (rb_contents rb)"
  using rb_inv_nat [OF assms] unat_size_t_less [of "rb_capacity rb"]
  by (auto simp: rb_size_def rb_contents_def ring_dist_if word_le_nat_alt
      unat_sub_nowrap unat_add_nowrap)

section \<open>Pushing and popping\<close>

lemma push_room:
  assumes "rb_inv rb" and "length (rb_contents rb) < rb_limit rb"
  shows "\<exists>rb'. push x rb = Inr (True, rb') \<and> rb_inv rb' \<and> rb_contents rb' = rb_contents rb @ [x] \<and>
               rb_limit rb' = rb_limit rb"
proof -
  note inv = rb_inv_nat [OF assms(1)]
  define nh where "nh = (rb_head rb + 1) AND (rb_capacity rb - 1)"
  let ?rb = "rb\<lparr>rb_buffer := (rb_buffer rb)[unat (rb_head rb) := x], rb_head := nh\<rparr>"
  let ?d = "ring_dist (unat (rb_capacity rb)) (unat (rb_tail rb)) (unat (rb_head rb))"
  have "\<not> rb_full rb" using assms by (simp add: rb_full_iff)
  then have nh: "nh \<noteq> rb_tail rb" by (simp add: rb_full_def nh_def)
  then have "push x rb = Inr (True, ?rb)"
    using inv by (simp add: push_def Let_def nh_def)
  moreover have "rb_inv ?rb"
    using assms(1) by (simp add: rb_inv_def nh_def next_index_less)
  moreover have "rb_contents ?rb = rb_contents rb @ [x]"
  proof -
    have u: "unat nh = Suc (unat (rb_head rb)) mod unat (rb_capacity rb)"
      using assms(1) by (simp add: rb_inv_def nh_def unat_next_index)
    have "unat nh \<noteq> unat (rb_tail rb)" using nh by (simp add: word_unat_eq_iff)
    then have "ring_dist (unat (rb_capacity rb)) (unat (rb_tail rb)) (unat nh) = Suc ?d"
      using inv unfolding u by (intro ring_dist_Suc) auto
    moreover have "(unat (rb_tail rb) + ?d) mod length (rb_buffer rb) = unat (rb_head rb)"
      using inv by (simp add: ring_dist_add)
    moreover have "?d < length (rb_buffer rb)"
      using inv by (simp add: ring_dist_less)
    ultimately show ?thesis
      using ring_slice_push [of ?d "rb_buffer rb" "unat (rb_tail rb)" x]
      by (simp add: rb_contents_def)
  qed
  moreover have "rb_limit ?rb = rb_limit rb" by (simp add: rb_limit_def)
  ultimately show ?thesis by blast
qed

lemma push_full:
  assumes "rb_inv rb" and "rb_limit rb \<le> length (rb_contents rb)"
  shows "push x rb = Inr (False, rb)"
proof -
  have "rb_full rb"
    using assms length_rb_contents [OF assms(1)] by (simp add: rb_full_iff)
  then show ?thesis by (simp add: push_def Let_def rb_full_def)
qed

text \<open>What \<open>pop\<close> and \<open>pop_move\<close> leave in the slot they read plays no part in the contents.\<close>

lemma pop_state:
  assumes inv: "rb_inv rb" and cont: "rb_contents rb = y # ys"
  shows "rb_buffer rb ! unat (rb_tail rb) = y"
    and "rb_inv (rb\<lparr>rb_buffer := (rb_buffer rb)[unat (rb_tail rb) := z],
                    rb_tail := (rb_tail rb + 1) AND (rb_capacity rb - 1)\<rparr>)"
    and "rb_contents (rb\<lparr>rb_buffer := (rb_buffer rb)[unat (rb_tail rb) := z],
                    rb_tail := (rb_tail rb + 1) AND (rb_capacity rb - 1)\<rparr>) = ys"
proof -
  note inv' = rb_inv_nat [OF inv]
  let ?c = "unat (rb_capacity rb)" and ?t = "unat (rb_tail rb)" and ?h = "unat (rb_head rb)"
  have "\<not> rb_empty rb" using inv cont by (simp add: rb_empty_iff)
  then have "?t \<noteq> ?h" by (simp add: rb_empty_def word_unat_eq_iff)
  then have d: "ring_dist ?c ?t ?h = Suc (ring_dist ?c (Suc ?t mod ?c) ?h)"
    using inv' by (simp add: ring_dist_Suc_tail)
  have slice: "rb_contents rb =
      rb_buffer rb ! ?t # ring_slice (rb_buffer rb) (Suc ?t mod ?c) (ring_dist ?c (Suc ?t mod ?c) ?h)"
    using inv' by (simp add: rb_contents_def d ring_slice_Suc)
  then show "rb_buffer rb ! ?t = y" using cont by simp
  show "rb_inv (rb\<lparr>rb_buffer := (rb_buffer rb)[?t := z],
                    rb_tail := (rb_tail rb + 1) AND (rb_capacity rb - 1)\<rparr>)"
    using inv by (simp add: rb_inv_def next_index_less)
  have "Suc (ring_dist ?c (Suc ?t mod ?c) ?h) \<le> length (rb_buffer rb)"
    using inv' d ring_dist_less [of ?c ?t ?h] by simp
  then show "rb_contents (rb\<lparr>rb_buffer := (rb_buffer rb)[?t := z],
                    rb_tail := (rb_tail rb + 1) AND (rb_capacity rb - 1)\<rparr>) = ys"
    using inv inv' slice cont ring_slice_update_before [of _ "rb_buffer rb" ?t z]
    by (simp add: rb_contents_def unat_next_index rb_inv_def)
qed

lemma pop_some:
  assumes "rb_inv rb" and "rb_contents rb = y # ys"
  shows "\<exists>rb'. pop item rb = Inr (True, y, rb') \<and> rb_inv rb' \<and> rb_contents rb' = ys \<and>
               rb_limit rb' = rb_limit rb"
proof -
  have "rb_tail rb \<noteq> rb_head rb"
    using assms(2) rb_empty_iff [OF assms(1)] by (auto simp: rb_empty_def)
  then show ?thesis
    using pop_state(1) [OF assms] pop_state(2,3) [OF assms, of "rb_buffer rb ! unat (rb_tail rb)", unfolded list_update_id]
      rb_inv_nat [OF assms(1)]
    by (simp add: pop_def Let_def rb_limit_def)
qed

lemma pop_move_some:
  assumes "rb_inv rb" and "rb_contents rb = y # ys"
  shows "\<exists>rb'. pop_move mv item rb = Inr (True, y, rb') \<and> rb_inv rb' \<and> rb_contents rb' = ys \<and>
               rb_limit rb' = rb_limit rb"
proof -
  have "rb_tail rb \<noteq> rb_head rb"
    using assms(2) rb_empty_iff [OF assms(1)] by (auto simp: rb_empty_def)
  then show ?thesis
    using pop_state(1) [OF assms] pop_state(2,3) [OF assms, of "mv (rb_buffer rb ! unat (rb_tail rb))"] rb_inv_nat [OF assms(1)]
    by (simp add: pop_move_def Let_def rb_limit_def)
qed

lemma pop_none:
  assumes "rb_inv rb" and "rb_contents rb = []"
  shows "pop item rb = Inr (False, item, rb)" and "pop_move mv item rb = Inr (False, item, rb)"
  using assms by (simp_all add: rb_empty_iff [symmetric] rb_empty_def pop_def pop_move_def)

section \<open>The ring buffer is a bounded queue\<close>

text \<open>\<open>push_moved\<close> is \<^verbatim>\<open>push_move\<close> seen from the queue, without the object the caller is left with.\<close>

definition push_moved :: "('a \<Rightarrow> 'a) \<Rightarrow> 'a \<Rightarrow> 'a ringbuff \<Rightarrow> (bool \<times> 'a ringbuff) res" where
  "push_moved mv item rb = bindR (push_move mv item rb) (\<lambda>(ok, _, rb'). Inr (ok, rb'))"

lemma push_moved_eq: "push_moved mv = push"
  by (intro ext) (simp add: push_moved_def push_move_def push_def Let_def)

interpretation rbq: bounded_fifo push pop rb_contents rb_limit rb_inv
  by unfold_locales (rule push_room push_full pop_some pop_none; assumption)+

interpretation rbq_move: bounded_fifo "push_moved mv" "pop_move mv" rb_contents rb_limit rb_inv
  for mv :: "'a \<Rightarrow> 'a"
  by unfold_locales
    (unfold push_moved_eq, (rule push_room push_full pop_move_some pop_none; assumption)+)

lemma new_ringbuff_inv:
  assumes "unat sz \<le> 2 ^ 63"
  shows "rb_inv (new_ringbuff dflt sz)" and "rb_contents (new_ringbuff dflt sz) = []"
    and "unat sz \<le> Suc (rb_limit (new_ringbuff dflt sz))"
proof -
  obtain k where k: "k < 64" "unat (adj_size sz) = 2 ^ k" "unat sz \<le> 2 ^ k"
    using adj_size_power [OF assms] by blast
  then have "is_powtwo (adj_size sz)" by (auto simp: is_powtwo_iff)
  then show inv: "rb_inv (new_ringbuff dflt sz)"
    using k by (simp add: rb_inv_def new_ringbuff_def word_less_nat_alt)
  show "rb_contents (new_ringbuff dflt sz) = []"
    using inv by (simp add: rb_empty_iff [symmetric] rb_empty_def) (simp add: new_ringbuff_def)
  show "unat sz \<le> Suc (rb_limit (new_ringbuff dflt sz))"
    using k by (simp add: rb_limit_def new_ringbuff_def)
qed

section \<open>Emptying the ring at once\<close>

lemma move_range_result:
  assumes "i \<le> to" and "to \<le> length buf"
  shows "\<exists>buf'. move_range mv i to buf out = Inr (buf', out @ take (to - i) (drop i buf)) \<and>
                length buf' = length buf \<and> (\<forall>j. j < i \<or> to \<le> j \<longrightarrow> buf' ! j = buf ! j)"
  using assms
proof (induction mv i to buf out rule: move_range.induct)
  case (1 mv i to buf out)
  show ?case
  proof (cases "i < to")
    case True
    with "1.prems" have i: "i < length buf" by simp
    let ?b = "buf[i := mv (buf ! i)]"
    obtain buf' where r: "move_range mv (Suc i) to ?b (out @ [buf ! i]) =
          Inr (buf', (out @ [buf ! i]) @ take (to - Suc i) (drop (Suc i) ?b))"
        and len: "length buf' = length ?b"
        and same: "\<forall>j. j < Suc i \<or> to \<le> j \<longrightarrow> buf' ! j = ?b ! j"
      using "1.IH" [OF True i] True "1.prems" by auto
    have "buf ! i # take (to - Suc i) (drop (Suc i) buf) = take (to - i) (drop i buf)"
      using True i by (metis Cons_nth_drop_Suc Suc_diff_Suc take_Suc_Cons)
    with True i r len same show ?thesis
      by (subst move_range.simps) auto
  next
    case False
    with "1.prems" show ?thesis by (subst move_range.simps) auto
  qed
qed

text \<open>The two copying branches of the \<^verbatim>\<open>swap_to_*\<close> functions.\<close>

lemma drain_straight:
  assumes inv: "rb_inv rb" and "rb_tail rb < rb_head rb"
  shows "\<exists>buf. move_range mv (unat (rb_tail rb)) (unat (rb_head rb)) (rb_buffer rb) out =
                Inr (buf, out @ rb_contents rb) \<and> length buf = length (rb_buffer rb)"
proof -
  note inv' = rb_inv_nat [OF inv]
  have less: "unat (rb_tail rb) < unat (rb_head rb)"
    using assms(2) by (simp add: word_less_nat_alt)
  then have "rb_contents rb =
      take (unat (rb_head rb) - unat (rb_tail rb)) (drop (unat (rb_tail rb)) (rb_buffer rb))"
    using inv' by (simp add: rb_contents_def ring_dist_if ring_slice_straight)
  with less inv' move_range_result [of "unat (rb_tail rb)" "unat (rb_head rb)" "rb_buffer rb" mv out]
  show ?thesis by auto
qed

lemma drain_wrapped:
  assumes inv: "rb_inv rb" and "\<not> rb_tail rb < rb_head rb" and "rb_tail rb \<noteq> rb_head rb"
  shows "\<exists>buf out' buf'.
           move_range mv (unat (rb_tail rb)) (unat (rb_capacity rb)) (rb_buffer rb) out =
             Inr (buf, out') \<and>
           move_range mv 0 (unat (rb_head rb)) buf out' = Inr (buf', out @ rb_contents rb) \<and>
           length buf' = length (rb_buffer rb)"
proof -
  note inv' = rb_inv_nat [OF inv]
  let ?t = "unat (rb_tail rb)" and ?h = "unat (rb_head rb)" and ?c = "unat (rb_capacity rb)"
  have less: "?h < ?t"
    using assms(2,3) by (simp add: word_less_nat_alt word_unat_eq_iff)
  obtain buf where b: "move_range mv ?t ?c (rb_buffer rb) out =
        Inr (buf, out @ take (?c - ?t) (drop ?t (rb_buffer rb)))"
      "length buf = length (rb_buffer rb)" "\<forall>j. j < ?t \<longrightarrow> buf ! j = rb_buffer rb ! j"
    using move_range_result [of ?t ?c "rb_buffer rb" mv out] inv' by auto
  have "take ?h buf = take ?h (rb_buffer rb)"
    using b(2,3) less inv' by (intro nth_equalityI) auto
  moreover have "rb_contents rb = drop ?t (rb_buffer rb) @ take ?h (rb_buffer rb)"
    using inv' less by (simp add: rb_contents_def ring_dist_if ring_slice_wrapped)
  ultimately show ?thesis
    using b move_range_result [of 0 ?h buf mv "out @ take (?c - ?t) (drop ?t (rb_buffer rb))"] inv'
    by auto
qed

lemma drained_state:
  assumes "rb_inv rb" and "length buf = length (rb_buffer rb)"
  shows "rb_inv (rb\<lparr>rb_buffer := buf, rb_tail := rb_head rb\<rparr>)"
    and "rb_contents (rb\<lparr>rb_buffer := buf, rb_tail := rb_head rb\<rparr>) = []"
  using assms by (auto simp: rb_inv_def rb_contents_def ring_dist_def)

lemma swap_to_list_drains:
  assumes "rb_inv rb"
  shows "\<exists>rb'. swap_to_list mv out rb = Inr (out @ rb_contents rb, rb') \<and> rb_inv rb' \<and>
               rb_contents rb' = [] \<and> rb_capacity rb' = rb_capacity rb"
proof -
  consider "rb_tail rb = rb_head rb" | "rb_tail rb < rb_head rb"
    | "\<not> rb_tail rb < rb_head rb" "rb_tail rb \<noteq> rb_head rb" by blast
  then show ?thesis
  proof cases
    case 1
    with assms have "rb_contents rb = []"
      using rb_empty_iff [OF assms] by (simp add: rb_empty_def)
    with 1 assms show ?thesis by (simp add: swap_to_list_def)
  next
    case 2
    with assms drain_straight [OF assms 2, of mv out] drained_state [OF assms]
    show ?thesis by (auto simp: swap_to_list_def Let_def)
  next
    case 3
    then obtain buf out' buf' where
      "move_range mv (unat (rb_tail rb)) (unat (rb_capacity rb)) (rb_buffer rb) out =
         Inr (buf, out')"
      "move_range mv 0 (unat (rb_head rb)) buf out' = Inr (buf', out @ rb_contents rb)"
      "length buf' = length (rb_buffer rb)"
      using drain_wrapped [OF assms 3, of mv out] by blast
    with 3 assms drained_state [OF assms, of buf']
    show ?thesis by (simp add: swap_to_list_def Let_def)
  qed
qed

text \<open>The number passed to \<^verbatim>\<open>reserve\<close> is the number of elements that follow.\<close>

lemma unat_reserve_size:
  assumes "rb_inv rb"
  shows "unat (reserve_size rb) = length (rb_contents rb)"
proof -
  note inv' = rb_inv_nat [OF assms]
  let ?h = "rb_head rb" and ?t = "rb_tail rb" and ?c = "rb_capacity rb"
  obtain k where k: "k < 64" "unat ?c = 2 ^ k"
    using assms by (auto simp: rb_inv_def is_powtwo_iff)
  have "unat (?h + ?c - ?t) mod 2 ^ k = (unat ?h + unat ?c - unat ?t) mod 2 ^ k"
  proof -
    have dvd: "(2::nat) ^ k dvd 2 ^ 64" using k by (intro le_imp_power_dvd) simp
    have "unat (?h + ?c - ?t) = (unat ?h + unat ?c - unat ?t) mod 2 ^ 64"
    proof -
      have "unat (?h + ?c - ?t) = unat (?h + (?c - ?t))" by (simp add: algebra_simps)
      also have "\<dots> = (unat ?h + (unat ?c - unat ?t)) mod 2 ^ 64"
        using inv' by (simp add: unat_word_ariths(1) unat_sub_nowrap)
      finally show ?thesis using inv' by simp
    qed
    then show ?thesis using dvd by (simp add: mod_mod_cancel)
  qed
  then show ?thesis
    using k by (simp add: reserve_size_def unat_mod rb_contents_def ring_dist_def)
qed

lemma swap_to_vector_drains:
  assumes inv: "rb_inv rb" and fits: "length out + length (rb_contents rb) \<le> max_size"
    and max: "max_size < 2 ^ 64"
  shows "swap_to_vector max_size mv out rb = swap_to_list mv out rb"
proof -
  have "unat (of_nat (length out) + reserve_size rb) = length out + length (rb_contents rb)"
    using fits max
    by (simp add: unat_add_nowrap unat_of_nat_size_t unat_reserve_size [OF inv])
  moreover have "rb_capacity rb \<noteq> 0" using inv by (simp add: rb_inv_def is_powtwo_def)
  ultimately show ?thesis
    using fits by (simp add: swap_to_vector_def swap_to_list_def Let_def)
qed

section \<open>Swapping\<close>

lemma rb_swap_contents:
  assumes "rb_inv this" and "rb_inv other" and "rb_capacity this = rb_capacity other"
    and "rb_swap this other = (this', other')"
  shows "rb_contents this' = rb_contents other" and "rb_inv this'" and "rb_inv other'"
    and "rb_contents other' =
           ring_slice (rb_buffer this) (unat (rb_tail other)) (length (rb_contents other))"
  using assms by (auto simp: rb_swap_def rb_contents_def rb_inv_def)

section \<open>Sequences of operations against a list\<close>

text \<open>
  \<open>rb_exec\<close> is one call on a ring buffer with its observable result, \<open>q_exec\<close> the same call on
  a list that holds at most \<open>n\<close> elements.
\<close>

datatype 'a rb_op = Push 'a | PushMove 'a | Pop 'a | PopMove 'a | Size | Empty | Full | SwapToList "'a list"

datatype 'a rb_out = OBool bool | OItem bool 'a | OSize nat | OList "'a list"

fun rb_exec :: "('a \<Rightarrow> 'a) \<Rightarrow> 'a rb_op \<Rightarrow> 'a ringbuff \<Rightarrow> ('a rb_out \<times> 'a ringbuff) res" where
  "rb_exec mv (Push x) rb = bindR (push x rb) (\<lambda>(ok, rb'). Inr (OBool ok, rb'))"
| "rb_exec mv (PushMove x) rb = bindR (push_move mv x rb) (\<lambda>(ok, x', rb'). Inr (OItem ok x', rb'))"
| "rb_exec mv (Pop x) rb = bindR (pop x rb) (\<lambda>(ok, x', rb'). Inr (OItem ok x', rb'))"
| "rb_exec mv (PopMove x) rb = bindR (pop_move mv x rb) (\<lambda>(ok, x', rb'). Inr (OItem ok x', rb'))"
| "rb_exec mv Size rb = Inr (OSize (unat (rb_size rb)), rb)"
| "rb_exec mv Empty rb = Inr (OBool (rb_empty rb), rb)"
| "rb_exec mv Full rb = Inr (OBool (rb_full rb), rb)"
| "rb_exec mv (SwapToList xs) rb = bindR (swap_to_list mv xs rb) (\<lambda>(ys, rb'). Inr (OList ys, rb'))"

fun q_exec :: "('a \<Rightarrow> 'a) \<Rightarrow> nat \<Rightarrow> 'a rb_op \<Rightarrow> 'a list \<Rightarrow> 'a rb_out \<times> 'a list" where
  "q_exec mv n (Push x) q = (if length q < n then (OBool True, q @ [x]) else (OBool False, q))"
| "q_exec mv n (PushMove x) q =
     (if length q < n then (OItem True (mv x), q @ [x]) else (OItem False x, q))"
| "q_exec mv n (Pop x) q = (case q of [] \<Rightarrow> (OItem False x, q) | y # ys \<Rightarrow> (OItem True y, ys))"
| "q_exec mv n (PopMove x) q = (case q of [] \<Rightarrow> (OItem False x, q) | y # ys \<Rightarrow> (OItem True y, ys))"
| "q_exec mv n Size q = (OSize (length q), q)"
| "q_exec mv n Empty q = (OBool (q = []), q)"
| "q_exec mv n Full q = (OBool (length q = n), q)"
| "q_exec mv n (SwapToList xs) q = (OList (xs @ q), [])"

fun rb_run :: "('a \<Rightarrow> 'a) \<Rightarrow> 'a rb_op list \<Rightarrow> 'a ringbuff \<Rightarrow> ('a rb_out list \<times> 'a ringbuff) res" where
  "rb_run mv [] rb = Inr ([], rb)"
| "rb_run mv (x # xs) rb =
     bindR (rb_exec mv x rb) (\<lambda>(out, rb'). bindR (rb_run mv xs rb') (\<lambda>(outs, rb''). Inr (out # outs, rb'')))"

fun q_run :: "('a \<Rightarrow> 'a) \<Rightarrow> nat \<Rightarrow> 'a rb_op list \<Rightarrow> 'a list \<Rightarrow> 'a rb_out list \<times> 'a list" where
  "q_run mv n [] q = ([], q)"
| "q_run mv n (x # xs) q =
     (let (out, q') = q_exec mv n x q; (outs, q'') = q_run mv n xs q' in (out # outs, q''))"

lemma push_move_push:
  "push_move mv x rb = bindR (push x rb) (\<lambda>(ok, rb'). Inr (ok, if ok then mv x else x, rb'))"
  by (simp add: push_move_def push_def Let_def)

lemma rb_exec_refines:
  assumes inv: "rb_inv rb"
  shows "\<exists>rb'. rb_exec mv x rb = Inr (fst (q_exec mv (rb_limit rb) x (rb_contents rb)), rb') \<and>
               rb_inv rb' \<and> rb_limit rb' = rb_limit rb \<and>
               rb_contents rb' = snd (q_exec mv (rb_limit rb) x (rb_contents rb))"
proof (cases x)
  case (Push y)
  show ?thesis
  proof (cases "length (rb_contents rb) < rb_limit rb")
    case True
    with Push push_room [OF inv True, of y] show ?thesis by auto
  next
    case False
    with Push inv push_full [OF inv, of y] show ?thesis by auto
  qed
next
  case (PushMove y)
  show ?thesis
  proof (cases "length (rb_contents rb) < rb_limit rb")
    case True
    with PushMove push_room [OF inv True, of y] show ?thesis by (auto simp: push_move_push)
  next
    case False
    with PushMove inv push_full [OF inv, of y] show ?thesis by (auto simp: push_move_push)
  qed
next
  case (Pop y)
  show ?thesis
  proof (cases "rb_contents rb")
    case Nil
    with Pop inv pop_none(1) [OF inv Nil] show ?thesis by simp
  next
    case (Cons z zs)
    with Pop pop_some [OF inv Cons, of y] show ?thesis by auto
  qed
next
  case (PopMove y)
  show ?thesis
  proof (cases "rb_contents rb")
    case Nil
    with PopMove inv pop_none(2) [OF inv Nil] show ?thesis by simp
  next
    case (Cons z zs)
    with PopMove pop_move_some [OF inv Cons, of mv y] show ?thesis by auto
  qed
next
  case (SwapToList xs)
  then show ?thesis
    using swap_to_list_drains [OF inv, of mv xs] by (auto simp: rb_limit_def)
qed (use inv in \<open>auto simp: rb_size_contents rb_empty_iff rb_full_iff\<close>)

lemma rb_run_refines:
  assumes "rb_inv rb"
  shows "\<exists>rb'. rb_run mv xs rb = Inr (fst (q_run mv (rb_limit rb) xs (rb_contents rb)), rb') \<and>
               rb_inv rb' \<and> rb_contents rb' = snd (q_run mv (rb_limit rb) xs (rb_contents rb))"
  using assms
proof (induction xs arbitrary: rb)
  case Nil
  then show ?case by simp
next
  case (Cons x xs)
  obtain rb1 where r1: "rb_exec mv x rb = Inr (fst (q_exec mv (rb_limit rb) x (rb_contents rb)), rb1)"
      "rb_inv rb1" "rb_limit rb1 = rb_limit rb"
      "rb_contents rb1 = snd (q_exec mv (rb_limit rb) x (rb_contents rb))"
    using rb_exec_refines [OF Cons.prems, of mv x] by blast
  from Cons.IH [OF r1(2)] r1 show ?case
    by (auto simp: Let_def split_beta)
qed
section \<open>Properties\<close>

text \<open>
  C4. Refinement: for every requested size up to \<open>2^63\<close> and every sequence of \<^verbatim>\<open>push\<close>,
  \<^verbatim>\<open>push_move\<close>, \<^verbatim>\<open>pop\<close>, \<^verbatim>\<open>pop_move\<close>, \<^verbatim>\<open>size\<close>, \<^verbatim>\<open>empty\<close>, \<^verbatim>\<open>full\<close> and \<^verbatim>\<open>swap_to_list\<close> calls, a new
  ring buffer returns call by call what a list bounded by the capacity minus one returns,
  never accesses its array out of bounds, and ends with the same contents.
\<close>

theorem ringbuff_refines_bounded_queue:
  assumes "unat sz \<le> 2 ^ 63"
  shows "\<exists>rb'. rb_run mv ops (new_ringbuff dflt sz) =
                 Inr (fst (q_run mv (unat (adj_size sz) - 1) ops []), rb') \<and>
               rb_inv rb' \<and> rb_contents rb' = snd (q_run mv (unat (adj_size sz) - 1) ops [])"
  using rb_run_refines [OF new_ringbuff_inv(1) [OF assms], of mv ops dflt]
  by (simp add: new_ringbuff_inv(2) [OF assms] rb_limit_def) (simp add: new_ringbuff_def)

theorem ringbuff_refines_bounded_queue_witness:
  "\<exists>rb'. rb_run (\<lambda>_. 0) [Push 5, PushMove 6, Pop 0, Size, SwapToList [9]] (new_ringbuff (0::nat) 3) =
                 Inr ([OBool True, OItem True 0, OItem True 5, OSize 1, OList [9, 6]], rb') \<and> rb_inv rb' \<and> rb_contents rb' = []"
proof -
  have "adj_size 3 = 4" by (simp add: adj_size_def is_powtwo_def next_powtwo_def Let_def)
  then show ?thesis
  using ringbuff_refines_bounded_queue [of 3 "\<lambda>_. 0" "[Push 5, PushMove 6, Pop 0, Size, SwapToList [9]]" "0::nat"]
  by (simp add: Let_def)
qed

text \<open>
  C29. Capacity: \<^verbatim>\<open>adj_size\<close> returns the least power of two that is not below the request, for
  every request up to \<open>2^63\<close>.
\<close>

theorem adj_size_least_power:
  assumes "unat n \<le> 2 ^ 63"
  shows "\<exists>k < 64. unat (adj_size n) = 2 ^ k \<and> unat n \<le> 2 ^ k \<and> (\<forall>j. unat n \<le> 2 ^ j \<longrightarrow> k \<le> j)"
  using assms by (rule adj_size_power)

theorem adj_size_least_power_witness:
  "\<exists>k < 64. unat (adj_size 1000) = 2 ^ k \<and> (1000 :: nat) \<le> 2 ^ k \<and>
      (\<forall>j. (1000 :: nat) \<le> 2 ^ j \<longrightarrow> k \<le> j)"
  using adj_size_least_power [of 1000] by simp

text \<open>
  Overflow of the capacity: for a request above \<open>2^63\<close> the bit trick wraps around, the
  capacity is 0 (which is no power of two), and the first \<^verbatim>\<open>push\<close> writes out of bounds.
\<close>

theorem adj_size_wraps_to_zero:
  assumes "2 ^ 63 < unat n"
  shows "adj_size n = 0 \<and> push x (new_ringbuff dflt n) = Inl Out_of_bounds"
  using adj_size_overflow [OF assms] by (simp add: push_def new_ringbuff_def)

theorem adj_size_wraps_to_zero_witness:
  "adj_size (2 ^ 63 + 1) = 0 \<and> push True (new_ringbuff False (2 ^ 63 + 1)) = Inl Out_of_bounds"
  using adj_size_wraps_to_zero [of "2 ^ 63 + 1"] by simp

text \<open>
  C30. Draining: the loop \<^verbatim>\<open>while (rb.pop_move(item))\<close> on a well-formed ring ends after one more
  iteration than there are elements, yields them all in the order they were pushed, whatever
  a move leaves behind, and leaves the ring empty with the same capacity.
\<close>

theorem ringbuff_drain_terminates:
  assumes "rb_inv rb"
  shows "\<exists>rb'. drain (pop_move mv) (Suc (length (rb_contents rb))) item rb =
                 Some (Inr (rb_contents rb, rb')) \<and>
               rb_inv rb' \<and> rb_contents rb' = [] \<and> rb_limit rb' = rb_limit rb"
  by (rule rbq_move.drain_all [OF assms lessI])

theorem ringbuff_drain_terminates_witness:
  "let rb = \<lparr>rb_head = 1, rb_tail = 3, rb_capacity = 4, rb_buffer = [4, 0, 0, 3 :: nat]\<rparr>
   in \<exists>rb'. drain (pop_move (\<lambda>_. 0)) 3 0 rb = Some (Inr ([3, 4], rb')) \<and>
            rb_inv rb' \<and> rb_contents rb' = [] \<and> rb_limit rb' = rb_limit rb"
proof -
  let ?rb = "\<lparr>rb_head = 1, rb_tail = 3, rb_capacity = 4, rb_buffer = [4, 0, 0, 3 :: nat]\<rparr>"
  have "rb_inv ?rb" by (simp add: rb_inv_def is_powtwo_def)
  moreover have "rb_contents ?rb = [3, 4]"
    by (simp add: rb_contents_def ring_slice_def ring_dist_def upt_rec)
  ultimately show ?thesis
    using ringbuff_drain_terminates [of ?rb "\<lambda>_. 0" 0] by (simp add: numeral_eq_Suc)
qed

text \<open>
  Emptying at once: \<^verbatim>\<open>swap_to_vector\<close> appends to the vector exactly the elements of the ring
  in order, in one or two block moves depending on whether the contents wrap around, agrees
  with \<^verbatim>\<open>swap_to_list\<close>, and leaves the ring empty, as long as the result fits the vector.
\<close>

theorem swap_to_vector_moves_all:
  assumes "rb_inv rb" and "length out + length (rb_contents rb) \<le> max_size" and "max_size < 2 ^ 64"
  shows "\<exists>rb'. swap_to_vector max_size mv out rb = Inr (out @ rb_contents rb, rb') \<and>
               swap_to_list mv out rb = Inr (out @ rb_contents rb, rb') \<and>
               rb_inv rb' \<and> rb_contents rb' = []"
  using swap_to_vector_drains [OF assms, of mv] swap_to_list_drains [OF assms(1), of mv out] by auto

theorem swap_to_vector_moves_all_witness:
  "let rb = \<lparr>rb_head = 1, rb_tail = 3, rb_capacity = 4, rb_buffer = [4, 0, 0, 3 :: nat]\<rparr>
   in \<exists>rb'. swap_to_vector 1000 id [7] rb = Inr ([7, 3, 4], rb') \<and>
            swap_to_list id [7] rb = Inr ([7, 3, 4], rb') \<and> rb_inv rb' \<and> rb_contents rb' = []"
proof -
  let ?rb = "\<lparr>rb_head = 1, rb_tail = 3, rb_capacity = 4, rb_buffer = [4, 0, 0, 3 :: nat]\<rparr>"
  have "rb_inv ?rb" by (simp add: rb_inv_def is_powtwo_def)
  moreover have "rb_contents ?rb = [3, 4]"
    by (simp add: rb_contents_def ring_slice_def ring_dist_def upt_rec)
  ultimately show ?thesis
    using swap_to_vector_moves_all [of ?rb "[7]" 1000 id] by simp
qed

text \<open>
  \<^verbatim>\<open>swap\<close> does not swap: called on two well-formed rings of the same capacity, it gives this
  ring the contents of the other one, but the other ring keeps its own indices. Swapping with
  an empty ring therefore leaves both rings empty, and the elements of this ring are in neither.
\<close>

theorem rb_swap_loses_contents:
  assumes "rb_inv this" and "rb_inv other" and "rb_capacity this = rb_capacity other"
    and "rb_contents other = []" and "rb_swap this other = (this', other')"
  shows "rb_contents this' = [] \<and> rb_contents other' = []"
  using rb_swap_contents [OF assms(1-3,5)] assms(4) by simp

theorem rb_swap_loses_contents_witness:
  "let this = \<lparr>rb_head = 2, rb_tail = 0, rb_capacity = 4, rb_buffer = [1, 2, 0, 0 :: nat]\<rparr>;
       (this', other') = rb_swap this (new_ringbuff 0 4)
   in rb_contents this = [1, 2] \<and> rb_contents this' = [] \<and> rb_contents other' = []"
proof -
  let ?r = "\<lparr>rb_head = 2, rb_tail = 0, rb_capacity = 4, rb_buffer = [1, 2, 0, 0 :: nat]\<rparr>"
  have "rb_inv ?r" by (simp add: rb_inv_def is_powtwo_def)
  moreover have "rb_contents ?r = [1, 2]"
    by (simp add: rb_contents_def ring_slice_def ring_dist_def upt_rec)
  moreover have "adj_size 4 = 4" by (simp add: adj_size_def is_powtwo_def)
  moreover from this have "rb_capacity ?r = rb_capacity (new_ringbuff (0 :: nat) 4)"
    by (simp add: new_ringbuff_def)
  moreover have "rb_inv (new_ringbuff (0 :: nat) 4)" "rb_contents (new_ringbuff (0 :: nat) 4) = []"
    by (simp_all add: new_ringbuff_inv)
  moreover obtain r' q' where sw: "rb_swap ?r (new_ringbuff 0 4) = (r', q')"
    by (cases "rb_swap ?r (new_ringbuff 0 4)") blast
  ultimately show ?thesis
    using rb_swap_loses_contents [of ?r "new_ringbuff 0 4" r' q'] by (simp only: sw Let_def case_prod_conv)
qed

end
