(* ===== verification/Ringbuff_Spsc.thy ===== *)
theory Ringbuff_Spsc
  imports Ringbuff
begin

text \<open>
  The ring buffer shared by one producer and one consumer thread, one memory access per
  step (\<^verbatim>\<open>push\<close> and \<^verbatim>\<open>pop\<close> of \<^verbatim>\<open>src/ringbuff.tpp\<close>).

  An atomic index is its modification order: the list of the values stored, oldest first.
  A thread reads its own index exactly. The acquire load of the other thread's index may
  return a stale value, but never one older than the value that thread last read; \<open>sp_pview\<close> and
  \<open>sp_cview\<close> are the positions last read. The array accesses are plain: the theorems below show
  that the two threads never touch the same slot at the same time, so there is no data race.
\<close>

section \<open>State and steps\<close>

datatype 'a prod_pc =
    PIdle
  | PLoaded 'a size_t
  | PWrite 'a size_t size_t
  | PStore 'a size_t

datatype 'a cons_pc =
    CIdle
  | CLoaded size_t
  | CRead size_t
  | CStore size_t 'a

record 'a spsc =
  sp_cap :: size_t
  sp_buf :: "'a list"
  sp_heads :: "size_t list"
  sp_tails :: "size_t list"
  sp_pview :: nat
  sp_cview :: nat
  sp_prod :: "'a prod_pc"
  sp_cons :: "'a cons_pc"
  sp_pushed :: "'a list"
  sp_popped :: "'a list"

datatype 'a spsc_label = Tau | Pushed 'a | Push_full | Popped 'a | Pop_empty

definition spsc_init :: "'a \<Rightarrow> size_t \<Rightarrow> 'a spsc" where
  "spsc_init dflt sz =
     \<lparr>sp_cap = adj_size sz, sp_buf = replicate (unat (adj_size sz)) dflt,
      sp_heads = [0], sp_tails = [0], sp_pview = 0, sp_cview = 0,
      sp_prod = PIdle, sp_cons = CIdle, sp_pushed = [], sp_popped = []\<rparr>"

inductive spsc_step :: "'a spsc \<Rightarrow> 'a spsc_label \<Rightarrow> 'a spsc \<Rightarrow> bool" where
  push_load_head:
    "sp_prod s = PIdle \<Longrightarrow>
     spsc_step s Tau (s\<lparr>sp_prod := PLoaded item (last (sp_heads s))\<rparr>)"
| push_full:
    "sp_prod s = PLoaded item head \<Longrightarrow> nhead = (head + 1) AND (sp_cap s - 1) \<Longrightarrow>
     sp_pview s \<le> v \<Longrightarrow> v < length (sp_tails s) \<Longrightarrow> nhead = sp_tails s ! v \<Longrightarrow>
     spsc_step s Push_full (s\<lparr>sp_prod := PIdle, sp_pview := v\<rparr>)"
| push_room:
    "sp_prod s = PLoaded item head \<Longrightarrow> nhead = (head + 1) AND (sp_cap s - 1) \<Longrightarrow>
     sp_pview s \<le> v \<Longrightarrow> v < length (sp_tails s) \<Longrightarrow> nhead \<noteq> sp_tails s ! v \<Longrightarrow>
     spsc_step s Tau (s\<lparr>sp_prod := PWrite item head nhead, sp_pview := v\<rparr>)"
| push_write:
    "sp_prod s = PWrite item head nhead \<Longrightarrow>
     spsc_step s Tau (s\<lparr>sp_buf := (sp_buf s)[unat head := item], sp_prod := PStore item nhead\<rparr>)"
| push_store_head:
    "sp_prod s = PStore item nhead \<Longrightarrow>
     spsc_step s (Pushed item)
       (s\<lparr>sp_heads := sp_heads s @ [nhead], sp_prod := PIdle, sp_pushed := sp_pushed s @ [item]\<rparr>)"
| pop_load_tail:
    "sp_cons s = CIdle \<Longrightarrow>
     spsc_step s Tau (s\<lparr>sp_cons := CLoaded (last (sp_tails s))\<rparr>)"
| pop_empty:
    "sp_cons s = CLoaded tail \<Longrightarrow>
     sp_cview s \<le> v \<Longrightarrow> v < length (sp_heads s) \<Longrightarrow> tail = sp_heads s ! v \<Longrightarrow>
     spsc_step s Pop_empty (s\<lparr>sp_cons := CIdle, sp_cview := v\<rparr>)"
| pop_ready:
    "sp_cons s = CLoaded tail \<Longrightarrow>
     sp_cview s \<le> v \<Longrightarrow> v < length (sp_heads s) \<Longrightarrow> tail \<noteq> sp_heads s ! v \<Longrightarrow>
     spsc_step s Tau (s\<lparr>sp_cons := CRead tail, sp_cview := v\<rparr>)"
| pop_read:
    "sp_cons s = CRead tail \<Longrightarrow>
     spsc_step s Tau (s\<lparr>sp_cons := CStore tail (sp_buf s ! unat tail)\<rparr>)"
| pop_store_tail:
    "sp_cons s = CStore tail item \<Longrightarrow>
     spsc_step s (Popped item)
       (s\<lparr>sp_tails := sp_tails s @ [(tail + 1) AND (sp_cap s - 1)], sp_cons := CIdle,
          sp_popped := sp_popped s @ [item]\<rparr>)"

inductive_cases spsc_step_Tau: "spsc_step s Tau s'"
inductive_cases spsc_step_Pushed: "spsc_step s (Pushed x) s'"
inductive_cases spsc_step_Push_full: "spsc_step s Push_full s'"
inductive_cases spsc_step_Popped: "spsc_step s (Popped x) s'"
inductive_cases spsc_step_Pop_empty: "spsc_step s Pop_empty s'"

inductive spsc_reach :: "'a spsc \<Rightarrow> 'a spsc \<Rightarrow> bool" for s0 where
  reach_start: "spsc_reach s0 s0"
| reach_step: "spsc_reach s0 s \<Longrightarrow> spsc_step s l s' \<Longrightarrow> spsc_reach s0 s'"

section \<open>The invariant\<close>

text \<open>
  The \<open>i\<close>-th value stored into an index is \<open>i\<close> modulo the capacity, so a position in a
  modification order is a count of pushes or pops.
\<close>

definition idx :: "size_t \<Rightarrow> nat \<Rightarrow> size_t" where
  "idx c i = of_nat (i mod unat c)"

abbreviation np :: "'a spsc \<Rightarrow> nat" where
  "np s \<equiv> length (sp_pushed s)"

abbreviation nc :: "'a spsc \<Rightarrow> nat" where
  "nc s \<equiv> length (sp_popped s)"

text \<open>What a thread knows at each point of its operation, from its own index and its view.\<close>

fun prod_ok :: "size_t \<Rightarrow> nat \<Rightarrow> nat \<Rightarrow> 'a list \<Rightarrow> 'a prod_pc \<Rightarrow> bool" where
  "prod_ok c n view buf PIdle = True"
| "prod_ok c n view buf (PLoaded item head) = (head = idx c n)"
| "prod_ok c n view buf (PWrite item head nhead) =
     (head = idx c n \<and> nhead = idx c (Suc n) \<and> Suc n < view + unat c)"
| "prod_ok c n view buf (PStore item nhead) =
     (nhead = idx c (Suc n) \<and> Suc n < view + unat c \<and> buf ! (n mod unat c) = item)"

fun cons_ok :: "size_t \<Rightarrow> nat \<Rightarrow> nat \<Rightarrow> 'a list \<Rightarrow> 'a cons_pc \<Rightarrow> bool" where
  "cons_ok c n view pushed CIdle = True"
| "cons_ok c n view pushed (CLoaded tail) = (tail = idx c n)"
| "cons_ok c n view pushed (CRead tail) = (tail = idx c n \<and> n < view)"
| "cons_ok c n view pushed (CStore tail item) =
     (tail = idx c n \<and> n < view \<and> item = pushed ! n)"

definition spsc_inv :: "'a spsc \<Rightarrow> bool" where
  "spsc_inv s \<longleftrightarrow>
     is_powtwo (sp_cap s) \<and> length (sp_buf s) = unat (sp_cap s) \<and>
     sp_heads s = map (idx (sp_cap s)) [0..<Suc (np s)] \<and>
     sp_tails s = map (idx (sp_cap s)) [0..<Suc (nc s)] \<and>
     sp_pview s \<le> nc s \<and> nc s \<le> sp_cview s \<and> sp_cview s \<le> np s \<and>
     np s < sp_pview s + unat (sp_cap s) \<and>
     (\<forall>i. nc s \<le> i \<longrightarrow> i < np s \<longrightarrow> sp_buf s ! (i mod unat (sp_cap s)) = sp_pushed s ! i) \<and>
     sp_popped s = take (nc s) (sp_pushed s) \<and>
     prod_ok (sp_cap s) (np s) (sp_pview s) (sp_buf s) (sp_prod s) \<and>
     cons_ok (sp_cap s) (nc s) (sp_cview s) (sp_pushed s) (sp_cons s)"

lemma unat_idx: "is_powtwo c \<Longrightarrow> unat (idx c i) = i mod unat c"
  unfolding idx_def using unat_size_t_less [of c]
  by (subst unat_of_nat_size_t) (auto intro: less_trans [OF mod_less_divisor] simp: is_powtwo_def unat_gt_0)

lemma idx_less: "is_powtwo c \<Longrightarrow> idx c i < c"
  by (simp add: word_less_nat_alt unat_idx is_powtwo_def unat_gt_0)

lemma idx_next: "is_powtwo c \<Longrightarrow> (idx c i + 1) AND (c - 1) = idx c (Suc i)"
  by (simp add: next_index_eq idx_less unat_idx mod_Suc_eq)

lemma idx_eq_iff:
  assumes "is_powtwo c" and "i \<le> j" and "j < i + unat c"
  shows "idx c i = idx c j \<longleftrightarrow> i = j"
proof
  assume "idx c i = idx c j"
  then have eq: "i mod unat c = j mod unat c" by (metis assms(1) unat_idx)
  show "i = j"
  proof (rule ccontr)
    assume "i \<noteq> j"
    then have "(0 + i) mod unat c \<noteq> (0 + j) mod unat c"
      using assms(2,3) by (intro ring_index_inj) auto
    with eq show False by simp
  qed
qed simp

lemma spsc_init_inv:
  assumes "unat sz \<le> 2 ^ 63"
  shows "spsc_inv (spsc_init dflt sz)"
proof -
  obtain k where "k < 64" "unat (adj_size sz) = 2 ^ k"
    using adj_size_power [OF assms] by blast
  then show ?thesis by (auto simp: spsc_inv_def spsc_init_def is_powtwo_iff idx_def)
qed

lemma cons_ok_append: "cons_ok c n view pushed pc \<Longrightarrow> view \<le> length pushed \<Longrightarrow> cons_ok c n view (pushed @ [x]) pc"
  by (cases pc) (auto simp: nth_append)

lemma slot_free:
  assumes "spsc_inv s" "nc s \<le> i" "i < np s"
  shows "np s mod unat (sp_cap s) \<noteq> i mod unat (sp_cap s)"
  using assms ring_index_inj [of i "np s" "unat (sp_cap s)" 0] by (auto simp: spsc_inv_def)

lemma spsc_step_inv:
  assumes "spsc_step s l s'" and inv: "spsc_inv s"
  shows "spsc_inv s'"
  using assms
proof (induction rule: spsc_step.induct)
  case (push_load_head s item)
  then show ?case by (simp add: spsc_inv_def)
next
  case (push_full s item head nhead v)
  then show ?case by (auto simp: spsc_inv_def)
next
  case (push_room s item head nhead v)
  then have c: "is_powtwo (sp_cap s)" and v: "v \<le> nc s" and h: "head = idx (sp_cap s) (np s)"
    by (auto simp: spsc_inv_def)
  have nh: "nhead = idx (sp_cap s) (Suc (np s))"
    using push_room h c by (simp add: idx_next)
  have t: "sp_tails s ! v = idx (sp_cap s) v"
    using push_room v by (simp add: spsc_inv_def del: upt_Suc)
  have "Suc (np s) \<noteq> v + unat (sp_cap s)"
  proof
    assume "Suc (np s) = v + unat (sp_cap s)"
    then have "idx (sp_cap s) (Suc (np s)) = idx (sp_cap s) v" by (simp add: idx_def)
    with push_room.hyps nh t show False by simp
  qed
  with push_room v h nh show ?case by (auto simp: spsc_inv_def)
next
  case (push_write s item head nhead)
  then have c: "is_powtwo (sp_cap s)" and u: "unat head = np s mod unat (sp_cap s)"
    by (auto simp: spsc_inv_def unat_idx)
  have "np s mod unat (sp_cap s) < unat (sp_cap s)"
    using c by (simp add: is_powtwo_def unat_gt_0)
  with push_write u slot_free [OF push_write(2)] show ?case
    by (auto simp: spsc_inv_def simp del: upt_Suc)
next
  case (push_store_head s item nhead)
  then show ?case
    by (auto simp: spsc_inv_def nth_append less_Suc_eq cons_ok_append)
next
  case (pop_load_tail s)
  then show ?case by (simp add: spsc_inv_def)
next
  case (pop_empty s tail v)
  then show ?case by (auto simp: spsc_inv_def)
next
  case (pop_ready s tail v)
  then have c: "is_powtwo (sp_cap s)" and v: "v \<le> np s" and h: "tail = idx (sp_cap s) (nc s)"
    by (auto simp: spsc_inv_def)
  have "sp_heads s ! v = idx (sp_cap s) v"
    using pop_ready v by (simp add: spsc_inv_def del: upt_Suc)
  with pop_ready h have "nc s \<noteq> v" by auto
  with pop_ready v h show ?case by (auto simp: spsc_inv_def)
next
  case (pop_read s tail)
  then show ?case by (auto simp: spsc_inv_def unat_idx)
next
  case (pop_store_tail s tail item)
  then show ?case
    by (auto simp: spsc_inv_def idx_next take_Suc_conv_app_nth)
qed

lemma spsc_reach_inv: "spsc_reach s0 s \<Longrightarrow> spsc_inv s0 \<Longrightarrow> spsc_inv s"
  by (induction rule: spsc_reach.induct) (auto intro: spsc_step_inv)

section \<open>The abstract queue\<close>

definition spsc_queue :: "'a spsc \<Rightarrow> 'a list" where
  "spsc_queue s = drop (nc s) (sp_pushed s)"

fun queue_step :: "nat \<Rightarrow> 'a list \<Rightarrow> 'a spsc_label \<Rightarrow> 'a list \<Rightarrow> bool" where
  "queue_step limit q Tau q' = (q' = q)"
| "queue_step limit q (Pushed x) q' = (length q < limit \<and> q' = q @ [x])"
| "queue_step limit q Push_full q' = (q' = q)"
| "queue_step limit q (Popped x) q' = (q = x # q')"
| "queue_step limit q Pop_empty q' = (q' = q)"

lemma spsc_step_queue:
  assumes "spsc_step s l s'" and "spsc_inv s"
  shows "queue_step (unat (sp_cap s) - 1) (spsc_queue s) l (spsc_queue s')"
  using assms
proof (induction rule: spsc_step.induct)
  case (pop_store_tail s tail item)
  then have "nc s < np s" and "item = sp_pushed s ! nc s"
    by (auto simp: spsc_inv_def)
  then show ?case by (simp add: spsc_queue_def Cons_nth_drop_Suc)
qed (auto simp: spsc_queue_def spsc_inv_def)

lemma spsc_step_cap: "spsc_step s l s' \<Longrightarrow> sp_cap s' = sp_cap s"
  by (induction rule: spsc_step.induct) auto

lemma refusals:
  assumes "spsc_inv s"
  shows "spsc_step s Push_full s' \<Longrightarrow> Suc (np s) = sp_pview s' + unat (sp_cap s)"
    and "spsc_step s Pop_empty s' \<Longrightarrow> sp_cview s' = nc s"
proof -
  assume "spsc_step s Push_full s'"
  then obtain v item head where v: "sp_prod s = PLoaded item head" "sp_pview s \<le> v" "v < length (sp_tails s)"
      "(head + 1) AND (sp_cap s - 1) = sp_tails s ! v" "s' = s\<lparr>sp_prod := PIdle, sp_pview := v\<rparr>"
    by (auto elim: spsc_step_Push_full)
  have c: "is_powtwo (sp_cap s)" and "v \<le> nc s" "nc s \<le> np s" "Suc (np s) \<le> v + unat (sp_cap s)"
    using assms v by (auto simp: spsc_inv_def)
  moreover have "idx (sp_cap s) v = idx (sp_cap s) (Suc (np s))"
    using assms v c by (auto simp: spsc_inv_def idx_next simp del: upt_Suc)
  ultimately show "Suc (np s) = sp_pview s' + unat (sp_cap s)"
    using idx_eq_iff [OF c, of v "Suc (np s)"] v(5) by (cases "Suc (np s) = v + unat (sp_cap s)") auto
next
  assume "spsc_step s Pop_empty s'"
  then obtain v tail where v: "sp_cons s = CLoaded tail" "sp_cview s \<le> v" "v < length (sp_heads s)"
      "tail = sp_heads s ! v" "s' = s\<lparr>sp_cons := CIdle, sp_cview := v\<rparr>"
    by (auto elim: spsc_step_Pop_empty)
  have c: "is_powtwo (sp_cap s)" and "nc s \<le> v" "v < nc s + unat (sp_cap s)"
    using assms v by (auto simp: spsc_inv_def)
  moreover have "idx (sp_cap s) (nc s) = idx (sp_cap s) v"
    using assms v by (auto simp: spsc_inv_def simp del: upt_Suc)
  ultimately show "sp_cview s' = nc s"
    using idx_eq_iff [OF c, of "nc s" v] v(5) by auto
qed

definition spsc_ring :: "'a spsc \<Rightarrow> 'a ringbuff" where
  "spsc_ring s = \<lparr>rb_head = last (sp_heads s), rb_tail = last (sp_tails s),
                  rb_capacity = sp_cap s, rb_buffer = sp_buf s\<rparr>"

lemma spsc_ring_contents:
  assumes inv: "spsc_inv s"
  shows "rb_inv (spsc_ring s)" and "rb_contents (spsc_ring s) = spsc_queue s"
proof -
  let ?c = "unat (sp_cap s)"
  have c: "is_powtwo (sp_cap s)" "length (sp_buf s) = ?c" and le: "nc s \<le> np s" "np s < nc s + ?c"
    using inv by (auto simp: spsc_inv_def)
  have h: "last (sp_heads s) = idx (sp_cap s) (np s)" "last (sp_tails s) = idx (sp_cap s) (nc s)"
    using inv by (auto simp: spsc_inv_def)
  show rb: "rb_inv (spsc_ring s)"
    using c h by (simp add: rb_inv_def spsc_ring_def idx_less)
  have "0 < ?c" using rb_inv_nat(4) [OF rb] by (simp add: spsc_ring_def)
  have d: "ring_dist ?c (nc s mod ?c) (np s mod ?c) = np s - nc s"
  proof (rule ccontr)
    let ?d = "ring_dist ?c (nc s mod ?c) (np s mod ?c)"
    assume ne: "?d \<noteq> np s - nc s"
    have "(nc s + ?d) mod ?c = (nc s + (np s - nc s)) mod ?c"
      using ring_dist_add [of "np s mod ?c" ?c "nc s mod ?c"] \<open>0 < ?c\<close> le by (simp add: mod_add_left_eq)
    moreover have "?d < ?c" "np s - nc s < ?c"
      using \<open>0 < ?c\<close> le by (auto simp: ring_dist_less)
    ultimately show False
      using ne ring_index_inj [of ?d "np s - nc s" ?c "nc s"] ring_index_inj [of "np s - nc s" ?d ?c "nc s"]
      by (metis linorder_neqE_nat trans_less_add2)
  qed
  show "rb_contents (spsc_ring s) = spsc_queue s"
  proof (rule nth_equalityI)
    show "length (rb_contents (spsc_ring s)) = length (spsc_queue s)"
      using c h by (simp add: rb_contents_def spsc_ring_def spsc_queue_def unat_idx d)
    fix i assume "i < length (rb_contents (spsc_ring s))"
    then have i: "i < np s - nc s"
      using c h by (simp add: rb_contents_def spsc_ring_def unat_idx d)
    then have "rb_contents (spsc_ring s) ! i = sp_buf s ! ((nc s + i) mod ?c)"
      using c h by (simp add: rb_contents_def spsc_ring_def unat_idx d nth_ring_slice mod_add_left_eq)
    also have "\<dots> = sp_pushed s ! (nc s + i)"
      using inv i by (auto simp: spsc_inv_def)
    finally show "rb_contents (spsc_ring s) ! i = spsc_queue s ! i"
      using le by (simp add: spsc_queue_def)
  qed
qed

inductive spsc_run :: "'a spsc \<Rightarrow> 'a spsc_label list \<Rightarrow> 'a spsc \<Rightarrow> bool" where
  run_nil: "spsc_run s [] s"
| run_cons: "spsc_step s l s1 \<Longrightarrow> spsc_run s1 ls s' \<Longrightarrow> spsc_run s (l # ls) s'"

lemma views_current:
  assumes "spsc_inv s"
  shows "sp_pview s \<le> nc s" and "nc s < length (sp_tails s)" and "sp_tails s ! nc s = last (sp_tails s)"
    and "sp_cview s \<le> np s" and "np s < length (sp_heads s)" and "sp_heads s ! np s = last (sp_heads s)"
  using assms by (auto simp: spsc_inv_def nth_append)

lemma push_solo:
  assumes inv: "spsc_inv s" and idle: "sp_prod s = PIdle"
    and push: "push item (spsc_ring s) = Inr (ok, rb')"
  shows "\<exists>s'. spsc_run s (if ok then [Tau, Tau, Tau, Pushed item] else [Tau, Push_full]) s' \<and>
              spsc_ring s' = rb'"
proof -
  note v = views_current [OF inv]
  define s1 where "s1 = s\<lparr>sp_prod := PLoaded item (last (sp_heads s))\<rparr>"
  define nh where "nh = (last (sp_heads s) + 1) AND (sp_cap s - 1)"
  have s1: "spsc_step s Tau s1" unfolding s1_def by (rule push_load_head) (rule idle)
  show ?thesis
  proof (cases "nh = last (sp_tails s)")
    case True
    then have r: "ok = False" "rb' = spsc_ring s"
      using push by (auto simp: push_def Let_def spsc_ring_def nh_def)
    define s2 where "s2 = s1\<lparr>sp_prod := PIdle, sp_pview := nc s\<rparr>"
    have s2: "spsc_step s1 Push_full s2"
      unfolding s2_def by (rule push_full) (use v True in \<open>auto simp: s1_def nh_def\<close>)
    have "spsc_ring s2 = rb'" using r by (simp add: spsc_ring_def s2_def s1_def)
    with r run_cons [OF s1 run_cons [OF s2 run_nil]] show ?thesis by auto
  next
    case False
    then have r: "ok = True" "rb' = spsc_ring s\<lparr>rb_buffer := (sp_buf s)[unat (last (sp_heads s)) := item], rb_head := nh\<rparr>"
      using push by (auto simp: push_def Let_def spsc_ring_def nh_def split: if_splits)
    define s2 where "s2 = s1\<lparr>sp_prod := PWrite item (last (sp_heads s)) nh, sp_pview := nc s\<rparr>"
    define s3 where "s3 = s2\<lparr>sp_buf := (sp_buf s2)[unat (last (sp_heads s)) := item], sp_prod := PStore item nh\<rparr>"
    define s4 where "s4 = s3\<lparr>sp_heads := sp_heads s3 @ [nh], sp_prod := PIdle, sp_pushed := sp_pushed s3 @ [item]\<rparr>"
    have s2: "spsc_step s1 Tau s2"
      unfolding s2_def by (rule push_room) (use v False in \<open>auto simp: s1_def nh_def\<close>)
    have s3: "spsc_step s2 Tau s3"
      unfolding s3_def by (rule push_write) (simp add: s2_def)
    have s4: "spsc_step s3 (Pushed item) s4"
      unfolding s4_def by (rule push_store_head) (simp add: s3_def)
    have "spsc_ring s4 = rb'" using r by (simp add: spsc_ring_def s4_def s3_def s2_def s1_def)
    with r run_cons [OF s1 run_cons [OF s2 run_cons [OF s3 run_cons [OF s4 run_nil]]]]
    show ?thesis by auto
  qed
qed

lemma pop_solo:
  assumes inv: "spsc_inv s" and idle: "sp_cons s = CIdle"
    and pop: "pop item (spsc_ring s) = Inr (ok, item', rb')"
  shows "\<exists>s'. spsc_run s (if ok then [Tau, Tau, Tau, Popped item'] else [Tau, Pop_empty]) s' \<and>
              spsc_ring s' = rb'"
proof -
  note v = views_current [OF inv]
  define s1 where "s1 = s\<lparr>sp_cons := CLoaded (last (sp_tails s))\<rparr>"
  have s1: "spsc_step s Tau s1" unfolding s1_def by (rule pop_load_tail) (rule idle)
  show ?thesis
  proof (cases "last (sp_tails s) = last (sp_heads s)")
    case True
    then have r: "ok = False" "rb' = spsc_ring s"
      using pop by (auto simp: pop_def Let_def spsc_ring_def)
    define s2 where "s2 = s1\<lparr>sp_cons := CIdle, sp_cview := np s\<rparr>"
    have s2: "spsc_step s1 Pop_empty s2"
      unfolding s2_def by (rule pop_empty) (use v True in \<open>auto simp: s1_def\<close>)
    have "spsc_ring s2 = rb'" using r by (simp add: spsc_ring_def s2_def s1_def)
    with r run_cons [OF s1 run_cons [OF s2 run_nil]] show ?thesis by auto
  next
    case False
    then have r: "ok = True" "item' = sp_buf s ! unat (last (sp_tails s))"
      "rb' = spsc_ring s\<lparr>rb_tail := (last (sp_tails s) + 1) AND (sp_cap s - 1)\<rparr>"
      using pop by (auto simp: pop_def Let_def spsc_ring_def split: if_splits)
    define s2 where "s2 = s1\<lparr>sp_cons := CRead (last (sp_tails s)), sp_cview := np s\<rparr>"
    define s3 where "s3 = s2\<lparr>sp_cons := CStore (last (sp_tails s)) (sp_buf s2 ! unat (last (sp_tails s)))\<rparr>"
    define s4 where "s4 = s3\<lparr>sp_tails := sp_tails s3 @ [(last (sp_tails s) + 1) AND (sp_cap s3 - 1)], sp_cons := CIdle, sp_popped := sp_popped s3 @ [item']\<rparr>"
    have s2: "spsc_step s1 Tau s2"
      unfolding s2_def by (rule pop_ready) (use v False in \<open>auto simp: s1_def\<close>)
    have s3: "spsc_step s2 Tau s3"
      unfolding s3_def by (rule pop_read) (simp add: s2_def)
    have s4: "spsc_step s3 (Popped item') s4"
      unfolding s4_def by (rule pop_store_tail) (simp add: s3_def s2_def s1_def r)
    have "spsc_ring s4 = rb'" using r by (simp add: spsc_ring_def s4_def s3_def s2_def s1_def)
    with r run_cons [OF s1 run_cons [OF s2 run_cons [OF s3 run_cons [OF s4 run_nil]]]]
    show ?thesis by auto
  qed
qed

section \<open>Properties\<close>

text \<open>
  C5. Linearizability of the lock-free queue: with one producer and one consumer, any
  interleaving of their memory accesses and any staleness of their acquire loads, every step
  of a reachable state is a step of the abstract bounded queue. The store to \<^verbatim>\<open>head_\<close> is where a
  successful push takes effect, the store to \<^verbatim>\<open>tail_\<close> where a successful pop does, and it
  returns the oldest element; the array between the two indices holds the queue throughout.
\<close>

theorem spsc_refines_queue:
  assumes "unat sz \<le> 2 ^ 63" and "spsc_reach (spsc_init dflt sz) s" and "spsc_step s l s'"
  shows "queue_step (unat (sp_cap s) - 1) (spsc_queue s) l (spsc_queue s') \<and>
         rb_contents (spsc_ring s) = spsc_queue s"
  using spsc_reach_inv [OF assms(2) spsc_init_inv [OF assms(1)]] assms(3)
  by (intro conjI spsc_step_queue spsc_ring_contents(2))

theorem spsc_refines_queue_witness:
  "queue_step (unat (sp_cap (spsc_init (0 :: nat) 4)) - 1) (spsc_queue (spsc_init (0 :: nat) 4)) Tau
     (spsc_queue ((spsc_init (0 :: nat) 4)\<lparr>sp_prod := PLoaded 5 0\<rparr>)) \<and>
   rb_contents (spsc_ring (spsc_init (0 :: nat) 4)) = spsc_queue (spsc_init (0 :: nat) 4)"
proof (rule spsc_refines_queue [where dflt = 0 and sz = 4])
  show "unat (4 :: size_t) \<le> 2 ^ 63" by simp
  show "spsc_reach (spsc_init (0 :: nat) 4) (spsc_init 0 4)" by (rule reach_start)
  show "spsc_step (spsc_init (0 :: nat) 4) Tau ((spsc_init 0 4)\<lparr>sp_prod := PLoaded 5 0\<rparr>)"
    using push_load_head [of "spsc_init (0 :: nat) 4" 5] by (simp add: spsc_init_def)
qed

text \<open>
  First in, first out, without loss or duplication: in every reachable state the values
  popped so far are the first values pushed, and at most the capacity minus one values are
  in flight.
\<close>

theorem spsc_fifo:
  assumes "unat sz \<le> 2 ^ 63" and "spsc_reach (spsc_init dflt sz) s"
  shows "sp_popped s = take (length (sp_popped s)) (sp_pushed s) \<and>
         length (sp_pushed s) \<le> length (sp_popped s) + (unat (sp_cap s) - 1)"
  using spsc_reach_inv [OF assms(2) spsc_init_inv [OF assms(1)]] by (auto simp: spsc_inv_def)

theorem spsc_fifo_witness:
  "sp_popped (spsc_init True 8) = take 0 (sp_pushed (spsc_init True 8)) \<and>
   length (sp_pushed (spsc_init True 8)) \<le>
     length (sp_popped (spsc_init True 8)) + (unat (sp_cap (spsc_init True 8)) - 1)"
  using spsc_fifo [OF _ reach_start, of 8 True] by (simp add: spsc_init_def)

text \<open>
  C17. No data race: in a reachable state in which the producer is about to write its slot while
  the consumer is about to read its slot, both slots lie inside the array and they differ.
\<close>

theorem spsc_race_free:
  assumes "unat sz \<le> 2 ^ 63" and "spsc_reach (spsc_init dflt sz) s"
    and "sp_prod s = PWrite item head nhead" and "sp_cons s = CRead tail"
  shows "head \<noteq> tail \<and> unat head < length (sp_buf s) \<and> unat tail < length (sp_buf s)"
proof -
  have inv: "spsc_inv s"
    using assms(2) spsc_init_inv [OF assms(1)] by (rule spsc_reach_inv)
  then have c: "is_powtwo (sp_cap s)" and len: "length (sp_buf s) = unat (sp_cap s)"
    and head: "head = idx (sp_cap s) (np s)" and tail: "tail = idx (sp_cap s) (nc s)"
    and lt: "nc s < np s"
    using assms(3,4) by (auto simp: spsc_inv_def)
  have "head \<noteq> tail"
    using slot_free [OF inv le_refl lt] c by (auto simp: head tail word_unat_eq_iff unat_idx)
  moreover have "unat (idx (sp_cap s) i) < unat (sp_cap s)" for i
    using idx_less [OF c, of i] by (simp add: word_less_nat_alt)
  ultimately show ?thesis using len head tail by simp
qed

text \<open>
  The witness: one element pushed, the producer at its next write while the consumer is at
  its first read.
\<close>

definition race_state :: "nat spsc" where
  "race_state =
     \<lparr>sp_cap = 4, sp_buf = [7, 0, 0, 0], sp_heads = [0, 1], sp_tails = [0], sp_pview = 0,
      sp_cview = 1, sp_prod = PWrite 8 1 2, sp_cons = CRead 0, sp_pushed = [7], sp_popped = []\<rparr>"

lemma race_state_reachable: "spsc_reach (spsc_init 0 4) race_state"
proof -
  let ?s0 = "spsc_init (0 :: nat) 4"
  have cap: "adj_size 4 = 4" by (simp add: adj_size_def is_powtwo_def)
  have rep: "replicate 4 (0 :: nat) = [0, 0, 0, 0]" by (simp add: numeral_eq_Suc)
  note reach = reach_start [of ?s0]
  note reach = reach_step [OF reach push_load_head [of _ 7]]
  note reach = reach_step [OF reach push_room [of _ 7 0 1 0]]
  note reach = reach_step [OF reach push_write [of _ 7 0 1]]
  note reach = reach_step [OF reach push_store_head [of _ 7 1]]
  note reach = reach_step [OF reach push_load_head [of _ 8]]
  note reach = reach_step [OF reach push_room [of _ 8 1 2 0]]
  note reach = reach_step [OF reach pop_load_tail]
  note reach = reach_step [OF reach pop_ready [of _ 0 1]]
  show ?thesis
    using reach by (simp add: spsc_init_def race_state_def cap rep)
qed

theorem spsc_race_free_witness:
  "(1 :: size_t) \<noteq> 0 \<and> unat (1 :: size_t) < length (sp_buf race_state) \<and>
   unat (0 :: size_t) < length (sp_buf race_state)"
  by (rule spsc_race_free [OF _ race_state_reachable, of 8 _ 2]) (simp_all add: race_state_def)

text \<open>
  C27. The sequential operations are the concurrent ones run alone: from any state the invariant
  allows, an idle producer's \<^verbatim>\<open>push\<close> (an idle consumer's \<^verbatim>\<open>pop\<close>) whose loads are up to date
  and whose steps nobody interrupts has the result and the effect of the sequential model.
\<close>

theorem spsc_solo_is_sequential:
  assumes "unat sz \<le> 2 ^ 63" and "spsc_reach (spsc_init dflt sz) s"
  shows "(sp_prod s = PIdle \<longrightarrow> (\<forall>item ok rb'. push item (spsc_ring s) = Inr (ok, rb') \<longrightarrow>
            (\<exists>s'. spsc_run s (if ok then [Tau, Tau, Tau, Pushed item] else [Tau, Push_full]) s' \<and>
                  spsc_ring s' = rb'))) \<and>
         (sp_cons s = CIdle \<longrightarrow> (\<forall>item ok item' rb'. pop item (spsc_ring s) = Inr (ok, item', rb') \<longrightarrow>
            (\<exists>s'. spsc_run s (if ok then [Tau, Tau, Tau, Popped item'] else [Tau, Pop_empty]) s' \<and>
                  spsc_ring s' = rb')))"
  using spsc_reach_inv [OF assms(2) spsc_init_inv [OF assms(1)]] by (blast intro: push_solo pop_solo)

theorem spsc_solo_is_sequential_witness:
  "\<exists>s'. spsc_run (spsc_init 0 4) [Tau, Tau, Tau, Pushed (5 :: nat)] s' \<and>
        rb_contents (spsc_ring s') = [5]"
proof -
  have cap: "adj_size 4 = 4" by (simp add: adj_size_def is_powtwo_def)
  have rep: "replicate 4 (0 :: nat) = [0, 0, 0, 0]" by (simp add: numeral_eq_Suc)
  let ?rb = "\<lparr>rb_head = 1, rb_tail = 0, rb_capacity = 4, rb_buffer = [5, 0, 0, 0 :: nat]\<rparr>"
  have idle: "sp_prod (spsc_init (0 :: nat) 4) = PIdle" by (simp add: spsc_init_def)
  have ok: "push 5 (spsc_ring (spsc_init (0 :: nat) 4)) = Inr (True, ?rb)"
    by (simp add: push_def spsc_ring_def spsc_init_def cap rep)
  have "\<exists>s'. spsc_run (spsc_init 0 4) [Tau, Tau, Tau, Pushed (5 :: nat)] s' \<and>
                  spsc_ring s' = ?rb"
    using spsc_solo_is_sequential [OF _ reach_start, THEN conjunct1, rule_format, OF _ idle ok]
    by simp
  moreover have "rb_contents ?rb = [5]"
    by (simp add: rb_contents_def ring_slice_def ring_dist_def upt_rec)
  ultimately show ?thesis by metis
qed

end
