(* ===== verification/Sys.thy ===== *)
theory Sys
  imports Moon_Prelude
begin

text \<open>
  The operating system as the sources use it. The kernel is not part of the program: every
  system call is a field of a record that the definitions of the other theories take as an
  argument, from the arguments of the call and the state \<open>'w\<close> of the outside world to the
  value returned, or the error number \<^verbatim>\<open>errno\<close> where the call returns -1, and the new state.
  What the code relies on is stated by the predicates of this theory, which repeat the
  manual pages; theorems that need them have them as hypotheses.
\<close>

section \<open>Numbers of the C library\<close>

definition EINTR :: int where
  "EINTR = 4"

definition EAGAIN :: int where
  "EAGAIN = 11"

definition EWOULDBLOCK :: int where
  "EWOULDBLOCK = EAGAIN"

definition ECONNABORTED :: int where
  "ECONNABORTED = 103"

definition EPOLLIN :: u32 where
  "EPOLLIN = 1"

definition EPOLLPRI :: u32 where
  "EPOLLPRI = 2"

definition EPOLLOUT :: u32 where
  "EPOLLOUT = 4"

definition EPOLLERR :: u32 where
  "EPOLLERR = 8"

definition EPOLLHUP :: u32 where
  "EPOLLHUP = 16"

definition EPOLLRDHUP :: u32 where
  "EPOLLRDHUP = 0x2000"

definition EPOLLET :: u32 where
  "EPOLLET = 0x80000000"

lemmas errno_defs = EINTR_def EAGAIN_def EWOULDBLOCK_def ECONNABORTED_def

lemmas epoll_defs = EPOLLIN_def EPOLLPRI_def EPOLLOUT_def EPOLLERR_def EPOLLHUP_def EPOLLRDHUP_def
  EPOLLET_def

section \<open>The calls\<close>

text \<open>
  An \<^verbatim>\<open>epoll_event\<close> is its mask and the pointer in \<^verbatim>\<open>data.ptr\<close>. Addresses are numbers, the
  null pointer is 0. A pointer and a length are the list of the bytes there; a call that
  fills a buffer returns the bytes it has put there.
\<close>

type_synonym addr = nat
type_synonym fd = int
type_synonym epoll_event = "u32 \<times> addr"

abbreviation NULL :: addr where
  "NULL \<equiv> 0"

datatype epoll_op = EPOLL_CTL_ADD | EPOLL_CTL_DEL | EPOLL_CTL_MOD

datatype sockopt = SO_REUSEADDR | SO_REUSEPORT | TCP_NODELAY

datatype socktype = SOCK_STREAM | SOCK_DGRAM

text \<open>A \<^verbatim>\<open>sockaddr_in\<close>: IPv4 address and port.\<close>

type_synonym sockaddr = "u32 \<times> 16 word"

type_synonym ('w, 'a) syscall = "'w \<Rightarrow> (int + 'a) \<times> 'w"

text \<open>A \<^verbatim>\<open>timespec\<close> is its seconds and nanoseconds.\<close>

type_synonym timespec = "int \<times> int"

record 'w sys =
  sys_epoll_create1 :: "('w, fd) syscall"
  sys_epoll_ctl :: "fd \<Rightarrow> epoll_op \<Rightarrow> fd \<Rightarrow> epoll_event option \<Rightarrow> ('w, unit) syscall"
  sys_epoll_wait :: "fd \<Rightarrow> nat \<Rightarrow> int \<Rightarrow> ('w, epoll_event list) syscall"
  sys_eventfd :: "('w, fd) syscall"
  sys_read :: "fd \<Rightarrow> nat \<Rightarrow> ('w, byte list) syscall"
  sys_readv :: "fd \<Rightarrow> nat list \<Rightarrow> ('w, byte list) syscall"
  sys_write :: "fd \<Rightarrow> byte list \<Rightarrow> ('w, nat) syscall"
  sys_writev :: "fd \<Rightarrow> byte list list \<Rightarrow> ('w, nat) syscall"
  sys_close :: "fd \<Rightarrow> ('w, unit) syscall"
  sys_socket :: "socktype \<Rightarrow> ('w, fd) syscall"
  sys_setsockopt :: "fd \<Rightarrow> sockopt \<Rightarrow> ('w, unit) syscall"
  sys_fcntl_getfl :: "fd \<Rightarrow> ('w, u32) syscall"
  sys_fcntl_setfl :: "fd \<Rightarrow> u32 \<Rightarrow> ('w, unit) syscall"
  sys_bind :: "fd \<Rightarrow> sockaddr \<Rightarrow> ('w, unit) syscall"
  sys_listen :: "fd \<Rightarrow> int \<Rightarrow> ('w, unit) syscall"
  sys_connect :: "fd \<Rightarrow> sockaddr \<Rightarrow> ('w, unit) syscall"
  sys_accept :: "fd \<Rightarrow> ('w, fd) syscall"
  sys_recvfrom :: "fd \<Rightarrow> nat \<Rightarrow> ('w, byte list \<times> sockaddr) syscall"
  sys_sendto :: "fd \<Rightarrow> byte list \<Rightarrow> sockaddr \<Rightarrow> ('w, nat) syscall"
  sys_timerfd_create :: "('w, fd) syscall"
  sys_timerfd_settime :: "fd \<Rightarrow> timespec \<times> timespec \<Rightarrow> ('w, unit) syscall"
  sys_pipe :: "('w, fd \<times> fd) syscall"
  sys_sigaction :: "int \<Rightarrow> ('w, unit) syscall"

section \<open>Heaps of objects\<close>

text \<open>Following a pointer: a heap maps the addresses of the live objects.\<close>

definition deref :: "(addr \<Rightarrow> 'a option) \<Rightarrow> addr \<Rightarrow> 'a res" where
  "deref h p =
     (if p = NULL then Inl Null_pointer
      else case h p of None \<Rightarrow> Inl Dangling_pointer | Some x \<Rightarrow> Inr x)"

lemma deref_eq_Inr: "deref h p = Inr x \<longleftrightarrow> p \<noteq> NULL \<and> h p = Some x"
  by (auto simp: deref_def split: option.splits)

lemma deref_live [simp]: "p \<noteq> NULL \<Longrightarrow> h p = Some x \<Longrightarrow> deref h p = Inr x"
  by (simp add: deref_def)

section \<open>What epoll(7) promises\<close>

text \<open>
  \<open>interest w ep fd\<close> is the entry of descriptor \<open>fd\<close> in the interest list of the epoll
  instance \<open>ep\<close>. \<^verbatim>\<open>epoll_ctl\<close> adds only an absent descriptor and modifies or removes only a
  present one, and does nothing when it fails; \<^verbatim>\<open>epoll_wait\<close> reports at most the asked
  number of events, each with the pointer of an entry, and leaves the list alone.
\<close>

type_synonym 'w interest = "'w \<Rightarrow> fd \<Rightarrow> fd \<Rightarrow> epoll_event option"

definition set_interest ::
  "fd \<Rightarrow> fd \<Rightarrow> epoll_event option \<Rightarrow> (fd \<Rightarrow> fd \<Rightarrow> epoll_event option) \<Rightarrow> fd \<Rightarrow> fd \<Rightarrow> epoll_event option" where
  "set_interest ep fd e I = I(ep := (I ep)(fd := e))"

definition epoll_ctl_spec :: "'w sys \<Rightarrow> 'w interest \<Rightarrow> bool" where
  "epoll_ctl_spec S interest \<longleftrightarrow>
     (\<forall>ep op fd e w r w'. sys_epoll_ctl S ep op fd e w = (r, w') \<longrightarrow>
        (case r of
           Inl _ \<Rightarrow> interest w' = interest w
         | Inr _ \<Rightarrow>
             (op = EPOLL_CTL_ADD \<longleftrightarrow> interest w ep fd = None) \<and>
             interest w' = set_interest ep fd (if op = EPOLL_CTL_DEL then None else e) (interest w)))"

definition epoll_wait_spec :: "'w sys \<Rightarrow> 'w interest \<Rightarrow> bool" where
  "epoll_wait_spec S interest \<longleftrightarrow>
     (\<forall>ep n t w r w'. sys_epoll_wait S ep n t w = (r, w') \<longrightarrow>
        interest w' = interest w \<and>
        (\<forall>es. r = Inr es \<longrightarrow>
           length es \<le> n \<and> (\<forall>(m, p) \<in> set es. \<exists>fd m'. interest w ep fd = Some (m', p))))"

text \<open>
  On an open descriptor \<^verbatim>\<open>epoll_ctl\<close> fails only for a descriptor already there (add) or not
  there (modify, delete); \<open>valid w ep fd\<close> stands for: both are open, \<open>fd\<close> can be polled, and
  the limits on memory and watches are not reached.
\<close>

definition epoll_ctl_live :: "'w sys \<Rightarrow> 'w interest \<Rightarrow> (fd \<Rightarrow> fd \<Rightarrow> bool) \<Rightarrow> bool" where
  "epoll_ctl_live S interest valid \<longleftrightarrow>
     (\<forall>ep op fd e w. valid ep fd \<and> (op = EPOLL_CTL_ADD \<longleftrightarrow> interest w ep fd = None) \<longrightarrow>
        (\<exists>w'. sys_epoll_ctl S ep op fd e w = (Inr (), w')))"

section \<open>What read(2) and write(2) promise\<close>

text \<open>
  \<open>sent w fd\<close> is everything the descriptor has taken so far, \<open>unread w fd\<close> what the peer has
  sent and the program has not read. A write takes a prefix of the data, a non-empty one if
  there are data; a failed call takes nothing. A read gives a prefix of the unread bytes that
  fits the vectors.
\<close>

definition write_spec :: "'w sys \<Rightarrow> ('w \<Rightarrow> fd \<Rightarrow> byte list) \<Rightarrow> bool" where
  "write_spec S sent \<longleftrightarrow>
     (\<forall>fd bs w r w'. sys_write S fd bs w = (r, w') \<longrightarrow>
        (case r of
           Inl _ \<Rightarrow> sent w' = sent w
         | Inr n \<Rightarrow> n \<le> length bs \<and> (bs \<noteq> [] \<longrightarrow> 0 < n) \<and>
                    sent w' = (sent w)(fd := sent w fd @ take n bs)))"

definition writev_spec :: "'w sys \<Rightarrow> ('w \<Rightarrow> fd \<Rightarrow> byte list) \<Rightarrow> bool" where
  "writev_spec S sent \<longleftrightarrow>
     (\<forall>fd bss w r w'. sys_writev S fd bss w = (r, w') \<longrightarrow>
        (case r of
           Inl _ \<Rightarrow> sent w' = sent w
         | Inr n \<Rightarrow> n \<le> length (concat bss) \<and>
                    sent w' = (sent w)(fd := sent w fd @ take n (concat bss))))"

definition readv_spec :: "'w sys \<Rightarrow> ('w \<Rightarrow> fd \<Rightarrow> byte list) \<Rightarrow> bool" where
  "readv_spec S unread \<longleftrightarrow>
     (\<forall>fd lens w r w'. sys_readv S fd lens w = (r, w') \<longrightarrow>
        (case r of
           Inl _ \<Rightarrow> unread w' = unread w
         | Inr bs \<Rightarrow> length bs \<le> sum_list lens \<and> unread w fd = bs @ unread w' fd))"

text \<open>\<^verbatim>\<open>epoll_ctl\<close> moves no data.\<close>

definition ctl_silent :: "'w sys \<Rightarrow> ('w \<Rightarrow> 'd) \<Rightarrow> bool" where
  "ctl_silent S data \<longleftrightarrow>
     (\<forall>ep op fd e w. data (snd (sys_epoll_ctl S ep op fd e w)) = data w)"

section \<open>What recvfrom(2) and accept(2) promise\<close>

text \<open>
  \<open>dgrams w fd\<close> are the datagrams that wait at a non-blocking socket without a pending error,
  with their senders: a call takes the first, cut to the length asked for, or fails with
  \<^verbatim>\<open>EAGAIN\<close>. In the same way \<open>pending w fd\<close> are the connections that wait at a listening socket.
\<close>

definition recvfrom_spec :: "'w sys \<Rightarrow> ('w \<Rightarrow> fd \<Rightarrow> (byte list \<times> sockaddr) list) \<Rightarrow> bool" where
  "recvfrom_spec S dgrams \<longleftrightarrow>
     (\<forall>fd n w.
        (dgrams w fd = [] \<longrightarrow>
           (\<exists>w'. sys_recvfrom S fd n w = (Inl EAGAIN, w') \<and> dgrams w' fd = [])) \<and>
        (\<forall>bs sa ds. dgrams w fd = (bs, sa) # ds \<longrightarrow>
           (\<exists>w'. sys_recvfrom S fd n w = (Inr (take n bs, sa), w') \<and> dgrams w' fd = ds)))"

text \<open>
  \<^verbatim>\<open>accept\<close> takes the first connection that waits, or fails: with \<^verbatim>\<open>EAGAIN\<close> only if none waits, and for any
  other reason (no more descriptors, an aborted connection, a signal) also if some do.
\<close>

definition accept_spec :: "'w sys \<Rightarrow> ('w \<Rightarrow> fd \<Rightarrow> fd list) \<Rightarrow> bool" where
  "accept_spec S pending \<longleftrightarrow>
     (\<forall>fd w r w'. sys_accept S fd w = (r, w') \<longrightarrow>
        (case r of
           Inr c \<Rightarrow> pending w fd = c # pending w' fd
         | Inl e \<Rightarrow> (\<exists>gone. pending w fd = gone @ pending w' fd) \<and> (e = EAGAIN \<longrightarrow> pending w fd = [])))"

text \<open>\<open>flags w fd\<close> are the file status flags, which only \<^verbatim>\<open>F_SETFL\<close> changes among these calls.\<close>

definition flags_spec :: "'w sys \<Rightarrow> ('w \<Rightarrow> fd \<Rightarrow> u32) \<Rightarrow> bool" where
  "flags_spec S flags \<longleftrightarrow>
     (\<forall>fd w. \<exists>w'. sys_fcntl_getfl S fd w = (Inr (flags w fd), w') \<and> flags w' = flags w) \<and>
     (\<forall>fd fl w. \<exists>w'. sys_fcntl_setfl S fd fl w = (Inr (), w') \<and> flags w' = (flags w)(fd := fl)) \<and>
     (\<forall>fd opt w. flags (snd (sys_setsockopt S fd opt w)) = flags w)"

text \<open>
  A pipe: \<open>piped w rfd\<close> are the bytes in the pipe with read end \<open>rfd\<close> and write end \<open>wfd\<close>. It has
  room for at least \<open>cap\<close> bytes; a read takes as many as are asked for and there.
\<close>

definition pipe_spec :: "'w sys \<Rightarrow> ('w \<Rightarrow> byte list) \<Rightarrow> fd \<Rightarrow> fd \<Rightarrow> nat \<Rightarrow> bool" where
  "pipe_spec S piped rfd wfd cap \<longleftrightarrow>
     (\<forall>b w. length (piped w) < cap \<longrightarrow>
        (\<exists>w'. sys_write S wfd [b] w = (Inr 1, w') \<and> piped w' = piped w @ [b])) \<and>
     (\<forall>n w. piped w \<noteq> [] \<longrightarrow>
        (\<exists>w'. sys_read S rfd n w = (Inr (take n (piped w)), w') \<and> piped w' = drop n (piped w)))"

end
