(* ===== verification/Wrap.thy ===== *)
theory Wrap
  imports Sys
begin

text \<open>
  The wrappers of \<^verbatim>\<open>include/moonnet/wrap.h\<close> and \<^verbatim>\<open>src/wrap.cpp\<close> (the POSIX half): socket options,
  calls that end the program when they fail, calls that are repeated when a signal interrupts
  them, and reading and writing of whole blocks and lines. A buffer that is filled is the list
  of the bytes put there. A \<^verbatim>\<open>goto again\<close> loop is \<open>None\<close> if it never ends.
\<close>

section \<open>Socket options\<close>

definition perr_exit :: "'a res" where
  "perr_exit = Inl (Exit 1)"

definition settcpnodelay :: "'w sys \<Rightarrow> fd \<Rightarrow> 'w \<Rightarrow> 'w res" where
  "settcpnodelay S fd w =
     (case sys_setsockopt S fd TCP_NODELAY w of (Inl _, _) \<Rightarrow> perr_exit | (Inr _, w) \<Rightarrow> Inr w)"

definition setreuse :: "'w sys \<Rightarrow> fd \<Rightarrow> 'w \<Rightarrow> 'w res" where
  "setreuse S fd w =
     (case sys_setsockopt S fd SO_REUSEADDR w of
        (Inl _, _) \<Rightarrow> perr_exit
      | (Inr _, w) \<Rightarrow>
          (case sys_setsockopt S fd SO_REUSEPORT w of (Inl _, _) \<Rightarrow> perr_exit | (Inr _, w) \<Rightarrow> Inr w))"

definition O_NONBLOCK :: u32 where
  "O_NONBLOCK = 0x800"

text \<open>A failed \<^verbatim>\<open>fcntl(fd, F_GETFL)\<close> returns -1, which is passed on; the result of setting is ignored.\<close>

definition setnonblock :: "'w sys \<Rightarrow> fd \<Rightarrow> 'w \<Rightarrow> 'w" where
  "setnonblock S fd w =
     (case sys_fcntl_getfl S fd w of (r, w) \<Rightarrow>
        snd (sys_fcntl_setfl S fd ((case r of Inl _ \<Rightarrow> -1 | Inr fl \<Rightarrow> fl) OR O_NONBLOCK) w))"

section \<open>Calls that must succeed\<close>

definition Bind :: "'w sys \<Rightarrow> fd \<Rightarrow> sockaddr \<Rightarrow> 'w \<Rightarrow> 'w res" where
  "Bind S fd sa w = (case sys_bind S fd sa w of (Inl _, _) \<Rightarrow> perr_exit | (Inr _, w) \<Rightarrow> Inr w)"

definition Connect :: "'w sys \<Rightarrow> fd \<Rightarrow> sockaddr \<Rightarrow> 'w \<Rightarrow> 'w res" where
  "Connect S fd sa w = (case sys_connect S fd sa w of (Inl _, _) \<Rightarrow> perr_exit | (Inr _, w) \<Rightarrow> Inr w)"

definition Listen :: "'w sys \<Rightarrow> fd \<Rightarrow> int \<Rightarrow> 'w \<Rightarrow> 'w res" where
  "Listen S fd backlog w =
     (case sys_listen S fd backlog w of (Inl _, _) \<Rightarrow> perr_exit | (Inr _, w) \<Rightarrow> Inr w)"

definition Socket :: "'w sys \<Rightarrow> socktype \<Rightarrow> 'w \<Rightarrow> (fd \<times> 'w) res" where
  "Socket S t w = (case sys_socket S t w of (Inl _, _) \<Rightarrow> perr_exit | (Inr n, w) \<Rightarrow> Inr (n, w))"

definition Close :: "'w sys \<Rightarrow> fd \<Rightarrow> 'w \<Rightarrow> 'w res" where
  "Close S fd w = (case sys_close S fd w of (Inl _, _) \<Rightarrow> perr_exit | (Inr _, w) \<Rightarrow> Inr w)"

section \<open>Calls that are repeated\<close>

text \<open>The descriptor accepted, or -1.\<close>

partial_function (option) Accept :: "'w sys \<Rightarrow> fd \<Rightarrow> 'w \<Rightarrow> (fd \<times> 'w) res option" where
  "Accept S fd w =
     (case sys_accept S fd w of
        (Inl e, w') \<Rightarrow>
          if e = ECONNABORTED \<or> e = EINTR then Accept S fd w'
          else if e = EAGAIN \<or> e = EWOULDBLOCK then Some (Inr (-1, w'))
          else Some perr_exit
      | (Inr n, w') \<Rightarrow> Some (Inr (n, w')))"

partial_function (option) Read :: "'w sys \<Rightarrow> fd \<Rightarrow> nat \<Rightarrow> 'w \<Rightarrow> ((int + byte list) \<times> 'w) option" where
  "Read S fd nbytes w =
     (case sys_read S fd nbytes w of
        (Inl e, w') \<Rightarrow> if e = EINTR then Read S fd nbytes w' else Some (Inl e, w')
      | (Inr bs, w') \<Rightarrow> Some (Inr bs, w'))"

partial_function (option) Write :: "'w sys \<Rightarrow> fd \<Rightarrow> byte list \<Rightarrow> 'w \<Rightarrow> ((int + nat) \<times> 'w) option" where
  "Write S fd bs w =
     (case sys_write S fd bs w of
        (Inl e, w') \<Rightarrow> if e = EINTR then Write S fd bs w' else Some (Inl e, w')
      | (Inr n, w') \<Rightarrow> Some (Inr n, w'))"

text \<open>The loop of \<^verbatim>\<open>Readn\<close>; the bytes read so far are those between \<^verbatim>\<open>vptr\<close> and \<^verbatim>\<open>ptr\<close>.\<close>

partial_function (option) readn_loop ::
  "'w sys \<Rightarrow> fd \<Rightarrow> nat \<Rightarrow> byte list \<Rightarrow> 'w \<Rightarrow> ((int + byte list) \<times> 'w) option" where
  "readn_loop S fd nleft got w =
     (if nleft = 0 then Some (Inr got, w)
      else case sys_read S fd nleft w of
        (Inl e, w') \<Rightarrow> if e = EINTR then readn_loop S fd nleft got w' else Some (Inl e, w')
      | (Inr bs, w') \<Rightarrow>
          if bs = [] then Some (Inr got, w')
          else readn_loop S fd (nleft - length bs) (got @ bs) w')"

definition Readn :: "'w sys \<Rightarrow> fd \<Rightarrow> nat \<Rightarrow> 'w \<Rightarrow> ((int + byte list) \<times> 'w) option" where
  "Readn S fd n w = readn_loop S fd n [] w"

text \<open>The loop of \<^verbatim>\<open>Writen\<close>; the error number is 0 when \<^verbatim>\<open>write\<close> returned 0.\<close>

partial_function (option) writen_loop :: "'w sys \<Rightarrow> fd \<Rightarrow> byte list \<Rightarrow> 'w \<Rightarrow> ((int + unit) \<times> 'w) option" where
  "writen_loop S fd bs w =
     (if bs = [] then Some (Inr (), w)
      else case sys_write S fd bs w of
        (Inl e, w') \<Rightarrow> if e = EINTR then writen_loop S fd bs w' else Some (Inl e, w')
      | (Inr n, w') \<Rightarrow> if n = 0 then Some (Inl 0, w') else writen_loop S fd (drop n bs) w')"

definition Writen :: "'w sys \<Rightarrow> fd \<Rightarrow> byte list \<Rightarrow> 'w \<Rightarrow> ((int + nat) \<times> 'w) option" where
  "Writen S fd bs w =
     (case writen_loop S fd bs w of
        None \<Rightarrow> None
      | Some (Inl e, w') \<Rightarrow> Some (Inl e, w')
      | Some (Inr _, w') \<Rightarrow> Some (Inr (length bs), w'))"

section \<open>Reading a line\<close>

text \<open>The static variables of \<^verbatim>\<open>my_read\<close>, one set for the whole program.\<close>

record my_read_state =
  mr_cnt :: int
  mr_ptr :: nat
  mr_buf :: "byte list"

definition READ_BUF :: nat where
  "READ_BUF = 100"

definition my_read_init :: my_read_state where
  "my_read_init = \<lparr>mr_cnt = 0, mr_ptr = 0, mr_buf = replicate READ_BUF 0\<rparr>"

text \<open>The end of \<^verbatim>\<open>my_read\<close>: one byte from the buffer.\<close>

definition my_read_take :: "my_read_state \<Rightarrow> (byte \<times> my_read_state) res" where
  "my_read_take st =
     (if mr_ptr st < length (mr_buf st)
      then Inr (mr_buf st ! mr_ptr st, st\<lparr>mr_cnt := mr_cnt st - 1, mr_ptr := mr_ptr st + 1\<rparr>)
      else Inl Out_of_bounds)"

text \<open>The result is a byte (returned 1), the end of the input (0) or an error (-1).\<close>

datatype my_read_result = Got byte | Eof | Err int

partial_function (option) my_read ::
  "'w sys \<Rightarrow> fd \<Rightarrow> my_read_state \<Rightarrow> 'w \<Rightarrow> (my_read_result \<times> my_read_state \<times> 'w) res option" where
  "my_read S fd st w =
     (if mr_cnt st \<le> 0
      then case sys_read S fd READ_BUF w of
        (Inl e, w') \<Rightarrow>
          if e = EINTR then my_read S fd (st\<lparr>mr_cnt := -1\<rparr>) w'
          else Some (Inr (Err e, st\<lparr>mr_cnt := -1\<rparr>, w'))
      | (Inr bs, w') \<Rightarrow>
          if bs = [] then Some (Inr (Eof, st\<lparr>mr_cnt := 0\<rparr>, w'))
          else Some (bindR (my_read_take (st\<lparr>mr_cnt := int (length bs), mr_ptr := 0,
                                              mr_buf := write_at 0 bs (mr_buf st)\<rparr>))
                       (\<lambda>(c, st). Inr (Got c, st, w')))
      else Some (bindR (my_read_take st) (\<lambda>(c, st). Inr (Got c, st, w))))"

text \<open>
  The loop of \<^verbatim>\<open>Readline\<close>: \<open>k\<close> is \<^verbatim>\<open>maxlen - n\<close>, \<open>line\<close> what is stored in front of \<^verbatim>\<open>ptr\<close>. The result is
  the value returned and the line, which is followed by a zero byte; -1 leaves none.
\<close>

fun readline_loop ::
  "'w sys \<Rightarrow> fd \<Rightarrow> nat \<Rightarrow> nat \<Rightarrow> byte list \<Rightarrow> my_read_state \<Rightarrow> 'w \<Rightarrow>
   ((int + nat \<times> byte list) \<times> my_read_state \<times> 'w) res option" where
  "readline_loop S fd 0 n line st w = Some (Inr (Inr (n, line), st, w))"
| "readline_loop S fd (Suc k) n line st w =
     (case my_read S fd st w of
        None \<Rightarrow> None
      | Some (Inl f) \<Rightarrow> Some (Inl f)
      | Some (Inr (Got c, st, w)) \<Rightarrow>
          if c = 10 then Some (Inr (Inr (n, line @ [c]), st, w))
          else readline_loop S fd k (Suc n) (line @ [c]) st w
      | Some (Inr (Eof, st, w)) \<Rightarrow> Some (Inr (Inr (n - 1, line), st, w))
      | Some (Inr (Err e, st, w)) \<Rightarrow> Some (Inr (Inl e, st, w)))"

text \<open>For \<^verbatim>\<open>maxlen\<close> 0 the terminating zero does not fit the buffer.\<close>

definition Readline ::
  "'w sys \<Rightarrow> fd \<Rightarrow> nat \<Rightarrow> my_read_state \<Rightarrow> 'w \<Rightarrow>
   ((int + nat \<times> byte list) \<times> my_read_state \<times> 'w) res option" where
  "Readline S fd maxlen st w =
     (if maxlen = 0 then Some (Inl Out_of_bounds) else readline_loop S fd (maxlen - 1) 1 [] st w)"

end
