(* ===== verification/Sample_Kernel.thy ===== *)
theory Sample_Kernel
  imports Sys
begin

text \<open>
  A small kernel that meets the hypotheses on the system calls, so that theorems about
  arbitrary kernels can be applied to concrete runs: interest lists, descriptors with unread
  input and written output, a bound on the bytes one write takes, queues of datagrams
  and of pending connections.
\<close>

record kernel =
  k_interest :: "fd \<Rightarrow> fd \<Rightarrow> epoll_event option"
  k_input :: "fd \<Rightarrow> byte list"
  k_output :: "fd \<Rightarrow> byte list"
  k_room :: nat
  k_dgrams :: "fd \<Rightarrow> (byte list \<times> sockaddr) list"
  k_pending :: "fd \<Rightarrow> fd list"
  k_flags :: "fd \<Rightarrow> u32"
  k_fds :: "fd list"
  k_next :: fd

definition kernel0 :: kernel where
  "kernel0 = \<lparr>k_interest = (\<lambda>_ _. None), k_input = (\<lambda>_. []), k_output = (\<lambda>_. []), k_room = 4,
     k_dgrams = (\<lambda>_. []), k_pending = (\<lambda>_. []), k_flags = (\<lambda>_. 0),
     k_fds = [], k_next = 3\<rparr>"

definition k_open :: "(kernel, fd) syscall" where
  "k_open k = (Inr (k_next k), k\<lparr>k_fds := k_fds k @ [k_next k], k_next := k_next k + 1\<rparr>)"

definition k_ctl :: "fd \<Rightarrow> epoll_op \<Rightarrow> fd \<Rightarrow> epoll_event option \<Rightarrow> (kernel, unit) syscall" where
  "k_ctl ep op fd e k =
     (if (op = EPOLL_CTL_ADD) = (k_interest k ep fd = None)
      then (Inr (), k\<lparr>k_interest :=
              set_interest ep fd (if op = EPOLL_CTL_DEL then None else e) (k_interest k)\<rparr>)
      else (Inl (if op = EPOLL_CTL_ADD then 17 else 2), k))"

text \<open>The descriptors with unread input are ready.\<close>

definition k_ready :: "fd \<Rightarrow> kernel \<Rightarrow> fd \<Rightarrow> epoll_event list" where
  "k_ready ep k fd =
     (case k_interest k ep fd of
        None \<Rightarrow> []
      | Some (m, p) \<Rightarrow> if m AND EPOLLIN \<noteq> 0 \<and> k_input k fd \<noteq> [] then [(EPOLLIN, p)] else [])"

definition k_wait :: "fd \<Rightarrow> nat \<Rightarrow> int \<Rightarrow> (kernel, epoll_event list) syscall" where
  "k_wait ep n t k = (Inr (take n (concat (map (k_ready ep k) (remdups (k_fds k))))), k)"

definition k_read :: "fd \<Rightarrow> nat \<Rightarrow> (kernel, byte list) syscall" where
  "k_read fd n k =
     (if k_input k fd = [] then (Inl EAGAIN, k)
      else (Inr (take n (k_input k fd)), k\<lparr>k_input := (k_input k)(fd := drop n (k_input k fd))\<rparr>))"

definition k_write :: "fd \<Rightarrow> byte list \<Rightarrow> (kernel, nat) syscall" where
  "k_write fd bs k =
     (let n = min (k_room k) (length bs)
      in if n = 0 \<and> bs \<noteq> [] then (Inl EAGAIN, k)
         else (Inr n, k\<lparr>k_output := (k_output k)(fd := k_output k fd @ take n bs)\<rparr>))"

definition k_recvfrom :: "fd \<Rightarrow> nat \<Rightarrow> (kernel, byte list \<times> sockaddr) syscall" where
  "k_recvfrom fd n k =
     (case k_dgrams k fd of
        [] \<Rightarrow> (Inl EAGAIN, k)
      | (bs, sa) # ds \<Rightarrow> (Inr (take n bs, sa), k\<lparr>k_dgrams := (k_dgrams k)(fd := ds)\<rparr>))"

definition k_accept :: "fd \<Rightarrow> (kernel, fd) syscall" where
  "k_accept fd k =
     (case k_pending k fd of
        [] \<Rightarrow> (Inl EAGAIN, k)
      | c # cs \<Rightarrow> (Inr c, k\<lparr>k_pending := (k_pending k)(fd := cs), k_fds := k_fds k @ [c]\<rparr>))"

definition sample_sys :: "kernel sys" where
  "sample_sys =
     \<lparr>sys_epoll_create1 = k_open, sys_epoll_ctl = k_ctl, sys_epoll_wait = k_wait,
      sys_eventfd = k_open, sys_read = k_read, sys_readv = (\<lambda>fd ns. k_read fd (sum_list ns)),
      sys_write = k_write, sys_writev = (\<lambda>fd bss. k_write fd (concat bss)),
      sys_close = (\<lambda>fd k. (Inr (), k\<lparr>k_fds := remove1 fd (k_fds k)\<rparr>)),
      sys_socket = (\<lambda>_. k_open), sys_setsockopt = (\<lambda>_ _ k. (Inr (), k)),
      sys_fcntl_getfl = (\<lambda>fd k. (Inr (k_flags k fd), k)),
      sys_fcntl_setfl = (\<lambda>fd fl k. (Inr (), k\<lparr>k_flags := (k_flags k)(fd := fl)\<rparr>)),
      sys_bind = (\<lambda>_ _ k. (Inr (), k)), sys_listen = (\<lambda>_ _ k. (Inr (), k)),
      sys_connect = (\<lambda>_ _ k. (Inr (), k)), sys_accept = k_accept,
      sys_recvfrom = k_recvfrom, sys_sendto = (\<lambda>_ bs _ k. (Inr (length bs), k)),
      sys_timerfd_create = k_open, sys_timerfd_settime = (\<lambda>_ _ k. (Inr (), k)),
      sys_pipe = (\<lambda>k. (Inr (k_next k, k_next k + 1), k\<lparr>k_next := k_next k + 2\<rparr>)),
      sys_sigaction = (\<lambda>_ k. (Inr (), k))\<rparr>"

lemma sample_ctl_spec: "epoll_ctl_spec sample_sys k_interest"
  by (auto simp: epoll_ctl_spec_def sample_sys_def k_ctl_def split: if_splits)

lemma sample_ctl_live: "epoll_ctl_live sample_sys k_interest (\<lambda>_ _. True)"
  by (auto simp: epoll_ctl_live_def sample_sys_def k_ctl_def)

lemma k_ready_interest: "(m, p) \<in> set (k_ready ep k fd) \<Longrightarrow> \<exists>m'. k_interest k ep fd = Some (m', p)"
  by (cases "k_interest k ep fd") (auto simp: k_ready_def split: if_splits)

lemma sample_wait_spec: "epoll_wait_spec sample_sys k_interest"
  unfolding epoll_wait_spec_def
proof (intro allI impI)
  fix ep n t w r w'
  assume "sys_epoll_wait sample_sys ep n t w = (r, w')"
  then have r: "r = Inr (take n (concat (map (k_ready ep w) (remdups (k_fds w)))))" "w' = w"
    by (auto simp: sample_sys_def k_wait_def)
  have "\<exists>fd m'. k_interest w ep fd = Some (m', p)"
    if "(m, p) \<in> set (take n (concat (map (k_ready ep w) (remdups (k_fds w)))))" for m p
    using k_ready_interest in_set_takeD [OF that] by fastforce
  then show "k_interest w' = k_interest w \<and>
      (\<forall>es. r = Inr es \<longrightarrow> length es \<le> n \<and>
        (\<forall>(m, p) \<in> set es. \<exists>fd m'. k_interest w ep fd = Some (m', p)))"
    unfolding r by simp blast
qed

end
