(* ===== verification/Wrap_Laws.thy ===== *)
theory Wrap_Laws
  imports Wrap Sample_Kernel
begin

text \<open>
  The laws of the wrappers that loop: whole blocks are read and written exactly, lines are
  read in order, and interruptions by signals are neither reported nor endless.
\<close>

section \<open>What the calls promise\<close>

text \<open>read(2) gives a prefix of the unread bytes, an empty one only when there are none.\<close>

definition read_spec :: "'w sys \<Rightarrow> ('w \<Rightarrow> fd \<Rightarrow> byte list) \<Rightarrow> bool" where
  "read_spec S unread \<longleftrightarrow>
     (\<forall>fd n w r w'. sys_read S fd n w = (r, w') \<longrightarrow>
        (case r of
           Inl _ \<Rightarrow> unread w' = unread w
         | Inr bs \<Rightarrow> length bs \<le> n \<and> unread w fd = bs @ unread w' fd \<and>
                     (0 < n \<and> bs = [] \<longrightarrow> unread w fd = [])))"

text \<open>Signals do not interrupt for ever: \<open>m\<close> bounds the interruptions still to come.\<close>

definition finite_signals :: "'w sys \<Rightarrow> ('w \<Rightarrow> nat) \<Rightarrow> bool" where
  "finite_signals S m \<longleftrightarrow>
     (\<forall>fd n w w'. sys_read S fd n w = (Inl EINTR, w') \<longrightarrow> m w' < m w) \<and>
     (\<forall>fd bs w w'. sys_write S fd bs w = (Inl EINTR, w') \<longrightarrow> m w' < m w) \<and>
     (\<forall>fd w e w'. sys_accept S fd w = (Inl e, w') \<and> (e = EINTR \<or> e = ECONNABORTED) \<longrightarrow> m w' < m w)"

lemma read_specD:
  assumes "read_spec S unread" "sys_read S fd n w = (Inr bs, w')"
  shows "length bs \<le> n" "unread w fd = bs @ unread w' fd" "0 < n \<Longrightarrow> bs = [] \<Longrightarrow> unread w fd = []"
  using assms(1) [unfolded read_spec_def, rule_format, OF assms(2)] by auto

lemma read_spec_err:
  assumes "read_spec S unread" "sys_read S fd n w = (Inl e, w')"
  shows "unread w' = unread w"
  using assms(1) [unfolded read_spec_def, rule_format, OF assms(2)] by simp

text \<open>
  A call of \<^verbatim>\<open>read\<close> on the descriptor fails with \<open>e\<close>, after calls that were interrupted or delivered
  bytes. This is the only reason for a wrapper to report an error.
\<close>

inductive read_fails :: "'w sys \<Rightarrow> fd \<Rightarrow> 'w \<Rightarrow> int \<Rightarrow> 'w \<Rightarrow> bool" for S fd where
  now: "sys_read S fd n w = (Inl e, w') \<Longrightarrow> e \<noteq> EINTR \<Longrightarrow> read_fails S fd w e w'"
| after_signal: "sys_read S fd n w = (Inl EINTR, w1) \<Longrightarrow> read_fails S fd w1 e w' \<Longrightarrow> read_fails S fd w e w'"
| after_data: "sys_read S fd n w = (Inr bs, w1) \<Longrightarrow> bs \<noteq> [] \<Longrightarrow> read_fails S fd w1 e w' \<Longrightarrow> read_fails S fd w e w'"

text \<open>The same for \<^verbatim>\<open>write\<close>: every call is given what the calls before it have left.\<close>

inductive write_fails :: "'w sys \<Rightarrow> fd \<Rightarrow> byte list \<Rightarrow> 'w \<Rightarrow> int \<Rightarrow> 'w \<Rightarrow> bool" for S fd where
  now: "sys_write S fd bs w = (Inl e, w') \<Longrightarrow> e \<noteq> EINTR \<Longrightarrow> write_fails S fd bs w e w'"
| after_signal: "sys_write S fd bs w = (Inl EINTR, w1) \<Longrightarrow> write_fails S fd bs w1 e w' \<Longrightarrow> write_fails S fd bs w e w'"
| after_part: "sys_write S fd bs w = (Inr n, w1) \<Longrightarrow> 0 < n \<Longrightarrow> n < length bs \<Longrightarrow> write_fails S fd (drop n bs) w1 e w' \<Longrightarrow>
    write_fails S fd bs w e w'"

lemma read_fails_eintr: "read_fails S fd w e w' \<Longrightarrow> e \<noteq> EINTR"
  by (induction rule: read_fails.induct) simp_all

lemma write_fails_eintr: "write_fails S fd bs w e w' \<Longrightarrow> e \<noteq> EINTR"
  by (induction rule: write_fails.induct) simp_all

section \<open>Whole blocks\<close>

lemma readn_loop_ok:
  assumes spec: "read_spec S unread" and sig: "finite_signals S m"
  shows "\<exists>r w'. readn_loop S fd nleft got w = Some (r, w') \<and>
           (case r of
              Inl e \<Rightarrow> read_fails S fd w e w' \<and> (\<exists>k < nleft. unread w' fd = drop k (unread w fd))
            | Inr bs \<Rightarrow> bs = got @ take nleft (unread w fd) \<and> unread w' fd = drop nleft (unread w fd))"
proof (induction "(nleft, m w)" arbitrary: nleft got w
    rule: wf_induct_rule [OF wf_lex_prod [OF wf_less_than wf_less_than]])
  case 1
  note IH = 1
  show ?case
  proof (cases "nleft = 0")
    case True
    then show ?thesis by (subst readn_loop.simps) simp
  next
    case False
    obtain r w1 where r: "sys_read S fd nleft w = (r, w1)" by fastforce
    show ?thesis
    proof (cases r)
      case (Inl e)
      show ?thesis
      proof (cases "e = EINTR")
        case True
        have "m w1 < m w" using sig r Inl True by (simp add: finite_signals_def)
        then obtain r' w' where "readn_loop S fd nleft got w1 = Some (r', w')"
            "case r' of Inl e \<Rightarrow> read_fails S fd w1 e w' \<and> (\<exists>k < nleft. unread w' fd = drop k (unread w fd))
             | Inr bs \<Rightarrow> bs = got @ take nleft (unread w fd) \<and> unread w' fd = drop nleft (unread w fd)"
          using IH [of nleft w1 got, unfolded read_spec_err [OF spec r [unfolded Inl]]] by auto
        then show ?thesis
          using False r Inl True read_fails.after_signal [of S fd nleft w w1]
          by (subst readn_loop.simps) (cases r', auto)
      next
        case no: False
        then have "read_fails S fd w e w1" using r Inl by (auto intro: read_fails.now)
        moreover have "unread w1 fd = drop 0 (unread w fd)" using read_spec_err [OF spec r [unfolded Inl]] by simp
        ultimately show ?thesis using False r Inl no by (subst readn_loop.simps) auto
      qed
    next
      case (Inr bs)
      note rd = read_specD [OF spec r [unfolded Inr]]
      show ?thesis
      proof (cases "bs = []")
        case True
        then have "unread w fd = []" "unread w1 fd = []" using rd False by auto
        then show ?thesis using False r Inr True by (subst readn_loop.simps) simp
      next
        case ne: False
        have "nleft - length bs < nleft" using False ne by simp
        then obtain r' w' where "readn_loop S fd (nleft - length bs) (got @ bs) w1 = Some (r', w')"
            "case r' of Inl e \<Rightarrow> read_fails S fd w1 e w' \<and> (\<exists>k < nleft - length bs. unread w' fd = drop k (unread w1 fd))
             | Inr b' \<Rightarrow> b' = (got @ bs) @ take (nleft - length bs) (unread w1 fd) \<and>
                         unread w' fd = drop (nleft - length bs) (unread w1 fd)"
          using IH [of "nleft - length bs" w1 "got @ bs"] by auto
        moreover have "\<exists>j < nleft. unread w' fd = drop j (unread w fd)"
          if "k < nleft - length bs" "unread w' fd = drop k (unread w1 fd)" for k
          using that rd(1,2) by (intro exI [of _ "length bs + k"]) simp
        ultimately show ?thesis
          using False ne r Inr rd(1,2) read_fails.after_data [of S fd nleft w bs w1]
          by (subst readn_loop.simps) (auto split: sum.splits)
      qed
    qed
  qed
qed

lemma write_spec_take:
  assumes "write_spec S sent" "sys_write S fd bs w = (Inr n, w')" "bs \<noteq> []"
  shows "0 < n" "n \<le> length bs" "sent w' fd = sent w fd @ take n bs"
  using assms(1) [unfolded write_spec_def, rule_format, OF assms(2)] assms(3) by simp_all

lemma write_spec_none:
  assumes "write_spec S sent" "sys_write S fd bs w = (Inl e, w')"
  shows "sent w' = sent w"
  using assms(1) [unfolded write_spec_def, rule_format, OF assms(2)] by simp

lemma writen_loop_ok:
  assumes spec: "write_spec S sent" and sig: "finite_signals S m"
  shows "\<exists>r w'. writen_loop S fd bs w = Some (r, w') \<and>
           (case r of
              Inl e \<Rightarrow> write_fails S fd bs w e w' \<and> (\<exists>k < length bs. sent w' fd = sent w fd @ take k bs)
            | Inr _ \<Rightarrow> sent w' fd = sent w fd @ bs)"
proof (induction "(length bs, m w)" arbitrary: bs w
    rule: wf_induct_rule [OF wf_lex_prod [OF wf_less_than wf_less_than]])
  case 1
  note IH = 1
  show ?case
  proof (cases "bs = []")
    case True
    then show ?thesis by (subst writen_loop.simps) simp
  next
    case False
    obtain r w1 where r: "sys_write S fd bs w = (r, w1)" by fastforce
    show ?thesis
    proof (cases r)
      case (Inl e)
      note same = write_spec_none [OF spec r [unfolded Inl]]
      show ?thesis
      proof (cases "e = EINTR")
        case True
        have "m w1 < m w" using sig r Inl True by (simp add: finite_signals_def)
        then show ?thesis
          using IH [of bs w1, unfolded same] False r Inl True
          by (subst writen_loop.simps) (auto split: sum.splits intro: write_fails.after_signal)
      next
        case no: False
        then show ?thesis
          using False r Inl same by (subst writen_loop.simps) (auto intro!: write_fails.now exI [of _ 0])
      qed
    next
      case (Inr n)
      note Inr_n = Inr
      note wr = write_spec_take [OF spec r [unfolded Inr] False]
      have "length (drop n bs) < length bs" using wr False by simp
      then obtain r' w' where w': "writen_loop S fd (drop n bs) w1 = Some (r', w')"
          "case r' of
             Inl e \<Rightarrow> write_fails S fd (drop n bs) w1 e w' \<and> (\<exists>k < length (drop n bs). sent w' fd = sent w1 fd @ take k (drop n bs))
           | Inr _ \<Rightarrow> sent w' fd = sent w1 fd @ drop n bs"
        using IH [of "drop n bs" w1] by auto
      have eq: "writen_loop S fd bs w = Some (r', w')"
        using False r Inr wr(1) w'(1) by (subst writen_loop.simps) simp
      show ?thesis
      proof (cases r')
        case (Inl e)
        then obtain k where k: "write_fails S fd (drop n bs) w1 e w'" "k < length bs - n" "sent w' fd = sent w1 fd @ take k (drop n bs)"
          using w'(2) by auto
        then have "sent w' fd = sent w fd @ take (n + k) bs" using wr(3) by (simp add: take_add)
        moreover have "write_fails S fd bs w e w'"
          using write_fails.after_part [OF r [unfolded Inr_n]] k wr(1) by simp
        ultimately show ?thesis using eq Inl k by (auto intro!: exI [of _ "n + k"])
      next
        case (Inr u)
        then show ?thesis using eq w'(2) wr(3) by simp
      qed
    qed
  qed
qed

section \<open>Lines\<close>

text \<open>The bytes still to come: those in the static buffer, then those of the descriptor.\<close>

definition mr_cached :: "my_read_state \<Rightarrow> byte list" where
  "mr_cached st = take (nat (mr_cnt st)) (drop (mr_ptr st) (mr_buf st))"

definition mr_inv :: "my_read_state \<Rightarrow> bool" where
  "mr_inv st \<longleftrightarrow> length (mr_buf st) = READ_BUF \<and>
     (0 < mr_cnt st \<longrightarrow> mr_ptr st + nat (mr_cnt st) \<le> READ_BUF)"

definition mr_stream :: "('w \<Rightarrow> fd \<Rightarrow> byte list) \<Rightarrow> fd \<Rightarrow> my_read_state \<Rightarrow> 'w \<Rightarrow> byte list" where
  "mr_stream unread fd st w = mr_cached st @ unread w fd"

lemma my_read_take_ok:
  assumes "mr_inv st" "0 < mr_cnt st"
  shows "\<exists>c st'. my_read_take st = Inr (c, st') \<and> mr_inv st' \<and> mr_cached st = c # mr_cached st'"
proof -
  have lt: "mr_ptr st < length (mr_buf st)" using assms by (auto simp: mr_inv_def)
  let ?st = "st\<lparr>mr_cnt := mr_cnt st - 1, mr_ptr := mr_ptr st + 1\<rparr>"
  have n: "nat (mr_cnt st) = Suc (nat (mr_cnt st - 1))" using assms(2) by simp
  have "mr_cached st = mr_buf st ! mr_ptr st # mr_cached ?st"
    using lt by (simp add: mr_cached_def n Cons_nth_drop_Suc [symmetric])
  moreover have "mr_inv ?st" using assms by (auto simp: mr_inv_def)
  ultimately show ?thesis using lt by (simp add: my_read_take_def)
qed

lemma my_read_refill:
  assumes "mr_inv st" "bs \<noteq> []" "length bs \<le> READ_BUF"
  shows "\<exists>c st'. my_read_take (st\<lparr>mr_cnt := int (length bs), mr_ptr := 0, mr_buf := write_at 0 bs (mr_buf st)\<rparr>) = Inr (c, st') \<and>
    mr_inv st' \<and> bs = c # mr_cached st'"
proof -
  let ?st = "st\<lparr>mr_cnt := int (length bs), mr_ptr := 0, mr_buf := write_at 0 bs (mr_buf st)\<rparr>"
  have "mr_inv ?st" "mr_cached ?st = bs" "0 < mr_cnt ?st"
    using assms by (auto simp: mr_inv_def mr_cached_def write_at_def)
  then show ?thesis using my_read_take_ok by metis
qed

definition my_read_post ::
  "'w sys \<Rightarrow> ('w \<Rightarrow> fd \<Rightarrow> byte list) \<Rightarrow> fd \<Rightarrow> 'w \<Rightarrow> byte list \<Rightarrow> (my_read_result \<times> my_read_state \<times> 'w) \<Rightarrow> bool" where
  "my_read_post S unread fd w str = (\<lambda>(r, st', w').
     mr_inv st' \<and>
     (case r of
        Got c \<Rightarrow> str = c # mr_stream unread fd st' w' \<and> (\<forall>e v. read_fails S fd w' e v \<longrightarrow> read_fails S fd w e v)
      | Eof \<Rightarrow> str = [] \<and> mr_stream unread fd st' w' = []
      | Err e \<Rightarrow> read_fails S fd w e w' \<and> mr_stream unread fd st' w' = str))"

lemma my_read_ok:
  assumes spec: "read_spec S unread" and sig: "finite_signals S m" and inv: "mr_inv st"
  shows "\<exists>x. my_read S fd st w = Some (Inr x) \<and> my_read_post S unread fd w (mr_stream unread fd st w) x"
  using inv
proof (induction "m w" arbitrary: st w rule: less_induct)
  case less
  show ?case
  proof (cases "mr_cnt st \<le> 0")
    case False
    then obtain c st' where "my_read_take st = Inr (c, st')" "mr_inv st'" "mr_cached st = c # mr_cached st'"
      using my_read_take_ok [OF less.prems] by auto
    then show ?thesis
      using False by (subst my_read.simps) (simp add: my_read_post_def mr_stream_def)
  next
    case True
    then have none: "mr_cached st = []" by (simp add: mr_cached_def)
    obtain r w1 where r: "sys_read S fd READ_BUF w = (r, w1)" by fastforce
    show ?thesis
    proof (cases r)
      case (Inl e)
      let ?st = "st\<lparr>mr_cnt := -1\<rparr>"
      have st: "mr_inv ?st" "mr_stream unread fd ?st w1 = mr_stream unread fd st w"
        using less.prems none read_spec_err [OF spec r [unfolded Inl]]
        by (simp_all add: mr_inv_def mr_stream_def mr_cached_def)
      show ?thesis
      proof (cases "e = EINTR")
        case eintr: True
        have "m w1 < m w" using sig r Inl eintr by (simp add: finite_signals_def)
        then obtain x where x: "my_read S fd ?st w1 = Some (Inr x)" "my_read_post S unread fd w1 (mr_stream unread fd ?st w1) x"
          using less.hyps [of w1 ?st] st(1) by blast
        have "my_read_post S unread fd w (mr_stream unread fd st w) x"
          using x(2) read_fails.after_signal [OF r [unfolded Inl eintr]]
          by (auto simp: my_read_post_def st(2) split: my_read_result.splits)
        then show ?thesis using x(1) True r Inl eintr by (subst my_read.simps) simp
      next
        case False
        then show ?thesis
          using True r Inl st by (subst my_read.simps) (auto simp: my_read_post_def intro: read_fails.now)
      qed
    next
      case (Inr bs)
      note rd = read_specD [OF spec r [unfolded Inr]]
      show ?thesis
      proof (cases "bs = []")
        case bs: True
        then have "unread w fd = []" "unread w1 fd = []" using rd by (auto simp: READ_BUF_def)
        then show ?thesis
          using True r Inr bs less.prems none
          by (subst my_read.simps) (simp add: my_read_post_def mr_stream_def mr_cached_def mr_inv_def)
      next
        case ne: False
        obtain c st' where
            "my_read_take (st\<lparr>mr_cnt := int (length bs), mr_ptr := 0, mr_buf := write_at 0 bs (mr_buf st)\<rparr>) = Inr (c, st')"
            "mr_inv st'" "bs = c # mr_cached st'"
          using my_read_refill [OF less.prems ne rd(1)] by blast
        then show ?thesis
          using True r Inr ne none rd(2) read_fails.after_data [OF r [unfolded Inr] ne]
          by (subst my_read.simps) (simp add: my_read_post_def mr_stream_def)
      qed
    qed
  qed
qed

text \<open>The next line of at most \<open>k\<close> bytes, with its newline if that fits.\<close>

fun line_upto :: "nat \<Rightarrow> byte list \<Rightarrow> byte list" where
  "line_upto (Suc k) (c # cs) = (if c = 10 then [c] else c # line_upto k cs)"
| "line_upto _ _ = []"

text \<open>What \<^verbatim>\<open>Readline\<close> returns for a line: one more than its length when the limit cut it off.\<close>

definition line_cut :: "nat \<Rightarrow> byte list \<Rightarrow> bool" where
  "line_cut k line \<longleftrightarrow> length line = k \<and> (line = [] \<or> last line \<noteq> 10)"

lemma readline_loop_ok:
  assumes spec: "read_spec S unread" and sig: "finite_signals S m"
  shows "mr_inv st \<Longrightarrow>
    \<exists>r st' w'. readline_loop S fd k (Suc n) got st w = Some (Inr (r, st', w')) \<and> mr_inv st' \<and>
      (case r of
         Inl e \<Rightarrow> read_fails S fd w e w'
       | Inr (ret, line) \<Rightarrow>
           let new = line_upto k (mr_stream unread fd st w) in
           line = got @ new \<and> mr_stream unread fd st' w' = drop (length new) (mr_stream unread fd st w) \<and>
           ret = n + length new + (if line_cut k new then 1 else 0))"
proof (induction k arbitrary: n got st w)
  case 0
  then show ?case by (simp add: line_cut_def)
next
  case (Suc k)
  obtain x st1 w1 where x: "my_read S fd st w = Some (Inr (x, st1, w1))"
    and post: "my_read_post S unread fd w (mr_stream unread fd st w) (x, st1, w1)"
    using my_read_ok [OF spec sig Suc.prems, of fd w] by auto
  show ?case
  proof (cases x)
    case (Err e)
    then show ?thesis using x post by (simp add: my_read_post_def)
  next
    case Eof
    then show ?thesis using x post by (simp add: my_read_post_def line_cut_def)
  next
    case (Got c)
    then have st1: "mr_inv st1" "mr_stream unread fd st w = c # mr_stream unread fd st1 w1"
        "\<And>e v. read_fails S fd w1 e v \<Longrightarrow> read_fails S fd w e v"
      using post by (simp_all add: my_read_post_def)
    show ?thesis
    proof (cases "c = 10")
      case True
      then show ?thesis using x Got st1 by (simp add: line_cut_def)
    next
      case False
      obtain r st' w' where IH: "readline_loop S fd k (Suc (Suc n)) (got @ [c]) st1 w1 = Some (Inr (r, st', w'))"
          "mr_inv st'"
          "case r of
             Inl e \<Rightarrow> read_fails S fd w1 e w'
           | Inr (ret, line) \<Rightarrow>
               let new = line_upto k (mr_stream unread fd st1 w1) in
               line = (got @ [c]) @ new \<and>
               mr_stream unread fd st' w' = drop (length new) (mr_stream unread fd st1 w1) \<and>
               ret = Suc n + length new + (if line_cut k new then 1 else 0)"
        using Suc.IH [OF st1(1)] by blast
      let ?new = "line_upto k (mr_stream unread fd st1 w1)"
      have "line_cut (Suc k) (c # ?new) \<longleftrightarrow> line_cut k ?new" using False by (auto simp: line_cut_def)
      then show ?thesis
        using x Got False st1 IH by (simp add: Let_def split: sum.splits prod.splits)
    qed
  qed
qed

section \<open>A kernel with signals\<close>

text \<open>The sample kernel, where \<open>k_next\<close> counts down signals that interrupt reads and writes.\<close>

definition interrupted :: "(kernel, 'a) syscall \<Rightarrow> (kernel, 'a) syscall" where
  "interrupted f k = (if 0 < k_next k then (Inl EINTR, k\<lparr>k_next := k_next k - 1\<rparr>) else f k)"

definition signal_read :: "fd \<Rightarrow> nat \<Rightarrow> (kernel, byte list) syscall" where
  "signal_read fd n k = (Inr (take n (k_input k fd)), k\<lparr>k_input := (k_input k)(fd := drop n (k_input k fd))\<rparr>)"

definition signal_sys :: "kernel sys" where
  "signal_sys = sample_sys\<lparr>sys_read := \<lambda>fd n. interrupted (signal_read fd n),
     sys_write := \<lambda>fd bs. interrupted (k_write fd bs), sys_accept := \<lambda>fd. interrupted k_open\<rparr>"

lemma signal_finite: "finite_signals signal_sys (\<lambda>k. nat (k_next k))"
  by (auto simp: finite_signals_def signal_sys_def interrupted_def signal_read_def k_write_def k_open_def
      Let_def errno_defs split: if_splits)

lemma signal_read_spec: "read_spec signal_sys k_input"
  by (auto simp: read_spec_def signal_sys_def interrupted_def signal_read_def split: if_splits)

lemma signal_write_spec: "write_spec signal_sys k_output"
  by (auto simp: write_spec_def signal_sys_def interrupted_def k_write_def Let_def split: if_splits)

text \<open>Nothing but signals goes wrong in this kernel.\<close>

lemma signal_reads: "\<not> read_fails signal_sys fd w e w'"
proof
  assume "read_fails signal_sys fd w e w'"
  then show False
    by (induction rule: read_fails.induct) (auto simp: signal_sys_def interrupted_def signal_read_def split: if_splits)
qed

lemma signal_writes: "write_fails signal_sys fd bs w e w' \<Longrightarrow> bs \<noteq> [] \<Longrightarrow> k_room w = 0"
  by (induction rule: write_fails.induct)
    (auto simp: signal_sys_def interrupted_def k_write_def Let_def min_def split: if_splits)

section \<open>Properties\<close>

text \<open>
  C35. \<^verbatim>\<open>Readn\<close> returns. It stores exactly the first \<open>n\<close> unread bytes, or all of them if there are
  fewer, whatever pieces \<^verbatim>\<open>read\<close> delivers and however often it is interrupted; it reports an
  error only if a call of \<^verbatim>\<open>read\<close> failed with that error, which is no interruption, after calls
  that were interrupted or delivered fewer than \<open>n\<close> bytes together.
\<close>

theorem Readn_exact:
  assumes "read_spec S unread" and "finite_signals S m"
  shows "\<exists>r w'. Readn S fd n w = Some (r, w') \<and>
           (case r of
              Inl e \<Rightarrow> e \<noteq> EINTR \<and> read_fails S fd w e w' \<and> (\<exists>k < n. unread w' fd = drop k (unread w fd))
            | Inr bs \<Rightarrow> bs = take n (unread w fd) \<and> unread w' fd = drop n (unread w fd))"
proof -
  obtain r w' where r: "readn_loop S fd n [] w = Some (r, w')"
      "case r of
         Inl e \<Rightarrow> read_fails S fd w e w' \<and> (\<exists>k < n. unread w' fd = drop k (unread w fd))
       | Inr bs \<Rightarrow> bs = [] @ take n (unread w fd) \<and> unread w' fd = drop n (unread w fd)"
    using readn_loop_ok [OF assms] by blast
  then show ?thesis by (cases r) (auto simp: Readn_def dest: read_fails_eintr)
qed

theorem Readn_exact_witness:
  "\<exists>w'. Readn signal_sys 5 3 (kernel0\<lparr>k_input := \<lambda>_. [1, 2, 3, 4], k_next := 2\<rparr>) = Some (Inr [1, 2, 3], w') \<and>
     k_input w' 5 = [4]"
proof -
  obtain r w' where "Readn signal_sys 5 3 (kernel0\<lparr>k_input := \<lambda>_. [1, 2, 3, 4], k_next := 2\<rparr>) = Some (r, w')"
      "case r of
         Inl e \<Rightarrow> e \<noteq> EINTR \<and> read_fails signal_sys 5 (kernel0\<lparr>k_input := \<lambda>_. [1, 2, 3, 4], k_next := 2\<rparr>) e w' \<and>
           (\<exists>k < 3. k_input w' 5 = drop k [1, 2, 3, 4])
       | Inr bs \<Rightarrow> bs = take 3 [1, 2, 3, 4] \<and> k_input w' 5 = drop 3 [1, 2, 3, 4]"
    using Readn_exact [OF signal_read_spec signal_finite, of 5 3 "kernel0\<lparr>k_input := \<lambda>_. [1, 2, 3, 4], k_next := 2\<rparr>"]
    by (auto cong: sum.case_cong)
  then show ?thesis by (cases r) (simp_all add: signal_reads)
qed

text \<open>
  C36. \<^verbatim>\<open>Writen\<close> returns. It sends all its bytes, in order, and returns their number, however few a
  call of \<^verbatim>\<open>write\<close> takes and however often it is interrupted; it reports an error only if a call
  failed with that error, which is no interruption, given what the calls before it had left, and
  then a proper prefix has been sent.
\<close>

theorem Writen_all_or_prefix:
  assumes "write_spec S sent" and "finite_signals S m"
  shows "\<exists>r w'. Writen S fd bs w = Some (r, w') \<and>
           (case r of
              Inl e \<Rightarrow> e \<noteq> EINTR \<and> write_fails S fd bs w e w' \<and> (\<exists>k < length bs. sent w' fd = sent w fd @ take k bs)
            | Inr n \<Rightarrow> n = length bs \<and> sent w' fd = sent w fd @ bs)"
proof -
  obtain r w' where r: "writen_loop S fd bs w = Some (r, w')"
      "case r of
         Inl e \<Rightarrow> write_fails S fd bs w e w' \<and> (\<exists>k < length bs. sent w' fd = sent w fd @ take k bs)
       | Inr _ \<Rightarrow> sent w' fd = sent w fd @ bs"
    using writen_loop_ok [OF assms] by blast
  then show ?thesis by (cases r) (auto simp: Writen_def dest: write_fails_eintr)
qed

theorem Writen_all_or_prefix_witness:
  "\<exists>w'. Writen signal_sys 5 [1, 2, 3, 4, 5, 6] (kernel0\<lparr>k_next := 2\<rparr>) = Some (Inr 6, w') \<and>
     k_output w' 5 = [1, 2, 3, 4, 5, 6]"
proof -
  let ?w = "kernel0\<lparr>k_next := 2\<rparr>" and ?bs = "[1, 2, 3, 4, 5, 6 :: byte]"
  obtain r w' where "Writen signal_sys 5 ?bs ?w = Some (r, w')"
      "case r of
         Inl e \<Rightarrow> e \<noteq> EINTR \<and> write_fails signal_sys 5 ?bs ?w e w' \<and> (\<exists>k < length ?bs. k_output w' 5 = k_output ?w 5 @ take k ?bs)
       | Inr n \<Rightarrow> n = length ?bs \<and> k_output w' 5 = k_output ?w 5 @ ?bs"
    using Writen_all_or_prefix [OF signal_write_spec signal_finite, of 5 ?bs ?w] by blast
  then show ?thesis by (cases r) (auto simp: kernel0_def dest!: signal_writes)
qed

text \<open>
  C37. \<^verbatim>\<open>Readline\<close> returns. It stores the next line of the stream, at most \<^verbatim>\<open>maxlen - 1\<close> bytes of it,
  and consumes exactly these bytes; it reports an error only if a call of \<^verbatim>\<open>read\<close> failed with that
  error, which is no interruption. The stream is what an earlier call left in the static buffer,
  whatever descriptor that came from, followed by the unread bytes of this descriptor. The value
  returned is the length of the line, except that it is \<^verbatim>\<open>maxlen\<close>, one more, when the limit cut
  the line off.
\<close>

theorem Readline_reads_line:
  assumes "read_spec S unread" and "finite_signals S m" and "mr_inv st" and "0 < maxlen"
  shows "\<exists>r st' w'. Readline S fd maxlen st w = Some (Inr (r, st', w')) \<and> mr_inv st' \<and>
           (case r of
              Inl e \<Rightarrow> e \<noteq> EINTR \<and> read_fails S fd w e w'
            | Inr (ret, line) \<Rightarrow>
                line = line_upto (maxlen - 1) (mr_cached st @ unread w fd) \<and>
                mr_cached st' @ unread w' fd = drop (length line) (mr_cached st @ unread w fd) \<and>
                ret = (if line_cut (maxlen - 1) line then maxlen else length line))"
proof -
  obtain r st' w' where r: "readline_loop S fd (maxlen - 1) (Suc 0) [] st w = Some (Inr (r, st', w'))"
      "mr_inv st'"
      "case r of
         Inl e \<Rightarrow> read_fails S fd w e w'
       | Inr (ret, line) \<Rightarrow>
           let new = line_upto (maxlen - 1) (mr_stream unread fd st w) in
           line = [] @ new \<and> mr_stream unread fd st' w' = drop (length new) (mr_stream unread fd st w) \<and>
           ret = 0 + length new + (if line_cut (maxlen - 1) new then 1 else 0)"
    using readline_loop_ok [OF assms(1-3), of fd "maxlen - 1" 0 "[]" w] by blast
  have "line_cut (maxlen - 1) new \<Longrightarrow> length new + 1 = maxlen" for new
    using assms(4) by (auto simp: line_cut_def)
  then show ?thesis
    using assms(4) r
    by (auto simp: Readline_def Let_def mr_stream_def dest: read_fails_eintr split: sum.splits)
qed

theorem Readline_reads_line_witness:
  "\<exists>st' w'. Readline signal_sys 5 3 my_read_init (kernel0\<lparr>k_input := \<lambda>_. [65, 66, 67, 10], k_next := 1\<rparr>) =
       Some (Inr (Inr (3, [65, 66]), st', w')) \<and> mr_cached st' @ k_input w' 5 = [67, 10]"
proof -
  let ?w = "kernel0\<lparr>k_input := \<lambda>_. [65, 66, 67, 10], k_next := 1\<rparr>"
  have st: "mr_inv my_read_init" "mr_cached my_read_init = []"
    by (simp_all add: mr_inv_def my_read_init_def mr_cached_def)
  have "line_upto (Suc (Suc 0)) [65, 66, 67, 10] = [65, 66]" by simp
  then have line: "line_upto 2 [65, 66, 67, 10] = [65, 66]" by (metis numeral_2_eq_2)
  obtain r st' w' where r: "Readline signal_sys 5 3 my_read_init ?w = Some (Inr (r, st', w'))"
      "case r of
         Inl e \<Rightarrow> e \<noteq> EINTR \<and> read_fails signal_sys 5 ?w e w'
       | Inr (ret, line) \<Rightarrow>
           line = line_upto 2 [65, 66, 67, 10] \<and>
           mr_cached st' @ k_input w' 5 = drop (length line) [65, 66, 67, 10] \<and>
           ret = (if line_cut 2 line then 3 else length line)"
    using Readline_reads_line [OF signal_read_spec signal_finite st(1), of 3 5 ?w] st(2)
    by (auto cong: sum.case_cong)
  then show ?thesis by (cases r) (auto simp: signal_reads line line_cut_def)
qed

end
