(* ===== verification/Wrap_Windows.thy ===== *)
theory Wrap_Windows
  imports Wrap_Laws
begin

text \<open>
  The Windows half of \<^verbatim>\<open>src/wrap.cpp\<close>: the same wrappers over Winsock. The calls are a parameter,
  as the system calls are; an error is the number that \<^verbatim>\<open>WSAGetLastError()\<close> gives. The sources of
  this half do not compile as they are, for a missing semicolon in \<^verbatim>\<open>setnonblock\<close>; the model has it.
\<close>

section \<open>Winsock\<close>

record 'w winsock =
  ws_setsockopt :: "fd \<Rightarrow> sockopt \<Rightarrow> ('w, unit) syscall"
  ws_ioctlsocket :: "fd \<Rightarrow> nat \<Rightarrow> ('w, unit) syscall"
  ws_accept :: "fd \<Rightarrow> ('w, fd) syscall"
  ws_bind :: "fd \<Rightarrow> sockaddr \<Rightarrow> ('w, unit) syscall"
  ws_connect :: "fd \<Rightarrow> sockaddr \<Rightarrow> ('w, unit) syscall"
  ws_listen :: "fd \<Rightarrow> int \<Rightarrow> ('w, unit) syscall"
  ws_socket :: "socktype \<Rightarrow> ('w, fd) syscall"
  ws_recv :: "fd \<Rightarrow> nat \<Rightarrow> ('w, byte list) syscall"
  ws_send :: "fd \<Rightarrow> byte list \<Rightarrow> ('w, nat) syscall"
  ws_closesocket :: "fd \<Rightarrow> ('w, unit) syscall"

definition WSAEINTR :: int where
  "WSAEINTR = 10004"

definition WSAECONNRESET :: int where
  "WSAECONNRESET = 10054"

section \<open>Calls that must succeed\<close>

text \<open>\<^verbatim>\<open>perr_exit\<close> also releases Winsock before it ends the program.\<close>

definition win_perr_exit :: "'a res" where
  "win_perr_exit = Inl (Exit 1)"

definition win_setreuse :: "'w winsock \<Rightarrow> fd \<Rightarrow> 'w \<Rightarrow> 'w res" where
  "win_setreuse W fd w =
     (case ws_setsockopt W fd SO_REUSEADDR w of
        (Inl _, _) \<Rightarrow> win_perr_exit
      | (Inr _, w) \<Rightarrow>
          (case ws_setsockopt W fd SO_REUSEPORT w of (Inl _, _) \<Rightarrow> win_perr_exit | (Inr _, w) \<Rightarrow> Inr w))"

text \<open>\<^verbatim>\<open>mode\<close> is 1; the result is ignored.\<close>

definition win_setnonblock :: "'w winsock \<Rightarrow> fd \<Rightarrow> 'w \<Rightarrow> 'w" where
  "win_setnonblock W fd w = snd (ws_ioctlsocket W fd 1 w)"

definition win_Bind :: "'w winsock \<Rightarrow> fd \<Rightarrow> sockaddr \<Rightarrow> 'w \<Rightarrow> 'w res" where
  "win_Bind W fd sa w = (case ws_bind W fd sa w of (Inl _, _) \<Rightarrow> win_perr_exit | (Inr _, w) \<Rightarrow> Inr w)"

definition win_Connect :: "'w winsock \<Rightarrow> fd \<Rightarrow> sockaddr \<Rightarrow> 'w \<Rightarrow> 'w res" where
  "win_Connect W fd sa w = (case ws_connect W fd sa w of (Inl _, _) \<Rightarrow> win_perr_exit | (Inr _, w) \<Rightarrow> Inr w)"

definition win_Listen :: "'w winsock \<Rightarrow> fd \<Rightarrow> int \<Rightarrow> 'w \<Rightarrow> 'w res" where
  "win_Listen W fd backlog w =
     (case ws_listen W fd backlog w of (Inl _, _) \<Rightarrow> win_perr_exit | (Inr _, w) \<Rightarrow> Inr w)"

definition win_Socket :: "'w winsock \<Rightarrow> socktype \<Rightarrow> 'w \<Rightarrow> (fd \<times> 'w) res" where
  "win_Socket W t w = (case ws_socket W t w of (Inl _, _) \<Rightarrow> win_perr_exit | (Inr n, w) \<Rightarrow> Inr (n, w))"

definition win_Close :: "'w winsock \<Rightarrow> fd \<Rightarrow> 'w \<Rightarrow> 'w res" where
  "win_Close W fd w = (case ws_closesocket W fd w of (Inl _, _) \<Rightarrow> win_perr_exit | (Inr _, w) \<Rightarrow> Inr w)"

section \<open>Calls that are repeated\<close>

text \<open>Unlike the other half, \<^verbatim>\<open>Accept\<close> ends the program when there is nothing to accept.\<close>

partial_function (option) win_Accept :: "'w winsock \<Rightarrow> fd \<Rightarrow> 'w \<Rightarrow> (fd \<times> 'w) res option" where
  "win_Accept W fd w =
     (case ws_accept W fd w of
        (Inl e, w') \<Rightarrow> if e = WSAECONNRESET \<or> e = WSAEINTR then win_Accept W fd w' else Some win_perr_exit
      | (Inr n, w') \<Rightarrow> Some (Inr (n, w')))"

partial_function (option) win_Read :: "'w winsock \<Rightarrow> fd \<Rightarrow> nat \<Rightarrow> 'w \<Rightarrow> ((int + byte list) \<times> 'w) option" where
  "win_Read W fd nbytes w =
     (case ws_recv W fd nbytes w of
        (Inl e, w') \<Rightarrow> if e = WSAEINTR then win_Read W fd nbytes w' else Some (Inl e, w')
      | (Inr bs, w') \<Rightarrow> Some (Inr bs, w'))"

partial_function (option) win_Write :: "'w winsock \<Rightarrow> fd \<Rightarrow> byte list \<Rightarrow> 'w \<Rightarrow> ((int + nat) \<times> 'w) option" where
  "win_Write W fd bs w =
     (case ws_send W fd bs w of
        (Inl e, w') \<Rightarrow> if e = WSAEINTR then win_Write W fd bs w' else Some (Inl e, w')
      | (Inr n, w') \<Rightarrow> Some (Inr n, w'))"

partial_function (option) win_readn_loop ::
  "'w winsock \<Rightarrow> fd \<Rightarrow> nat \<Rightarrow> byte list \<Rightarrow> 'w \<Rightarrow> ((int + byte list) \<times> 'w) option" where
  "win_readn_loop W fd nleft got w =
     (if nleft = 0 then Some (Inr got, w)
      else case ws_recv W fd nleft w of
        (Inl e, w') \<Rightarrow> if e = WSAEINTR then win_readn_loop W fd nleft got w' else Some (Inl e, w')
      | (Inr bs, w') \<Rightarrow>
          if bs = [] then Some (Inr got, w')
          else win_readn_loop W fd (nleft - length bs) (got @ bs) w')"

text \<open>The length is an \<^verbatim>\<open>int\<close> here; for one that is not positive nothing is read.\<close>

definition win_Readn :: "'w winsock \<Rightarrow> fd \<Rightarrow> int \<Rightarrow> 'w \<Rightarrow> ((int + byte list) \<times> 'w) option" where
  "win_Readn W fd n w = win_readn_loop W fd (nat n) [] w"

partial_function (option) win_writen_loop :: "'w winsock \<Rightarrow> fd \<Rightarrow> byte list \<Rightarrow> 'w \<Rightarrow> ((int + unit) \<times> 'w) option" where
  "win_writen_loop W fd bs w =
     (if bs = [] then Some (Inr (), w)
      else case ws_send W fd bs w of
        (Inl e, w') \<Rightarrow> if e = WSAEINTR then win_writen_loop W fd bs w' else Some (Inl e, w')
      | (Inr n, w') \<Rightarrow> if n = 0 then Some (Inl 0, w') else win_writen_loop W fd (drop n bs) w')"

definition win_Writen :: "'w winsock \<Rightarrow> fd \<Rightarrow> byte list \<Rightarrow> 'w \<Rightarrow> ((int + nat) \<times> 'w) option" where
  "win_Writen W fd bs w =
     (case win_writen_loop W fd bs w of
        None \<Rightarrow> None
      | Some (Inl e, w') \<Rightarrow> Some (Inl e, w')
      | Some (Inr _, w') \<Rightarrow> Some (Inr (length bs), w'))"

section \<open>Reading a line\<close>

text \<open>Every byte is a call of \<^verbatim>\<open>Read\<close>; one that returns more than the byte asked for counts as an error.\<close>

fun win_readline_loop ::
  "'w winsock \<Rightarrow> fd \<Rightarrow> nat \<Rightarrow> nat \<Rightarrow> byte list \<Rightarrow> 'w \<Rightarrow> ((int + nat \<times> byte list) \<times> 'w) option" where
  "win_readline_loop W fd 0 n line w = Some (Inr (n, line), w)"
| "win_readline_loop W fd (Suc k) n line w =
     (case win_Read W fd 1 w of
        None \<Rightarrow> None
      | Some (Inr [c], w) \<Rightarrow>
          if c = 10 then Some (Inr (n, line @ [c]), w)
          else win_readline_loop W fd k (Suc n) (line @ [c]) w
      | Some (Inr [], w) \<Rightarrow> Some (Inr (n - 1, line), w)
      | Some (Inr _, w) \<Rightarrow> Some (Inl 0, w)
      | Some (Inl e, w) \<Rightarrow> Some (Inl e, w))"

definition win_Readline ::
  "'w winsock \<Rightarrow> fd \<Rightarrow> int \<Rightarrow> 'w \<Rightarrow> ((int + nat \<times> byte list) \<times> 'w) res option" where
  "win_Readline W fd maxlen w =
     (if maxlen \<le> 0 then Some (Inl Out_of_bounds)
      else map_option Inr (win_readline_loop W fd (nat maxlen - 1) 1 [] w))"

section \<open>The two halves agree\<close>

text \<open>Winsock as system calls: the number for an interrupted call is exchanged.\<close>

definition swap_eintr :: "int \<Rightarrow> int" where
  "swap_eintr e = (if e = WSAEINTR then EINTR else if e = EINTR then WSAEINTR else e)"

fun swapped :: "(int + 'a) \<times> 'w \<Rightarrow> (int + 'a) \<times> 'w" where
  "swapped (Inl e, w) = (Inl (swap_eintr e), w)"
| "swapped (Inr x, w) = (Inr x, w)"

definition posix_of :: "'w sys \<Rightarrow> 'w winsock \<Rightarrow> 'w sys" where
  "posix_of S W = S\<lparr>
     sys_setsockopt := ws_setsockopt W, sys_bind := ws_bind W, sys_connect := ws_connect W,
     sys_listen := ws_listen W, sys_socket := ws_socket W, sys_close := ws_closesocket W,
     sys_read := \<lambda>fd n w. swapped (ws_recv W fd n w), sys_write := \<lambda>fd bs w. swapped (ws_send W fd bs w)\<rparr>"

lemma swap_eintr_simps [simp]:
  "swap_eintr WSAEINTR = EINTR" "swap_eintr 0 = 0" "swap_eintr e = EINTR \<longleftrightarrow> e = WSAEINTR" "swap_eintr (swap_eintr e) = e"
  by (auto simp: swap_eintr_def WSAEINTR_def EINTR_def)

lemma posix_of_simps [simp]:
  "sys_setsockopt (posix_of S W) = ws_setsockopt W" "sys_bind (posix_of S W) = ws_bind W"
  "sys_connect (posix_of S W) = ws_connect W" "sys_listen (posix_of S W) = ws_listen W"
  "sys_socket (posix_of S W) = ws_socket W" "sys_close (posix_of S W) = ws_closesocket W"
  "sys_read (posix_of S W) fd n w = swapped (ws_recv W fd n w)"
  "sys_write (posix_of S W) fd bs w = swapped (ws_send W fd bs w)"
  by (simp_all add: posix_of_def)



lemma swapped_swapped [simp]:
  "swapped (swapped r) = r"
  by (cases r rule: swapped.cases) simp_all

lemma case_swapped [simp]:
  "(case swapped r of (Inl e, w) \<Rightarrow> f e w | (Inr x, w) \<Rightarrow> g x w) =
   (case r of (Inl e, w) \<Rightarrow> f (swap_eintr e) w | (Inr x, w) \<Rightarrow> g x w)"
  by (cases r rule: swapped.cases) simp_all

lemma swapped_optionI:
  "(\<And>r. a = Some r \<Longrightarrow> b = Some (swapped r)) \<Longrightarrow> (\<And>r. b = Some r \<Longrightarrow> a = Some (swapped r)) \<Longrightarrow>
   a = map_option swapped b"
  by (cases a; cases b) simp_all

lemma win_readn_to_posix:
  "win_readn_loop W fd nleft got w = Some r \<Longrightarrow> readn_loop (posix_of S W) fd nleft got w = Some (swapped r)"
  by (induction W fd nleft got w r rule: win_readn_loop.raw_induct [rotated, consumes 1])
    (subst readn_loop.simps; auto split: if_splits prod.splits sum.splits)

lemma win_readn_from_posix:
  "readn_loop (posix_of S W) fd nleft got w = Some r \<Longrightarrow> win_readn_loop W fd nleft got w = Some (swapped r)"
  by (induction "posix_of S W" fd nleft got w r rule: readn_loop.raw_induct [rotated, consumes 1])
    (subst win_readn_loop.simps; auto split: if_splits prod.splits sum.splits)

lemma win_readn_loop_eq:
  "win_readn_loop W fd nleft got w = map_option swapped (readn_loop (posix_of S W) fd nleft got w)"
  by (rule swapped_optionI) (fact win_readn_to_posix, fact win_readn_from_posix)

lemma win_writen_to_posix:
  "win_writen_loop W fd bs w = Some r \<Longrightarrow> writen_loop (posix_of S W) fd bs w = Some (swapped r)"
  by (induction W fd bs w r rule: win_writen_loop.raw_induct [rotated, consumes 1])
    (subst writen_loop.simps; auto split: if_splits prod.splits sum.splits)

lemma win_writen_from_posix:
  "writen_loop (posix_of S W) fd bs w = Some r \<Longrightarrow> win_writen_loop W fd bs w = Some (swapped r)"
  by (induction "posix_of S W" fd bs w r rule: writen_loop.raw_induct [rotated, consumes 1])
    (subst win_writen_loop.simps; auto split: if_splits prod.splits sum.splits)

lemma win_writen_loop_eq:
  "win_writen_loop W fd bs w = map_option swapped (writen_loop (posix_of S W) fd bs w)"
  by (rule swapped_optionI) (fact win_writen_to_posix, fact win_writen_from_posix)

lemma win_Read_to_posix:
  "win_Read W fd n w = Some r \<Longrightarrow> Read (posix_of S W) fd n w = Some (swapped r)"
  by (induction W fd n w r rule: win_Read.raw_induct [rotated, consumes 1])
    (subst Read.simps; auto split: if_splits prod.splits sum.splits)

lemma win_Read_from_posix:
  "Read (posix_of S W) fd n w = Some r \<Longrightarrow> win_Read W fd n w = Some (swapped r)"
  by (induction "posix_of S W" fd n w r rule: Read.raw_induct [rotated, consumes 1])
    (subst win_Read.simps; auto split: if_splits prod.splits sum.splits)

lemma win_Read_eq:
  "win_Read W fd n w = map_option swapped (Read (posix_of S W) fd n w)"
  by (rule swapped_optionI) (fact win_Read_to_posix, fact win_Read_from_posix)

lemma win_Write_to_posix:
  "win_Write W fd bs w = Some r \<Longrightarrow> Write (posix_of S W) fd bs w = Some (swapped r)"
  by (induction W fd bs w r rule: win_Write.raw_induct [rotated, consumes 1])
    (subst Write.simps; auto split: if_splits prod.splits sum.splits)

lemma win_Write_from_posix:
  "Write (posix_of S W) fd bs w = Some r \<Longrightarrow> win_Write W fd bs w = Some (swapped r)"
  by (induction "posix_of S W" fd bs w r rule: Write.raw_induct [rotated, consumes 1])
    (subst win_Write.simps; auto split: if_splits prod.splits sum.splits)

lemma win_Write_eq:
  "win_Write W fd bs w = map_option swapped (Write (posix_of S W) fd bs w)"
  by (rule swapped_optionI) (fact win_Write_to_posix, fact win_Write_from_posix)

section \<open>Lines\<close>

lemma Read_ok:
  assumes spec: "read_spec S unread" and sig: "finite_signals S m"
  shows "\<exists>r w'. Read S fd n w = Some (r, w') \<and>
    (case r of
       Inl e \<Rightarrow> e \<noteq> EINTR \<and> unread w' = unread w
     | Inr bs \<Rightarrow> length bs \<le> n \<and> unread w fd = bs @ unread w' fd \<and> (0 < n \<and> bs = [] \<longrightarrow> unread w fd = []))"
proof (induction "m w" arbitrary: w rule: less_induct)
  case less
  obtain r w1 where r: "sys_read S fd n w = (r, w1)" by fastforce
  show ?case
  proof (cases r)
    case (Inl e)
    note same = read_spec_err [OF spec r [unfolded Inl]]
    show ?thesis
    proof (cases "e = EINTR")
      case True
      have "m w1 < m w" using sig r Inl True by (simp add: finite_signals_def)
      then show ?thesis using less [of w1, unfolded same] r Inl True by (subst Read.simps) simp
    next
      case False
      then show ?thesis using r Inl same by (subst Read.simps) simp
    qed
  next
    case (Inr bs)
    then show ?thesis using r read_specD [OF spec r [unfolded Inr]] by (subst Read.simps) simp
  qed
qed

text \<open>The bytes of a line, one call each; nothing behind the line is consumed.\<close>

lemma win_readline_loop_ok:
  assumes spec: "read_spec (posix_of S W) unread" and sig: "finite_signals (posix_of S W) m"
  shows "\<exists>r w'. win_readline_loop W fd k (Suc n) got w = Some (r, w') \<and>
      (case r of
         Inl e \<Rightarrow> e \<noteq> WSAEINTR
       | Inr (ret, line) \<Rightarrow>
           let new = line_upto k (unread w fd) in
           line = got @ new \<and> unread w' fd = drop (length new) (unread w fd) \<and>
           ret = n + length new + (if line_cut k new then 1 else 0))"
proof (induction k arbitrary: n got w)
  case 0
  then show ?case by (simp add: line_cut_def)
next
  case (Suc k)
  obtain x w1 where x: "Read (posix_of S W) fd 1 w = Some (x, w1)"
    and post: "case x of
       Inl e \<Rightarrow> e \<noteq> EINTR \<and> unread w1 = unread w
     | Inr bs \<Rightarrow> length bs \<le> 1 \<and> unread w fd = bs @ unread w1 fd \<and> (0 < (1 :: nat) \<and> bs = [] \<longrightarrow> unread w fd = [])"
    using Read_ok [OF spec sig, of fd 1 w] by blast
  have rd: "win_Read W fd 1 w = Some (swapped (x, w1))" using x win_Read_eq [of W fd 1 w S] by simp
  consider e where "x = Inl e" | "x = Inr []" | c where "x = Inr [c]"
    using post by (cases x) (auto simp: le_Suc_eq length_Suc_conv)
  then show ?case
  proof cases
    case 1
    then show ?thesis using rd post by (simp add: swap_eintr_def WSAEINTR_def EINTR_def)
  next
    case 2
    then have "unread w fd = []" "unread w1 fd = []" using post by auto
    then show ?thesis using rd 2 by (simp add: line_cut_def)
  next
    case (3 c)
    then have un: "unread w fd = c # unread w1 fd" using post by simp
    show ?thesis
    proof (cases "c = 10")
      case True
      then show ?thesis using rd 3 un by (simp add: line_cut_def)
    next
      case False
      obtain r w' where IH: "win_readline_loop W fd k (Suc (Suc n)) (got @ [c]) w1 = Some (r, w')"
          "case r of
             Inl e \<Rightarrow> e \<noteq> WSAEINTR
           | Inr (ret, line) \<Rightarrow>
               let new = line_upto k (unread w1 fd) in
               line = (got @ [c]) @ new \<and> unread w' fd = drop (length new) (unread w1 fd) \<and>
               ret = Suc n + length new + (if line_cut k new then 1 else 0)"
        using Suc.IH by blast
      let ?new = "line_upto k (unread w1 fd)"
      have "line_cut (Suc k) (c # ?new) \<longleftrightarrow> line_cut k ?new" using False by (auto simp: line_cut_def)
      then show ?thesis
        using rd 3 False un IH by (simp add: Let_def split: sum.splits prod.splits)
    qed
  qed
qed

section \<open>Properties\<close>

text \<open>The calls that must succeed are the same on both systems; only the releasing of Winsock differs.\<close>

theorem windows_calls_agree:
  "win_setreuse W fd w = setreuse (posix_of S W) fd w"
  "win_Bind W fd sa w = Bind (posix_of S W) fd sa w"
  "win_Connect W fd sa w = Connect (posix_of S W) fd sa w"
  "win_Listen W fd backlog w = Listen (posix_of S W) fd backlog w"
  "win_Socket W t w = Socket (posix_of S W) t w"
  "win_Close W fd w = Close (posix_of S W) fd w"
  unfolding win_setreuse_def setreuse_def win_Bind_def Bind_def win_Connect_def Connect_def
    win_Listen_def Listen_def win_Socket_def Socket_def win_Close_def Close_def posix_of_simps
    win_perr_exit_def perr_exit_def
  by (rule refl)+

text \<open>
  Where they differ: a listening socket with nothing to accept ends the program, where the other
  half returns -1.
\<close>

theorem windows_accept_differs:
  assumes "ws_accept W fd w = (Inl e, w1)" and "e \<notin> {WSAECONNRESET, WSAEINTR}"
    and "sys_accept S fd w = (Inl EAGAIN, w1)"
  shows "win_Accept W fd w = Some (Inl (Exit 1)) \<and> Accept S fd w = Some (Inr (-1, w1))"
  using assms
  by (subst win_Accept.simps, subst Accept.simps) (simp add: win_perr_exit_def errno_defs)

text \<open>
  C28. Blocks are read and written as by the POSIX half, on the same calls with the number for an
  interrupted one exchanged: the same bytes, the same result, and the same calls in vain.
\<close>

theorem windows_blocks_agree:
  "win_Readn W fd (int n) w = map_option swapped (Readn (posix_of S W) fd n w) \<and>
   win_Writen W fd bs w = map_option swapped (Writen (posix_of S W) fd bs w)"
proof
  show "win_Readn W fd (int n) w = map_option swapped (Readn (posix_of S W) fd n w)"
    by (simp add: win_Readn_def Readn_def win_readn_loop_eq [of W fd n "[]" w S])
  show "win_Writen W fd bs w = map_option swapped (Writen (posix_of S W) fd bs w)"
    by (cases "writen_loop (posix_of S W) fd bs w")
      (auto simp: win_Writen_def Writen_def win_writen_loop_eq [of W fd bs w S] split: sum.splits)
qed

text \<open>
  \<^verbatim>\<open>Readline\<close> stores the next line, at most \<^verbatim>\<open>maxlen - 1\<close> bytes of it, and consumes no more than it;
  there is no static buffer, so that lines of several sockets do not mix.
\<close>

theorem win_Readline_reads_line:
  assumes "read_spec (posix_of S W) unread" and "finite_signals (posix_of S W) m" and "0 < maxlen"
  shows "\<exists>r w'. win_Readline W fd (int maxlen) w = Some (Inr (r, w')) \<and>
           (case r of
              Inl e \<Rightarrow> e \<noteq> WSAEINTR
            | Inr (ret, line) \<Rightarrow>
                line = line_upto (maxlen - 1) (unread w fd) \<and>
                unread w' fd = drop (length line) (unread w fd) \<and>
                ret = (if line_cut (maxlen - 1) line then maxlen else length line))"
proof -
  obtain r w' where r: "win_readline_loop W fd (maxlen - 1) (Suc 0) [] w = Some (r, w')"
      "case r of
         Inl e \<Rightarrow> e \<noteq> WSAEINTR
       | Inr (ret, line) \<Rightarrow>
           let new = line_upto (maxlen - 1) (unread w fd) in
           line = [] @ new \<and> unread w' fd = drop (length new) (unread w fd) \<and>
           ret = 0 + length new + (if line_cut (maxlen - 1) new then 1 else 0)"
    using win_readline_loop_ok [OF assms(1,2)] by blast
  have "length new + 1 = maxlen" if "line_cut (maxlen - 1) new" for new
    using that assms(3) by (simp add: line_cut_def)
  then show ?thesis
    using r assms(3) by (auto simp: win_Readline_def Let_def nat_diff_distrib split: sum.splits)
qed

end
