(* ===== verification/Lfthread.thy ===== *)
theory Lfthread
  imports Ringbuff "HOL-Library.Sublist"
begin

text \<open>
  A worker of the lock-free pool: \<^verbatim>\<open>include/moonnet/lfthread.h\<close>, \<^verbatim>\<open>src/lfthread.cpp\<close>. The object and
  the thread it owns are one record: the ring buffer, the flag, and where the thread is in
  \<^verbatim>\<open>t_task\<close>. The thread's test of the flag, its access to the queue and the call of a task are
  steps of their own, between which the owner may act; that the operations on the ring buffer may
  be taken as atomic is shown for one producer and one consumer in the theory of the ring buffer, for
  \<^verbatim>\<open>push\<close> and \<^verbatim>\<open>pop\<close>; the moving variants access the same slots between the same loads and stores.
\<close>

section \<open>State\<close>

text \<open>A \<^verbatim>\<open>std::function\<close>: empty, the empty lambda that \<^verbatim>\<open>t_shutdown\<close> pushes, or a task of the user.\<close>

datatype task = Empty_fn | Wake_fn | Job nat

text \<open>
  Where the thread is: at the test of the first loop, behind it and about to take a task, about to
  call the task it took, in the second loop, or at the end.
\<close>

datatype worker_pc = Polling | Taking | Running | Draining | Finished

record lfthread =
  lt_buffer :: "task ringbuff"
  lt_shutdown :: bool
  lt_pc :: worker_pc
  lt_task :: task
  lt_sleep :: nat
  lt_ran :: "task list"

section \<open>Operations of the owner\<close>

definition new_lfthread :: "size_t \<Rightarrow> lfthread" where
  "new_lfthread sz =
     \<lparr>lt_buffer = new_ringbuff Empty_fn sz, lt_shutdown = False, lt_pc = Polling, lt_task = Empty_fn,
      lt_sleep = 1, lt_ran = []\<rparr>"

definition enqueue_task :: "task \<Rightarrow> lfthread \<Rightarrow> (bool \<times> lfthread) res" where
  "enqueue_task f t = bindR (push f (lt_buffer t)) (\<lambda>(ok, rb). Inr (ok, t\<lparr>lt_buffer := rb\<rparr>))"

definition enqueue_task_move :: "(task \<Rightarrow> task) \<Rightarrow> task \<Rightarrow> lfthread \<Rightarrow> (bool \<times> task \<times> lfthread) res" where
  "enqueue_task_move mv f t =
     bindR (push_move mv f (lt_buffer t)) (\<lambda>(ok, f', rb). Inr (ok, f', t\<lparr>lt_buffer := rb\<rparr>))"

text \<open>\<^verbatim>\<open>int getload() const\<close> converts the size to a 32-bit \<^verbatim>\<open>int\<close>.\<close>

definition int_of :: "size_t \<Rightarrow> int" where
  "int_of n = sint (ucast n :: u32)"

definition lt_getload :: "lfthread \<Rightarrow> int" where
  "lt_getload t = int_of (rb_size (lt_buffer t))"

definition swap_to_ringbuff :: "task ringbuff \<Rightarrow> lfthread \<Rightarrow> task ringbuff \<times> lfthread" where
  "swap_to_ringbuff rb t = (case rb_swap (lt_buffer t) rb of (b, rb') \<Rightarrow> (rb', t\<lparr>lt_buffer := b\<rparr>))"

definition lt_swap_to_list :: "(task \<Rightarrow> task) \<Rightarrow> task list \<Rightarrow> lfthread \<Rightarrow> (task list \<times> lfthread) res" where
  "lt_swap_to_list mv out t =
     bindR (swap_to_list mv out (lt_buffer t)) (\<lambda>(out, rb). Inr (out, t\<lparr>lt_buffer := rb\<rparr>))"

definition lt_swap_to_vector ::
  "nat \<Rightarrow> (task \<Rightarrow> task) \<Rightarrow> task list \<Rightarrow> lfthread \<Rightarrow> (task list \<times> lfthread) res" where
  "lt_swap_to_vector max_size mv out t =
     bindR (swap_to_vector max_size mv out (lt_buffer t)) (\<lambda>(out, rb). Inr (out, t\<lparr>lt_buffer := rb\<rparr>))"

definition lt_swap_to_list_new :: "(task \<Rightarrow> task) \<Rightarrow> lfthread \<Rightarrow> (task list \<times> lfthread) res" where
  "lt_swap_to_list_new mv t =
     bindR (swap_to_list_new mv (lt_buffer t)) (\<lambda>(out, rb). Inr (out, t\<lparr>lt_buffer := rb\<rparr>))"

definition lt_swap_to_vector_new ::
  "nat \<Rightarrow> (task \<Rightarrow> task) \<Rightarrow> lfthread \<Rightarrow> (task list \<times> lfthread) res" where
  "lt_swap_to_vector_new max_size mv t =
     bindR (swap_to_vector_new max_size mv (lt_buffer t)) (\<lambda>(out, rb). Inr (out, t\<lparr>lt_buffer := rb\<rparr>))"

section \<open>The thread\<close>

text \<open>Calling an empty \<^verbatim>\<open>std::function\<close> throws.\<close>

definition run_task :: "task \<Rightarrow> lfthread \<Rightarrow> lfthread res" where
  "run_task f t = (if f = Empty_fn then Inl Bad_function_call else Inr (t\<lparr>lt_ran := lt_ran t @ [f]\<rparr>))"

text \<open>
  One step of \<^verbatim>\<open>t_task\<close>. In the second loop \<^verbatim>\<open>task()\<close> names the type \<^verbatim>\<open>task\<close>, not the
  variable \<^verbatim>\<open>_task\<close>: it makes an empty function object and runs nothing.
\<close>

definition t_task_turn :: "(task \<Rightarrow> task) \<Rightarrow> lfthread \<Rightarrow> (bool \<times> lfthread) res" where
  "t_task_turn mv t =
     (case lt_pc t of
        Polling \<Rightarrow> Inr (True, t\<lparr>lt_pc := if lt_shutdown t then Draining else Taking\<rparr>)
      | Taking \<Rightarrow>
          bindR (pop_move mv (lt_task t) (lt_buffer t)) (\<lambda>(ok, f, rb).
            let t = t\<lparr>lt_buffer := rb, lt_task := f\<rparr>
            in Inr (True, if ok then t\<lparr>lt_pc := Running\<rparr>
                          else t\<lparr>lt_sleep := if lt_sleep t * 2 \<ge> 100 then 100 else lt_sleep t * 2, lt_pc := Polling\<rparr>))
      | Running \<Rightarrow>
          bindR (run_task (lt_task t) t) (\<lambda>t. Inr (True, t\<lparr>lt_sleep := 1, lt_pc := Polling\<rparr>))
      | Draining \<Rightarrow>
          bindR (pop (lt_task t) (lt_buffer t)) (\<lambda>(ok, f, rb).
            let t = t\<lparr>lt_buffer := rb, lt_task := f\<rparr>
            in Inr (True, if ok then t else t\<lparr>lt_pc := Finished\<rparr>))
      | Finished \<Rightarrow> Inr (False, t))"

fun t_task_turns :: "(task \<Rightarrow> task) \<Rightarrow> nat \<Rightarrow> lfthread \<Rightarrow> lfthread res" where
  "t_task_turns mv 0 t = Inr t"
| "t_task_turns mv (Suc k) t = bindR (t_task_turn mv t) (\<lambda>(_, t). t_task_turns mv k t)"

text \<open>
  \<^verbatim>\<open>t_shutdown\<close>: it sets the flag, pushes the empty lambda, whose result is ignored, and joins, that
  is, waits while the thread runs to its end. The thread makes \<open>k\<close> steps between the flag and the
  push.
\<close>

definition t_shutdown_wake :: "lfthread \<Rightarrow> lfthread res" where
  "t_shutdown_wake t = bindR (push Wake_fn (lt_buffer t)) (\<lambda>(_, rb). Inr (t\<lparr>lt_buffer := rb\<rparr>))"

definition lt_t_shutdown :: "(task \<Rightarrow> task) \<Rightarrow> nat \<Rightarrow> lfthread \<Rightarrow> lfthread res option" where
  "lt_t_shutdown mv k t =
     (if lt_shutdown t then Some (Inr t)
      else case bindR (t_task_turns mv k (t\<lparr>lt_shutdown := True\<rparr>)) t_shutdown_wake of
        Inl e \<Rightarrow> Some (Inl e)
      | Inr t \<Rightarrow> repeat_turn (t_task_turn mv) t)"

section \<open>Owner and thread in any order\<close>

datatype lt_act = Enqueue task | Enqueue_move task | Work | Stop | Wake

text \<open>
  The tasks an action puts into the queue are returned with the new state. \<open>Stop\<close> and \<open>Wake\<close> are the
  two halves of \<^verbatim>\<open>t_shutdown\<close> in front of the join.
\<close>

fun lt_exec :: "(task \<Rightarrow> task) \<Rightarrow> lt_act \<Rightarrow> lfthread \<Rightarrow> (task list \<times> lfthread) res" where
  "lt_exec mv (Enqueue f) t =
     bindR (enqueue_task f t) (\<lambda>(ok, t). Inr (if ok then [f] else [], t))"
| "lt_exec mv (Enqueue_move f) t =
     bindR (enqueue_task_move mv f t) (\<lambda>(ok, _, t). Inr (if ok then [f] else [], t))"
| "lt_exec mv Work t = bindR (t_task_turn mv t) (\<lambda>(_, t). Inr ([], t))"
| "lt_exec mv Stop t = Inr ([], t\<lparr>lt_shutdown := True\<rparr>)"
| "lt_exec mv Wake t =
     bindR (push Wake_fn (lt_buffer t)) (\<lambda>(ok, _).
     bindR (t_shutdown_wake t) (\<lambda>t. Inr (if ok then [Wake_fn] else [], t)))"

fun lt_run :: "(task \<Rightarrow> task) \<Rightarrow> lt_act list \<Rightarrow> lfthread \<Rightarrow> (task list \<times> lfthread) res" where
  "lt_run mv [] t = Inr ([], t)"
| "lt_run mv (a # as) t =
     bindR (lt_exec mv a t) (\<lambda>(fs, t). bindR (lt_run mv as t) (\<lambda>(fs', t). Inr (fs @ fs', t)))"

fun nonempty_act :: "lt_act \<Rightarrow> bool" where
  "nonempty_act (Enqueue f) \<longleftrightarrow> f \<noteq> Empty_fn"
| "nonempty_act (Enqueue_move f) \<longleftrightarrow> f \<noteq> Empty_fn"
| "nonempty_act _ \<longleftrightarrow> True"

section \<open>Invariant\<close>

text \<open>The tasks a worker has got: those it has run, the one it is about to run, those that wait.\<close>

definition held :: "lfthread \<Rightarrow> task list" where
  "held t = (if lt_pc t = Running then [lt_task t] else [])"

definition share_of :: "lfthread \<Rightarrow> task list" where
  "share_of t = lt_ran t @ held t @ rb_contents (lt_buffer t)"

definition in_service :: "lfthread \<Rightarrow> bool" where
  "in_service t \<longleftrightarrow> lt_pc t = Polling \<or> lt_pc t = Taking \<or> lt_pc t = Running"

definition lt_inv :: "task list \<Rightarrow> lfthread \<Rightarrow> bool" where
  "lt_inv acc t \<longleftrightarrow>
     rb_inv (lt_buffer t) \<and> Empty_fn \<notin> set (held t @ rb_contents (lt_buffer t)) \<and>
     1 \<le> lt_sleep t \<and> lt_sleep t \<le> 100 \<and> (in_service t \<longrightarrow> share_of t = acc) \<and> prefix (lt_ran t) acc"

lemmas lt_defs = lt_inv_def share_of_def held_def in_service_def

lemma push_cases:
  assumes "rb_inv rb"
  obtains rb' where "push x rb = Inr (True, rb')" "rb_inv rb'" "rb_contents rb' = rb_contents rb @ [x]"
  | "push x rb = Inr (False, rb)"
  using push_room [OF assms, of x] push_full [OF assms, of x] by (meson not_le)

lemma pop_move_cases:
  assumes "rb_inv rb"
  obtains x rb' where "pop_move mv item rb = Inr (True, x, rb')" "rb_inv rb'" "rb_contents rb = x # rb_contents rb'"
  | "pop_move mv item rb = Inr (False, item, rb)" "rb_contents rb = []"
  using pop_move_some [OF assms] pop_none [OF assms] by (metis neq_Nil_conv)

lemma pop_cases:
  assumes "rb_inv rb"
  obtains x rb' where "pop item rb = Inr (True, x, rb')" "rb_inv rb'" "rb_contents rb = x # rb_contents rb'"
  | "pop item rb = Inr (False, item, rb)" "rb_contents rb = []"
  using pop_some [OF assms] pop_none [OF assms] by (metis neq_Nil_conv)

lemma push_move_eq: "push_move mv x rb = bindR (push x rb) (\<lambda>(ok, rb'). Inr (ok, if ok then mv x else x, rb'))"
  by (simp add: push_move_def push_def Let_def)

lemma lt_inv_push:
  assumes "lt_inv acc t" "rb_inv rb" "rb_contents rb = rb_contents (lt_buffer t) @ [f]" "f \<noteq> Empty_fn"
  shows "lt_inv (acc @ [f]) (t\<lparr>lt_buffer := rb\<rparr>)"
  using assms by (auto simp: lt_defs)

lemma lt_inv_turn:
  assumes inv: "lt_inv acc t"
  shows "\<exists>go t'. t_task_turn mv t = Inr (go, t') \<and> lt_inv acc t'"
proof (cases "lt_pc t")
  case Polling
  then show ?thesis using inv by (auto simp: t_task_turn_def lt_defs)
next
  case Taking
  have "rb_inv (lt_buffer t)" using inv by (simp add: lt_inv_def)
  then show ?thesis
    by (cases rule: pop_move_cases [where item = "lt_task t" and mv = mv])
      (use inv Taking in \<open>auto simp: t_task_turn_def lt_defs Let_def\<close>)
next
  case Running
  then show ?thesis using inv by (auto simp: t_task_turn_def lt_defs run_task_def)
next
  case Draining
  have "rb_inv (lt_buffer t)" using inv by (simp add: lt_inv_def)
  then show ?thesis
    by (cases rule: pop_cases [where item = "lt_task t"])
      (use inv Draining in \<open>auto simp: t_task_turn_def lt_defs Let_def\<close>)
next
  case Finished
  then show ?thesis using inv by (auto simp: t_task_turn_def)
qed

lemma lt_inv_flag: "lt_inv acc t \<Longrightarrow> lt_inv acc (t\<lparr>lt_shutdown := b\<rparr>)"
  by (simp add: lt_defs)

lemma lt_inv_wake:
  assumes inv: "lt_inv acc t"
  shows "\<exists>ok rb. push Wake_fn (lt_buffer t) = Inr (ok, rb) \<and> t_shutdown_wake t = Inr (t\<lparr>lt_buffer := rb\<rparr>) \<and>
    lt_inv (acc @ (if ok then [Wake_fn] else [])) (t\<lparr>lt_buffer := rb\<rparr>) \<and>
    rb_contents rb = rb_contents (lt_buffer t) @ (if ok then [Wake_fn] else [])"
proof -
  have "rb_inv (lt_buffer t)" using inv by (simp add: lt_inv_def)
  then show ?thesis
    by (cases rule: push_cases [where x = Wake_fn])
      (use inv lt_inv_push [OF inv] in \<open>auto simp: t_shutdown_wake_def\<close>)
qed

lemma lt_exec_ok:
  assumes inv: "lt_inv acc t" and "nonempty_act a"
  shows "\<exists>fs t'. lt_exec mv a t = Inr (fs, t') \<and> lt_inv (acc @ fs) t'"
proof -
  have rb: "rb_inv (lt_buffer t)" using inv by (simp add: lt_inv_def)
  show ?thesis
  proof (cases a)
    case (Enqueue f)
    from rb show ?thesis
      by (cases rule: push_cases [where x = f])
        (use assms Enqueue in \<open>auto simp: enqueue_task_def intro!: lt_inv_push\<close>)
  next
    case (Enqueue_move f)
    from rb show ?thesis
      by (cases rule: push_cases [where x = f])
        (use assms Enqueue_move in \<open>auto simp: enqueue_task_move_def push_move_eq intro!: lt_inv_push\<close>)
  next
    case Work
    then show ?thesis using lt_inv_turn [OF inv, of mv] by auto
  next
    case Stop
    then show ?thesis using lt_inv_flag [OF inv] by simp
  next
    case Wake
    then show ?thesis using lt_inv_wake [OF inv] by fastforce
  qed
qed

lemma lt_run_ok:
  assumes "lt_inv acc t" "\<forall>a \<in> set as. nonempty_act a"
  shows "\<exists>fs t'. lt_run mv as t = Inr (fs, t') \<and> lt_inv (acc @ fs) t'"
  using assms
proof (induction as arbitrary: acc t)
  case Nil
  then show ?case by simp
next
  case (Cons a as)
  obtain fs t1 where 1: "lt_exec mv a t = Inr (fs, t1)" "lt_inv (acc @ fs) t1"
    using lt_exec_ok [OF Cons.prems(1), of a mv] Cons.prems(2) by auto
  then obtain fs' t2 where "lt_run mv as t1 = Inr (fs', t2)" "lt_inv (acc @ fs @ fs') t2"
    using Cons.IH [OF 1(2)] Cons.prems(2) by auto
  with 1 show ?case by auto
qed

lemma new_lfthread_inv: "unat sz \<le> 2 ^ 63 \<Longrightarrow> lt_inv [] (new_lfthread sz)"
  using new_ringbuff_inv [of sz Empty_fn] by (simp add: lt_defs new_lfthread_def)

section \<open>Shutting down\<close>

text \<open>
  Once the flag is set, the thread runs at most the task that it has passed the test for: \<open>n\<close> bounds
  the number of the tasks run.
\<close>

definition ending :: "nat \<Rightarrow> lfthread \<Rightarrow> bool" where
  "ending n t \<longleftrightarrow> lt_shutdown t \<and>
     length (lt_ran t) + (if lt_pc t = Taking \<or> lt_pc t = Running then 1 else 0) \<le> n \<and>
     (lt_pc t = Finished \<longrightarrow> set (rb_contents (lt_buffer t)) \<subseteq> {Wake_fn})"

definition steps_left :: "lfthread \<Rightarrow> nat" where
  "steps_left t = length (rb_contents (lt_buffer t)) +
     (case lt_pc t of Taking \<Rightarrow> 4 | Running \<Rightarrow> 3 | Polling \<Rightarrow> 2 | Draining \<Rightarrow> 1 | Finished \<Rightarrow> 0)"

lemma ending_turn:
  assumes inv: "lt_inv acc t" and e: "ending n t" and t': "t_task_turn mv t = Inr (go, t')"
  shows "ending n t'" "prefix (lt_ran t) (lt_ran t')" "go \<Longrightarrow> steps_left t' < steps_left t" "\<not> go \<Longrightarrow> lt_pc t' = Finished"
proof -
  have rb: "rb_inv (lt_buffer t)" using inv by (simp add: lt_inv_def)
  have "ending n t' \<and> prefix (lt_ran t) (lt_ran t') \<and> (go \<longrightarrow> steps_left t' < steps_left t) \<and> (\<not> go \<longrightarrow> lt_pc t' = Finished)"
  proof (cases "lt_pc t")
    case Taking
    from rb show ?thesis
      by (cases rule: pop_move_cases [where item = "lt_task t" and mv = mv])
        (use e t' Taking in \<open>auto simp: t_task_turn_def ending_def steps_left_def Let_def\<close>)
  next
    case Draining
    from rb show ?thesis
      by (cases rule: pop_cases [where item = "lt_task t"])
        (use e t' Draining in \<open>auto simp: t_task_turn_def ending_def steps_left_def Let_def\<close>)
  next
    case Running
    then show ?thesis using e t' by (auto simp: t_task_turn_def ending_def steps_left_def run_task_def split: if_splits)
  qed (use e t' in \<open>auto simp: t_task_turn_def ending_def steps_left_def\<close>)
  then show "ending n t'" "prefix (lt_ran t) (lt_ran t')" "go \<Longrightarrow> steps_left t' < steps_left t" "\<not> go \<Longrightarrow> lt_pc t' = Finished"
    by simp_all
qed

lemma ending_turns:
  assumes "lt_inv acc t" "ending n t"
  shows "\<exists>t'. t_task_turns mv k t = Inr t' \<and> lt_inv acc t' \<and> ending n t' \<and> prefix (lt_ran t) (lt_ran t')"
  using assms
proof (induction k arbitrary: t)
  case (Suc k)
  obtain go t1 where t1: "t_task_turn mv t = Inr (go, t1)" "lt_inv acc t1" using lt_inv_turn [OF Suc.prems(1)] by blast
  note e = ending_turn [OF Suc.prems t1(1)]
  obtain t' where "t_task_turns mv k t1 = Inr t'" "lt_inv acc t'" "ending n t'" "prefix (lt_ran t1) (lt_ran t')"
    using Suc.IH [OF t1(2) e(1)] by blast
  then show ?case using t1(1) e(2) prefix_order.trans by auto
qed simp

text \<open>The join returns.\<close>

lemma ending_returns:
  assumes "lt_inv acc t" "ending n t"
  shows "\<exists>t'. repeat_turn (t_task_turn mv) t = Some (Inr t') \<and> lt_pc t' = Finished \<and> lt_inv acc t' \<and> ending n t' \<and>
    prefix (lt_ran t) (lt_ran t')"
proof (rule repeat_turn_returns [where I = "\<lambda>x. lt_inv acc x \<and> ending n x \<and> prefix (lt_ran t) (lt_ran x)" and m = steps_left])
  fix x
  assume x: "lt_inv acc x \<and> ending n x \<and> prefix (lt_ran t) (lt_ran x)"
  obtain go y where y: "t_task_turn mv x = Inr (go, y)" "lt_inv acc y" using lt_inv_turn x by blast
  note e = ending_turn [OF conjunct1 [OF x] conjunct1 [OF conjunct2 [OF x]] y(1)]
  have "prefix (lt_ran t) (lt_ran y)" using x e(2) prefix_order.trans by blast
  then show "\<exists>go y. t_task_turn mv x = Inr (go, y) \<and>
      (if go then (lt_inv acc y \<and> ending n y \<and> prefix (lt_ran t) (lt_ran y)) \<and> steps_left y < steps_left x
       else lt_pc y = Finished \<and> lt_inv acc y \<and> ending n y \<and> prefix (lt_ran t) (lt_ran y))"
    using y e by auto
qed (use assms in simp)

lemma t_shutdown_ends:
  assumes inv: "lt_inv (share_of t) t" and t: "\<not> lt_shutdown t" "in_service t"
  shows "\<exists>t'. lt_t_shutdown mv k t = Some (Inr t') \<and> lt_pc t' = Finished \<and> lt_shutdown t' \<and>
    set (rb_contents (lt_buffer t')) \<subseteq> {Wake_fn} \<and> prefix (lt_ran t) (lt_ran t') \<and>
    prefix (lt_ran t') (share_of t @ [Wake_fn]) \<and>
    length (lt_ran t') \<le> length (lt_ran t) + (if lt_pc t = Polling then 0 else 1)"
proof -
  let ?n = "length (lt_ran t) + (if lt_pc t = Polling then 0 else 1)" and ?t = "t\<lparr>lt_shutdown := True\<rparr>"
  have "ending ?n ?t" using t by (auto simp: ending_def in_service_def)
  from ending_turns [OF lt_inv_flag [OF inv] this] obtain t1 where t1: "t_task_turns mv k ?t = Inr t1" "lt_inv (share_of t) t1"
      "ending ?n t1" "prefix (lt_ran t) (lt_ran t1)" by auto
  obtain ok rb where rb: "t_shutdown_wake t1 = Inr (t1\<lparr>lt_buffer := rb\<rparr>)"
      "lt_inv (share_of t @ (if ok then [Wake_fn] else [])) (t1\<lparr>lt_buffer := rb\<rparr>)"
      "rb_contents rb = rb_contents (lt_buffer t1) @ (if ok then [Wake_fn] else [])"
    using lt_inv_wake [OF t1(2)] by blast
  have "ending ?n (t1\<lparr>lt_buffer := rb\<rparr>)" using t1(3) rb(3) by (auto simp: ending_def)
  from ending_returns [OF rb(2) this, of mv] obtain t' where t': "repeat_turn (t_task_turn mv) (t1\<lparr>lt_buffer := rb\<rparr>) = Some (Inr t')"
      "lt_pc t' = Finished" "prefix (lt_ran t') (share_of t @ (if ok then [Wake_fn] else []))" "ending ?n t'"
      "prefix (lt_ran t1) (lt_ran t')"
    by (auto simp: lt_inv_def)
  have "prefix (lt_ran t') (share_of t @ [Wake_fn])"
    using t'(3) prefix_order.trans by (cases ok) (auto intro: prefix_prefix)
  then show ?thesis
    using t' t1(1,4) rb(1) t(1) prefix_order.trans [OF t1(4) t'(5)] by (auto simp: lt_t_shutdown_def ending_def)
qed

text \<open>A thread that is at the test of its loop when the flag is set runs nothing more, whatever waits.\<close>

definition idle :: "lfthread \<Rightarrow> bool" where
  "idle t \<longleftrightarrow> rb_inv (lt_buffer t) \<and> lt_shutdown t \<and> (lt_pc t = Polling \<or> lt_pc t = Draining \<or> lt_pc t = Finished)"

lemma idle_turn:
  assumes "idle t"
  shows "\<exists>go t'. t_task_turn mv t = Inr (go, t') \<and> idle t' \<and> (go \<longrightarrow> steps_left t' < steps_left t)"
proof -
  have rb: "rb_inv (lt_buffer t)" using assms by (simp add: idle_def)
  from rb show ?thesis
    by (cases rule: pop_cases [where item = "lt_task t"])
      (use assms in \<open>auto simp: idle_def t_task_turn_def steps_left_def Let_def\<close>)
qed

lemma idle_turns: "idle t \<Longrightarrow> \<exists>t'. t_task_turns mv k t = Inr t' \<and> idle t'"
proof (induction k arbitrary: t)
  case (Suc k)
  then obtain go t1 where "t_task_turn mv t = Inr (go, t1)" "idle t1" using idle_turn by blast
  then show ?case using Suc.IH by simp
qed simp

lemma t_shutdown_returns:
  assumes "rb_inv (lt_buffer t)" "\<not> lt_shutdown t" "lt_pc t = Polling"
  shows "\<exists>t'. lt_t_shutdown mv k t = Some (Inr t')"
proof -
  have "idle (t\<lparr>lt_shutdown := True\<rparr>)" using assms by (simp add: idle_def)
  then obtain t1 where t1: "t_task_turns mv k (t\<lparr>lt_shutdown := True\<rparr>) = Inr t1" "idle t1" using idle_turns by blast
  then have "rb_inv (lt_buffer t1)" by (simp add: idle_def)
  then obtain t2 where t2: "t_shutdown_wake t1 = Inr t2" "idle t2"
    by (rule push_cases [where x = Wake_fn]) (use t1(2) in \<open>auto simp: t_shutdown_wake_def idle_def\<close>)
  have "\<exists>t'. repeat_turn (t_task_turn mv) t2 = Some (Inr t') \<and> True"
    by (rule repeat_turn_returns [where I = idle and m = steps_left]) (use t2(2) idle_turn [of _ mv] in \<open>fastforce+\<close>)
  then show ?thesis using t1(1) t2(1) assms(2) by (simp add: lt_t_shutdown_def)
qed

section \<open>Properties\<close>

text \<open>
  C38. A worker runs its tasks in the order in which they were accepted, however the owner's calls
  and the thread's steps interleave, the test of the flag, the access to the queue and the call of
  the task being steps of their own: no step faults, what has been run is a prefix of what was
  accepted, nothing is lost or repeated as long as the thread has not left its first loop, and the
  pause between polls stays between 1 and 100 milliseconds.
\<close>

theorem lfthread_runs_in_order:
  assumes "unat sz \<le> 2 ^ 63" and "\<forall>a \<in> set as. nonempty_act a"
  shows "\<exists>accepted t. lt_run mv as (new_lfthread sz) = Inr (accepted, t) \<and>
           prefix (lt_ran t) accepted \<and>
           (lt_pc t = Polling \<or> lt_pc t = Taking \<longrightarrow> lt_ran t @ rb_contents (lt_buffer t) = accepted) \<and>
           (lt_pc t = Running \<longrightarrow> lt_ran t @ lt_task t # rb_contents (lt_buffer t) = accepted) \<and>
           1 \<le> lt_sleep t \<and> lt_sleep t \<le> 100"
  using lt_run_ok [OF new_lfthread_inv [OF assms(1)] assms(2), of mv] by (auto simp: lt_defs)

theorem lfthread_runs_in_order_witness:
  "\<exists>accepted t. lt_run id [Enqueue (Job 1), Work, Work, Enqueue_move (Job 2), Stop, Work, Work, Wake, Work] (new_lfthread 4) =
       Inr (accepted, t) \<and> prefix (lt_ran t) accepted \<and> 1 \<le> lt_sleep t \<and> lt_sleep t \<le> 100"
proof -
  have "\<forall>a \<in> set [Enqueue (Job 1), Work, Work, Enqueue_move (Job 2), Stop, Work, Work, Wake, Work]. nonempty_act a" by simp
  from lfthread_runs_in_order [of 4, OF _ this, of id] show ?thesis by auto
qed

text \<open>
  Shutting a worker down always ends, whatever steps the thread makes meanwhile, and the tasks that
  wait are thrown away: after the flag has been set, the thread runs at most the one task for
  which it had already passed the test, and empties the queue without running anything, although
  the comment in \<^verbatim>\<open>t_task\<close> says that they are executed before the shutdown.
\<close>

theorem lfthread_shutdown_drops_tasks:
  assumes "lt_inv (share_of t) t" and "\<not> lt_shutdown t" and "in_service t"
  shows "\<exists>t'. lt_t_shutdown mv k t = Some (Inr t') \<and> lt_pc t' = Finished \<and>
    prefix (lt_ran t) (lt_ran t') \<and> length (lt_ran t') \<le> Suc (length (lt_ran t)) \<and>
    set (rb_contents (lt_buffer t')) \<subseteq> {Wake_fn}"
  using t_shutdown_ends [OF assms, of mv k] by (auto split: if_splits)

theorem lfthread_shutdown_drops_tasks_witness:
  "\<exists>t t'. enqueue_task (Job 7) (new_lfthread 4) = Inr (True, t) \<and> lt_t_shutdown id 1 t = Some (Inr t') \<and>
     lt_pc t' = Finished \<and> length (lt_ran t') \<le> 1 \<and> set (rb_contents (lt_buffer t')) \<subseteq> {Wake_fn}"
proof -
  have new: "rb_inv (new_ringbuff Empty_fn 4)" "rb_contents (new_ringbuff Empty_fn 4) = []"
      "3 \<le> rb_limit (new_ringbuff Empty_fn 4)"
    using new_ringbuff_inv [of 4 Empty_fn] by simp_all
  then obtain rb where rb: "push (Job 7) (new_ringbuff Empty_fn 4) = Inr (True, rb)" "rb_inv rb"
      "rb_contents rb = [Job 7]"
    using push_room [OF new(1), of "Job 7"] by auto
  let ?t = "(new_lfthread 4)\<lparr>lt_buffer := rb\<rparr>"
  have "enqueue_task (Job 7) (new_lfthread 4) = Inr (True, ?t)"
    using rb by (simp add: enqueue_task_def new_lfthread_def)
  moreover have "lt_inv (share_of ?t) ?t" "\<not> lt_shutdown ?t" "in_service ?t"
    using rb by (simp_all add: lt_defs new_lfthread_def)
  ultimately show ?thesis
    using lfthread_shutdown_drops_tasks [of ?t id 1] by (auto simp: new_lfthread_def)
qed

end
