(* ===== verification/Lfthread_Move.thy ===== *)
theory Lfthread_Move
  imports Lfthread
begin

text \<open>
  The moving constructor and the moving assignment of \<^verbatim>\<open>lfthread\<close> (\<^verbatim>\<open>src/lfthread.cpp\<close>). The thread
  was started with the address of the object it belongs to, and a move does not change what it
  works on: the object that is moved to has the handle of the thread, the object moved from has
  the queue and the flag that the thread reads. The state is therefore the new object, without
  a thread of its own, beside the old one, in which the thread goes on; the swap of the two
  queues is one step, as if the thread paused.
\<close>

section \<open>Operations\<close>

record lf_object =
  lo_buffer :: "task ringbuff"
  lo_shutdown :: bool
  lo_joinable :: bool

text \<open>
  The handle can be joined unless \<^verbatim>\<open>t_shutdown\<close>, which sets the flag, has joined it. The queue
  of the new object is constructed with its default size.
\<close>

definition lfthread_move :: "lfthread \<Rightarrow> lf_object \<times> lfthread" where
  "lfthread_move other =
     (case rb_swap (new_ringbuff Empty_fn 1024) (lt_buffer other) of
        (b, b') \<Rightarrow>
          (\<lparr>lo_buffer = b, lo_shutdown = lt_shutdown other, lo_joinable = (\<not> lt_shutdown other)\<rparr>,
           other\<lparr>lt_buffer := b'\<rparr>))"

text \<open>
  The assignment between two objects; that of an object to itself does nothing. \<open>k\<close> counts the steps
  of the thread that is shut down between the flag and the wake-up.
\<close>

definition lfthread_move_assign ::
  "(task \<Rightarrow> task) \<Rightarrow> nat \<Rightarrow> lfthread \<Rightarrow> lfthread \<Rightarrow> (lf_object \<times> lfthread) res option" where
  "lfthread_move_assign mv k this other =
     (case lt_t_shutdown mv k this of
        None \<Rightarrow> None
      | Some (Inl e) \<Rightarrow> Some (Inl e)
      | Some (Inr t) \<Rightarrow>
          (case rb_swap (lt_buffer t) (lt_buffer other) of
             (b, b') \<Rightarrow>
               Some (Inr (\<lparr>lo_buffer = b, lo_shutdown = lt_shutdown other,
                           lo_joinable = (\<not> lt_shutdown other)\<rparr>,
                          other\<lparr>lt_buffer := b'\<rparr>))))"

text \<open>\<^verbatim>\<open>enqueue_task\<close> and \<^verbatim>\<open>t_shutdown\<close> on the object moved to; \<^verbatim>\<open>join\<close> waits for the thread of the other.\<close>

definition lo_enqueue_task :: "task \<Rightarrow> lf_object \<Rightarrow> (bool \<times> lf_object) res" where
  "lo_enqueue_task f ob = bindR (push f (lo_buffer ob)) (\<lambda>(ok, rb). Inr (ok, ob\<lparr>lo_buffer := rb\<rparr>))"

definition lo_t_shutdown ::
  "(task \<Rightarrow> task) \<Rightarrow> lf_object \<Rightarrow> lfthread \<Rightarrow> (lf_object \<times> lfthread) res option" where
  "lo_t_shutdown mv ob old =
     (if lo_shutdown ob then Some (Inr (ob, old))
      else case push Wake_fn (lo_buffer ob) of
        Inl e \<Rightarrow> Some (Inl e)
      | Inr (_, rb) \<Rightarrow>
          let ob = ob\<lparr>lo_shutdown := True, lo_buffer := rb\<rparr>
          in if lo_joinable ob
             then case repeat_turn (t_task_turn mv) old of
                 None \<Rightarrow> None
               | Some (Inl e) \<Rightarrow> Some (Inl e)
               | Some (Inr old) \<Rightarrow> Some (Inr (ob\<lparr>lo_joinable := False\<rparr>, old))
             else Some (Inr (ob, old)))"

fun lo_enqueue_all :: "task list \<Rightarrow> lf_object \<Rightarrow> lf_object res" where
  "lo_enqueue_all [] ob = Inr ob"
| "lo_enqueue_all (f # fs) ob = bindR (lo_enqueue_task f ob) (\<lambda>(_, ob). lo_enqueue_all fs ob)"

section \<open>The thread goes on polling\<close>

definition keeps_polling :: "lfthread \<Rightarrow> bool" where
  "keeps_polling t \<longleftrightarrow> in_service t \<and> \<not> lt_shutdown t"

lemma keeps_polling_turn:
  assumes "keeps_polling t" "t_task_turn mv t = Inr (go, t')"
  shows "go \<and> keeps_polling t'"
  using assms
  by (auto simp: keeps_polling_def in_service_def t_task_turn_def run_task_def Let_def bindR_def
      split: if_splits sum.splits prod.splits)

lemma repeat_turn_never:
  assumes "I s" and "\<forall>s go s'. I s \<longrightarrow> turn s = Inr (go, s') \<longrightarrow> go \<and> I s'"
  shows "repeat_turn turn s \<noteq> Some (Inr s')"
proof
  assume "repeat_turn turn s = Some (Inr s')"
  then have "\<not> I s" using assms(2)
  proof (induction turn s "Inr s' :: 'a res" rule: repeat_turn.raw_induct [rotated, consumes 1])
    case (1 f turn s)
    show ?case
    proof
      assume "I s"
      then obtain s1 where "f turn s1 = Some (Inr s')" "I s1"
        using 1(2,3) by (cases "turn s") (auto split: prod.splits if_splits)
      then show False using 1(1,3) by blast
    qed
  qed
  then show False using assms(1) by simp
qed

section \<open>The queue does not fit its capacity\<close>

lemma moved_state:
  assumes "lfthread_move t = (ob, old)"
  shows "rb_head (lo_buffer ob) = rb_head (lt_buffer t)" "rb_tail (lo_buffer ob) = rb_tail (lt_buffer t)"
    "rb_buffer (lo_buffer ob) = rb_buffer (lt_buffer t)" "rb_capacity (lo_buffer ob) = 1024"
    "lo_shutdown ob = lt_shutdown t" "lt_shutdown old = lt_shutdown t" "lt_pc old = lt_pc t"
proof -
  have "adj_size 1024 = 1024" by (simp add: adj_size_def is_powtwo_def)
  then show "rb_capacity (lo_buffer ob) = 1024"
    using assms by (auto simp: lfthread_move_def rb_swap_def new_ringbuff_def)
qed (use assms in \<open>auto simp: lfthread_move_def rb_swap_def\<close>)

lemma push_past_end:
  assumes "rb_capacity rb = 1024" "rb_tail rb = 0" "unat (rb_head rb) \<le> length (rb_buffer rb)"
    "length (rb_buffer rb) < 1023"
  shows "push f rb =
    (if unat (rb_head rb) = length (rb_buffer rb) then Inl Out_of_bounds
     else Inr (True, rb\<lparr>rb_buffer := (rb_buffer rb)[unat (rb_head rb) := f], rb_head := rb_head rb + 1\<rparr>))"
proof -
  have "is_powtwo 1024" by (simp add: is_powtwo_def)
  moreover have "rb_head rb < 1024" using assms(3,4) by (simp add: word_less_nat_alt)
  ultimately have nx: "unat ((rb_head rb + 1) AND (1024 - 1)) = Suc (unat (rb_head rb)) mod unat (1024 :: size_t)"
    by (rule unat_next_index)
  then have "unat ((rb_head rb + 1) AND (1024 - 1)) = Suc (unat (rb_head rb))" using assms(3,4) by simp
  moreover have "unat (rb_head rb + 1) = Suc (unat (rb_head rb))"
    using unat_add_nowrap [of "rb_head rb" 1] assms(3,4) by simp
  ultimately have "(rb_head rb + 1) AND (1024 - 1) = rb_head rb + 1" "rb_head rb + 1 \<noteq> 0"
    by (simp_all add: word_unat_eq_iff)
  then show ?thesis using assms by (simp add: push_def Let_def)
qed

lemma enqueue_past_end:
  assumes "rb_capacity (lo_buffer ob) = 1024" "rb_tail (lo_buffer ob) = 0"
    "length (rb_buffer (lo_buffer ob)) < 1023"
    "unat (rb_head (lo_buffer ob)) \<le> length (rb_buffer (lo_buffer ob))"
    "length (rb_buffer (lo_buffer ob)) < unat (rb_head (lo_buffer ob)) + length fs"
  shows "lo_enqueue_all fs ob = Inl Out_of_bounds"
  using assms
proof (induction fs arbitrary: ob)
  case Nil
  then show ?case by simp
next
  case (Cons f fs)
  let ?rb = "lo_buffer ob"
  note push = push_past_end [OF Cons.prems(1,2,4,3), of f]
  show ?case
  proof (cases "unat (rb_head ?rb) = length (rb_buffer ?rb)")
    case True
    then show ?thesis using push by (simp add: lo_enqueue_task_def)
  next
    case False
    have "unat (rb_head ?rb + 1) = Suc (unat (rb_head ?rb))"
      using unat_add_nowrap [of "rb_head ?rb" 1] Cons.prems(3,4) by simp
    then show ?thesis
      using push False Cons.prems by (simp add: lo_enqueue_task_def Cons.IH)
  qed
qed

section \<open>Properties\<close>

text \<open>
  A worker that has been moved cannot be shut down, nor destroyed: the flag is set in the new
  object, and the thread, which reads the flag of the old one, is waited for without end.
\<close>

theorem moved_worker_never_joins:
  assumes "lfthread_move t = (ob, old)" and "in_service t" and "\<not> lt_shutdown t"
  shows "lo_t_shutdown mv ob old \<noteq> Some (Inr r)"
proof -
  note st = moved_state [OF assms(1)]
  have "keeps_polling old" using st(6,7) assms(2,3) by (simp add: keeps_polling_def in_service_def)
  then have never: "repeat_turn (t_task_turn mv) old \<noteq> Some (Inr t')" for t'
    by (rule repeat_turn_never) (use keeps_polling_turn in blast)
  have ob: "lo_joinable ob" "\<not> lo_shutdown ob"
    using assms(1,3) by (auto simp: lfthread_move_def rb_swap_def)
  show ?thesis
  proof (cases "push Wake_fn (lo_buffer ob)")
    case (Inl e)
    then show ?thesis using ob by (simp add: lo_t_shutdown_def)
  next
    case (Inr x)
    then show ?thesis
      using ob never by (cases x) (simp add: lo_t_shutdown_def Let_def split: option.split sum.split)
  qed
qed

text \<open>
  A worker that was made for fewer tasks than the default writes outside of its queue once it
  has been moved and one task more than there are slots is given to it: the slots are those of
  the old queue, the capacity is that of the new one.
\<close>

theorem moved_worker_overflows:
  assumes "lfthread_move (new_lfthread sz) = (ob, old)" and "unat sz \<le> 512"
    and "unat (adj_size sz) < length fs"
  shows "lo_enqueue_all fs ob = Inl Out_of_bounds"
proof (rule enqueue_past_end)
  note st = moved_state [OF assms(1)]
  have "unat (adj_size sz) \<le> 512"
  proof -
    have "unat sz \<le> 2 ^ 9" using assms(2) by simp
    then obtain k where "unat (adj_size sz) = 2 ^ k" "k \<le> 9" using adj_size_power [of sz] by auto
    then show ?thesis using power_increasing [of k 9 "2 :: nat"] by simp
  qed
  then show "length (rb_buffer (lo_buffer ob)) < 1023"
    by (simp add: st new_lfthread_def new_ringbuff_def)
qed (use moved_state [OF assms(1)] assms(3) in \<open>simp_all add: new_lfthread_def new_ringbuff_def\<close>)

end
