(* ===== verification/Load_Scan.thy ===== *)
theory Load_Scan
  imports Moon_Prelude
begin

text \<open>
  The linear scans over the loads of a pool that both thread pools use (\<^verbatim>\<open>getminidx\<close>,
  \<^verbatim>\<open>getmaxidx\<close>, \<^verbatim>\<open>getminload\<close>): start with element 0 and keep the index of the best load seen.
  The contract is proved once for any strict preference and interpreted for "smaller" and
  "larger".
\<close>

text \<open>\<open>scan better load k i best idx\<close> looks at the \<open>k\<close> elements from \<open>i\<close> on.\<close>

fun scan :: "(int \<Rightarrow> int \<Rightarrow> bool) \<Rightarrow> (nat \<Rightarrow> int res) \<Rightarrow> nat \<Rightarrow> nat \<Rightarrow> int \<Rightarrow> nat \<Rightarrow> nat res" where
  "scan better load 0 i best idx = Inr idx"
| "scan better load (Suc k) i best idx =
     bindR (load i) (\<lambda>cur.
       if better cur best then scan better load k (Suc i) cur i
       else scan better load k (Suc i) best idx)"

definition scan_all :: "(int \<Rightarrow> int \<Rightarrow> bool) \<Rightarrow> (nat \<Rightarrow> int res) \<Rightarrow> nat \<Rightarrow> nat res" where
  "scan_all better load n = bindR (load 0) (\<lambda>l. scan better load (n - 1) 1 l 0)"

locale strict_preference =
  fixes better :: "int \<Rightarrow> int \<Rightarrow> bool"
  assumes irrefl: "\<not> better a a"
    and trans: "better a b \<Longrightarrow> better b c \<Longrightarrow> better a c"
    and cotrans: "better a c \<Longrightarrow> better a b \<or> better b c"
begin

lemma scan_best:
  assumes "\<forall>j < i + k. load j = Inr (f j)" "idx < i" "best = f idx"
    and "\<forall>j < i. \<not> better (f j) (f idx)" "\<forall>j < idx. better (f idx) (f j)"
  shows "\<exists>r. scan better load k i best idx = Inr r \<and> r < i + k \<and>
             (\<forall>j < i + k. \<not> better (f j) (f r)) \<and> (\<forall>j < r. better (f r) (f j))"
  using assms
proof (induction k arbitrary: i best idx)
  case 0
  then show ?case by simp
next
  case (Suc k)
  have li: "load i = Inr (f i)" using Suc.prems(1) by simp
  show ?case
  proof (cases "better (f i) best")
    case True
    have "\<forall>j < Suc i. \<not> better (f j) (f i)"
      using True Suc.prems(3,4) irrefl trans by (metis less_Suc_eq)
    moreover have "\<forall>j < i. better (f i) (f j)"
      using True Suc.prems(3,4) cotrans by blast
    ultimately show ?thesis
      using Suc.IH [of "Suc i" i "f i"] Suc.prems(1) li True by simp
  next
    case False
    then have "\<forall>j < Suc i. \<not> better (f j) (f idx)"
      using Suc.prems(3,4) by (metis less_Suc_eq)
    then show ?thesis
      using Suc.IH [of "Suc i" idx best] Suc.prems li False by simp
  qed
qed

text \<open>The scan returns the first of the best elements.\<close>

lemma scan_all_best:
  assumes "0 < n" "\<forall>j < n. load j = Inr (f j)"
  shows "\<exists>r. scan_all better load n = Inr r \<and> r < n \<and> (\<forall>j < n. \<not> better (f j) (f r)) \<and>
             (\<forall>j < r. better (f r) (f j))"
  using scan_best [of 1 "n - 1" load f 0 "f 0"] assms irrefl by (simp add: scan_all_def)

end

interpretation smaller: strict_preference "(<)"
  by unfold_locales auto

interpretation larger: strict_preference "\<lambda>a b. b < a"
  by unfold_locales auto

end
