(* ===== verification/Lfthreadpool.thy ===== *)
theory Lfthreadpool
  imports Lfthread Load_Scan "HOL-Library.Signed_Division"
begin

text \<open>
  The pool of lock-free workers: \<^verbatim>\<open>include/moonnet/lfthreadpool.h\<close>, \<^verbatim>\<open>src/lfthreadpool.cpp\<close>,
  \<^verbatim>\<open>src/lfthreadpool.tpp\<close>. The vector of pointers to workers, which the pool owns alone, is the
  list of the workers. \<open>hc\<close> is the value of \<^verbatim>\<open>std::thread::hardware_concurrency()\<close>. Sums of
  loads are not wrapped: they are bounded by the sizes of the queues.
\<close>

section \<open>State\<close>

datatype PoolMode = Static | Dynamic

record lfthreadpool =
  lp_tnum :: size_t
  lp_workers :: "lfthread list"
  lp_shutdown :: bool
  lp_mode :: PoolMode
  lp_buffsize :: size_t
  lp_next :: size_t
  lp_timesec :: int
  lp_coolsec :: int
  lp_load_max :: int
  lp_load_min :: int
  lp_max_tnum :: int
  lp_min_tnum :: int

definition ADJUST_TIMEOUT_SEC :: int where
  "ADJUST_TIMEOUT_SEC = 5"

section \<open>Construction\<close>

definition getcores :: "nat \<Rightarrow> nat" where
  "getcores hc = (let cores = hc div 2 in (if cores = 0 then 4 else cores) + 1)"

definition setnum_n :: "size_t \<Rightarrow> lfthreadpool \<Rightarrow> lfthreadpool" where
  "setnum_n n p = p\<lparr>lp_tnum := n, lp_max_tnum := int_of (n * 2 - 1), lp_min_tnum := int_of n\<rparr>"

definition setnum :: "nat \<Rightarrow> lfthreadpool \<Rightarrow> lfthreadpool" where
  "setnum hc p =
     (let p = p\<lparr>lp_tnum := of_nat (getcores hc)\<rparr>
      in p\<lparr>lp_max_tnum := int_of (lp_tnum p * 2 - 1), lp_min_tnum := int_of (lp_tnum p)\<rparr>)"

text \<open>The workers; the manager thread of the dynamic mode runs \<open>adjust_task\<close> beside them.\<close>

definition lp_init :: "lfthreadpool \<Rightarrow> lfthreadpool" where
  "lp_init p = p\<lparr>lp_workers := lp_workers p @ replicate (unat (lp_tnum p)) (new_lfthread (lp_buffsize p))\<rparr>"

definition new_lfthreadpool :: "nat \<Rightarrow> int \<Rightarrow> size_t \<Rightarrow> PoolMode \<Rightarrow> lfthreadpool" where
  "new_lfthreadpool hc tnum buffsize mode =
     (let p = \<lparr>lp_tnum = 0, lp_workers = [], lp_shutdown = False, lp_mode = mode,
                lp_buffsize = buffsize, lp_next = 0, lp_timesec = 5, lp_coolsec = 30, lp_load_max = 80,
                lp_load_min = 20, lp_max_tnum = 0, lp_min_tnum = 0\<rparr>
      in lp_init (if tnum \<le> 0 then setnum hc p else setnum_n (of_int tnum) p))"

section \<open>Choosing a worker\<close>

definition load_at :: "lfthreadpool \<Rightarrow> nat \<Rightarrow> int res" where
  "load_at p i =
     (if i < length (lp_workers p) then Inr (lt_getload (lp_workers p ! i)) else Inl Out_of_bounds)"

definition getminidx :: "lfthreadpool \<Rightarrow> nat res" where
  "getminidx p = scan_all (<) (load_at p) (nat (int_of (lp_tnum p)))"

definition getmaxidx :: "lfthreadpool \<Rightarrow> nat res" where
  "getmaxidx p = scan_all (\<lambda>a b. b < a) (load_at p) (nat (int_of (lp_tnum p)))"

fun sum_loads :: "lfthreadpool \<Rightarrow> nat \<Rightarrow> int res" where
  "sum_loads p 0 = Inr 0"
| "sum_loads p (Suc i) = bindR (sum_loads p i) (\<lambda>s. bindR (load_at p i) (\<lambda>l. Inr (s + l)))"

definition lp_getload :: "lfthreadpool \<Rightarrow> int res" where
  "lp_getload p =
     (let sz = int_of (lp_tnum p)
      in bindR (sum_loads p (nat sz)) (\<lambda>sum.
           if sum = 0 then Inr 0
           else if sz = 0 then Inl Division_by_zero
           else let avg_load = sum sdiv sz in Inr ((avg_load sdiv sum) * 100)))"

definition getnext :: "lfthreadpool \<Rightarrow> (size_t \<times> lfthreadpool) res" where
  "getnext p =
     (case lp_mode p of
        Dynamic \<Rightarrow> bindR (getminidx p) (\<lambda>i. Inr (of_nat i, p))
      | Static \<Rightarrow>
          if lp_tnum p = 0 then Inl Division_by_zero
          else let n = (lp_next p + 1) mod lp_tnum p
               in Inr (of_int (int_of n), p\<lparr>lp_next := n\<rparr>))"

section \<open>Tasks\<close>

definition add_task :: "task \<Rightarrow> lfthreadpool \<Rightarrow> (bool \<times> lfthreadpool) res" where
  "add_task f p =
     (if lp_shutdown p then Inr (False, p)
      else bindR (getnext p) (\<lambda>(idx, p).
        if unat idx \<ge> length (lp_workers p) then Inr (False, p)
        else bindR (enqueue_task f (lp_workers p ! unat idx)) (\<lambda>(ok, t).
          Inr (ok, p\<lparr>lp_workers := (lp_workers p)[unat idx := t]\<rparr>))))"

definition add_task_move :: "(task \<Rightarrow> task) \<Rightarrow> task \<Rightarrow> lfthreadpool \<Rightarrow> (bool \<times> lfthreadpool) res" where
  "add_task_move mv f p =
     (if lp_shutdown p then Inr (False, p)
      else bindR (getnext p) (\<lambda>(idx, p).
        if unat idx \<ge> length (lp_workers p) then Inr (False, p)
        else bindR (enqueue_task_move mv f (lp_workers p ! unat idx)) (\<lambda>(ok, _, t).
          Inr (ok, p\<lparr>lp_workers := (lp_workers p)[unat idx := t]\<rparr>))))"

section \<open>Changing the size and shutting down\<close>

definition add_thread :: "lfthreadpool \<Rightarrow> lfthreadpool" where
  "add_thread p = p\<lparr>lp_workers := lp_workers p @ [new_lfthread (lp_buffsize p)], lp_tnum := lp_tnum p + 1\<rparr>"

text \<open>One turn of \<^verbatim>\<open>while (rb.pop_move(_t)) add_task(std::move(_t))\<close>.\<close>

definition redispatch_turn ::
  "(task \<Rightarrow> task) \<Rightarrow> task \<times> task ringbuff \<times> lfthreadpool \<Rightarrow> (bool \<times> task \<times> task ringbuff \<times> lfthreadpool) res" where
  "redispatch_turn mv = (\<lambda>(f, rb, p).
     bindR (pop_move mv f rb) (\<lambda>(ok, f, rb).
       if ok then bindR (add_task f p) (\<lambda>(_, p). Inr (True, mv f, rb, p)) else Inr (False, f, rb, p)))"

text \<open>
  The worker object that is taken out of the vector is not deleted. \<open>k\<close> is the number of steps that
  its thread makes between the flag and the wake-up.
\<close>

definition del_thread_dispath :: "(task \<Rightarrow> task) \<Rightarrow> nat \<Rightarrow> lfthreadpool \<Rightarrow> lfthreadpool res" where
  "del_thread_dispath mv k p =
     bindR (getmaxidx p) (\<lambda>idx.
       if idx \<ge> length (lp_workers p) then Inl Out_of_bounds
       else case swap_to_ringbuff (new_ringbuff Empty_fn (lp_buffsize p)) (lp_workers p ! idx) of (rb, t) \<Rightarrow>
         bindR (returned (lt_t_shutdown mv k t)) (\<lambda>t.
           let p = p\<lparr>lp_workers := butlast ((lp_workers p)[idx := last (lp_workers p)]),
                     lp_tnum := lp_tnum p - 1\<rparr>
           in bindR (returned (repeat_turn (redispatch_turn mv) (Empty_fn, rb, p))) (\<lambda>(_, _, p). Inr p)))"

text \<open>
  One turn of \<^verbatim>\<open>adjust_task\<close>; \<open>later\<close> is the value of \<^verbatim>\<open>shutdown_\<close> after the pause. The flag in the
  result tells whether the loop goes on.
\<close>

definition adjust_body :: "(task \<Rightarrow> task) \<Rightarrow> nat \<Rightarrow> lfthreadpool \<Rightarrow> lfthreadpool res" where
  "adjust_body mv k p =
     bindR (let num = int_of (lp_tnum p)
            in if num > lp_min_tnum p \<and> num < lp_max_tnum p
               then bindR (lp_getload p) (\<lambda>load.
                      if load < lp_load_min p
                      then bindR (del_thread_dispath mv k p) (\<lambda>p. Inr (p\<lparr>lp_timesec := lp_timesec p + lp_coolsec p\<rparr>))
                      else if load > lp_load_max p
                      then (let p = add_thread p in Inr (p\<lparr>lp_timesec := lp_timesec p - lp_coolsec p\<rparr>))
                      else Inr p)
               else Inr p) (\<lambda>p.
       Inr (if lp_timesec p < ADJUST_TIMEOUT_SEC then p\<lparr>lp_timesec := ADJUST_TIMEOUT_SEC\<rparr> else p))"

definition lp_adjust_turn :: "(task \<Rightarrow> task) \<Rightarrow> nat \<Rightarrow> bool \<Rightarrow> lfthreadpool \<Rightarrow> (bool \<times> lfthreadpool) res" where
  "lp_adjust_turn mv k later p =
     (if lp_shutdown p
      then if later then Inr (False, p) else bindR (adjust_body mv k p) (\<lambda>p. Inr (True, p))
      else Inr (False, p))"

text \<open>
  \<^verbatim>\<open>t_shutdown\<close> stops and joins the workers one after the other, while those that have not been
  stopped yet go on. A schedule gives for each worker the steps that the workers make between the
  join of the one before it and its own flag, and the number of its own steps between flag and
  wake-up. (Steps that the others make while it is joined change nothing of it, and can be taken
  to come before.)
\<close>

type_synonym lp_sched = "nat \<Rightarrow> nat list \<times> nat"

fun worker_steps :: "(task \<Rightarrow> task) \<Rightarrow> nat list \<Rightarrow> lfthread list \<Rightarrow> lfthread list res" where
  "worker_steps mv [] ws = Inr ws"
| "worker_steps mv (i # is) ws =
     (if i < length ws then bindR (t_task_turn mv (ws ! i)) (\<lambda>(_, t). worker_steps mv is (ws[i := t]))
      else worker_steps mv is ws)"

fun shutdown_workers :: "(task \<Rightarrow> task) \<Rightarrow> lp_sched \<Rightarrow> nat \<Rightarrow> lfthread list \<Rightarrow> lfthread list res" where
  "shutdown_workers mv sched 0 ws = Inr ws"
| "shutdown_workers mv sched (Suc n) ws =
     bindR (shutdown_workers mv sched n ws) (\<lambda>ws.
     bindR (worker_steps mv (fst (sched n)) ws) (\<lambda>ws.
       if n < length ws
       then bindR (returned (lt_t_shutdown mv (snd (sched n)) (ws ! n))) (\<lambda>t. Inr (ws[n := t]))
       else Inl Out_of_bounds))"

definition lp_t_shutdown :: "(task \<Rightarrow> task) \<Rightarrow> lp_sched \<Rightarrow> lfthreadpool \<Rightarrow> lfthreadpool res" where
  "lp_t_shutdown mv sched p =
     (if lp_shutdown p then Inr p
      else bindR (shutdown_workers mv sched (unat (lp_tnum p)) (lp_workers p)) (\<lambda>ws.
             Inr (p\<lparr>lp_shutdown := True, lp_workers := ws\<rparr>)))"

text \<open>The destructor; the destructors of the workers call their \<^verbatim>\<open>t_shutdown\<close> again.\<close>

definition delete_lfthreadpool :: "(task \<Rightarrow> task) \<Rightarrow> lp_sched \<Rightarrow> lfthreadpool \<Rightarrow> lfthreadpool res" where
  "delete_lfthreadpool mv sched p =
     bindR (lp_t_shutdown mv sched p) (\<lambda>p.
     bindR (shutdown_workers mv sched (length (lp_workers p)) (lp_workers p)) (\<lambda>_.
       Inr (p\<lparr>lp_workers := [], lp_tnum := 0\<rparr>)))"

end
