(* ===== verification/Lfthreadpool_Laws.thy ===== *)
theory Lfthreadpool_Laws
  imports Lfthreadpool "HOL-Library.Multiset"
begin

text \<open>
  The laws of the pool of lock-free workers: how tasks are dealt out in either mode, what the
  load measure computes, what the manager thread does, and what becomes of the tasks of a
  worker that is taken out.
\<close>

section \<open>Small numbers\<close>

lemma int_of_small:
  assumes "unat n < 2 ^ 31"
  shows "int_of n = int (unat n)"
proof -
  have "int (unat n) < int (2 ^ 31)" using assms by (simp only: of_nat_less_iff)
  then have n: "uint n < 2 ^ 31" by simp
  then have "uint (ucast n :: u32) = uint n"
    by (simp add: unsigned_ucast_eq take_bit_int_eq_self)
  then have "sint (ucast n :: u32) = uint n"
    using n signed_take_bit_int_eq_self [of 31 "uint n"] order_trans [of "- (2 ^ 31)" 0 "uint n"]
    by (simp add: sint_uint)
  then show ?thesis by (simp add: int_of_def)
qed

lemma of_int_small: "unat (n :: size_t) < 2 ^ 31 \<Longrightarrow> of_int (int_of n) = n"
  by (simp add: int_of_small)

section \<open>Round robin\<close>

fun add_tasks :: "task list \<Rightarrow> lfthreadpool \<Rightarrow> (bool list \<times> lfthreadpool) res" where
  "add_tasks [] p = Inr ([], p)"
| "add_tasks (f # fs) p =
     bindR (add_task f p) (\<lambda>(ok, p). bindR (add_tasks fs p) (\<lambda>(oks, p). Inr (ok # oks, p)))"

text \<open>A pool in service: as many workers as it counts, less than \<open>2 ^ 31\<close>, all well formed.\<close>

definition pool_ok :: "lfthreadpool \<Rightarrow> bool" where
  "pool_ok p \<longleftrightarrow>
     \<not> lp_shutdown p \<and> 0 < length (lp_workers p) \<and> unat (lp_tnum p) = length (lp_workers p) \<and>
     length (lp_workers p) < 2 ^ 31 \<and> lp_next p < lp_tnum p \<and>
     (\<forall>t \<in> set (lp_workers p). rb_inv (lt_buffer t))"

abbreviation queue_of :: "lfthreadpool \<Rightarrow> nat \<Rightarrow> task list" where
  "queue_of p i \<equiv> rb_contents (lt_buffer (lp_workers p ! i))"

abbreviation room_of :: "lfthreadpool \<Rightarrow> nat \<Rightarrow> nat" where
  "room_of p i \<equiv> rb_limit (lt_buffer (lp_workers p ! i)) - length (queue_of p i)"

text \<open>No worker has been told to stop, and none has had its buffer exchanged.\<close>

definition running :: "lfthreadpool \<Rightarrow> bool" where
  "running p \<longleftrightarrow> (\<forall>t \<in> set (lp_workers p). \<not> lt_shutdown t \<and> lt_pc t = Polling \<and>
                rb_capacity (lt_buffer t) = adj_size (lp_buffsize p))"

lemma enqueue_task_frame:
  "enqueue_task f t = Inr (ok, t') \<Longrightarrow>
   lt_shutdown t' = lt_shutdown t \<and> lt_pc t' = lt_pc t \<and>
   rb_capacity (lt_buffer t') = rb_capacity (lt_buffer t)"
  by (auto simp: enqueue_task_def push_def Let_def split: if_splits)

lemma getnext_frame: "getnext p = Inr (i, p') \<Longrightarrow> \<exists>n. p' = p\<lparr>lp_next := n\<rparr>"
  by (cases "getminidx p")
    (auto simp: getnext_def Let_def split: PoolMode.splits if_splits intro: exI [of _ "lp_next p"])

lemma add_task_running:
  assumes "add_task f p = Inr (ok, p')" "running p"
  shows "running p'"
proof (cases "lp_shutdown p")
  case True
  then show ?thesis using assms by (simp add: add_task_def)
next
  case False
  then obtain i p1 where n: "getnext p = Inr (i, p1)"
    using assms(1) by (cases "getnext p") (auto simp: add_task_def)
  then obtain k where p1: "p1 = p\<lparr>lp_next := k\<rparr>" using getnext_frame by blast
  show ?thesis
  proof (cases "unat i < length (lp_workers p)")
    case True
    then obtain t where t: "enqueue_task f (lp_workers p ! unat i) = Inr (ok, t)"
        "p' = p1\<lparr>lp_workers := (lp_workers p)[unat i := t]\<rparr>"
      using assms(1) False n p1
      by (cases "enqueue_task f (lp_workers p ! unat i)") (auto simp: add_task_def)
    show ?thesis
      using assms(2) True p1 t(2) enqueue_task_frame [OF t(1)]
      by (auto simp: running_def dest!: set_update_subset_insert [THEN subsetD])
  next
    case out: False
    then show ?thesis using assms False n p1 by (auto simp: add_task_def running_def)
  qed
qed

lemma getnext_static:
  assumes "pool_ok p" "lp_mode p = Static"
  shows "\<exists>n. getnext p = Inr (n, p\<lparr>lp_next := n\<rparr>) \<and>
             unat n = (unat (lp_next p) + 1) mod length (lp_workers p)"
proof -
  have small: "unat (lp_tnum p) < 2 ^ 31" "unat (lp_next p) < unat (lp_tnum p)" "0 < unat (lp_tnum p)"
    using assms by (auto simp: pool_ok_def word_less_nat_alt)
  let ?n = "(lp_next p + 1) mod lp_tnum p"
  have "unat (lp_next p + 1) = unat (lp_next p) + 1"
    using small unat_add_nowrap [of "lp_next p" 1] by simp
  then have n: "unat ?n = (unat (lp_next p) + 1) mod unat (lp_tnum p)" by (simp add: unat_mod)
  then have "unat ?n < 2 ^ 31" using small mod_less_divisor [of "unat (lp_tnum p)"] by (metis less_trans)
  then have "of_int (int_of ?n) = ?n" by (rule of_int_small)
  moreover have "lp_tnum p \<noteq> 0" using small by auto
  ultimately show ?thesis using assms n by (auto simp: getnext_def Let_def pool_ok_def)
qed

lemma add_task_static:
  assumes ok: "pool_ok p" and mode: "lp_mode p = Static"
    and room: "\<forall>i < length (lp_workers p). 0 < room_of p i"
  shows "\<exists>p'. add_task f p = Inr (True, p') \<and> pool_ok p' \<and> lp_mode p' = Static \<and>
           length (lp_workers p') = length (lp_workers p) \<and>
           unat (lp_next p') = (unat (lp_next p) + 1) mod length (lp_workers p) \<and>
           (\<forall>i < length (lp_workers p).
              queue_of p' i = queue_of p i @
                (if i = (unat (lp_next p) + 1) mod length (lp_workers p) then [f] else []) \<and>
              rb_limit (lt_buffer (lp_workers p' ! i)) = rb_limit (lt_buffer (lp_workers p ! i)))"
proof -
  obtain n where n: "getnext p = Inr (n, p\<lparr>lp_next := n\<rparr>)"
      "unat n = (unat (lp_next p) + 1) mod length (lp_workers p)"
    using getnext_static [OF ok mode] by blast
  have lt: "unat n < length (lp_workers p)" using n ok by (simp add: pool_ok_def)
  let ?t = "lp_workers p ! unat n"
  have inv: "rb_inv (lt_buffer ?t)" using ok lt by (auto simp: pool_ok_def)
  obtain rb where rb: "push f (lt_buffer ?t) = Inr (True, rb)" "rb_inv rb"
      "rb_contents rb = rb_contents (lt_buffer ?t) @ [f]" "rb_limit rb = rb_limit (lt_buffer ?t)"
    using push_room [OF inv] room lt by fastforce
  let ?p = "p\<lparr>lp_next := n, lp_workers := (lp_workers p)[unat n := ?t\<lparr>lt_buffer := rb\<rparr>]\<rparr>"
  have "add_task f p = Inr (True, ?p)"
    using ok n(1) lt rb by (simp add: add_task_def enqueue_task_def pool_ok_def)
  moreover have "pool_ok ?p"
    using ok lt rb by (auto simp: pool_ok_def word_less_nat_alt dest!: set_update_subset_insert [THEN subsetD])
  ultimately show ?thesis using n(2) lt rb mode by (auto simp: nth_list_update)
qed

text \<open>Which of the tasks \<open>fs\<close> worker \<open>i\<close> of \<open>m\<close> gets when the last one before was for worker \<open>k\<close>.\<close>

definition turn_of :: "nat \<Rightarrow> nat \<Rightarrow> nat \<Rightarrow> 'a list \<Rightarrow> 'a list" where
  "turn_of m k i fs = map ((!) fs) (filter (\<lambda>j. (k + 1 + j) mod m = i) [0..<length fs])"

lemma turn_of_Cons:
  "turn_of m k i (f # fs) = (if (k + 1) mod m = i then [f] else []) @ turn_of m ((k + 1) mod m) i fs"
proof -
  have "[0..<length (f # fs)] = 0 # map Suc [0..<length fs]" by (simp add: map_Suc_upt upt_conv_Cons del: upt_Suc)
  then have "turn_of m k i (f # fs) = (if (k + 1) mod m = i then [f] else []) @
      map ((!) (f # fs)) (filter (\<lambda>j. (k + 1 + j) mod m = i) (map Suc [0..<length fs]))"
    by (simp add: turn_of_def del: upt_Suc)
  also have "map ((!) (f # fs)) (filter (\<lambda>j. (k + 1 + j) mod m = i) (map Suc [0..<length fs])) =
      map ((!) fs) (filter (\<lambda>j. (k + 1 + Suc j) mod m = i) [0..<length fs])"
    by (simp add: filter_map comp_def)
  also have "(\<lambda>j. (k + 1 + Suc j) mod m = i) = (\<lambda>j. ((k + 1) mod m + 1 + j) mod m = i)"
  proof
    fix j
    have "((k + 1) mod m + 1 + j) mod m = (k + 1 + Suc j) mod m"
      by (metis (no_types, opaque_lifting) add.assoc add_Suc_right mod_add_left_eq plus_1_eq_Suc)
    then show "((k + 1 + Suc j) mod m = i) = (((k + 1) mod m + 1 + j) mod m = i)" by simp
  qed
  finally show ?thesis by (simp add: turn_of_def)
qed

lemma length_turn_of: "length (turn_of m k i fs) \<le> length fs"
  using length_filter_le [of _ "[0..<length fs]"] by (simp add: turn_of_def)

lemma add_tasks_static:
  assumes "pool_ok p" "lp_mode p = Static" "\<forall>i < length (lp_workers p). length fs \<le> room_of p i"
  shows "\<exists>p'. add_tasks fs p = Inr (replicate (length fs) True, p') \<and> pool_ok p' \<and>
           length (lp_workers p') = length (lp_workers p) \<and>
           (\<forall>i < length (lp_workers p).
              queue_of p' i = queue_of p i @ turn_of (length (lp_workers p)) (unat (lp_next p)) i fs)"
  using assms
proof (induction fs arbitrary: p)
  case Nil
  then show ?case by (simp add: turn_of_def)
next
  case (Cons f fs)
  have room: "\<forall>i < length (lp_workers p). 0 < room_of p i" using Cons.prems(3) by fastforce
  obtain p1 where p1: "add_task f p = Inr (True, p1)" "pool_ok p1" "lp_mode p1 = Static"
      "length (lp_workers p1) = length (lp_workers p)"
      "unat (lp_next p1) = (unat (lp_next p) + 1) mod length (lp_workers p)"
    and q1: "\<forall>i < length (lp_workers p).
        queue_of p1 i = queue_of p i @
          (if i = (unat (lp_next p) + 1) mod length (lp_workers p) then [f] else []) \<and>
        rb_limit (lt_buffer (lp_workers p1 ! i)) = rb_limit (lt_buffer (lp_workers p ! i))"
    using add_task_static [OF Cons.prems(1,2) room] by blast
  have "\<forall>i < length (lp_workers p1). length fs \<le> room_of p1 i"
    using Cons.prems(3) q1 p1(4) by fastforce
  then obtain p2 where "add_tasks fs p1 = Inr (replicate (length fs) True, p2)" "pool_ok p2"
      "length (lp_workers p2) = length (lp_workers p1)"
      "\<forall>i < length (lp_workers p1).
         queue_of p2 i = queue_of p1 i @ turn_of (length (lp_workers p1)) (unat (lp_next p1)) i fs"
    using Cons.IH [OF p1(2,3)] by blast
  with p1 q1 show ?case by (auto simp: turn_of_Cons)
qed

section \<open>Loads\<close>

text \<open>Queues short enough for the conversions to \<^verbatim>\<open>int\<close>.\<close>

definition short_queues :: "lfthreadpool \<Rightarrow> bool" where
  "short_queues p \<longleftrightarrow> (\<forall>i < length (lp_workers p). length (queue_of p i) < 2 ^ 31)"

lemma load_at_ok:
  assumes "pool_ok p" "short_queues p" "i < length (lp_workers p)"
  shows "load_at p i = Inr (int (length (queue_of p i)))"
proof -
  have "rb_inv (lt_buffer (lp_workers p ! i))" using assms by (auto simp: pool_ok_def)
  note sz = rb_size_contents [OF this]
  then have "unat (rb_size (lt_buffer (lp_workers p ! i))) < 2 ^ 31"
    using assms(2,3) by (simp add: short_queues_def)
  then show ?thesis using assms(3) sz by (simp add: load_at_def lt_getload_def int_of_small)
qed

lemma int_of_tnum: "pool_ok p \<Longrightarrow> int_of (lp_tnum p) = int (length (lp_workers p))"
  by (simp add: pool_ok_def int_of_small)

lemma getminidx_ok:
  assumes "pool_ok p" "short_queues p"
  shows "\<exists>r. getminidx p = Inr r \<and> r < length (lp_workers p) \<and>
             (\<forall>j < length (lp_workers p). length (queue_of p r) \<le> length (queue_of p j)) \<and>
             (\<forall>j < r. length (queue_of p r) < length (queue_of p j))"
  using smaller.scan_all_best [of "length (lp_workers p)" "load_at p" "\<lambda>i. int (length (queue_of p i))"]
    assms load_at_ok [OF assms]
  by (simp add: getminidx_def int_of_tnum pool_ok_def not_less)

lemma getmaxidx_ok:
  assumes "pool_ok p" "short_queues p"
  shows "\<exists>r. getmaxidx p = Inr r \<and> r < length (lp_workers p) \<and>
             (\<forall>j < length (lp_workers p). length (queue_of p j) \<le> length (queue_of p r))"
  using larger.scan_all_best [of "length (lp_workers p)" "load_at p" "\<lambda>i. int (length (queue_of p i))"]
    assms load_at_ok [OF assms]
  by (auto simp: getmaxidx_def int_of_tnum pool_ok_def not_less)

lemma sum_loads_ok:
  assumes "pool_ok p" "short_queues p" "n \<le> length (lp_workers p)"
  shows "sum_loads p n = Inr (int (\<Sum>i < n. length (queue_of p i)))"
  using assms(3) by (induction n) (simp_all add: load_at_ok [OF assms(1,2)])

lemma sdiv_nonneg: "0 \<le> a \<Longrightarrow> 0 < b \<Longrightarrow> a sdiv b = a div b" for a b :: int
  by (cases "a = 0") (simp_all add: signed_divide_int_def)

lemma lp_getload_ok:
  assumes "pool_ok p" "short_queues p"
  shows "lp_getload p =
    Inr (if length (lp_workers p) = 1 \<and> queue_of p 0 \<noteq> [] then 100 else 0)"
proof -
  let ?n = "length (lp_workers p)"
  define sum where "sum = (\<Sum>i < ?n. length (queue_of p i))"
  have n: "0 < ?n" using assms(1) by (simp add: pool_ok_def)
  have s: "sum_loads p ?n = Inr (int sum)" using sum_loads_ok [OF assms] by (simp add: sum_def)
  show ?thesis
  proof (cases "sum = 0")
    case True
    then have "queue_of p 0 = []" using n by (auto simp: sum_def)
    then show ?thesis using True s int_of_tnum [OF assms(1)] by (simp add: lp_getload_def)
  next
    case False
    have eq: "lp_getload p = Inr ((int sum div int ?n) div int sum * 100)"
      using s int_of_tnum [OF assms(1)] n False
      by (simp add: lp_getload_def Let_def sdiv_nonneg pos_imp_zdiv_nonneg_iff)
    show ?thesis
    proof (cases "?n = 1")
      case True
      then have "queue_of p 0 \<noteq> []" using False by (simp add: sum_def)
      then show ?thesis using True eq False by simp
    next
      case more: False
      then have "1 < ?n" using n by linarith
      then have "sum div ?n < sum" using False by (intro div_less_dividend) auto
      then have "(int sum div int ?n) div int sum = 0" by (simp flip: of_nat_div)
      then show ?thesis using eq more by simp
    qed
  qed
qed

section \<open>Removing a worker\<close>

text \<open>The buffer that \<^verbatim>\<open>del_thread_dispath\<close> swaps for the tasks keeps its own indices: it looks empty.\<close>

lemma swapped_out_empty:
  "rb_head (fst (swap_to_ringbuff (new_ringbuff d sz) t)) = 0"
  "rb_tail (fst (swap_to_ringbuff (new_ringbuff d sz) t)) = 0"
  by (simp_all add: swap_to_ringbuff_def rb_swap_def new_ringbuff_def)

lemma swapped_in_inv:
  assumes "rb_inv (lt_buffer t)" "rb_capacity (lt_buffer t) = adj_size sz"
  shows "rb_inv (lt_buffer (snd (swap_to_ringbuff (new_ringbuff d sz) t)))"
proof -
  have "0 < rb_capacity (lt_buffer t)" using assms by (auto simp: rb_inv_def is_powtwo_def word_gt_0)
  then show ?thesis
    using assms by (simp add: swap_to_ringbuff_def rb_swap_def new_ringbuff_def rb_inv_def)
qed

lemma del_thread_dispath_ok:
  assumes ok: "pool_ok p" and short: "short_queues p"
    and run: "running p"
  shows "\<exists>idx p'. getmaxidx p = Inr idx \<and> idx < length (lp_workers p) \<and> del_thread_dispath mv k p = Inr p' \<and>
           lp_workers p' = butlast ((lp_workers p)[idx := last (lp_workers p)])"
proof -
  obtain idx where idx: "getmaxidx p = Inr idx" "idx < length (lp_workers p)"
    using getmaxidx_ok [OF ok short] by blast
  let ?t = "lp_workers p ! idx"
  have t: "rb_inv (lt_buffer ?t)" "\<not> lt_shutdown ?t" "lt_pc ?t = Polling"
      "rb_capacity (lt_buffer ?t) = adj_size (lp_buffsize p)"
    using ok run idx(2) by (auto simp: pool_ok_def running_def)
  obtain rb t1 where sw: "swap_to_ringbuff (new_ringbuff Empty_fn (lp_buffsize p)) ?t = (rb, t1)" by fastforce
  have rb: "rb_head rb = 0" "rb_tail rb = 0"
    using swapped_out_empty [of Empty_fn "lp_buffsize p" ?t] sw by simp_all
  have t1: "rb_inv (lt_buffer t1)" "\<not> lt_shutdown t1" "lt_pc t1 = Polling"
    using swapped_in_inv [OF t(1,4), of Empty_fn] sw t by (auto simp: swap_to_ringbuff_def rb_swap_def)
  obtain t2 where t2: "lt_t_shutdown mv k t1 = Some (Inr t2)" using t_shutdown_returns [OF t1] by blast
  let ?p = "p\<lparr>lp_workers := butlast ((lp_workers p)[idx := last (lp_workers p)]), lp_tnum := lp_tnum p - 1\<rparr>"
  have "redispatch_turn mv (Empty_fn, rb, ?p) = Inr (False, Empty_fn, rb, ?p)"
    using rb by (simp add: redispatch_turn_def pop_move_def)
  then have "repeat_turn (redispatch_turn mv) (Empty_fn, rb, ?p) = Some (Inr (Empty_fn, rb, ?p))"
    by (rule repeat_turn_done)
  then have "del_thread_dispath mv k p = Inr ?p"
    using idx sw t2 by (simp add: del_thread_dispath_def Let_def)
  with idx show ?thesis by simp
qed

lemma mset_swap_remove:
  assumes "i < length xs"
  shows "mset (butlast (xs[i := last xs])) + {#xs ! i#} = mset xs"
proof -
  have "xs \<noteq> []" using assms by auto
  then have ne: "xs[i := last xs] \<noteq> []" by simp
  have l: "last (xs[i := last xs]) = last xs"
    using \<open>xs \<noteq> []\<close> by (simp add: last_list_update)
  have "mset (butlast (xs[i := last xs])) + {#last xs#} = mset (xs[i := last xs])"
    using append_butlast_last_id [OF ne] l by (metis mset.simps mset_append add_mset_add_single union_mset_add_mset_right)
  also have "\<dots> = mset xs - {#xs ! i#} + {#last xs#}"
    using assms by (simp add: mset_update)
  finally show ?thesis using assms by (simp add: insert_DiffM)
qed

section \<open>Properties\<close>

text \<open>
  The static pool deals its tasks out in turn: after any number of \<^verbatim>\<open>add_task\<close> calls, as long
  as the queues have room, every call has succeeded and each worker has got exactly the
  tasks whose number, counted from the last worker served, falls on it, in their order.
\<close>

theorem static_pool_round_robin:
  assumes "pool_ok p" and "lp_mode p = Static"
    and "\<forall>i < length (lp_workers p). length fs \<le> room_of p i"
  shows "\<exists>p'. add_tasks fs p = Inr (replicate (length fs) True, p') \<and> pool_ok p' \<and>
           (\<forall>i < length (lp_workers p).
              queue_of p' i = queue_of p i @
                map ((!) fs) (filter (\<lambda>j. (unat (lp_next p) + 1 + j) mod length (lp_workers p) = i)
                                     [0..<length fs]))"
  using add_tasks_static [OF assms] by (auto simp: turn_of_def)

text \<open>A pool of two workers with queues for three tasks, as its constructor makes it.\<close>

definition sample_pool :: "PoolMode \<Rightarrow> lfthreadpool" where
  "sample_pool m = new_lfthreadpool 8 2 4 m"

lemma sample_pool_ok:
  "pool_ok (sample_pool m)" "lp_mode (sample_pool m) = m" "length (lp_workers (sample_pool m)) = 2"
  "lp_next (sample_pool m) = 0" "i < 2 \<Longrightarrow> queue_of (sample_pool m) i = []"
  "i < 2 \<Longrightarrow> 3 \<le> rb_limit (lt_buffer (lp_workers (sample_pool m) ! i))"
proof -
  have new: "rb_inv (new_ringbuff Empty_fn 4)" "rb_contents (new_ringbuff Empty_fn 4) = []"
      "3 \<le> rb_limit (new_ringbuff Empty_fn 4)"
    using new_ringbuff_inv [of 4 Empty_fn] by simp_all
  have w: "lp_workers (sample_pool m) = replicate 2 (new_lfthread 4)"
    by (simp add: sample_pool_def new_lfthreadpool_def lp_init_def setnum_n_def Let_def)
  show "pool_ok (sample_pool m)"
    using new(1) w by (simp add: pool_ok_def new_lfthread_def)
      (simp add: sample_pool_def new_lfthreadpool_def lp_init_def setnum_n_def Let_def)
  show "lp_mode (sample_pool m) = m" "lp_next (sample_pool m) = 0"
    by (simp_all add: sample_pool_def new_lfthreadpool_def lp_init_def setnum_n_def Let_def)
  show "length (lp_workers (sample_pool m)) = 2" by (simp add: w)
  show "i < 2 \<Longrightarrow> queue_of (sample_pool m) i = []"
    "i < 2 \<Longrightarrow> 3 \<le> rb_limit (lt_buffer (lp_workers (sample_pool m) ! i))"
    using new w by (simp_all add: new_lfthread_def)
qed

lemma sample_pool_running: "running (sample_pool m)"
  by (simp add: running_def sample_pool_def new_lfthreadpool_def lp_init_def setnum_n_def Let_def
      new_lfthread_def new_ringbuff_def)

lemma sample_pool_room:
  "length fs \<le> 3 \<Longrightarrow> \<forall>i < length (lp_workers (sample_pool m)). length fs \<le> room_of (sample_pool m) i"
  using sample_pool_ok(6) [of _ m] by (auto simp: sample_pool_ok(3,5) intro: order_trans)

theorem static_pool_round_robin_witness:
  "\<exists>p'. add_tasks [Job 1, Job 2, Job 3] (sample_pool Static) = Inr (replicate 3 True, p') \<and>
        queue_of p' 0 = [Job 2] \<and> queue_of p' 1 = [Job 1, Job 3]"
proof -
  have "\<forall>i < length (lp_workers (sample_pool Static)).
      length [Job 1, Job 2, Job 3] \<le> room_of (sample_pool Static) i"
    by (rule sample_pool_room) simp
  from static_pool_round_robin [OF sample_pool_ok(1,2) this] show ?thesis
    by (auto simp: sample_pool_ok(3-5) numeral_3_eq_3 upt_rec)
qed

text \<open>
  C39. The dynamic pool gives a task to a least loaded worker: \<^verbatim>\<open>add_task\<close> puts it at the end of a
  queue that was no longer than any other, the first such one, and changes nothing else.
\<close>

theorem dynamic_pool_least_loaded:
  assumes "pool_ok p" and "lp_mode p = Dynamic" and "short_queues p"
    and "\<forall>i < length (lp_workers p). 0 < room_of p i"
  shows "\<exists>k p'. add_task f p = Inr (True, p') \<and> k < length (lp_workers p) \<and>
           (\<forall>j < length (lp_workers p). length (queue_of p k) \<le> length (queue_of p j)) \<and>
           (\<forall>j < k. length (queue_of p k) < length (queue_of p j)) \<and>
           (\<forall>i < length (lp_workers p). queue_of p' i = queue_of p i @ (if i = k then [f] else []))"
proof -
  obtain k where k: "getminidx p = Inr k" "k < length (lp_workers p)"
      "\<forall>j < length (lp_workers p). length (queue_of p k) \<le> length (queue_of p j)"
      "\<forall>j < k. length (queue_of p k) < length (queue_of p j)"
    using getminidx_ok [OF assms(1,3)] by blast
  have uk: "unat (of_nat k :: size_t) = k"
    using k(2) assms(1) by (intro unat_of_nat_size_t) (simp add: pool_ok_def)
  have "rb_inv (lt_buffer (lp_workers p ! k))" using assms(1) k(2) by (auto simp: pool_ok_def)
  then obtain rb where rb: "push f (lt_buffer (lp_workers p ! k)) = Inr (True, rb)"
      "rb_contents rb = queue_of p k @ [f]"
    using push_room [of "lt_buffer (lp_workers p ! k)" f] assms(4) k(2) by fastforce
  let ?p = "p\<lparr>lp_workers := (lp_workers p)[k := (lp_workers p ! k)\<lparr>lt_buffer := rb\<rparr>]\<rparr>"
  have "add_task f p = Inr (True, ?p)"
    using assms(1,2) k(1,2) rb uk
    by (simp add: add_task_def getnext_def enqueue_task_def pool_ok_def)
  then show ?thesis
    using k rb by (intro exI [of _ k] exI [of _ ?p]) (auto simp: nth_list_update)
qed

theorem dynamic_pool_least_loaded_witness:
  "\<exists>k p'. add_task (Job 1) (sample_pool Dynamic) = Inr (True, p') \<and> k < 2 \<and>
     (\<forall>i < 2. queue_of p' i = (if i = k then [Job 1] else []))"
proof -
  have "short_queues (sample_pool Dynamic)" by (simp add: short_queues_def sample_pool_ok)
  moreover have "\<forall>i < length (lp_workers (sample_pool Dynamic)). 0 < room_of (sample_pool Dynamic) i"
    using sample_pool_room [of "[Job 1]" Dynamic] by auto
  ultimately show ?thesis
    using dynamic_pool_least_loaded [OF sample_pool_ok(1,2), of "Job 1"] sample_pool_ok(3,5) by auto
qed

text \<open>
  The load measure of the pool says nothing: \<^verbatim>\<open>getload\<close> is 0 whenever there are two or more
  workers, whatever waits in their queues, because the average is divided by the sum in
  integers; with one worker it is 100 as soon as anything waits.
\<close>

theorem lfthreadpool_getload_degenerate:
  assumes "pool_ok p" and "short_queues p"
  shows "lp_getload p = Inr (if length (lp_workers p) = 1 \<and> queue_of p 0 \<noteq> [] then 100 else 0)"
  using assms by (rule lp_getload_ok)

theorem lfthreadpool_getload_degenerate_witness:
  "\<exists>p'. add_tasks [Job 1, Job 2, Job 3] (sample_pool Static) = Inr (replicate 3 True, p') \<and>
        queue_of p' 1 = [Job 1, Job 3] \<and> lp_getload p' = Inr 0"
proof -
  have "\<forall>i < length (lp_workers (sample_pool Static)).
      length [Job 1, Job 2, Job 3] \<le> room_of (sample_pool Static) i"
    by (rule sample_pool_room) simp
  from add_tasks_static [OF sample_pool_ok(1,2) this] obtain p' where
    p': "add_tasks [Job 1, Job 2, Job 3] (sample_pool Static) = Inr (replicate 3 True, p')" "pool_ok p'"
      "length (lp_workers p') = 2"
      "\<forall>i < 2. queue_of p' i = turn_of 2 0 i [Job 1, Job 2, Job 3]"
    by (auto simp: sample_pool_ok(3-5) numeral_3_eq_3)
  have "length (turn_of 2 0 i [Job 1, Job 2, Job 3]) < 2147483648" for i
    using length_turn_of [of 2 0 i "[Job 1, Job 2, Job 3]"] by simp
  then have "short_queues p'" using p'(3,4) by (simp add: short_queues_def)
  then show ?thesis
    using lfthreadpool_getload_degenerate [OF p'(2)] p'
    by (auto simp: turn_of_def upt_rec numeral_3_eq_3)
qed

text \<open>
  The dynamic pool never changes its size: the manager's loop runs while \<^verbatim>\<open>shutdown_\<close> is set,
  which it is not while the pool is in service, so the first turn leaves it at once; and were
  the loop entered, its body would leave a pool of the constructed size alone too, whose
  number of workers is its minimum.
\<close>

lemma lfthreadpool_never_adjusts:
  "(\<not> lp_shutdown p \<longrightarrow> lp_adjust_turn mv k later p = Inr (False, p)) \<and>
   (let q = new_lfthreadpool hc n b m in adjust_body mv k q = Inr q)"
proof -
  have "int_of (lp_tnum (new_lfthreadpool hc n b m)) = lp_min_tnum (new_lfthreadpool hc n b m)"
    "lp_timesec (new_lfthreadpool hc n b m) = 5"
    by (simp_all add: new_lfthreadpool_def lp_init_def setnum_def setnum_n_def Let_def)
  then show ?thesis by (simp add: lp_adjust_turn_def adjust_body_def ADJUST_TIMEOUT_SEC_def Let_def)
qed

text \<open>
  C40. Taking a worker out loses its tasks: \<^verbatim>\<open>del_thread_dispath\<close> removes a most loaded worker, but
  the buffer it swaps for the waiting tasks keeps its own indices and looks empty, so no task
  is handed to the other workers: their queues stay as they were and what waited in the
  removed queue is in none.
\<close>

theorem del_thread_dispath_loses_tasks:
  assumes "pool_ok p" and "short_queues p"
    and "running p"
  shows "\<exists>idx p'. del_thread_dispath mv k p = Inr p' \<and> idx < length (lp_workers p) \<and>
           (\<forall>j < length (lp_workers p). length (queue_of p j) \<le> length (queue_of p idx)) \<and>
           mset (lp_workers p') + {#lp_workers p ! idx#} = mset (lp_workers p)"
proof -
  obtain idx p' where d: "getmaxidx p = Inr idx" "idx < length (lp_workers p)"
      "del_thread_dispath mv k p = Inr p'"
      "lp_workers p' = butlast ((lp_workers p)[idx := last (lp_workers p)])"
    using del_thread_dispath_ok [OF assms] by blast
  have "\<forall>j < length (lp_workers p). length (queue_of p j) \<le> length (queue_of p idx)"
    using getmaxidx_ok [OF assms(1,2)] d(1) by auto
  then show ?thesis using d mset_swap_remove [OF d(2)] by auto
qed

theorem del_thread_dispath_loses_tasks_witness:
  "\<exists>p p'. add_tasks [Job 1] (sample_pool Static) = Inr ([True], p) \<and> queue_of p 1 = [Job 1] \<and>
     del_thread_dispath id 0 p = Inr p' \<and> length (lp_workers p') = 1 \<and> queue_of p' 0 = []"
proof -
  have "\<forall>i < length (lp_workers (sample_pool Static)). 0 < room_of (sample_pool Static) i"
    using sample_pool_room [of "[Job 1]" Static] by auto
  from add_task_static [OF sample_pool_ok(1,2) this, of "Job 1"] obtain p where
    p: "add_task (Job 1) (sample_pool Static) = Inr (True, p)" "pool_ok p" "length (lp_workers p) = 2"
      "queue_of p 0 = []" "queue_of p 1 = [Job 1]"
    by (auto simp: sample_pool_ok(3-5))
  have "running p" using add_task_running [OF p(1) sample_pool_running] .
  moreover have "short_queues p" using p(3-5) less_2_cases by (fastforce simp: short_queues_def)
  ultimately obtain idx p' where d: "del_thread_dispath id 0 p = Inr p'" "idx < 2"
      "\<forall>j < 2. length (queue_of p j) \<le> length (queue_of p idx)"
      "mset (lp_workers p') + {#lp_workers p ! idx#} = mset (lp_workers p)"
    using del_thread_dispath_loses_tasks [OF p(2), of id 0] p(3) by auto
  have idx: "idx = 1" using d(2,3) p(4,5) by (cases idx) (auto dest: spec [of _ 1])
  obtain a b where ab: "lp_workers p = [a, b]" using p(3) by (auto simp: length_Suc_conv numeral_2_eq_2)
  then have "mset (lp_workers p') = {#a#}" using d(4) idx by simp
  then have "lp_workers p' = [a]" by simp
  with p d ab show ?thesis by (intro exI [of _ p] exI [of _ p']) simp
qed

end
