(* ===== verification/Lfthreadpool_Runs.thy ===== *)
theory Lfthreadpool_Runs
  imports Lfthreadpool_Laws
begin

text \<open>
  The pool of lock-free workers in service: the calls of its owner and the steps of its workers
  in any order. Every accepted task is run, about to be run or waits, once and with one worker, and
  each worker keeps the order; shutting the pool down, while the workers that are not stopped yet
  go on, runs a prefix of what each of them has got. \<^verbatim>\<open>example/lfthreadpool_test.cpp\<close> is such a run.
\<close>

section \<open>Steps\<close>

datatype lp_act = Add task | Add_move task | Turn nat

text \<open>The tasks accepted are returned with the new state; a turn of a worker that is not there is none.\<close>

fun lp_exec :: "(task \<Rightarrow> task) \<Rightarrow> lp_act \<Rightarrow> lfthreadpool \<Rightarrow> (task list \<times> lfthreadpool) res" where
  "lp_exec mv (Add f) p = bindR (add_task f p) (\<lambda>(ok, p). Inr (if ok then [f] else [], p))"
| "lp_exec mv (Add_move f) p = bindR (add_task_move mv f p) (\<lambda>(ok, p). Inr (if ok then [f] else [], p))"
| "lp_exec mv (Turn i) p =
     (if i < length (lp_workers p)
      then bindR (t_task_turn mv (lp_workers p ! i)) (\<lambda>(_, t). Inr ([], p\<lparr>lp_workers := (lp_workers p)[i := t]\<rparr>))
      else Inr ([], p))"

fun lp_run :: "(task \<Rightarrow> task) \<Rightarrow> lp_act list \<Rightarrow> lfthreadpool \<Rightarrow> (task list \<times> lfthreadpool) res" where
  "lp_run mv [] p = Inr ([], p)"
| "lp_run mv (a # as) p =
     bindR (lp_exec mv a p) (\<lambda>(fs, p). bindR (lp_run mv as p) (\<lambda>(fs', p). Inr (fs @ fs', p)))"

fun nonempty_lp_act :: "lp_act \<Rightarrow> bool" where
  "nonempty_lp_act (Add f) \<longleftrightarrow> f \<noteq> Empty_fn"
| "nonempty_lp_act (Add_move f) \<longleftrightarrow> f \<noteq> Empty_fn"
| "nonempty_lp_act (Turn i) \<longleftrightarrow> True"

section \<open>One worker\<close>

definition worker_ok :: "size_t \<Rightarrow> lfthread \<Rightarrow> bool" where
  "worker_ok bs t \<longleftrightarrow> lt_inv (share_of t) t \<and> rb_capacity (lt_buffer t) = adj_size bs \<and> in_service t \<and> \<not> lt_shutdown t"

lemma worker_okD:
  assumes "worker_ok bs t"
  shows "rb_inv (lt_buffer t)" "rb_capacity (lt_buffer t) = adj_size bs" "in_service t" "\<not> lt_shutdown t" "lt_inv (share_of t) t"
  using assms by (simp_all add: worker_ok_def lt_inv_def)

lemma new_worker_ok: "unat bs \<le> 2 ^ 63 \<Longrightarrow> worker_ok bs (new_lfthread bs) \<and> share_of (new_lfthread bs) = []"
  using new_ringbuff_inv [of bs Empty_fn]
  by (simp add: worker_ok_def lt_defs new_lfthread_def) (simp add: new_ringbuff_def)

lemma worker_enqueue:
  assumes t: "worker_ok bs t" and f: "f \<noteq> Empty_fn"
  shows "\<exists>ok t'. enqueue_task f t = Inr (ok, t') \<and> worker_ok bs t' \<and>
    share_of t' = share_of t @ (if ok then [f] else []) \<and>
    (length (rb_contents (lt_buffer t)) < rb_limit (lt_buffer t) \<longrightarrow> ok)"
proof -
  note w = worker_okD [OF t]
  from w(1) show ?thesis
  proof (cases rule: push_cases [where x = f])
    case (1 rb)
    let ?t = "t\<lparr>lt_buffer := rb\<rparr>"
    have eq: "enqueue_task f t = Inr (True, ?t)" using 1 by (simp add: enqueue_task_def)
    have "share_of ?t = share_of t @ [f]" using 1(3) by (simp add: share_of_def held_def)
    moreover have "rb_capacity rb = rb_capacity (lt_buffer t)" using enqueue_task_frame [OF eq] by simp
    ultimately show ?thesis
      using eq lt_inv_push [OF w(5) 1(2,3) f] w by (auto simp: worker_ok_def in_service_def)
  next
    case 2
    then show ?thesis using t push_room [OF w(1), of f] by (auto simp: enqueue_task_def)
  qed
qed

lemma enqueue_task_move_eq:
  "enqueue_task_move mv f t = bindR (enqueue_task f t) (\<lambda>(ok, t'). Inr (ok, if ok then mv f else f, t'))"
  by (cases "push f (lt_buffer t)") (auto simp: enqueue_task_move_def enqueue_task_def push_move_eq)

lemma serving_turn:
  assumes "t_task_turn mv t = Inr (go, t')" "in_service t" "\<not> lt_shutdown t"
  shows "in_service t' \<and> \<not> lt_shutdown t' \<and> rb_capacity (lt_buffer t') = rb_capacity (lt_buffer t) \<and> prefix (lt_ran t) (lt_ran t')"
  using assms
  by (auto simp: in_service_def t_task_turn_def run_task_def Let_def bindR_def pop_move_def
      split: if_splits sum.splits prod.splits)

lemma worker_turn:
  assumes "worker_ok bs t"
  shows "\<exists>go t'. t_task_turn mv t = Inr (go, t') \<and> worker_ok bs t' \<and> share_of t' = share_of t \<and> prefix (lt_ran t) (lt_ran t')"
proof -
  note w = worker_okD [OF assms]
  obtain go t' where t': "t_task_turn mv t = Inr (go, t')" "lt_inv (share_of t) t'" using lt_inv_turn [OF w(5)] by blast
  note s = serving_turn [OF t'(1) w(3,4)]
  have "share_of t' = share_of t" using t'(2) s by (simp add: lt_inv_def)
  then show ?thesis using t' s w(2) by (simp add: worker_ok_def)
qed

section \<open>The pool\<close>

text \<open>A pool of \<open>n\<close> workers with queues of size \<open>bs\<close> that has accepted the tasks \<open>acc\<close>.\<close>

definition lp_inv :: "nat \<Rightarrow> size_t \<Rightarrow> task list \<Rightarrow> lfthreadpool \<Rightarrow> bool" where
  "lp_inv n bs acc p \<longleftrightarrow>
     \<not> lp_shutdown p \<and> length (lp_workers p) = n \<and> 0 < n \<and> n < 2 ^ 31 \<and> unat (lp_tnum p) = n \<and>
     lp_next p < lp_tnum p \<and> unat bs \<le> 2 ^ 30 \<and>
     (\<forall>t \<in> set (lp_workers p). worker_ok bs t \<and> subseq (share_of t) acc) \<and>
     (\<Sum>t\<leftarrow>lp_workers p. mset (share_of t)) = mset acc"

lemma lp_inv_pool_ok: "lp_inv n bs acc p \<Longrightarrow> pool_ok p"
  by (auto simp: lp_inv_def pool_ok_def dest: worker_okD)

lemma adj_size_bound:
  assumes "unat n \<le> 2 ^ k" "k \<le> 63"
  shows "unat (adj_size n) \<le> 2 ^ k"
proof -
  have "unat n \<le> 2 ^ 63" using assms power_increasing [of k 63 "2 :: nat"] by linarith
  then obtain j where "unat (adj_size n) = 2 ^ j" "j \<le> k" using adj_size_power [of n] assms(1) by blast
  then show ?thesis by (simp add: power_increasing)
qed

lemma lp_inv_short: "lp_inv n bs acc p \<Longrightarrow> short_queues p"
proof -
  assume inv: "lp_inv n bs acc p"
  have "length (queue_of p i) < 2 ^ 31" if "i < length (lp_workers p)" for i
  proof -
    let ?rb = "lt_buffer (lp_workers p ! i)"
    have "rb_inv ?rb" "rb_capacity ?rb = adj_size bs"
      using inv that worker_okD [of bs "lp_workers p ! i"] by (auto simp: lp_inv_def)
    moreover have "unat (adj_size bs) \<le> 2 ^ 30"
      using inv by (intro adj_size_bound) (simp_all add: lp_inv_def)
    ultimately show ?thesis using length_rb_contents [of ?rb] by (simp add: rb_limit_def)
  qed
  then show ?thesis by (simp add: short_queues_def)
qed

lemma getnext_in:
  assumes inv: "lp_inv n bs acc p"
  shows "\<exists>i k. getnext p = Inr (i, p\<lparr>lp_next := k\<rparr>) \<and> unat i < length (lp_workers p) \<and> k < lp_tnum p"
proof -
  note ok = lp_inv_pool_ok [OF inv]
  have p: "0 < length (lp_workers p)" "unat (lp_tnum p) = length (lp_workers p)" "lp_next p < lp_tnum p"
    "length (lp_workers p) < 2 ^ 31"
    using inv by (simp_all add: lp_inv_def)
  show ?thesis
  proof (cases "lp_mode p")
    case Static
    then obtain k where "getnext p = Inr (k, p\<lparr>lp_next := k\<rparr>)"
        "unat k = (unat (lp_next p) + 1) mod length (lp_workers p)"
      using getnext_static [OF ok] by blast
    then show ?thesis using p by (auto simp: word_less_nat_alt)
  next
    case Dynamic
    obtain k where k: "getminidx p = Inr k" "k < length (lp_workers p)"
      using getminidx_ok [OF ok lp_inv_short [OF inv]] by blast
    have "unat (of_nat k :: size_t) = k" using k(2) p(4) by (intro unat_of_nat_size_t) simp
    then show ?thesis using Dynamic k p by (auto simp: getnext_def intro!: exI [of _ "lp_next p"])
  qed
qed

lemma lp_inv_update:
  assumes inv: "lp_inv n bs acc p" and i: "i < length (lp_workers p)" and k: "k < lp_tnum p"
    and t: "worker_ok bs t" "share_of t = share_of (lp_workers p ! i) @ fs"
  shows "lp_inv n bs (acc @ fs) (p\<lparr>lp_next := k, lp_workers := (lp_workers p)[i := t]\<rparr>)"
proof -
  let ?ws = "lp_workers p"
  have ws: "?ws = take i ?ws @ ?ws ! i # drop (Suc i) ?ws" "?ws[i := t] = take i ?ws @ t # drop (Suc i) ?ws"
    using i by (simp_all add: id_take_nth_drop [symmetric] upd_conv_take_nth_drop)
  have "(\<Sum>t\<leftarrow>?ws. mset (share_of t)) = mset acc" using inv by (simp add: lp_inv_def)
  then have "(\<Sum>t\<leftarrow>?ws[i := t]. mset (share_of t)) = mset (acc @ fs)"
    unfolding ws(2) by (subst (asm) ws(1)) (simp add: t(2) ac_simps)
  moreover have "subseq (share_of t) (acc @ fs)"
    using inv i t(2) by (auto simp: lp_inv_def intro: list_emb_append_mono)
  moreover have "subseq (share_of x) (acc @ fs)" if "x \<in> set ?ws" for x
    using inv that by (auto simp: lp_inv_def intro: list_emb_append2)
  ultimately show ?thesis
    using inv k t(1) by (auto simp: lp_inv_def dest!: set_update_subset_insert [THEN subsetD])
qed

text \<open>The tasks that fit into a queue.\<close>

definition pool_room :: "size_t \<Rightarrow> nat" where
  "pool_room bs = unat (adj_size bs) - 1"

text \<open>The tasks that the owner offers.\<close>

fun offered :: "lp_act list \<Rightarrow> task list" where
  "offered [] = []"
| "offered (Add f # as) = f # offered as"
| "offered (Add_move f # as) = f # offered as"
| "offered (Turn i # as) = offered as"

lemma add_task_step:
  assumes inv: "lp_inv n bs acc p" and f: "f \<noteq> Empty_fn"
  shows "\<exists>ok p'. add_task f p = Inr (ok, p') \<and> add_task_move mv f p = Inr (ok, p') \<and>
    lp_inv n bs (acc @ (if ok then [f] else [])) p' \<and> (length acc < pool_room bs \<longrightarrow> ok)"
proof -
  obtain i k where g: "getnext p = Inr (i, p\<lparr>lp_next := k\<rparr>)" "unat i < length (lp_workers p)" "k < lp_tnum p"
    using getnext_in [OF inv] by blast
  have "worker_ok bs (lp_workers p ! unat i)" using inv g(2) by (simp add: lp_inv_def)
  then obtain ok t where t: "enqueue_task f (lp_workers p ! unat i) = Inr (ok, t)"
      "worker_ok bs t" "share_of t = share_of (lp_workers p ! unat i) @ (if ok then [f] else [])"
      "length (queue_of p (unat i)) < rb_limit (lt_buffer (lp_workers p ! unat i)) \<longrightarrow> ok"
    using worker_enqueue [OF _ f] by blast
  have "length (queue_of p (unat i)) \<le> length acc" "rb_limit (lt_buffer (lp_workers p ! unat i)) = pool_room bs"
    using inv g(2) list_emb_length [of "(=)" "share_of (lp_workers p ! unat i)" acc] worker_okD(2) [of bs "lp_workers p ! unat i"]
    by (auto simp: lp_inv_def share_of_def pool_room_def rb_limit_def)
  then have room: "length acc < pool_room bs \<longrightarrow> ok" using t(4) by simp
  let ?p = "p\<lparr>lp_next := k, lp_workers := (lp_workers p)[unat i := t]\<rparr>"
  have "\<not> lp_shutdown p" using inv by (simp add: lp_inv_def)
  then have "add_task f p = Inr (ok, ?p)" "add_task_move mv f p = Inr (ok, ?p)"
    using g t(1) by (simp_all add: add_task_def add_task_move_def enqueue_task_move_eq)
  then show ?thesis using lp_inv_update [OF inv g(2,3) t(2,3)] room by blast
qed

lemma lp_exec_ok:
  assumes inv: "lp_inv n bs acc p" and a: "nonempty_lp_act a"
  shows "\<exists>fs p'. lp_exec mv a p = Inr (fs, p') \<and> lp_inv n bs (acc @ fs) p' \<and>
    (length acc + length (offered [a]) \<le> pool_room bs \<longrightarrow> fs = offered [a])"
proof (cases a)
  case (Add f)
  then show ?thesis using add_task_step [OF inv, of f mv] a by auto
next
  case (Add_move f)
  then show ?thesis using add_task_step [OF inv, of f mv] a by auto
next
  case (Turn i)
  show ?thesis
  proof (cases "i < length (lp_workers p)")
    case True
    then have "worker_ok bs (lp_workers p ! i)" using inv by (simp add: lp_inv_def)
    then obtain go t where t: "t_task_turn mv (lp_workers p ! i) = Inr (go, t)"
        "worker_ok bs t" "share_of t = share_of (lp_workers p ! i) @ []"
      using worker_turn by fastforce
    have "lp_next p < lp_tnum p" using inv by (simp add: lp_inv_def)
    from lp_inv_update [OF inv True this t(2,3)] show ?thesis using Turn True t(1) by simp
  next
    case False
    then show ?thesis using Turn inv by simp
  qed
qed

lemma lp_run_ok:
  assumes "lp_inv n bs acc p" "\<forall>a \<in> set as. nonempty_lp_act a"
  shows "\<exists>fs p'. lp_run mv as p = Inr (fs, p') \<and> lp_inv n bs (acc @ fs) p' \<and>
    (length acc + length (offered as) \<le> pool_room bs \<longrightarrow> fs = offered as)"
  using assms
proof (induction as arbitrary: acc p)
  case Nil
  then show ?case by simp
next
  case (Cons a as)
  obtain fs p1 where 1: "lp_exec mv a p = Inr (fs, p1)" "lp_inv n bs (acc @ fs) p1"
      "length acc + length (offered [a]) \<le> pool_room bs \<longrightarrow> fs = offered [a]"
    using lp_exec_ok [OF Cons.prems(1), of a mv] Cons.prems(2) by auto
  then obtain fs' p2 where 2: "lp_run mv as p1 = Inr (fs', p2)" "lp_inv n bs (acc @ fs @ fs') p2"
      "length (acc @ fs) + length (offered as) \<le> pool_room bs \<longrightarrow> fs' = offered as"
    using Cons.IH [OF 1(2)] Cons.prems(2) by auto
  have "offered (a # as) = offered [a] @ offered as" by (cases a) simp_all
  with 1 2 show ?case by auto
qed

text \<open>The pool as its constructor leaves it; without a number of threads, half of the cores and one.\<close>

definition pool_size :: "nat \<Rightarrow> int \<Rightarrow> nat" where
  "pool_size hc tnum = (if tnum \<le> 0 then getcores hc else nat tnum)"

lemma new_pool_inv:
  assumes "pool_size hc tnum < 2 ^ 31" "unat bs \<le> 2 ^ 30"
  shows "lp_inv (pool_size hc tnum) bs [] (new_lfthreadpool hc tnum bs mode)" (is "lp_inv (pool_size hc tnum) bs [] ?p")
    and "length (lp_workers (new_lfthreadpool hc tnum bs mode)) = pool_size hc tnum"
proof -
  let ?n = "of_nat (pool_size hc tnum) :: size_t"
  have n: "unat ?n = pool_size hc tnum" using assms(1) by (intro unat_of_nat_size_t) simp
  have "0 < pool_size hc tnum" by (simp add: pool_size_def getcores_def Let_def)
  then have pos: "0 < unat ?n" "0 < ?n" using n by (simp_all add: word_less_nat_alt)
  have t: "lp_tnum ?p = ?n" "lp_workers ?p = replicate (unat ?n) (new_lfthread bs)" "lp_next ?p = 0"
      "lp_buffsize ?p = bs" "\<not> lp_shutdown ?p"
    by (simp_all add: new_lfthreadpool_def lp_init_def setnum_def setnum_n_def Let_def pool_size_def)
  show "length (lp_workers ?p) = pool_size hc tnum" using t n by simp
  have "worker_ok bs (new_lfthread bs)" "share_of (new_lfthread bs) = []"
    using new_worker_ok [of bs] assms(2) by simp_all
  moreover have "sum_list (replicate k ({#} :: task multiset)) = {#}" for k by (induction k) simp_all
  ultimately show "lp_inv (pool_size hc tnum) bs [] ?p" using t pos n assms by (simp add: lp_inv_def)
qed

section \<open>Shutting down\<close>

text \<open>A worker that goes on, and one that has been stopped, since \<open>t\<close>.\<close>

definition going :: "size_t \<Rightarrow> lfthread \<Rightarrow> lfthread \<Rightarrow> bool" where
  "going bs t t' \<longleftrightarrow> worker_ok bs t' \<and> share_of t' = share_of t \<and> prefix (lt_ran t) (lt_ran t')"

definition ended :: "lfthread \<Rightarrow> lfthread \<Rightarrow> bool" where
  "ended t t' \<longleftrightarrow> lt_pc t' = Finished \<and> lt_shutdown t' \<and> set (rb_contents (lt_buffer t')) \<subseteq> {Wake_fn} \<and>
     prefix (lt_ran t) (lt_ran t') \<and> prefix (lt_ran t') (share_of t @ [Wake_fn])"

definition stopping :: "size_t \<Rightarrow> nat \<Rightarrow> lfthread list \<Rightarrow> lfthread list \<Rightarrow> bool" where
  "stopping bs n ws ws' \<longleftrightarrow> length ws' = length ws \<and>
     (\<forall>i < length ws. if i < n then ended (ws ! i) (ws' ! i) else going bs (ws ! i) (ws' ! i))"

lemma stopping_update:
  assumes "stopping bs n ws ws'" "if i < n then ended (ws ! i) t else going bs (ws ! i) t"
  shows "stopping bs n ws (ws'[i := t])"
  unfolding stopping_def
proof (intro conjI allI impI)
  show "length (ws'[i := t]) = length ws" using assms(1) by (simp add: stopping_def)
  fix j
  assume j: "j < length ws"
  show "if j < n then ended (ws ! j) (ws'[i := t] ! j) else going bs (ws ! j) (ws'[i := t] ! j)"
    using assms j by (cases "j = i") (simp_all add: stopping_def)
qed

lemma stopping_steps:
  assumes "stopping bs n ws ws'"
  shows "\<exists>ws''. worker_steps mv is ws' = Inr ws'' \<and> stopping bs n ws ws''"
  using assms
proof (induction "is" arbitrary: ws')
  case (Cons i "is")
  show ?case
  proof (cases "i < length ws'")
    case True
    have "\<exists>go t. t_task_turn mv (ws' ! i) = Inr (go, t) \<and> (if i < n then ended (ws ! i) t else going bs (ws ! i) t)"
    proof (cases "i < n")
      case i: True
      then have "ended (ws ! i) (ws' ! i)" using Cons.prems True by (auto simp: stopping_def)
      then have "t_task_turn mv (ws' ! i) = Inr (False, ws' ! i)" by (simp add: t_task_turn_def ended_def)
      with \<open>ended (ws ! i) (ws' ! i)\<close> show ?thesis using i by auto
    next
      case False
      then have "going bs (ws ! i) (ws' ! i)" using Cons.prems True by (auto simp: stopping_def)
      then show ?thesis using False worker_turn [of bs "ws' ! i" mv] prefix_order.trans by (fastforce simp: going_def)
    qed
    then obtain go t where t: "t_task_turn mv (ws' ! i) = Inr (go, t)" "stopping bs n ws (ws'[i := t])"
      using stopping_update [OF Cons.prems] by blast
    then show ?thesis using True Cons.IH [OF t(2)] by simp
  next
    case False
    then show ?thesis using Cons by simp
  qed
qed simp

lemma stopping_next:
  assumes st: "stopping bs n ws ws'" and n: "n < length ws"
  shows "\<exists>t. lt_t_shutdown mv k (ws' ! n) = Some (Inr t) \<and> stopping bs (Suc n) ws (ws'[n := t])"
proof -
  have g: "worker_ok bs (ws' ! n)" "share_of (ws' ! n) = share_of (ws ! n)" "prefix (lt_ran (ws ! n)) (lt_ran (ws' ! n))"
    using st n by (auto simp: stopping_def going_def)
  obtain t where t: "lt_t_shutdown mv k (ws' ! n) = Some (Inr t)" "ended (ws ! n) t"
    using t_shutdown_ends [OF worker_okD(5,4,3) [OF g(1)], of mv k] g(2,3) prefix_order.trans
    unfolding ended_def by fastforce
  then have "stopping bs (Suc n) ws (ws'[n := t])"
    using st n by (auto simp: stopping_def nth_list_update less_Suc_eq)
  with t(1) show ?thesis by blast
qed

lemma shutdown_workers_ok:
  assumes "\<forall>t \<in> set ws. worker_ok bs t" "n \<le> length ws"
  shows "\<exists>ws'. shutdown_workers mv sched n ws = Inr ws' \<and> stopping bs n ws ws'"
  using assms(2)
proof (induction n)
  case 0
  then show ?case using assms(1) by (simp add: stopping_def going_def)
next
  case (Suc n)
  then obtain ws1 where ws1: "shutdown_workers mv sched n ws = Inr ws1" "stopping bs n ws ws1" by auto
  obtain ws2 where ws2: "worker_steps mv (fst (sched n)) ws1 = Inr ws2" "stopping bs n ws ws2"
    using stopping_steps [OF ws1(2)] by blast
  obtain t where "lt_t_shutdown mv (snd (sched n)) (ws2 ! n) = Some (Inr t)" "stopping bs (Suc n) ws (ws2[n := t])"
    using stopping_next [OF ws2(2)] Suc.prems by fastforce
  then show ?case using ws1(1) ws2 Suc.prems by (simp add: stopping_def)
qed

lemma lp_t_shutdown_ok:
  assumes "lp_inv n bs acc p"
  shows "\<exists>p'. lp_t_shutdown mv sched p = Inr p' \<and> lp_shutdown p' \<and> length (lp_workers p') = length (lp_workers p) \<and>
    (\<forall>i < length (lp_workers p). ended (lp_workers p ! i) (lp_workers p' ! i))"
proof -
  have w: "\<forall>t \<in> set (lp_workers p). worker_ok bs t" "unat (lp_tnum p) = length (lp_workers p)"
      "\<not> lp_shutdown p"
    using assms by (simp_all add: lp_inv_def)
  then show ?thesis
    using shutdown_workers_ok [OF w(1), of "unat (lp_tnum p)" mv sched] by (auto simp: lp_t_shutdown_def stopping_def)
qed

lemma finished_steps: "\<forall>t \<in> set ws. lt_pc t = Finished \<Longrightarrow> worker_steps mv is ws = Inr ws"
  by (induction "is") (simp_all add: t_task_turn_def)

lemma shutdown_again:
  "\<forall>t \<in> set ws. lt_shutdown t \<and> lt_pc t = Finished \<Longrightarrow> n \<le> length ws \<Longrightarrow> shutdown_workers mv sched n ws = Inr ws"
  by (induction n) (simp_all add: lt_t_shutdown_def finished_steps)

section \<open>Properties\<close>

text \<open>
  C13. The lock-free pool loses and repeats no task while it is in service, in either mode and in
  every interleaving of its owner with the steps of its workers, the test of the flag, the access
  to the queue and the call of a task being steps of their own: what the workers have run, are
  about to run and have waiting in their queues is, as a multiset, what was accepted, each worker
  has its tasks in the order in which they were accepted, and as long as all that is offered fits
  into one queue all of it is accepted. Shutting the pool down then returns, whatever steps the
  workers make before they are stopped; every worker has then run a prefix of the tasks that it had
  got, in order, perhaps with the empty wake-up task at the end, and the rest of them is gone.
\<close>

theorem lfthreadpool_conserves_tasks:
  assumes "pool_size hc tnum < 2 ^ 31" and "unat bs \<le> 2 ^ 30" and "\<forall>a \<in> set as. nonempty_lp_act a"
  shows "\<exists>accepted p p'. lp_run mv as (new_lfthreadpool hc tnum bs mode) = Inr (accepted, p) \<and>
    length (lp_workers p) = pool_size hc tnum \<and>
    (\<Sum>t\<leftarrow>lp_workers p. mset (lt_ran t @ held t @ rb_contents (lt_buffer t))) = mset accepted \<and>
    (\<forall>t \<in> set (lp_workers p). subseq (lt_ran t @ held t @ rb_contents (lt_buffer t)) accepted) \<and>
    (length (offered as) \<le> unat (adj_size bs) - 1 \<longrightarrow> accepted = offered as) \<and>
    lp_t_shutdown mv sched p = Inr p' \<and> length (lp_workers p') = pool_size hc tnum \<and>
    (\<forall>i < pool_size hc tnum. let t = lp_workers p ! i; t' = lp_workers p' ! i in
       lt_pc t' = Finished \<and> set (rb_contents (lt_buffer t')) \<subseteq> {Wake_fn} \<and> prefix (lt_ran t) (lt_ran t') \<and>
       prefix (lt_ran t') (lt_ran t @ held t @ rb_contents (lt_buffer t) @ [Wake_fn]))"
proof -
  obtain acc p where run: "lp_run mv as (new_lfthreadpool hc tnum bs mode) = Inr (acc, p)"
      "lp_inv (pool_size hc tnum) bs acc p" "length (offered as) \<le> pool_room bs \<longrightarrow> acc = offered as"
    using lp_run_ok [OF new_pool_inv(1) [OF assms(1,2)] assms(3)] by fastforce
  obtain p' where "lp_t_shutdown mv sched p = Inr p'" "length (lp_workers p') = length (lp_workers p)"
      "\<forall>i < length (lp_workers p). ended (lp_workers p ! i) (lp_workers p' ! i)"
    using lp_t_shutdown_ok [OF run(2)] by blast
  then show ?thesis
    using run by (intro exI [of _ acc] exI [of _ p] exI [of _ p'])
      (simp add: lp_inv_def share_of_def pool_room_def ended_def Let_def)
qed

theorem lfthreadpool_conserves_tasks_witness:
  "\<exists>p p'. lp_run id [Add (Job 1), Turn 1, Turn 1, Add_move (Job 2)] (new_lfthreadpool 8 2 4 Static) = Inr ([Job 1, Job 2], p) \<and>
     (\<Sum>t\<leftarrow>lp_workers p. mset (lt_ran t @ held t @ rb_contents (lt_buffer t))) = {#Job 1, Job 2#} \<and>
     lp_t_shutdown id (\<lambda>i. ([1, 0, 1], 1)) p = Inr p' \<and> lt_pc (lp_workers p' ! 1) = Finished \<and>
     prefix (lt_ran (lp_workers p ! 1)) (lt_ran (lp_workers p' ! 1))"
proof -
  have "adj_size 4 = 4" by (simp add: adj_size_def is_powtwo_def)
  then obtain p p' where "lp_run id [Add (Job 1), Turn 1, Turn 1, Add_move (Job 2)] (new_lfthreadpool 8 2 4 Static) = Inr ([Job 1, Job 2], p)"
      "(\<Sum>t\<leftarrow>lp_workers p. mset (lt_ran t @ held t @ rb_contents (lt_buffer t))) = mset [Job 1, Job 2]"
      "lp_t_shutdown id (\<lambda>i. ([1, 0, 1], 1)) p = Inr p'"
      "\<forall>i < 2. lt_pc (lp_workers p' ! i) = Finished \<and> prefix (lt_ran (lp_workers p ! i)) (lt_ran (lp_workers p' ! i))"
    using lfthreadpool_conserves_tasks [of 8 2 4 "[Add (Job 1), Turn 1, Turn 1, Add_move (Job 2)]" id Static "\<lambda>i. ([1, 0, 1], 1)"]
    by (auto simp: pool_size_def Let_def)
  then show ?thesis by (intro exI [of _ p] exI [of _ p']) simp
qed

section \<open>The example program\<close>

text \<open>
  \<^verbatim>\<open>main\<close> of \<^verbatim>\<open>example/lfthreadpool_test.cpp\<close>: \<open>Job i\<close> is the call of \<^verbatim>\<open>printTask\<close> for \<open>i\<close>. The schedule \<open>as\<close>
  is any interleaving of its calls with steps of the workers, those of the pause of two seconds
  included, \<open>sched\<close> gives those during the shutdown.
\<close>

definition lfthreadpool_test_calls :: "lp_act list" where
  "lfthreadpool_test_calls = concat (map (\<lambda>i. [Add (Job i), Add_move (Job (i + 10))]) [0..<10])"

fun is_turn :: "lp_act \<Rightarrow> bool" where
  "is_turn (Turn i) \<longleftrightarrow> True"
| "is_turn _ \<longleftrightarrow> False"

definition lfthreadpool_test_main ::
  "nat \<Rightarrow> (task \<Rightarrow> task) \<Rightarrow> lp_sched \<Rightarrow> lp_act list \<Rightarrow> (lfthreadpool \<times> lfthreadpool) res" where
  "lfthreadpool_test_main hc mv sched as =
     bindR (lp_run mv as (new_lfthreadpool hc (-1) 32 Static)) (\<lambda>(_, p).
     bindR (lp_t_shutdown mv sched p) (\<lambda>q.
     bindR (delete_lfthreadpool mv sched q) (\<lambda>_. Inr (p, q))))"

lemma offered_schedule: "offered as = offered (filter (\<lambda>a. \<not> is_turn a) as)"
  by (induction as rule: offered.induct) simp_all

lemma nonempty_schedule:
  "\<forall>a \<in> set (filter (\<lambda>a. \<not> is_turn a) as). nonempty_lp_act a \<Longrightarrow> \<forall>a \<in> set as. nonempty_lp_act a"
  by (metis (mono_tags, lifting) filter_set is_turn.elims(2) Set.filter_eq mem_Collect_eq nonempty_lp_act.simps(3))

lemma mset_pairs:
  "mset (concat (map (\<lambda>i. [g i, g (i + n)]) [0..<n])) = mset (map g [0..<n + n])"
proof -
  have "mset (concat (map (\<lambda>i. [g i, g (i + n)]) [0..<m])) = mset (map g [0..<m]) + mset (map (\<lambda>i. g (i + n)) [0..<m])" for m
    by (induction m) simp_all
  moreover have "map (\<lambda>i. g (i + n)) [0..<n] = map g [n..<n + n]"
    by (rule nth_equalityI) (simp_all add: add.commute)
  moreover have "[0..<n + n] = [0..<n] @ [n..<n + n]" by (rule upt_add_eq_append) simp
  ultimately show ?thesis by (metis map_append mset_append)
qed

text \<open>
  The program ends without a fault, whatever the number of cores; all its twenty tasks are
  accepted; at the end each has been printed at most once, by one thread, and every thread has
  printed a prefix of the tasks that it got, the rest is never printed.
\<close>

theorem lfthreadpool_test_prints:
  assumes "getcores hc < 2 ^ 31" and "filter (\<lambda>a. \<not> is_turn a) as = lfthreadpool_test_calls"
  shows "\<exists>p q. lfthreadpool_test_main hc mv sched as = Inr (p, q) \<and>
    (\<Sum>t\<leftarrow>lp_workers p. mset (share_of t)) = mset (map Job [0..<20]) \<and> length (lp_workers q) = length (lp_workers p) \<and>
    (\<forall>i < length (lp_workers p). prefix (lt_ran (lp_workers q ! i)) (share_of (lp_workers p ! i) @ [Wake_fn]))"
proof -
  let ?pool = "new_lfthreadpool hc (-1) 32 Static"
  have sz: "adj_size 32 = 32" by (simp add: adj_size_def is_powtwo_def)
  have tasks: "offered lfthreadpool_test_calls = concat (map (\<lambda>i. [Job i, Job (i + 10)]) [0..<10])"
    by (simp add: lfthreadpool_test_calls_def upt_rec)
  have ne: "\<forall>a \<in> set as. nonempty_lp_act a"
    by (rule nonempty_schedule) (auto simp: assms(2) lfthreadpool_test_calls_def)
  have ps: "pool_size hc (-1) = getcores hc" by (simp add: pool_size_def)
  have inv0: "lp_inv (getcores hc) 32 [] ?pool" using new_pool_inv(1) [of hc "-1" 32 Static] assms(1) ps by simp
  have off: "offered as = concat (map (\<lambda>i. [Job i, Job (i + 10)]) [0..<10])"
    using offered_schedule [of as] assms(2) tasks by simp
  obtain acc p where run: "lp_run mv as ?pool = Inr (acc, p)" "lp_inv (getcores hc) 32 acc p"
      "length (offered as) \<le> pool_room 32 \<longrightarrow> acc = offered as"
    using lp_run_ok [OF inv0 ne] by fastforce
  have "length (offered as) \<le> pool_room 32" by (simp add: off pool_room_def sz upt_rec)
  then have "mset acc = mset (map Job [0..<20])" using run(3) off mset_pairs [of Job 10] by simp
  then have sum: "(\<Sum>t\<leftarrow>lp_workers p. mset (share_of t)) = mset (map Job [0..<20])"
    using run(2) by (simp add: lp_inv_def)
  obtain q where q: "lp_t_shutdown mv sched p = Inr q" "lp_shutdown q" "length (lp_workers q) = length (lp_workers p)"
      "\<forall>i < length (lp_workers p). ended (lp_workers p ! i) (lp_workers q ! i)"
    using lp_t_shutdown_ok [OF run(2)] by blast
  have "\<forall>t \<in> set (lp_workers q). lt_shutdown t \<and> lt_pc t = Finished"
    using q(3,4) by (auto simp: in_set_conv_nth ended_def)
  then have "delete_lfthreadpool mv sched q = Inr (q\<lparr>lp_workers := [], lp_tnum := 0\<rparr>)"
    using q(2) by (simp add: delete_lfthreadpool_def lp_t_shutdown_def shutdown_again)
  then show ?thesis using run(1) q sum by (simp add: lfthreadpool_test_main_def ended_def)
qed

end
