(* ===== verification/Threadpool.thy ===== *)
theory Threadpool
  imports Moon_Prelude "HOL-Library.Multiset"
begin

text \<open>
  The thread pool with one locked queue: \<^verbatim>\<open>include/moonnet/threadpool.h\<close>, \<^verbatim>\<open>src/threadpool.cpp\<close>,
  \<^verbatim>\<open>src/threadpool.tpp\<close>. The operations are functions on the state of the pool; the threads
  interleave their steps in any order. The invariant of all interleavings accounts for every
  accepted task, and a measure shows that the workers end after a shutdown.
\<close>

section \<open>State\<close>

text \<open>
  Where a worker thread is in \<^verbatim>\<open>t_task\<close>: at the top of its loop, in front of the wait; with the
  task it has taken from the queue, the lock released; returned.
\<close>

datatype 'a tp_worker = At_wait | Holding 'a | Returned

text \<open>
  An element of the vector \<^verbatim>\<open>threads\<close> is \<open>None\<close> when it is a default-constructed \<^verbatim>\<open>std::thread\<close>,
  which has no thread. The counters are 32-bit. \<open>tp_manager\<close>: the manager thread is in the pause of
  its loop and has not ended. \<open>tp_taken\<close> and \<open>tp_ran\<close> record the tasks in the
  order in which they left the queue and in which they were run.
\<close>

record 'a threadpool =
  tp_threads :: "'a tp_worker option list"
  tp_tasks :: "'a list"
  tp_min_thr_num :: int
  tp_max_thr_num :: int
  tp_run_num :: u32
  tp_live_num :: u32
  tp_exit_num :: u32
  tp_shutdown :: bool
  tp_manager :: bool
  tp_taken :: "'a list"
  tp_ran :: "'a list"

section \<open>Operations\<close>

text \<open>
  \<^verbatim>\<open>init\<close>: the workers come behind the \<^verbatim>\<open>num\<close> empty thread objects of the constructor. \<open>hc\<close> is
  \<^verbatim>\<open>std::thread::hardware_concurrency()\<close>.
\<close>

definition tp_init :: "nat \<Rightarrow> 'a threadpool \<Rightarrow> 'a threadpool" where
  "tp_init hc p =
     p\<lparr>tp_run_num := 0, tp_live_num := 0, tp_exit_num := 0, tp_max_thr_num := int hc + 1,
       tp_threads := tp_threads p @ replicate (nat (tp_min_thr_num p)) (Some At_wait)\<rparr>"

definition new_threadpool :: "nat \<Rightarrow> nat \<Rightarrow> 'a threadpool" where
  "new_threadpool hc num =
     tp_init hc
       \<lparr>tp_threads = replicate num None, tp_tasks = [], tp_min_thr_num = int num, tp_max_thr_num = 0,
        tp_run_num = 0, tp_live_num = of_nat num, tp_exit_num = 0, tp_shutdown = False,
        tp_manager = True, tp_taken = [], tp_ran = []\<rparr>"

definition tp_add_task :: "'a \<Rightarrow> 'a threadpool \<Rightarrow> 'a threadpool" where
  "tp_add_task f p = (if tp_shutdown p then p else p\<lparr>tp_tasks := tp_tasks p @ [f]\<rparr>)"

text \<open>The condition that \<^verbatim>\<open>task_cv.wait\<close> waits for.\<close>

definition tp_ready :: "'a threadpool \<Rightarrow> bool" where
  "tp_ready p \<longleftrightarrow> tp_tasks p \<noteq> [] \<or> tp_shutdown p \<or> 0 < sint (tp_exit_num p)"

definition set_worker :: "nat \<Rightarrow> 'a tp_worker \<Rightarrow> 'a threadpool \<Rightarrow> 'a threadpool" where
  "set_worker i w p = p\<lparr>tp_threads := (tp_threads p)[i := Some w]\<rparr>"

text \<open>
  A turn of \<^verbatim>\<open>t_task\<close> in two steps: under the lock, from the end of the wait to \<^verbatim>\<open>unlock\<close> or
  \<^verbatim>\<open>return\<close>; and the rest, which counts and runs the task.
\<close>

definition t_task_locked :: "nat \<Rightarrow> 'a threadpool \<Rightarrow> 'a threadpool" where
  "t_task_locked i p =
     (if 0 < sint (tp_exit_num p) then set_worker i Returned (p\<lparr>tp_exit_num := tp_exit_num p - 1\<rparr>)
      else if tp_shutdown p \<and> tp_tasks p = [] then set_worker i Returned p
      else set_worker i (Holding (hd (tp_tasks p)))
             (p\<lparr>tp_tasks := tl (tp_tasks p), tp_taken := tp_taken p @ [hd (tp_tasks p)]\<rparr>))"

definition t_task_run :: "nat \<Rightarrow> 'a \<Rightarrow> 'a threadpool \<Rightarrow> 'a threadpool" where
  "t_task_run i f p =
     set_worker i At_wait
       (p\<lparr>tp_run_num := tp_run_num p + 1, tp_live_num := tp_live_num p - 1, tp_ran := tp_ran p @ [f]\<rparr>)"

text \<open>\<^verbatim>\<open>t_shutdown\<close> up to its joins: the flag is set and the workers are notified.\<close>

definition tp_t_shutdown :: "'a threadpool \<Rightarrow> 'a threadpool" where
  "tp_t_shutdown p = p\<lparr>tp_shutdown := True\<rparr>"

text \<open>
  A turn of \<^verbatim>\<open>adjust_task\<close> from the end of its pause to the next test of \<^verbatim>\<open>shutdown\<close>. \<^verbatim>\<open>tasks.size() > live_num\<close> compares a \<^verbatim>\<open>size_t\<close> with an
  \<^verbatim>\<open>int\<close>, which is converted to \<^verbatim>\<open>size_t\<close>: a negative \<^verbatim>\<open>live_num\<close> becomes a very large number. The
  turn is one step here; in the code it reads the sizes before it takes the lock.
\<close>

definition adjust_grow :: "'a threadpool \<Rightarrow> 'a threadpool" where
  "adjust_grow p =
     (let sz = length (tp_threads p)
      in if unat (scast (tp_live_num p) :: size_t) < length (tp_tasks p) \<and>
            sint (tp_live_num p) < tp_max_thr_num p \<and> int sz < tp_max_thr_num p
         then let add = min 10 (nat (tp_max_thr_num p) - sz)
              in p\<lparr>tp_threads := tp_threads p @ replicate add (Some At_wait),
                   tp_live_num := tp_live_num p + of_nat add\<rparr>
         else p)"

definition adjust_shrink :: "'a threadpool \<Rightarrow> 'a threadpool" where
  "adjust_shrink p =
     (let run = sint (tp_run_num p); live = sint (tp_live_num p)
      in if run * 2 < live \<and> live > tp_min_thr_num p
         then let x = (if live - tp_min_thr_num p \<ge> 10 then 10 else live - tp_min_thr_num p)
              in p\<lparr>tp_exit_num := of_int x, tp_live_num := tp_live_num p - of_int x\<rparr>
         else p)"

definition tp_adjust_turn :: "'a threadpool \<Rightarrow> 'a threadpool" where
  "tp_adjust_turn p = (let p = adjust_shrink (adjust_grow p) in p\<lparr>tp_manager := \<not> tp_shutdown p\<rparr>)"

section \<open>All interleavings\<close>

text \<open>
  The owner, the workers and the manager thread, in any order. The label is the accepted
  task of an \<^verbatim>\<open>add_task\<close> that accepts one.
\<close>

inductive tp_step :: "'a threadpool \<Rightarrow> 'a list \<Rightarrow> 'a threadpool \<Rightarrow> bool" where
  Add: "tp_step p (if tp_shutdown p then [] else [f]) (tp_add_task f p)"
| Locked: "i < length (tp_threads p) \<Longrightarrow> tp_threads p ! i = Some At_wait \<Longrightarrow> tp_ready p \<Longrightarrow>
    tp_step p [] (t_task_locked i p)"
| Run: "i < length (tp_threads p) \<Longrightarrow> tp_threads p ! i = Some (Holding f) \<Longrightarrow>
    tp_step p [] (t_task_run i f p)"
| Adjust: "tp_manager p \<Longrightarrow> tp_step p [] (tp_adjust_turn p)"
| Shutdown: "tp_step p [] (tp_t_shutdown p)"

inductive tp_steps :: "'a threadpool \<Rightarrow> 'a list \<Rightarrow> 'a threadpool \<Rightarrow> bool" for p0 where
  Refl: "tp_steps p0 [] p0"
| Step: "tp_steps p0 as p \<Longrightarrow> tp_step p a p' \<Longrightarrow> tp_steps p0 (as @ a) p'"

text \<open>The workers alone.\<close>

inductive tp_work :: "'a threadpool \<Rightarrow> 'a threadpool \<Rightarrow> bool" where
  Work_locked: "i < length (tp_threads p) \<Longrightarrow> tp_threads p ! i = Some At_wait \<Longrightarrow> tp_ready p \<Longrightarrow>
    tp_work p (t_task_locked i p)"
| Work_run: "i < length (tp_threads p) \<Longrightarrow> tp_threads p ! i = Some (Holding f) \<Longrightarrow>
    tp_work p (t_task_run i f p)"

section \<open>No task is lost or run twice\<close>

fun holding :: "'a tp_worker option \<Rightarrow> 'a list" where
  "holding (Some (Holding f)) = [f]"
| "holding _ = []"

abbreviation held :: "'a threadpool \<Rightarrow> 'a multiset" where
  "held p \<equiv> mset (concat (map holding (tp_threads p)))"

definition tp_inv :: "'a list \<Rightarrow> 'a threadpool \<Rightarrow> bool" where
  "tp_inv acc p \<longleftrightarrow>
     acc = tp_taken p @ tp_tasks p \<and> mset (tp_taken p) = mset (tp_ran p) + held p \<and>
     tp_run_num p = of_nat (length (tp_ran p))"

lemma mset_concat_update:
  assumes "i < length xs"
  shows "mset (concat (map h (xs[i := x]))) + mset (h (xs ! i)) = mset (concat (map h xs)) + mset (h x)"
  using assms
proof (induction xs arbitrary: i)
  case (Cons y ys)
  then show ?case by (cases i) (auto simp: ac_simps)
qed simp

lemma held_set_worker:
  assumes "i < length (tp_threads p)"
  shows "held (set_worker i w p) + mset (holding (tp_threads p ! i)) = held p + mset (holding (Some w))"
  using mset_concat_update [OF assms, of holding "Some w"] by (simp add: set_worker_def)

lemma set_worker_simps [simp]:
  "tp_tasks (set_worker i w p) = tp_tasks p" "tp_taken (set_worker i w p) = tp_taken p"
  "tp_ran (set_worker i w p) = tp_ran p" "tp_run_num (set_worker i w p) = tp_run_num p"
  "tp_live_num (set_worker i w p) = tp_live_num p" "tp_exit_num (set_worker i w p) = tp_exit_num p"
  "tp_shutdown (set_worker i w p) = tp_shutdown p"
  "tp_threads (set_worker i w p) = (tp_threads p)[i := Some w]"
  by (simp_all add: set_worker_def)

lemma concat_replicate_nothing [simp]: "concat (replicate n []) = []"
  by (induction n) auto

lemma adjust_frame:
  "tp_tasks (tp_adjust_turn p) = tp_tasks p" "tp_taken (tp_adjust_turn p) = tp_taken p"
  "tp_ran (tp_adjust_turn p) = tp_ran p" "tp_run_num (tp_adjust_turn p) = tp_run_num p"
  "tp_shutdown (tp_adjust_turn p) = tp_shutdown p" "held (tp_adjust_turn p) = held p"
  by (simp_all add: tp_adjust_turn_def adjust_grow_def adjust_shrink_def Let_def)

lemma tp_inv_locked:
  assumes "tp_inv acc p" "i < length (tp_threads p)" "tp_threads p ! i = Some At_wait" "tp_ready p"
  shows "tp_inv acc (t_task_locked i p)"
proof -
  have h: "mset (concat (map holding ((tp_threads p)[i := Some w]))) = held p + mset (holding (Some w))" for w
    using held_set_worker [OF assms(2), of w] assms(3) by simp
  show ?thesis
    using assms(1,4) unfolding tp_inv_def t_task_locked_def
    by (cases "tp_tasks p") (auto simp: h tp_ready_def)
qed

lemma tp_inv_run:
  assumes "tp_inv acc p" "i < length (tp_threads p)" "tp_threads p ! i = Some (Holding f)"
  shows "tp_inv acc (t_task_run i f p)"
proof -
  have "mset (concat (map holding ((tp_threads p)[i := Some At_wait]))) + {#f#} = held p"
    using held_set_worker [OF assms(2), of At_wait] assms(3) by simp
  then show ?thesis
    using assms(1) by (auto simp: tp_inv_def t_task_run_def ac_simps)
qed

lemma tp_inv_step: "tp_step p a p' \<Longrightarrow> tp_inv acc p \<Longrightarrow> tp_inv (acc @ a) p'"
proof (induction rule: tp_step.induct)
  case (Add p f)
  then show ?case by (simp add: tp_inv_def tp_add_task_def)
next
  case (Locked i p)
  then show ?case using tp_inv_locked by simp
next
  case (Run i p f)
  then show ?case using tp_inv_run by simp
next
  case (Adjust p)
  then show ?case by (simp add: tp_inv_def adjust_frame)
next
  case (Shutdown p)
  then show ?case by (simp add: tp_inv_def tp_t_shutdown_def)
qed

lemma tp_inv_init: "tp_inv [] (new_threadpool hc n)"
  by (simp add: tp_inv_def new_threadpool_def tp_init_def)

lemma tp_inv_steps: "tp_steps (new_threadpool hc n) acc p \<Longrightarrow> tp_inv acc p"
  by (induction rule: tp_steps.induct) (auto intro: tp_inv_init tp_inv_step)

section \<open>Shutting down\<close>

fun weight :: "'a tp_worker option \<Rightarrow> nat" where
  "weight (Some At_wait) = 1"
| "weight (Some (Holding f)) = 2"
| "weight _ = 0"

definition tp_left :: "'a threadpool \<Rightarrow> nat" where
  "tp_left p = 2 * length (tp_tasks p) + sum_list (map weight (tp_threads p))"

lemma sum_list_update:
  fixes h :: "'b \<Rightarrow> nat"
  assumes "i < length xs"
  shows "sum_list (map h (xs[i := x])) + h (xs ! i) = sum_list (map h xs) + h x"
  using assms
proof (induction xs arbitrary: i)
  case (Cons y ys)
  then show ?case by (cases i) auto
qed simp

text \<open>Every step of a worker brings the end one step nearer.\<close>

lemma tp_work_left: "tp_work p p' \<Longrightarrow> Suc (tp_left p') = tp_left p"
proof (induction rule: tp_work.induct)
  case (Work_locked i p)
  note u = sum_list_update [OF Work_locked(1), of weight, unfolded Work_locked(2)]
  show ?case
    using u [of "Some Returned"] u [of "Some (Holding (hd (tp_tasks p)))"] Work_locked(3)
    by (cases "tp_tasks p") (auto simp: t_task_locked_def tp_left_def tp_ready_def)
next
  case (Work_run i p f)
  show ?case
    using sum_list_update [OF Work_run(1), of weight "Some At_wait", unfolded Work_run(2)]
    by (auto simp: t_task_run_def tp_left_def)
qed

lemma tp_work_bounded: "(tp_work ^^ k) p p' \<Longrightarrow> k + tp_left p' = tp_left p"
proof (induction k arbitrary: p')
  case (Suc k)
  then obtain q where "(tp_work ^^ k) p q" "tp_work q p'" by auto
  then show ?case using Suc.IH [of q] tp_work_left [of q p'] by simp
qed simp

text \<open>A worker is left as long as there are tasks.\<close>

definition tp_closing :: "'a list \<Rightarrow> 'a threadpool \<Rightarrow> bool" where
  "tp_closing acc p \<longleftrightarrow> tp_inv acc p \<and> tp_shutdown p \<and> sint (tp_exit_num p) \<le> 0 \<and>
     (tp_tasks p \<noteq> [] \<longrightarrow> (\<exists>w \<in> set (tp_threads p). 0 < weight w))"

lemma tp_closing_work: "tp_work p p' \<Longrightarrow> tp_closing acc p \<Longrightarrow> tp_closing acc p'"
proof (induction rule: tp_work.induct)
  case (Work_locked i p)
  then have "tp_inv acc (t_task_locked i p)" by (auto simp: tp_closing_def intro: tp_inv_locked)
  then show ?case
    using Work_locked by (auto simp: tp_closing_def t_task_locked_def intro!: bexI [OF _ set_update_memI])
next
  case (Work_run i p f)
  then have "tp_inv acc (t_task_run i f p)" by (auto simp: tp_closing_def intro: tp_inv_run)
  then show ?case
    using Work_run by (auto simp: tp_closing_def t_task_run_def intro!: bexI [OF _ set_update_memI])
qed

lemma tp_closing_works: "tp_work\<^sup>*\<^sup>* p p' \<Longrightarrow> tp_closing acc p \<Longrightarrow> tp_closing acc p'"
  by (induction rule: rtranclp_induct) (auto intro: tp_closing_work)

lemma tp_closing_stuck:
  assumes "tp_closing acc p" "\<nexists>p'. tp_work p p'"
  shows "\<forall>w \<in> set (tp_threads p). w = None \<or> w = Some Returned" "tp_tasks p = []" "mset (tp_ran p) = mset acc"
proof -
  show idle: "\<forall>w \<in> set (tp_threads p). w = None \<or> w = Some Returned"
  proof
    fix w assume "w \<in> set (tp_threads p)"
    then obtain i where i: "i < length (tp_threads p)" "tp_threads p ! i = w" by (auto simp: in_set_conv_nth)
    have "tp_ready p" using assms(1) by (simp add: tp_closing_def tp_ready_def)
    then have "w \<noteq> Some At_wait" "w \<noteq> Some (Holding f)" for f
      using i assms(2) tp_work.intros [of i p] by auto
    then show "w = None \<or> w = Some Returned" by (metis option.exhaust tp_worker.exhaust)
  qed
  then show t: "tp_tasks p = []" using assms(1) by (force simp: tp_closing_def)
  have "concat (map holding (tp_threads p)) = []" using idle by auto
  then show "mset (tp_ran p) = mset acc" using assms(1) t by (simp add: tp_closing_def tp_inv_def)
qed

end
