(* ===== verification/Threadpool_Laws.thy ===== *)
theory Threadpool_Laws
  imports Threadpool
begin

text \<open>
  The laws of the thread pool: what its counters come to, that no task is lost or run twice,
  that a shutdown runs everything accepted, and that the pool stops growing.
\<close>

section \<open>The counters\<close>

lemma tp_inv_lengths:
  assumes "tp_inv acc p"
  shows "length (tp_ran p) \<le> length acc" "length (tp_tasks p) \<le> length acc"
proof -
  have "size (mset (tp_taken p)) = size (mset (tp_ran p) + held p)" using assms by (simp add: tp_inv_def)
  then show "length (tp_ran p) \<le> length acc" "length (tp_tasks p) \<le> length acc"
    using assms by (auto simp: tp_inv_def)
qed

lemma sint_pred:
  fixes w :: u32
  assumes "- (2 ^ 31) < sint w"
  shows "sint (w - 1) = sint w - 1"
proof -
  have "sint w < 2 ^ 31" using sint_less [of w] by simp
  then have "signed_take_bit 31 (sint w - 1) = sint w - 1"
    using assms by (intro signed_take_bit_int_eq_self) auto
  then show ?thesis by (simp add: sint_word_ariths)
qed

text \<open>A negative \<^verbatim>\<open>live_num\<close>, read as a \<^verbatim>\<open>size_t\<close>, is larger than the size of any queue.\<close>

lemma negative_as_size_t:
  fixes w :: u32
  assumes "sint w < 0"
  shows "9223372036854775808 \<le> unat (scast w :: size_t)"
proof -
  have s: "- 2147483648 \<le> sint w" using sint_ge [of w] by simp
  have "uint (scast w :: size_t) = take_bit 64 (sint w)"
    unfolding scast_eq by (simp only: uint_word_of_int_eq len_bit0 len_num1) simp
  also have "\<dots> = sint w mod 18446744073709551616" by (simp add: take_bit_eq_mod)
  also have "\<dots> = (sint w + 18446744073709551616) mod 18446744073709551616" by (simp only: mod_add_self2)
  also have "\<dots> = sint w + 18446744073709551616"
    using assms s by (intro mod_pos_pos_trivial) auto
  finally have "9223372036854775808 \<le> int (unat (scast w :: size_t))"
    unfolding uint_nat [symmetric] using s by linarith
  then show ?thesis by linarith
qed

lemma adjust_idle:
  assumes "sint (tp_live_num p) < 0" "0 \<le> tp_min_thr_num p" "length (tp_tasks p) < 9223372036854775808"
  shows "tp_adjust_turn p = p\<lparr>tp_manager := \<not> tp_shutdown p\<rparr>"
proof -
  have "adjust_grow p = p"
    using negative_as_size_t [OF assms(1)] assms(3) by (simp add: adjust_grow_def Let_def)
  moreover have "adjust_shrink p = p" using assms(1,2) by (simp add: adjust_shrink_def Let_def)
  ultimately show ?thesis by (simp add: tp_adjust_turn_def)
qed

text \<open>What every step keeps once \<^verbatim>\<open>live_num\<close> is negative.\<close>

definition tp_sunk :: "'a threadpool \<Rightarrow> 'a threadpool \<Rightarrow> bool" where
  "tp_sunk p q \<longleftrightarrow>
     length (tp_threads q) = length (tp_threads p) \<and> 0 \<le> tp_min_thr_num q \<and>
     length (tp_ran p) \<le> length (tp_ran q) \<and>
     sint (tp_live_num q) + int (length (tp_ran q)) = sint (tp_live_num p) + int (length (tp_ran p))"

lemma tp_sunk_step:
  assumes "tp_step q a q'" "tp_sunk p q" "sint (tp_live_num p) < 0" "- (2 ^ 30) \<le> sint (tp_live_num p)"
    and "length (tp_ran q) < 2 ^ 30" "length (tp_tasks q) < 2 ^ 30"
  shows "tp_sunk p q'"
  using assms
proof (induction rule: tp_step.induct)
  case (Add q f)
  then show ?case by (simp add: tp_sunk_def tp_add_task_def)
next
  case (Locked i q)
  then show ?case by (simp add: tp_sunk_def t_task_locked_def set_worker_def)
next
  case (Run i q f)
  then have "sint (tp_live_num q - 1) = sint (tp_live_num q) - 1"
    by (intro sint_pred) (simp add: tp_sunk_def)
  with Run show ?case by (simp add: tp_sunk_def t_task_run_def set_worker_def)
next
  case (Adjust q)
  then have "tp_adjust_turn q = q\<lparr>tp_manager := \<not> tp_shutdown q\<rparr>"
    by (intro adjust_idle) (simp_all add: tp_sunk_def)
  with Adjust show ?case by (simp add: tp_sunk_def)
next
  case (Shutdown q)
  then show ?case by (simp add: tp_sunk_def tp_t_shutdown_def)
qed

lemma tp_sunk_steps:
  assumes "tp_steps p acc' q" "tp_inv acc p" "0 \<le> tp_min_thr_num p"
    and "sint (tp_live_num p) < 0" "- (2 ^ 30) \<le> sint (tp_live_num p)" "length (acc @ acc') < 2 ^ 30"
  shows "tp_inv (acc @ acc') q \<and> tp_sunk p q"
  using assms
proof (induction rule: tp_steps.induct)
  case Refl
  then show ?case by (simp add: tp_sunk_def)
next
  case (Step as q a q')
  then have "tp_inv (acc @ as) q" "tp_sunk p q" by simp_all
  then show ?case
    using tp_sunk_step [OF Step.hyps(2)] tp_inv_step [OF Step.hyps(2)] tp_inv_lengths [of "acc @ as" q] Step.prems
    by (metis (no_types, lifting) append_assoc le_less_trans length_append le_add1)
qed

lemma tp_min_steps: "tp_steps p acc q \<Longrightarrow> tp_min_thr_num q = tp_min_thr_num p"
  by (induction rule: tp_steps.induct)
    (auto elim!: tp_step.cases simp: tp_add_task_def t_task_locked_def t_task_run_def set_worker_def
      tp_adjust_turn_def adjust_grow_def adjust_shrink_def Let_def tp_t_shutdown_def)

section \<open>Properties\<close>

text \<open>
  C14. In every interleaving of the owner, the workers and the manager, the accepted tasks leave
  the queue in the order in which they were added, and each is in exactly one place: run,
  in the hands of one worker, or still in the queue. So no task is lost and none is run twice.
\<close>

theorem threadpool_conserves_tasks:
  assumes "tp_steps (new_threadpool hc n) acc p"
  shows "acc = tp_taken p @ tp_tasks p \<and>
    mset acc = mset (tp_ran p) + mset (concat (map holding (tp_threads p))) + mset (tp_tasks p)"
  using tp_inv_steps [OF assms] by (simp add: tp_inv_def)

text \<open>
  C15. Shutting the pool down runs everything that was accepted: once \<^verbatim>\<open>shutdown\<close> is set, with no
  exit pending and a worker left, the workers come to a stop within a number of steps that
  \<open>tp_left\<close> gives, whatever the order they run in, and when none can go on, all have
  returned, so that the joins of \<^verbatim>\<open>t_shutdown\<close> return, and every accepted task has been run once.
\<close>

theorem threadpool_shutdown_runs_all:
  assumes "tp_steps (new_threadpool hc n) acc p" and "tp_shutdown p" and "sint (tp_exit_num p) \<le> 0"
    and "\<exists>w \<in> set (tp_threads p). 0 < weight w"
  shows "(\<forall>k q. (tp_work ^^ k) p q \<longrightarrow> k \<le> tp_left p) \<and>
    (\<forall>q. tp_work\<^sup>*\<^sup>* p q \<and> (\<nexists>r. tp_work q r) \<longrightarrow>
       (\<forall>w \<in> set (tp_threads q). w = None \<or> w = Some Returned) \<and> tp_tasks q = [] \<and>
       mset (tp_ran q) = mset acc)"
proof -
  have "tp_closing acc p" using assms(2-) tp_inv_steps [OF assms(1)] by (simp add: tp_closing_def)
  note cl = tp_closing_works [OF _ this]
  have "k \<le> tp_left p" if "(tp_work ^^ k) p q" for k q using tp_work_bounded [OF that] by simp
  moreover have "(\<forall>w \<in> set (tp_threads q). w = None \<or> w = Some Returned) \<and> tp_tasks q = [] \<and>
      mset (tp_ran q) = mset acc" if "tp_work\<^sup>*\<^sup>* p q" "\<nexists>r. tp_work q r" for q
    using tp_closing_stuck [OF cl [OF that(1)] that(2)] by (intro conjI)
  ultimately show ?thesis by auto
qed

text \<open>
  The counters do not count what their comments say, and the pool stops growing: \<^verbatim>\<open>run_num\<close> is
  the number of all tasks ever run, and \<^verbatim>\<open>live_num\<close>, once negative (it starts at 0 and every
  task takes 1 away), stays so; compared with the size of the queue it is a huge number, so
  however many tasks wait, the manager never adds a worker again.
\<close>

theorem threadpool_never_grows_again:
  assumes "tp_steps (new_threadpool hc n) acc p" and "sint (tp_live_num p) < 0"
    and "- (2 ^ 30) \<le> sint (tp_live_num p)"
    and "tp_steps p acc' q" and "length (acc @ acc') < 2 ^ 30"
  shows "length (tp_threads q) = length (tp_threads p) \<and> sint (tp_live_num q) < 0 \<and>
    tp_run_num q = of_nat (length (tp_ran q))"
proof -
  have "0 \<le> tp_min_thr_num p" using tp_min_steps [OF assms(1)] by (simp add: new_threadpool_def tp_init_def)
  then have "tp_inv (acc @ acc') q" "tp_sunk p q"
    using tp_sunk_steps [OF assms(4) tp_inv_steps [OF assms(1)] _ assms(2,3,5)] by simp_all
  then show ?thesis using assms(2) by (simp add: tp_sunk_def tp_inv_def)
qed

text \<open>A pool of one worker to which one task is added, which the worker takes and runs.\<close>

definition one_added :: "nat threadpool" where
  "one_added = tp_add_task 7 (new_threadpool 3 1)"

definition one_ran :: "nat threadpool" where
  "one_ran = t_task_run 1 7 (t_task_locked 1 one_added)"

lemmas sample_tp_defs = one_added_def one_ran_def new_threadpool_def tp_init_def tp_add_task_def
  t_task_locked_def t_task_run_def set_worker_def

lemma one_added_steps: "tp_steps (new_threadpool 3 1) [7] one_added"
  using tp_steps.Step [OF tp_steps.Refl tp_step.Add [of "new_threadpool 3 1" 7]]
  by (simp add: sample_tp_defs)

lemma one_ran_steps: "tp_steps (new_threadpool 3 1) [7] one_ran"
proof -
  have "tp_step one_added [] (t_task_locked 1 one_added)"
    by (rule tp_step.Locked) (simp_all add: sample_tp_defs tp_ready_def)
  moreover have "tp_step (t_task_locked 1 one_added) [] one_ran"
    unfolding one_ran_def by (rule tp_step.Run) (simp_all add: sample_tp_defs)
  ultimately show ?thesis using tp_steps.Step [OF tp_steps.Step [OF one_added_steps]] by force
qed

theorem threadpool_conserves_tasks_witness:
  "tp_steps (new_threadpool 3 1) [7] one_ran \<and> tp_ran one_ran = [7] \<and>
   [7] = tp_taken one_ran @ tp_tasks one_ran"
  using threadpool_conserves_tasks [OF one_ran_steps] one_ran_steps by (simp add: sample_tp_defs)

text \<open>The same pool after a shutdown, its worker having run the task and returned.\<close>

definition one_closed :: "nat threadpool" where
  "one_closed = t_task_locked 1 (t_task_run 1 7 (t_task_locked 1 (tp_t_shutdown one_added)))"

lemma one_closed_works: "tp_work\<^sup>*\<^sup>* (tp_t_shutdown one_added) one_closed"
proof -
  have "tp_work (tp_t_shutdown one_added) (t_task_locked 1 (tp_t_shutdown one_added))"
    by (rule Work_locked) (simp_all add: sample_tp_defs tp_t_shutdown_def tp_ready_def)
  moreover have "tp_work (t_task_locked 1 (tp_t_shutdown one_added))
      (t_task_run 1 7 (t_task_locked 1 (tp_t_shutdown one_added)))"
    by (rule Work_run) (simp_all add: sample_tp_defs tp_t_shutdown_def)
  moreover have "tp_work (t_task_run 1 7 (t_task_locked 1 (tp_t_shutdown one_added))) one_closed"
    unfolding one_closed_def
    by (rule Work_locked) (simp_all add: sample_tp_defs tp_t_shutdown_def tp_ready_def)
  ultimately show ?thesis by (meson converse_rtranclp_into_rtranclp rtranclp.rtrancl_refl)
qed

lemma one_closed_threads: "tp_threads one_closed = [None, Some Returned]"
  by (simp add: one_closed_def sample_tp_defs tp_t_shutdown_def)

lemma one_closed_stuck: "\<nexists>r. tp_work one_closed r"
  by (auto elim!: tp_work.cases simp: one_closed_threads less_Suc_eq nth_Cons')

theorem threadpool_shutdown_runs_all_witness:
  "tp_left (tp_t_shutdown one_added) = 3 \<and> tp_work\<^sup>*\<^sup>* (tp_t_shutdown one_added) one_closed \<and>
   tp_tasks one_closed = [] \<and> mset (tp_ran one_closed) = {#7#}"
proof -
  have st: "tp_steps (new_threadpool 3 1) [7] (tp_t_shutdown one_added)"
    using tp_steps.Step [OF one_added_steps tp_step.Shutdown] by simp
  have "tp_shutdown (tp_t_shutdown one_added)" "sint (tp_exit_num (tp_t_shutdown one_added)) \<le> 0"
      "\<exists>w \<in> set (tp_threads (tp_t_shutdown one_added)). 0 < weight w"
    by (simp_all add: sample_tp_defs tp_t_shutdown_def)
  from threadpool_shutdown_runs_all [OF st this] one_closed_works one_closed_stuck
  have "tp_tasks one_closed = [] \<and> mset (tp_ran one_closed) = mset [7]" by blast
  then show ?thesis using one_closed_works by (simp add: sample_tp_defs tp_t_shutdown_def tp_left_def)
qed

theorem threadpool_never_grows_again_witness:
  "length (tp_threads (tp_adjust_turn (tp_add_task 9 (tp_add_task 8 one_ran)))) = 2 \<and>
   length (tp_tasks (tp_add_task 9 (tp_add_task 8 one_ran))) = 2 \<and>
   tp_max_thr_num one_ran = 4"
proof -
  let ?q = "tp_add_task 9 (tp_add_task 8 one_ran)"
  have 1: "tp_steps one_ran [8] (tp_add_task 8 one_ran)"
    using tp_steps.Step [OF tp_steps.Refl tp_step.Add [of one_ran 8]] by (simp add: sample_tp_defs)
  have 2: "tp_steps one_ran [8, 9] ?q"
    using tp_steps.Step [OF 1 tp_step.Add [of _ 9]] by (simp add: sample_tp_defs)
  have "tp_step ?q [] (tp_adjust_turn ?q)" by (rule tp_step.Adjust) (simp add: sample_tp_defs)
  from tp_steps.Step [OF 2 this] have st: "tp_steps one_ran [8, 9] (tp_adjust_turn ?q)" by simp
  have live: "sint (tp_live_num one_ran) = - 1" by (simp add: sample_tp_defs)
  then have neg: "sint (tp_live_num one_ran) < 0" "- (2 ^ 30) \<le> sint (tp_live_num one_ran)" by simp_all
  have "length ([7] @ [8, 9 :: nat]) < 2 ^ 30" by simp
  from threadpool_never_grows_again [OF one_ran_steps neg st this] show ?thesis
    by (simp add: sample_tp_defs)
qed

end
