(* ===== verification/Byte_Stream.thy ===== *)
theory Byte_Stream
  imports Moon_Prelude
begin

text \<open>
  The contract of a growable byte buffer as its users see it: a stream to which bytes are
  appended at one end and from which they are taken at the other. The connection and UDP
  components rely on these laws only; the lemmas about sequences of calls are proved here.
\<close>

section \<open>Sequences of calls\<close>

datatype stream_op = Put "byte list" | Take size_t | Take_all

text \<open>The pieces that the calls return, and the buffer they leave.\<close>

fun run_ops ::
  "(byte list \<Rightarrow> 'b \<Rightarrow> 'b res) \<Rightarrow> (size_t \<Rightarrow> 'b \<Rightarrow> (byte list \<times> 'b) res) \<Rightarrow> ('b \<Rightarrow> (byte list \<times> 'b) res) \<Rightarrow>
   stream_op list \<Rightarrow> 'b \<Rightarrow> (byte list list \<times> 'b) res" where
  "run_ops app tk tk_all [] b = Inr ([], b)"
| "run_ops app tk tk_all (Put d # ops) b = bindR (app d b) (run_ops app tk tk_all ops)"
| "run_ops app tk tk_all (Take n # ops) b =
     bindR (tk n b) (\<lambda>(d, b). bindR (run_ops app tk tk_all ops b) (\<lambda>(ds, b). Inr (d # ds, b)))"
| "run_ops app tk tk_all (Take_all # ops) b =
     bindR (tk_all b) (\<lambda>(d, b). bindR (run_ops app tk tk_all ops b) (\<lambda>(ds, b). Inr (d # ds, b)))"

text \<open>The same on a list of bytes.\<close>

fun spec_ops :: "stream_op list \<Rightarrow> byte list \<Rightarrow> byte list list \<times> byte list" where
  "spec_ops [] xs = ([], xs)"
| "spec_ops (Put d # ops) xs = spec_ops ops (xs @ d)"
| "spec_ops (Take n # ops) xs = (case spec_ops ops (drop (unat n) xs) of (ds, ys) \<Rightarrow> (take (unat n) xs # ds, ys))"
| "spec_ops (Take_all # ops) xs = (case spec_ops ops [] of (ds, ys) \<Rightarrow> (xs # ds, ys))"

text \<open>The list never gets longer than \<open>m\<close>.\<close>

fun ops_fit :: "nat \<Rightarrow> stream_op list \<Rightarrow> byte list \<Rightarrow> bool" where
  "ops_fit m [] xs \<longleftrightarrow> True"
| "ops_fit m (Put d # ops) xs \<longleftrightarrow> length xs + length d \<le> m \<and> ops_fit m ops (xs @ d)"
| "ops_fit m (Take n # ops) xs \<longleftrightarrow> ops_fit m ops (drop (unat n) xs)"
| "ops_fit m (Take_all # ops) xs \<longleftrightarrow> ops_fit m ops []"

fun puts :: "stream_op list \<Rightarrow> byte list" where
  "puts [] = []"
| "puts (Put d # ops) = d @ puts ops"
| "puts (_ # ops) = puts ops"

lemma spec_ops_stream: "spec_ops ops xs = (ds, ys) \<Longrightarrow> concat ds @ ys = xs @ puts ops"
proof (induction ops xs arbitrary: ds ys rule: spec_ops.induct)
  case (2 d ops xs)
  then show ?case using "2.IH" [of ds ys] by simp
next
  case (3 n ops xs)
  obtain ds1 where "spec_ops ops (drop (unat n) xs) = (ds1, ys)" "ds = take (unat n) xs # ds1"
    using "3.prems" by (cases "spec_ops ops (drop (unat n) xs)") simp
  then show ?case using "3.IH" [of ds1 ys] by simp
next
  case (4 ops xs)
  obtain ds1 where "spec_ops ops [] = (ds1, ys)" "ds = xs # ds1" using "4.prems" by (cases "spec_ops ops []") simp
  then show ?case using "4.IH" [of ds1 ys] by simp
qed simp

section \<open>The contract\<close>

locale byte_stream =
  fixes app :: "byte list \<Rightarrow> 'b \<Rightarrow> 'b res"
    and tk :: "size_t \<Rightarrow> 'b \<Rightarrow> (byte list \<times> 'b) res"
    and avail :: "'b \<Rightarrow> size_t"
    and stream :: "'b \<Rightarrow> byte list"
    and max_len :: nat
    and invar :: "'b \<Rightarrow> bool"
  assumes app_ok:
      "invar b \<Longrightarrow> length (stream b) + length d \<le> max_len \<Longrightarrow>
       \<exists>b'. app d b = Inr b' \<and> invar b' \<and> stream b' = stream b @ d"
    and tk_ok:
      "invar b \<Longrightarrow>
       \<exists>b'. tk n b = Inr (take (unat n) (stream b), b') \<and> invar b' \<and>
            stream b' = drop (unat n) (stream b)"
    and avail_ok: "invar b \<Longrightarrow> unat (avail b) = length (stream b)"
begin

text \<open>Taking as many bytes as are available takes everything.\<close>

lemma take_available:
  assumes "invar b"
  shows "\<exists>b'. tk (avail b) b = Inr (stream b, b') \<and> invar b' \<and> stream b' = []"
  using tk_ok [OF assms, of "avail b"] avail_ok [OF assms] by simp

text \<open>Any sequence of calls is that of a list.\<close>

lemma run_ops_ok:
  assumes "invar b" and "ops_fit max_len ops (stream b)"
  shows "\<exists>b'. run_ops app tk (\<lambda>b. tk (avail b) b) ops b = Inr (fst (spec_ops ops (stream b)), b') \<and> invar b' \<and>
    stream b' = snd (spec_ops ops (stream b))"
  using assms
proof (induction ops "stream b" arbitrary: b rule: spec_ops.induct)
  case (2 d ops b)
  then obtain b1 where b1: "app d b = Inr b1" "invar b1" "stream b1 = stream b @ d" using app_ok [of b d] by auto
  then show ?case using "2.hyps" [of b1] "2.prems" by auto
next
  case (3 n ops b)
  then obtain b1 where b1: "tk n b = Inr (take (unat n) (stream b), b1)" "invar b1" "stream b1 = drop (unat n) (stream b)"
    using tk_ok [of b n] by auto
  then show ?case using "3.hyps" [of b1] "3.prems" by (auto simp: split_beta)
next
  case (4 ops b)
  then obtain b1 where b1: "tk (avail b) b = Inr (stream b, b1)" "invar b1" "stream b1 = []" using take_available [of b] by auto
  then show ?case using "4.hyps" [of b1] "4.prems" by (auto simp: split_beta)
qed simp

end

end
