(* ===== verification/Buffer.thy ===== *)
theory Buffer
  imports Byte_Stream
begin

text \<open>
  The growable byte buffer of \<^verbatim>\<open>include/moonnet/buffer.h\<close> and \<^verbatim>\<open>src/buffer.cpp\<close>. The vector is a
  list of bytes, the two positions are 64-bit words with their wrap-around. A pointer
  argument with a length is the list of the bytes it points to.
\<close>

section \<open>State\<close>

record buffer =
  bf_data :: "byte list"
  bf_reader :: size_t
  bf_writer :: size_t

abbreviation BUFSIZE :: nat where
  "BUFSIZE \<equiv> 1024"

abbreviation IOBUF :: nat where
  "IOBUF \<equiv> 65536"

text \<open>\<^verbatim>\<open>std::vector<char>::max_size()\<close> on 64-bit Linux.\<close>

definition VECTOR_MAX :: nat where
  "VECTOR_MAX = 2 ^ 63 - 1"

definition new_buffer :: buffer where
  "new_buffer = \<lparr>bf_data = replicate BUFSIZE 0, bf_reader = 0, bf_writer = 0\<rparr>"

section \<open>Operations\<close>

definition readbytes :: "buffer \<Rightarrow> size_t" where
  "readbytes b = bf_writer b - bf_reader b"

definition writebytes :: "buffer \<Rightarrow> size_t" where
  "writebytes b = of_nat (length (bf_data b)) - bf_writer b"

definition reset :: "buffer \<Rightarrow> buffer" where
  "reset b = b\<lparr>bf_reader := 0, bf_writer := 0\<rparr>"

text \<open>The \<open>n\<close> bytes a caller reads from the pointer that \<^verbatim>\<open>peek\<close> returns.\<close>

definition peek :: "size_t \<Rightarrow> buffer \<Rightarrow> byte list res" where
  "peek n b =
     (if unat (bf_reader b) + unat n \<le> length (bf_data b)
      then Inr (take (unat n) (drop (unat (bf_reader b)) (bf_data b)))
      else Inl Out_of_bounds)"

definition vector_resize :: "size_t \<Rightarrow> buffer \<Rightarrow> buffer res" where
  "vector_resize n b =
     (if VECTOR_MAX < unat n then Inl Length_error
      else Inr (b\<lparr>bf_data := take (unat n) (bf_data b) @ replicate (unat n - length (bf_data b)) 0\<rparr>))"

definition compact :: "buffer \<Rightarrow> buffer res" where
  "compact b =
     (let rbytes = readbytes b
      in if unat (bf_reader b) + unat rbytes \<le> length (bf_data b)
         then Inr (b\<lparr>bf_data :=
                       write_at 0 (take (unat rbytes) (drop (unat (bf_reader b)) (bf_data b))) (bf_data b),
                     bf_reader := 0, bf_writer := rbytes\<rparr>)
         else Inl Out_of_bounds)"

definition able_wirte :: "size_t \<Rightarrow> buffer \<Rightarrow> buffer res" where
  "able_wirte len b =
     bindR (if writebytes b < len \<and> bf_reader b > 0 then compact b else Inr b) (\<lambda>b.
       if writebytes b < len then vector_resize (bf_writer b + len) b else Inr b)"

definition append :: "byte list \<Rightarrow> buffer \<Rightarrow> buffer res" where
  "append data b =
     (let len = of_nat (length data)
      in bindR (able_wirte len b) (\<lambda>b.
           if unat (bf_writer b) + length data \<le> length (bf_data b)
           then Inr (b\<lparr>bf_data := write_at (unat (bf_writer b)) data (bf_data b),
                       bf_writer := bf_writer b + len\<rparr>)
           else Inl Out_of_bounds))"

text \<open>The common end of the removing functions: advance the reader, restart when it catches up.\<close>

definition advance :: "size_t \<Rightarrow> buffer \<Rightarrow> buffer" where
  "advance rbytes b =
     (let b = b\<lparr>bf_reader := bf_reader b + rbytes\<rparr>
      in if bf_reader b = bf_writer b then reset b else b)"

definition remove_to :: "byte list \<Rightarrow> size_t \<Rightarrow> buffer \<Rightarrow> (size_t \<times> byte list \<times> buffer) res" where
  "remove_to data len b =
     (let rbytes = min len (readbytes b)
      in bindR (peek rbytes b) (\<lambda>bytes.
           if length bytes \<le> length data
           then Inr (rbytes, write_at 0 bytes data, advance rbytes b)
           else Inl Out_of_bounds))"

definition remove :: "size_t \<Rightarrow> buffer \<Rightarrow> (byte list \<times> buffer) res" where
  "remove len b =
     (let rbytes = min len (readbytes b)
      in bindR (peek rbytes b) (\<lambda>bytes. Inr (bytes, advance rbytes b)))"

definition remove_all :: "buffer \<Rightarrow> (byte list \<times> buffer) res" where
  "remove_all b = remove (readbytes b) b"

definition retrieve :: "size_t \<Rightarrow> buffer \<Rightarrow> buffer" where
  "retrieve len b = (let rbytes = min len (readbytes b) in advance rbytes b)"

text \<open>
  \<^verbatim>\<open>readiov\<close> calls \<^verbatim>\<open>readv\<close> on the free space and a stack array of 64 KiB. The system call is the
  parameter \<open>rv\<close>: from the lengths of the vectors it gives the bytes read or an error number,
  and the new state of the outside world. The call fills the first vector, then the second.
\<close>

definition readiov ::
  "(nat list \<Rightarrow> (int + byte list) \<times> 'w) \<Rightarrow> buffer \<Rightarrow> ((int + nat) \<times> buffer \<times> 'w) res" where
  "readiov rv b =
     (let wbytes = writebytes b;
          buflen = of_nat IOBUF
      in if length (bf_data b) < unat (bf_writer b) then Inl Out_of_bounds
         else case rv (if wbytes < buflen then [unat wbytes, IOBUF] else [unat wbytes]) of
           (Inl errno, w) \<Rightarrow> Inr (Inl errno, b, w)
         | (Inr bytes, w) \<Rightarrow>
             (let b1 = b\<lparr>bf_data := write_at (unat (bf_writer b)) (take (unat wbytes) bytes) (bf_data b)\<rparr>
              in if of_nat (length bytes) \<le> wbytes
                 then Inr (Inr (length bytes), b1\<lparr>bf_writer := bf_writer b1 + of_nat (length bytes)\<rparr>, w)
                 else if unat wbytes + IOBUF < length bytes then Inl Out_of_bounds
                 else bindR (append (drop (unat wbytes) bytes)
                               (b1\<lparr>bf_writer := of_nat (length (bf_data b1))\<rparr>)) (\<lambda>b2.
                        Inr (Inr (length bytes), b2, w))))"

section \<open>Invariant and contents\<close>

definition buf_inv :: "buffer \<Rightarrow> bool" where
  "buf_inv b \<longleftrightarrow>
     bf_reader b \<le> bf_writer b \<and> unat (bf_writer b) \<le> length (bf_data b) \<and>
     length (bf_data b) \<le> VECTOR_MAX"

definition contents :: "buffer \<Rightarrow> byte list" where
  "contents b =
     take (unat (bf_writer b) - unat (bf_reader b)) (drop (unat (bf_reader b)) (bf_data b))"

text \<open>
  What \<^verbatim>\<open>readv(2)\<close> promises to \<^verbatim>\<open>readiov\<close>: no more bytes than the vectors hold.
\<close>

definition readv_bounded :: "(nat list \<Rightarrow> (int + byte list) \<times> 'w) \<Rightarrow> bool" where
  "readv_bounded rv \<longleftrightarrow> (\<forall>lens bytes w. rv lens = (Inr bytes, w) \<longrightarrow> length bytes \<le> sum_list lens)"

section \<open>Basic facts\<close>

lemma buf_invD:
  assumes "buf_inv b"
  shows "unat (bf_reader b) \<le> unat (bf_writer b)" and "unat (bf_writer b) \<le> length (bf_data b)"
    and "length (bf_data b) < 2 ^ 63"
  using assms by (auto simp: buf_inv_def word_le_nat_alt VECTOR_MAX_def)

lemma length_contents:
  "buf_inv b \<Longrightarrow> length (contents b) = unat (bf_writer b) - unat (bf_reader b)"
  using buf_invD [of b] by (simp add: contents_def)

lemma contents_at_most: "buf_inv b \<Longrightarrow> length (contents b) \<le> VECTOR_MAX"
  using length_contents [of b] unfolding buf_inv_def by linarith

lemma unat_readbytes: "buf_inv b \<Longrightarrow> unat (readbytes b) = length (contents b)"
  using buf_invD [of b] by (simp add: readbytes_def length_contents unat_sub_nowrap)

lemma unat_writebytes:
  "buf_inv b \<Longrightarrow> unat (writebytes b) = length (bf_data b) - unat (bf_writer b)"
  using buf_invD [of b] by (simp add: writebytes_def unat_sub_nowrap unat_of_nat_size_t)

section \<open>Making room and appending\<close>

lemma compact_ok:
  assumes inv: "buf_inv b"
  shows "\<exists>b'. compact b = Inr b' \<and> buf_inv b' \<and> contents b' = contents b \<and>
              length (bf_data b') = length (bf_data b) \<and> bf_reader b' = 0 \<and>
              unat (bf_writer b') = length (contents b)"
proof -
  note D = buf_invD [OF inv]
  let ?c = "contents b"
  have n: "unat (readbytes b) = length ?c" using inv by (rule unat_readbytes)
  have len: "length ?c = unat (bf_writer b) - unat (bf_reader b)" using inv by (rule length_contents)
  have mv: "take (length ?c) (drop (unat (bf_reader b)) (bf_data b)) = ?c"
    unfolding contents_def using D by (simp add: min_def)
  let ?b = "b\<lparr>bf_data := write_at 0 ?c (bf_data b), bf_reader := 0, bf_writer := readbytes b\<rparr>"
  have fits: "length ?c \<le> length (bf_data b)" using D len by linarith
  have "compact b = Inr ?b"
    using D len unfolding compact_def Let_def n mv by simp
  moreover have "buf_inv ?b" using inv fits n by (simp add: buf_inv_def)
  moreover have "contents ?b = ?c"
    unfolding contents_def [of ?b] by (simp add: n write_at_def)
  ultimately show ?thesis using fits n by simp
qed

lemma writebytes_less:
  assumes "buf_inv b"
  shows "writebytes b < len \<longleftrightarrow> length (bf_data b) < unat (bf_writer b) + unat len"
  using buf_invD [OF assms] by (auto simp: word_less_nat_alt unat_writebytes [OF assms])

lemma contents_write_writer:
  assumes inv: "buf_inv b" and fits: "unat (bf_writer b) + length d \<le> length (bf_data b)"
    and w: "unat w = unat (bf_writer b) + length d"
  shows "buf_inv (b\<lparr>bf_data := write_at (unat (bf_writer b)) d (bf_data b), bf_writer := w\<rparr>)"
    and "contents (b\<lparr>bf_data := write_at (unat (bf_writer b)) d (bf_data b), bf_writer := w\<rparr>) =
           contents b @ d"
proof -
  note D = buf_invD [OF inv]
  let ?b = "b\<lparr>bf_data := write_at (unat (bf_writer b)) d (bf_data b), bf_writer := w\<rparr>"
  let ?r = "unat (bf_reader b)" and ?w = "unat (bf_writer b)"
  show "buf_inv ?b"
    using inv D fits w by (simp add: buf_inv_def word_le_nat_alt)
  have "contents ?b = drop ?r (take (?w + length d) (write_at ?w d (bf_data b)))"
    using D by (simp add: contents_def w drop_take)
  also have "\<dots> = drop ?r (take ?w (bf_data b)) @ d"
    using D by (simp add: take_write_at_end)
  finally show "contents ?b = contents b @ d" using D by (simp add: contents_def drop_take)
qed

text \<open>The first half of \<open>able_wirte\<close> leaves the readable bytes at the front when space is short.\<close>

lemma front_ok:
  assumes inv: "buf_inv b" and "writebytes b < len"
  shows "\<exists>b'. (if writebytes b < len \<and> bf_reader b > 0 then compact b else Inr b) = Inr b' \<and>
              buf_inv b' \<and> contents b' = contents b \<and> bf_reader b' = 0 \<and>
              unat (bf_writer b') = length (contents b) \<and> length (bf_data b') = length (bf_data b)"
proof (cases "bf_reader b > 0")
  case True
  with assms(2) compact_ok [OF inv] show ?thesis by auto
next
  case False
  then have "bf_reader b = 0" by (simp add: word_gt_0)
  with assms show ?thesis by (simp add: length_contents)
qed

lemma grow_ok:
  assumes inv: "buf_inv b" and r: "bf_reader b = 0"
    and fits: "unat (bf_writer b) + unat len \<le> VECTOR_MAX" and "writebytes b < len"
  shows "\<exists>b'. vector_resize (bf_writer b + len) b = Inr b' \<and> buf_inv b' \<and> contents b' = contents b \<and>
              bf_writer b' = bf_writer b \<and> length (bf_data b') = unat (bf_writer b) + unat len"
proof -
  note D = buf_invD [OF inv]
  have n: "unat (bf_writer b + len) = unat (bf_writer b) + unat len"
    using fits by (intro unat_add_nowrap) (simp add: VECTOR_MAX_def)
  have "length (bf_data b) < unat (bf_writer b) + unat len"
    using assms by (simp add: writebytes_less)
  then show ?thesis
    using D fits r by (simp add: vector_resize_def n buf_inv_def contents_def word_le_nat_alt)
qed

lemma able_wirte_ok:
  assumes inv: "buf_inv b" and fits: "length (contents b) + unat len \<le> VECTOR_MAX"
  shows "\<exists>b'. able_wirte len b = Inr b' \<and> buf_inv b' \<and> contents b' = contents b \<and>
              unat (bf_writer b') + unat len \<le> length (bf_data b') \<and>
              length (bf_data b') = max (length (bf_data b)) (length (contents b) + unat len)"
proof (cases "writebytes b < len")
  case False
  then show ?thesis
    using inv writebytes_less [OF inv, of len] length_contents [OF inv]
    by (auto simp: able_wirte_def)
next
  case small: True
  obtain b1 where b1: "(if writebytes b < len \<and> bf_reader b > 0 then compact b else Inr b) = Inr b1"
      "buf_inv b1" "contents b1 = contents b" "bf_reader b1 = 0"
      "unat (bf_writer b1) = length (contents b)" "length (bf_data b1) = length (bf_data b)"
    using front_ok [OF inv small] by blast
  show ?thesis
  proof (cases "writebytes b1 < len")
    case True
    then show ?thesis
      using grow_ok [OF b1(2,4) _ True] b1 fits writebytes_less [OF b1(2), of len]
      by (auto simp: able_wirte_def)
  next
    case False
    then show ?thesis
      using b1 writebytes_less [OF b1(2), of len] by (auto simp: able_wirte_def)
  qed
qed

lemma append_grows:
  assumes inv: "buf_inv b" and fits: "length (contents b) + length d \<le> VECTOR_MAX"
  shows "\<exists>b'. append d b = Inr b' \<and> buf_inv b' \<and> contents b' = contents b @ d \<and>
              length (bf_data b') = max (length (bf_data b)) (length (contents b) + length d)"
proof -
  have len: "unat (of_nat (length d) :: size_t) = length d"
    using fits by (intro unat_of_nat_size_t) (simp add: VECTOR_MAX_def)
  then obtain b1 where b1: "able_wirte (of_nat (length d)) b = Inr b1" "buf_inv b1"
      "contents b1 = contents b"
      "length (bf_data b1) = max (length (bf_data b)) (length (contents b) + length d)"
    and room: "unat (bf_writer b1) + length d \<le> length (bf_data b1)"
    using able_wirte_ok [OF inv, of "of_nat (length d)"] fits by auto
  have "unat (bf_writer b1 + of_nat (length d)) = unat (bf_writer b1) + length d"
    using buf_invD [OF b1(2)] room len by (simp add: unat_add_nowrap)
  from contents_write_writer [OF b1(2) room this] b1 room show ?thesis
    by (simp add: append_def Let_def)
qed

lemma append_ok:
  "buf_inv b \<Longrightarrow> length (contents b) + length d \<le> VECTOR_MAX \<Longrightarrow>
   \<exists>b'. append d b = Inr b' \<and> buf_inv b' \<and> contents b' = contents b @ d"
  using append_grows by blast

text \<open>Beyond the largest vector, \<^verbatim>\<open>append\<close> throws and changes nothing.\<close>

lemma append_too_long:
  assumes inv: "buf_inv b" and d: "length d \<le> VECTOR_MAX"
    and over: "VECTOR_MAX < length (contents b) + length d"
  shows "append d b = Inl Length_error"
proof -
  note D = buf_invD [OF inv]
  let ?len = "of_nat (length d) :: size_t"
  have len: "unat ?len = length d"
    using d by (intro unat_of_nat_size_t) (simp add: VECTOR_MAX_def)
  have over': "length (bf_data b) < length (contents b) + length d"
    using inv over by (simp add: buf_inv_def)
  then have small: "writebytes b < ?len"
    using D len length_contents [OF inv] by (simp add: writebytes_less [OF inv])
  obtain b1 where b1: "(if writebytes b < ?len \<and> bf_reader b > 0 then compact b else Inr b) = Inr b1"
      "buf_inv b1" "unat (bf_writer b1) = length (contents b)"
      "length (bf_data b1) = length (bf_data b)"
    using front_ok [OF inv small] by blast
  have "writebytes b1 < ?len"
    using b1 over' len by (simp add: writebytes_less [OF b1(2)])
  moreover have "unat (bf_writer b1 + ?len) = length (contents b) + length d"
    using b1(3) len d D length_contents [OF inv] by (subst unat_add_nowrap) (auto simp: VECTOR_MAX_def)
  ultimately show ?thesis
    using b1(1) over by (simp add: append_def Let_def able_wirte_def vector_resize_def)
qed

section \<open>Removing\<close>

lemma advance_ok:
  assumes inv: "buf_inv b" and n: "unat n \<le> length (contents b)"
  shows "buf_inv (advance n b)" and "contents (advance n b) = drop (unat n) (contents b)"
    and "bf_data (advance n b) = bf_data b"
proof -
  note D = buf_invD [OF inv]
  have n': "unat n \<le> unat (bf_writer b) - unat (bf_reader b)"
    using n length_contents [OF inv] by simp
  then have u: "unat (bf_reader b + n) = unat (bf_reader b) + unat n"
    using D by (intro unat_add_nowrap) simp
  from n' D have le: "unat (bf_reader b) + unat n \<le> unat (bf_writer b)" by linarith
  have eq: "bf_reader b + n = bf_writer b \<longleftrightarrow> unat (bf_reader b) + unat n = unat (bf_writer b)"
    using u by (simp add: word_unat_eq_iff)
  show "buf_inv (advance n b)"
    using inv D le by (simp add: advance_def Let_def reset_def buf_inv_def word_le_nat_alt u)
  show "contents (advance n b) = drop (unat n) (contents b)"
  proof (cases "bf_reader b + n = bf_writer b")
    case True
    with eq D le have "unat n = unat (bf_writer b) - unat (bf_reader b)" by linarith
    with True show ?thesis by (simp add: advance_def Let_def reset_def contents_def)
  next
    case False
    then show ?thesis
      by (simp add: advance_def Let_def contents_def u drop_take add.commute [of "unat n"])
  qed
  show "bf_data (advance n b) = bf_data b"
    by (simp add: advance_def Let_def reset_def)
qed

lemma peek_ok:
  assumes inv: "buf_inv b" and n: "unat n \<le> length (contents b)"
  shows "peek n b = Inr (take (unat n) (contents b))"
  using buf_invD [OF inv] n length_contents [OF inv] by (simp add: peek_def contents_def min_def)

lemma unat_min_readbytes:
  "buf_inv b \<Longrightarrow> unat (min n (readbytes b)) = min (unat n) (length (contents b))"
  by (auto simp: min_def unat_readbytes word_le_nat_alt)

lemma remove_ok:
  assumes "buf_inv b"
  shows "\<exists>b'. remove n b = Inr (take (unat n) (contents b), b') \<and> buf_inv b' \<and>
              contents b' = drop (unat n) (contents b)"
  using unat_min_readbytes [OF assms, of n] peek_ok [OF assms, of "min n (readbytes b)"]
    advance_ok [OF assms, of "min n (readbytes b)"]
  by (auto simp: remove_def Let_def min_def)

lemma retrieve_ok:
  assumes "buf_inv b"
  shows "buf_inv (retrieve n b)" and "contents (retrieve n b) = drop (unat n) (contents b)"
  using unat_min_readbytes [OF assms, of n] advance_ok [OF assms, of "min n (readbytes b)"]
  by (auto simp: retrieve_def Let_def min_def)

lemma remove_to_ok:
  assumes inv: "buf_inv b" and room: "min (unat n) (length (contents b)) \<le> length data"
  shows "\<exists>b'. remove_to data n b =
                Inr (min n (readbytes b), write_at 0 (take (unat n) (contents b)) data, b') \<and>
              remove n b = Inr (take (unat n) (contents b), b')"
  using unat_min_readbytes [OF inv, of n] peek_ok [OF inv, of "min n (readbytes b)"] room
  by (auto simp: remove_to_def remove_def Let_def min_def split: if_splits)

section \<open>The buffer is a byte stream\<close>

interpretation buf: byte_stream append remove readbytes contents VECTOR_MAX buf_inv
  by unfold_locales (simp_all add: append_ok remove_ok unat_readbytes)

lemma new_buffer_ok: "buf_inv new_buffer" "contents new_buffer = []"
  by (simp_all add: buf_inv_def new_buffer_def contents_def VECTOR_MAX_def)

section \<open>Reading from a descriptor\<close>

lemma readiov_error:
  "buf_inv b \<Longrightarrow> rv (if writebytes b < of_nat IOBUF then [unat (writebytes b), IOBUF]
                    else [unat (writebytes b)]) = (Inl e, w) \<Longrightarrow>
   readiov rv b = Inr (Inl e, b, w)"
  using buf_invD(2) [of b] by (simp add: readiov_def Let_def)

text \<open>A successful read: either all fits behind the writer, or the rest is appended from the stack array.\<close>

lemma readiov_read [case_names fits more]:
  assumes inv: "buf_inv b" and bounded: "readv_bounded rv"
    and rv: "rv (if writebytes b < of_nat IOBUF then [unat (writebytes b), IOBUF]
                 else [unat (writebytes b)]) = (Inr bytes, w)"
  obtains b' where "readiov rv b = Inr (Inr (length bytes), b', w)" "buf_inv b'" "contents b' = contents b @ bytes"
    | b' d where "readiov rv b = bindR (append d b') (\<lambda>b2. Inr (Inr (length bytes), b2, w))" "buf_inv b'"
      "contents b' @ d = contents b @ bytes" "length d \<le> IOBUF"
proof -
  note D = buf_invD [OF inv]
  let ?wb = "unat (writebytes b)" and ?w = "unat (bf_writer b)"
  have wb: "?wb = length (bf_data b) - ?w" using inv by (rule unat_writebytes)
  have most: "length bytes \<le> ?wb + IOBUF"
    using bounded rv by (fastforce simp: readv_bounded_def split: if_splits)
  have readiov_eq: "readiov rv b =
      (if of_nat (length bytes) \<le> writebytes b
       then Inr (Inr (length bytes),
              b\<lparr>bf_data := write_at ?w (take ?wb bytes) (bf_data b),
                bf_writer := bf_writer b + of_nat (length bytes)\<rparr>, w)
       else bindR (append (drop ?wb bytes)
              (b\<lparr>bf_data := write_at ?w (take ?wb bytes) (bf_data b),
                 bf_writer := of_nat (length (write_at ?w (take ?wb bytes) (bf_data b)))\<rparr>))
              (\<lambda>b2. Inr (Inr (length bytes), b2, w)))"
    using D most unfolding readiov_def Let_def rv by simp
  have "length (bf_data b) \<le> VECTOR_MAX" using inv by (simp add: buf_inv_def)
  then have len: "unat (of_nat (length bytes) :: size_t) = length bytes"
    using most wb by (intro unat_of_nat_size_t) (simp add: VECTOR_MAX_def)
  show ?thesis
  proof (cases "length bytes \<le> ?wb")
    case True
    have "unat (bf_writer b + of_nat (length bytes)) = ?w + length bytes"
      using D wb True len by (simp add: unat_add_nowrap)
    moreover have room: "?w + length bytes \<le> length (bf_data b)" using D wb True by linarith
    ultimately show ?thesis
      using contents_write_writer [OF inv room] True that(1) by (simp add: readiov_eq word_le_nat_alt len)
  next
    case False
    let ?d = "take ?wb bytes"
    let ?b = "b\<lparr>bf_data := write_at ?w ?d (bf_data b), bf_writer := of_nat (length (bf_data b))\<rparr>"
    have d: "length ?d = ?wb" using False by simp
    have lb: "length (write_at ?w ?d (bf_data b)) = length (bf_data b)"
      using D wb d by (intro length_write_at) linarith
    have b: "buf_inv ?b" "contents ?b = contents b @ ?d"
      using contents_write_writer [OF inv, of ?d "of_nat (length (bf_data b))"] D wb d
      by (simp_all add: unat_of_nat_size_t)
    have "readiov rv b = bindR (append (drop ?wb bytes) ?b) (\<lambda>b2. Inr (Inr (length bytes), b2, w))"
      using False lb by (simp add: readiov_eq word_le_nat_alt len)
    moreover have "length (drop ?wb bytes) \<le> IOBUF" using most by simp
    ultimately show ?thesis using b by (intro that(2) [of "drop ?wb bytes" ?b]) simp_all
  qed
qed

lemma readiov_ok:
  assumes inv: "buf_inv b" and bounded: "readv_bounded rv"
    and rv: "rv (if writebytes b < of_nat IOBUF then [unat (writebytes b), IOBUF]
                 else [unat (writebytes b)]) = (Inr bytes, w)"
    and fits: "length (contents b) + length bytes \<le> VECTOR_MAX"
  shows "\<exists>b'. readiov rv b = Inr (Inr (length bytes), b', w) \<and> buf_inv b' \<and>
              contents b' = contents b @ bytes"
proof (cases rule: readiov_read [OF inv bounded rv, case_names fits more])
  case (more b' d)
  then have "length (contents b') + length d \<le> VECTOR_MAX" using fits by (metis length_append)
  then show ?thesis using append_ok [OF more(2), of d] more by auto
qed auto

lemma readiov_too_long:
  assumes inv: "buf_inv b" and bounded: "readv_bounded rv"
    and rv: "rv (if writebytes b < of_nat IOBUF then [unat (writebytes b), IOBUF]
                 else [unat (writebytes b)]) = (Inr bytes, w)"
    and over: "VECTOR_MAX < length (contents b) + length bytes"
  shows "readiov rv b = Inl Length_error"
proof (cases rule: readiov_read [OF inv bounded rv, case_names fits more])
  case (fits b')
  then show ?thesis using contents_at_most [OF fits(2)] over by simp
next
  case (more b' d)
  then have "VECTOR_MAX < length (contents b') + length d" using over by (metis length_append)
  moreover have "length d \<le> VECTOR_MAX" using more(4) by (simp add: VECTOR_MAX_def)
  ultimately show ?thesis using append_too_long [OF more(2)] more(1) by simp
qed

section \<open>Properties\<close>

text \<open>
  Appending, on every branch: for data no longer than the largest vector, \<^verbatim>\<open>append\<close> adds
  exactly the data behind the readable bytes, keeps the invariant, never writes out of
  bounds, and grows the vector to exactly the bytes in use only when the free space in front
  of and behind them does not suffice; otherwise it throws \<^verbatim>\<open>length_error\<close>.
\<close>

theorem buffer_append_exact:
  assumes "buf_inv b" and "length d \<le> VECTOR_MAX"
  shows "if length (contents b) + length d \<le> VECTOR_MAX
         then \<exists>b'. append d b = Inr b' \<and> buf_inv b' \<and> contents b' = contents b @ d \<and>
                   length (bf_data b') = max (length (bf_data b)) (length (contents b) + length d)
         else append d b = Inl Length_error"
  using append_grows [OF assms(1), of d] append_too_long [OF assms] by auto

theorem buffer_append_exact_witness:
  "\<exists>b'. append [1, 2] new_buffer = Inr b' \<and> buf_inv b' \<and> contents b' = [1, 2] \<and>
        length (bf_data b') = 1024"
  using buffer_append_exact [OF new_buffer_ok(1), of "[1, 2]"] new_buffer_ok(2)
  by (simp add: VECTOR_MAX_def) (simp add: new_buffer_def)

text \<open>
  C26. A buffer is a list of bytes: for any sequence of \<^verbatim>\<open>append\<close>, \<^verbatim>\<open>remove(len)\<close> and \<^verbatim>\<open>remove()\<close> in
  any order, starting from any state of the buffer, that never holds more bytes than a vector can,
  no call fails, every \<^verbatim>\<open>remove(len)\<close> returns exactly the first \<open>len\<close> bytes that wait, or all if
  there are fewer, \<^verbatim>\<open>remove()\<close> returns all, and the rest waits in order; so what was there followed
  by what was put in is what came out followed by what is left.
\<close>

theorem buffer_stream_roundtrip:
  assumes "buf_inv b" and "ops_fit VECTOR_MAX ops (contents b)"
  shows "\<exists>pieces b'. run_ops append remove remove_all ops b = Inr (pieces, b') \<and> buf_inv b' \<and>
           spec_ops ops (contents b) = (pieces, contents b') \<and>
           concat pieces @ contents b' = contents b @ puts ops"
proof -
  have all: "remove_all = (\<lambda>b. remove (readbytes b) b)" by (simp add: remove_all_def fun_eq_iff)
  obtain b' where b': "run_ops append remove remove_all ops b = Inr (fst (spec_ops ops (contents b)), b')" "buf_inv b'"
      "contents b' = snd (spec_ops ops (contents b))"
    using buf.run_ops_ok [OF assms] unfolding all by blast
  moreover have "spec_ops ops (contents b) = (fst (spec_ops ops (contents b)), contents b')" using b'(3) by simp
  ultimately show ?thesis using spec_ops_stream by blast
qed

theorem buffer_stream_roundtrip_witness:
  "\<exists>b'. run_ops append remove remove_all [Put [1, 2, 3], Take 2, Put [4, 5], Take 0, Take 9, Put [6], Take_all] new_buffer =
     Inr ([[1, 2], [], [3, 4, 5], [6]], b') \<and> contents b' = []"
proof -
  have "contents new_buffer = []" by (rule new_buffer_ok)
  then show ?thesis
    using buffer_stream_roundtrip [OF new_buffer_ok(1), of "[Put [1, 2, 3], Take 2, Put [4, 5], Take 0, Take 9, Put [6], Take_all]"]
    by (simp add: VECTOR_MAX_def) metis
qed

text \<open>
  Reading from a descriptor: \<^verbatim>\<open>readiov\<close> appends exactly the bytes \<^verbatim>\<open>readv\<close> delivered, whether
  they fit the free space or spill into the stack array, and returns their number; on an
  error it returns the error number and leaves the buffer as it was.
\<close>

theorem readiov_appends_read:
  assumes "buf_inv b" and "readv_bounded rv"
    and "rv (if writebytes b < of_nat IOBUF then [unat (writebytes b), IOBUF]
             else [unat (writebytes b)]) = (r, w)"
    and "\<forall>bytes. r = Inr bytes \<longrightarrow> length (contents b) + length bytes \<le> VECTOR_MAX"
  shows "case r of
           Inl e \<Rightarrow> readiov rv b = Inr (Inl e, b, w)
         | Inr bytes \<Rightarrow> \<exists>b'. readiov rv b = Inr (Inr (length bytes), b', w) \<and> buf_inv b' \<and>
                             contents b' = contents b @ bytes"
  using assms by (cases r) (simp_all add: readiov_error readiov_ok)

theorem readiov_appends_read_witness:
  "\<exists>b'. readiov (\<lambda>lens. if 3 \<le> sum_list lens then (Inr [5, 6, 7], ()) else (Inl 22, ())) new_buffer =
          Inr (Inr 3, b', ()) \<and> buf_inv b' \<and> contents b' = [5, 6, 7]"
proof -
  let ?rv = "\<lambda>lens. if 3 \<le> sum_list lens then (Inr [5, 6, 7 :: byte], ()) else (Inl 22, ())"
  have b: "readv_bounded ?rv" by (auto simp: readv_bounded_def split: if_splits)
  have u: "unat (writebytes new_buffer) = 1024" by (simp add: writebytes_def new_buffer_def)
  have r: "?rv (if writebytes new_buffer < of_nat IOBUF then [unat (writebytes new_buffer), IOBUF]
      else [unat (writebytes new_buffer)]) = (Inr [5, 6, 7], ())"
    by (simp add: u)
  show ?thesis
    using readiov_appends_read [OF new_buffer_ok(1) b r]
    by (simp add: new_buffer_ok VECTOR_MAX_def numeral_3_eq_3)
qed

end
