(* ===== verification/Eventloop.thy ===== *)
theory Eventloop
  imports Sys
begin

text \<open>
  The reactor: \<^verbatim>\<open>event\<close> (\<^verbatim>\<open>include/moonnet/event.h\<close>, \<^verbatim>\<open>src/event.cpp\<close>) and \<^verbatim>\<open>eventloop\<close>
  (\<^verbatim>\<open>include/moonnet/eventloop.h\<close>, \<^verbatim>\<open>src/eventloop.cpp\<close>), which call each other. Objects live
  in heaps, one per class, so that the use of a deleted object is the fault
  \<open>Dangling_pointer\<close>. A \<^verbatim>\<open>std::function\<close> made with \<^verbatim>\<open>std::bind\<close> is the method and the object it
  binds; a function of the user is a number, with the arguments it is called with. \<open>Dangling_closure\<close> is a lambda that has
  captured by reference the parameters of a function that has returned. What a callback does is the argument \<open>run\<close> of
  the definitions that call one, what \<^verbatim>\<open>delete\<close> does to a \<^verbatim>\<open>base_event\<close> the argument \<open>del\<close>.
  Messages of \<^verbatim>\<open>perror\<close> are not modelled.
\<close>

section \<open>State\<close>

datatype callback =
    Read_eventfd addr
  | Bf_handle_read addr
  | Bf_handle_write addr
  | Bf_handle_event addr
  | Timer_handle_timeout addr
  | Signal_handle_read addr
  | Udp_handle_receive addr
  | Acceptor_handle_accept addr
  | Server_tcp_eventcb addr
  | Server_acceptcb fd
  | User nat
  | User_obj nat addr
  | User_int nat int
  | User_udp nat sockaddr addr
  | Dangling_closure

text \<open>No constructor sets \<^verbatim>\<open>revents_\<close>: \<open>None\<close> is the uninitialised member.\<close>

record event =
  ev_loop :: addr
  ev_fd :: fd
  ev_events :: u32
  ev_revents :: "u32 option"
  ev_readcb :: "callback option"
  ev_writecb :: "callback option"
  ev_eventcb :: "callback option"

text \<open>
  \<^verbatim>\<open>load_\<close> is an atomic 32-bit \<^verbatim>\<open>int\<close> (it wraps). Of the vector that \<^verbatim>\<open>epoll_wait\<close> fills, the
  size is kept; its contents are the list the call returns.
\<close>

record eventloop =
  el_epfd :: fd
  el_eventfd :: fd
  el_timeout :: int
  el_load :: u32
  el_shutdown :: bool
  el_evlist :: "addr list"
  el_nevents :: nat
  el_delque :: "addr list"
  el_baseloop :: addr

text \<open>The heaps, the outside world and the next free address.\<close>

record 'w reactor =
  rt_events :: "addr \<Rightarrow> event option"
  rt_loops :: "addr \<Rightarrow> eventloop option"
  rt_world :: 'w
  rt_next :: addr

abbreviation MAX_EVENTS :: nat where
  "MAX_EVENTS \<equiv> 65536"

section \<open>Access to the heaps\<close>

definition put_event :: "addr \<Rightarrow> event \<Rightarrow> ('w, 'm) reactor_scheme \<Rightarrow> ('w, 'm) reactor_scheme" where
  "put_event p e s = s\<lparr>rt_events := (rt_events s)(p := Some e)\<rparr>"

definition put_loop :: "addr \<Rightarrow> eventloop \<Rightarrow> ('w, 'm) reactor_scheme \<Rightarrow> ('w, 'm) reactor_scheme" where
  "put_loop l L s = s\<lparr>rt_loops := (rt_loops s)(l := Some L)\<rparr>"

definition upd_event ::
  "addr \<Rightarrow> (event \<Rightarrow> event) \<Rightarrow> ('w, 'm) reactor_scheme \<Rightarrow> ('w, 'm) reactor_scheme res" where
  "upd_event p f s = bindR (deref (rt_events s) p) (\<lambda>e. Inr (put_event p (f e) s))"

definition upd_loop ::
  "addr \<Rightarrow> (eventloop \<Rightarrow> eventloop) \<Rightarrow> ('w, 'm) reactor_scheme \<Rightarrow> ('w, 'm) reactor_scheme res" where
  "upd_loop l f s = bindR (deref (rt_loops s) l) (\<lambda>L. Inr (put_loop l (f L) s))"

text \<open>A system call on the state: its result and the state with the new world.\<close>

definition call :: "('w, 'a) syscall \<Rightarrow> ('w, 'm) reactor_scheme \<Rightarrow> (int + 'a) \<times> ('w, 'm) reactor_scheme" where
  "call f s = (case f (rt_world s) of (r, w) \<Rightarrow> (r, s\<lparr>rt_world := w\<rparr>))"

section \<open>eventloop: registration\<close>

definition getload :: "addr \<Rightarrow> ('w, 'm) reactor_scheme \<Rightarrow> int res" where
  "getload l s = bindR (deref (rt_loops s) l) (\<lambda>L. Inr (sint (el_load L)))"

definition add_event ::
  "'w sys \<Rightarrow> addr \<Rightarrow> addr \<Rightarrow> ('w, 'm) reactor_scheme \<Rightarrow> ('w, 'm) reactor_scheme res" where
  "add_event S l p s =
     bindR (deref (rt_loops s) l) (\<lambda>L.
     bindR (deref (rt_events s) p) (\<lambda>e.
       upd_loop l (\<lambda>L. L\<lparr>el_load := el_load L + 1, el_evlist := el_evlist L @ [p]\<rparr>)
         (snd (call (sys_epoll_ctl S (el_epfd L) EPOLL_CTL_ADD (ev_fd e) (Some (ev_events e, p))) s))))"

definition del_event ::
  "'w sys \<Rightarrow> addr \<Rightarrow> addr \<Rightarrow> ('w, 'm) reactor_scheme \<Rightarrow> ('w, 'm) reactor_scheme res" where
  "del_event S l p s =
     bindR (deref (rt_loops s) l) (\<lambda>L.
     bindR (deref (rt_events s) p) (\<lambda>e.
       upd_loop l (\<lambda>L. L\<lparr>el_load := el_load L - 1, el_evlist := removeAll p (el_evlist L)\<rparr>)
         (snd (call (sys_epoll_ctl S (el_epfd L) EPOLL_CTL_DEL (ev_fd e) None) s))))"

definition mod_event ::
  "'w sys \<Rightarrow> addr \<Rightarrow> addr \<Rightarrow> ('w, 'm) reactor_scheme \<Rightarrow> ('w, 'm) reactor_scheme res" where
  "mod_event S l p s =
     bindR (deref (rt_loops s) l) (\<lambda>L.
     bindR (deref (rt_events s) p) (\<lambda>e.
       Inr (snd (call (sys_epoll_ctl S (el_epfd L) EPOLL_CTL_MOD (ev_fd e) (Some (ev_events e, p))) s))))"

definition getallev ::
  "addr \<Rightarrow> addr list \<Rightarrow> ('w, 'm) reactor_scheme \<Rightarrow> (addr list \<times> ('w, 'm) reactor_scheme) res" where
  "getallev l lst s =
     bindR (deref (rt_loops s) l) (\<lambda>L.
     bindR (upd_loop l (\<lambda>L. L\<lparr>el_evlist := lst\<rparr>) s) (\<lambda>s. Inr (el_evlist L, s)))"

definition add_pending_del ::
  "addr \<Rightarrow> addr \<Rightarrow> ('w, 'm) reactor_scheme \<Rightarrow> ('w, 'm) reactor_scheme res" where
  "add_pending_del l p s = upd_loop l (\<lambda>L. L\<lparr>el_delque := el_delque L @ [p]\<rparr>) s"

section \<open>event\<close>

text \<open>\<^verbatim>\<open>new event(base, fd, events)\<close>.\<close>

definition new_event ::
  "addr \<Rightarrow> fd \<Rightarrow> u32 \<Rightarrow> ('w, 'm) reactor_scheme \<Rightarrow> addr \<times> ('w, 'm) reactor_scheme" where
  "new_event base fd events s =
     (rt_next s,
      put_event (rt_next s)
        \<lparr>ev_loop = base, ev_fd = fd, ev_events = events, ev_revents = None,
         ev_readcb = None, ev_writecb = None, ev_eventcb = None\<rparr>
        (s\<lparr>rt_next := Suc (rt_next s)\<rparr>))"

definition delete_event :: "addr \<Rightarrow> ('w, 'm) reactor_scheme \<Rightarrow> ('w, 'm) reactor_scheme res" where
  "delete_event p s =
     (if p = NULL then Inr s
      else bindR (deref (rt_events s) p) (\<lambda>_. Inr (s\<lparr>rt_events := (rt_events s)(p := None)\<rparr>)))"

definition setcb ::
  "addr \<Rightarrow> callback option \<Rightarrow> callback option \<Rightarrow> callback option \<Rightarrow>
   ('w, 'm) reactor_scheme \<Rightarrow> ('w, 'm) reactor_scheme res" where
  "setcb p rcb wcb ecb =
     upd_event p (\<lambda>e. e\<lparr>ev_readcb := rcb, ev_writecb := wcb, ev_eventcb := ecb\<rparr>)"

definition setrcb :: "addr \<Rightarrow> callback option \<Rightarrow> ('w, 'm) reactor_scheme \<Rightarrow> ('w, 'm) reactor_scheme res" where
  "setrcb p rcb = upd_event p (\<lambda>e. e\<lparr>ev_readcb := rcb\<rparr>)"

definition setwcb :: "addr \<Rightarrow> callback option \<Rightarrow> ('w, 'm) reactor_scheme \<Rightarrow> ('w, 'm) reactor_scheme res" where
  "setwcb p wcb = upd_event p (\<lambda>e. e\<lparr>ev_writecb := wcb\<rparr>)"

definition setecb :: "addr \<Rightarrow> callback option \<Rightarrow> ('w, 'm) reactor_scheme \<Rightarrow> ('w, 'm) reactor_scheme res" where
  "setecb p ecb = upd_event p (\<lambda>e. e\<lparr>ev_eventcb := ecb\<rparr>)"

definition disable_cb :: "addr \<Rightarrow> ('w, 'm) reactor_scheme \<Rightarrow> ('w, 'm) reactor_scheme res" where
  "disable_cb p = upd_event p (\<lambda>e. e\<lparr>ev_readcb := None, ev_writecb := None, ev_eventcb := None\<rparr>)"

definition setrevents :: "addr \<Rightarrow> u32 \<Rightarrow> ('w, 'm) reactor_scheme \<Rightarrow> ('w, 'm) reactor_scheme res" where
  "setrevents p m = upd_event p (\<lambda>e. e\<lparr>ev_revents := Some m\<rparr>)"

definition update_ep ::
  "'w sys \<Rightarrow> addr \<Rightarrow> ('w, 'm) reactor_scheme \<Rightarrow> ('w, 'm) reactor_scheme res" where
  "update_ep S p s = bindR (deref (rt_events s) p) (\<lambda>e. mod_event S (ev_loop e) p s)"

definition enable_events ::
  "'w sys \<Rightarrow> addr \<Rightarrow> u32 \<Rightarrow> ('w, 'm) reactor_scheme \<Rightarrow> ('w, 'm) reactor_scheme res" where
  "enable_events S p op s =
     bindR (upd_event p (\<lambda>e. e\<lparr>ev_events := ev_events e OR op\<rparr>) s) (update_ep S p)"

definition disable_events ::
  "'w sys \<Rightarrow> addr \<Rightarrow> u32 \<Rightarrow> ('w, 'm) reactor_scheme \<Rightarrow> ('w, 'm) reactor_scheme res" where
  "disable_events S p op s =
     bindR (upd_event p (\<lambda>e. e\<lparr>ev_events := ev_events e AND NOT op\<rparr>) s) (update_ep S p)"

definition reset_events ::
  "'w sys \<Rightarrow> addr \<Rightarrow> ('w, 'm) reactor_scheme \<Rightarrow> ('w, 'm) reactor_scheme res" where
  "reset_events S p s = bindR (upd_event p (\<lambda>e. e\<lparr>ev_events := 0\<rparr>) s) (update_ep S p)"

definition readable :: "addr \<Rightarrow> ('w, 'm) reactor_scheme \<Rightarrow> bool res" where
  "readable p s = bindR (deref (rt_events s) p) (\<lambda>e. Inr (ev_events e AND EPOLLIN \<noteq> 0))"

definition writeable :: "addr \<Rightarrow> ('w, 'm) reactor_scheme \<Rightarrow> bool res" where
  "writeable p s = bindR (deref (rt_events s) p) (\<lambda>e. Inr (ev_events e AND EPOLLOUT \<noteq> 0))"

definition enable_read where "enable_read S p = enable_events S p EPOLLIN"

definition disable_read where "disable_read S p = disable_events S p EPOLLIN"

definition enable_write where "enable_write S p = enable_events S p EPOLLOUT"

definition disable_write where "disable_write S p = disable_events S p EPOLLOUT"

definition enable_ET where "enable_ET S p = enable_events S p EPOLLET"

definition disable_ET where "disable_ET S p = disable_events S p EPOLLET"

definition del_listen ::
  "'w sys \<Rightarrow> addr \<Rightarrow> ('w, 'm) reactor_scheme \<Rightarrow> ('w, 'm) reactor_scheme res" where
  "del_listen S p s = bindR (deref (rt_events s) p) (\<lambda>e. del_event S (ev_loop e) p s)"

definition enable_listen ::
  "'w sys \<Rightarrow> addr \<Rightarrow> ('w, 'm) reactor_scheme \<Rightarrow> ('w, 'm) reactor_scheme res" where
  "enable_listen S p s = bindR (deref (rt_events s) p) (\<lambda>e. add_event S (ev_loop e) p s)"

text \<open>
  \<^verbatim>\<open>handle_cb\<close>: every test reads \<^verbatim>\<open>revents_\<close> and the callback anew from the object, which the
  callbacks before it may have changed or deleted.
\<close>

definition call_cb ::
  "(callback \<Rightarrow> 's \<Rightarrow> 's res) \<Rightarrow> callback option \<Rightarrow> 's \<Rightarrow> 's res" where
  "call_cb run c s = (case c of None \<Rightarrow> Inr s | Some f \<Rightarrow> run f s)"

definition call_if ::
  "(callback \<Rightarrow> ('w, 'm) reactor_scheme \<Rightarrow> ('w, 'm) reactor_scheme res) \<Rightarrow> (u32 \<Rightarrow> bool) \<Rightarrow>
   (event \<Rightarrow> callback option) \<Rightarrow> addr \<Rightarrow> ('w, 'm) reactor_scheme \<Rightarrow> ('w, 'm) reactor_scheme res" where
  "call_if run test cb p s =
     bindR (deref (rt_events s) p) (\<lambda>e.
       case ev_revents e of
         None \<Rightarrow> Inl Uninitialised
       | Some m \<Rightarrow> if test m then call_cb run (cb e) s else Inr s)"

definition read_mask :: "u32 \<Rightarrow> bool" where
  "read_mask m \<longleftrightarrow> m AND EPOLLIN \<noteq> 0 \<or> m AND EPOLLRDHUP \<noteq> 0 \<or> m AND EPOLLPRI \<noteq> 0"

definition write_mask :: "u32 \<Rightarrow> bool" where
  "write_mask m \<longleftrightarrow> m AND EPOLLOUT \<noteq> 0"

definition error_mask :: "u32 \<Rightarrow> bool" where
  "error_mask m \<longleftrightarrow> m AND (EPOLLERR OR EPOLLHUP) \<noteq> 0"

definition handle_cb ::
  "(callback \<Rightarrow> ('w, 'm) reactor_scheme \<Rightarrow> ('w, 'm) reactor_scheme res) \<Rightarrow> addr \<Rightarrow>
   ('w, 'm) reactor_scheme \<Rightarrow> ('w, 'm) reactor_scheme res" where
  "handle_cb run p s =
     bindR (call_if run read_mask ev_readcb p s) (\<lambda>s.
     bindR (call_if run write_mask ev_writecb p s) (\<lambda>s.
       call_if run error_mask ev_eventcb p s))"

section \<open>eventloop: wake-up and the loop\<close>

text \<open>The eight bytes of the \<^verbatim>\<open>uint64_t\<close> 1 that is written to the eventfd.\<close>

definition eventfd_one :: "byte list" where
  "eventfd_one = [1, 0, 0, 0, 0, 0, 0, 0]"

definition read_eventfd ::
  "'w sys \<Rightarrow> addr \<Rightarrow> ('w, 'm) reactor_scheme \<Rightarrow> ('w, 'm) reactor_scheme res" where
  "read_eventfd S l s =
     bindR (deref (rt_loops s) l) (\<lambda>L.
       case call (sys_read S (el_eventfd L) 8) s of (r, s) \<Rightarrow>
       bindR (upd_loop l (\<lambda>L. L\<lparr>el_shutdown := True\<rparr>) s) (\<lambda>s.
         case r of
           Inl e \<Rightarrow> if e = EINTR \<or> e = EAGAIN then Inr s else Inl (Exit 1)
         | Inr _ \<Rightarrow> Inr s))"

definition write_eventfd ::
  "'w sys \<Rightarrow> addr \<Rightarrow> ('w, 'm) reactor_scheme \<Rightarrow> ('w, 'm) reactor_scheme res" where
  "write_eventfd S l s =
     bindR (deref (rt_loops s) l) (\<lambda>L.
       case call (sys_write S (el_eventfd L) eventfd_one) s of
         (Inl e, s) \<Rightarrow> if e = EINTR then Inr s else Inl (Exit 1)
       | (Inr _, s) \<Rightarrow> Inr s)"

definition loopbreak ::
  "'w sys \<Rightarrow> addr \<Rightarrow> ('w, 'm) reactor_scheme \<Rightarrow> ('w, 'm) reactor_scheme res" where
  "loopbreak S l s =
     bindR (deref (rt_loops s) l) (\<lambda>L. if el_shutdown L then Inr s else write_eventfd S l s)"

definition create_eventfd ::
  "'w sys \<Rightarrow> addr \<Rightarrow> ('w, 'm) reactor_scheme \<Rightarrow> ('w, 'm) reactor_scheme res" where
  "create_eventfd S l s =
     (case call (sys_eventfd S) s of
        (Inl _, s) \<Rightarrow> Inl (Exit 1)
      | (Inr fd, s) \<Rightarrow>
          bindR (upd_loop l (\<lambda>L. L\<lparr>el_eventfd := fd\<rparr>) s) (\<lambda>s.
            case new_event l fd EPOLLIN s of (p, s) \<Rightarrow>
            bindR (setcb p (Some (Read_eventfd l)) None None s) (add_event S l p)))"

text \<open>\<^verbatim>\<open>new eventloop(base, timeout)\<close>. The descriptors hold -1 until they are created.\<close>

definition new_eventloop ::
  "'w sys \<Rightarrow> addr \<Rightarrow> int \<Rightarrow> ('w, 'm) reactor_scheme \<Rightarrow> (addr \<times> ('w, 'm) reactor_scheme) res" where
  "new_eventloop S base timeout s =
     (case call (sys_epoll_create1 S) s of
        (Inl _, s) \<Rightarrow> Inl (Exit 1)
      | (Inr ep, s) \<Rightarrow>
          let l = rt_next s;
              s = put_loop l \<lparr>el_epfd = ep, el_eventfd = -1, el_timeout = timeout, el_load = 0,
                    el_shutdown = False, el_evlist = [], el_nevents = MAX_EVENTS, el_delque = [],
                    el_baseloop = base\<rparr> (s\<lparr>rt_next := Suc l\<rparr>)
          in bindR (create_eventfd S l s) (\<lambda>s. Inr (l, s)))"

text \<open>The \<^verbatim>\<open>for\<close> loop over the events that \<^verbatim>\<open>epoll_wait\<close> reported.\<close>

fun handle_events ::
  "(callback \<Rightarrow> ('w, 'm) reactor_scheme \<Rightarrow> ('w, 'm) reactor_scheme res) \<Rightarrow> epoll_event list \<Rightarrow>
   ('w, 'm) reactor_scheme \<Rightarrow> ('w, 'm) reactor_scheme res" where
  "handle_events run [] s = Inr s"
| "handle_events run ((m, p) # es) s =
     bindR (setrevents p m s) (\<lambda>s. bindR (handle_cb run p s) (handle_events run es))"

text \<open>
  The \<^verbatim>\<open>for\<close> loop over a list of objects to delete. For \<^verbatim>\<open>delque_\<close>, a destructor that appends to
  the vector invalidates the iterator of the loop.
\<close>

fun delete_all ::
  "(addr \<Rightarrow> 's \<Rightarrow> 's res) \<Rightarrow> addr list \<Rightarrow> 's \<Rightarrow> 's res" where
  "delete_all del [] s = Inr s"
| "delete_all del (p # ps) s = bindR (del p s) (delete_all del ps)"

definition del_pending ::
  "(addr \<Rightarrow> ('w, 'm) reactor_scheme \<Rightarrow> ('w, 'm) reactor_scheme res) \<Rightarrow> addr \<Rightarrow> addr \<Rightarrow>
   ('w, 'm) reactor_scheme \<Rightarrow> ('w, 'm) reactor_scheme res" where
  "del_pending del l p s =
     bindR (deref (rt_loops s) l) (\<lambda>L.
     bindR (del p s) (\<lambda>s.
     bindR (deref (rt_loops s) l) (\<lambda>L'.
       if el_delque L' = el_delque L then Inr s else Inl Dangling_pointer)))"

definition flush_delque ::
  "(addr \<Rightarrow> ('w, 'm) reactor_scheme \<Rightarrow> ('w, 'm) reactor_scheme res) \<Rightarrow> addr \<Rightarrow>
   ('w, 'm) reactor_scheme \<Rightarrow> ('w, 'm) reactor_scheme res" where
  "flush_delque del l s =
     bindR (deref (rt_loops s) l) (\<lambda>L.
       if el_delque L = [] then Inr s
       else bindR (delete_all (del_pending del l) (el_delque L) s) (\<lambda>s.
              upd_loop l (\<lambda>L. L\<lparr>el_delque := []\<rparr>) s))"

definition resize_events ::
  "addr \<Rightarrow> nat \<Rightarrow> ('w, 'm) reactor_scheme \<Rightarrow> ('w, 'm) reactor_scheme res" where
  "resize_events l n s =
     upd_loop l (\<lambda>L. if n = el_nevents L then L\<lparr>el_nevents := el_nevents L * 2\<rparr> else L) s"

text \<open>One turn of \<^verbatim>\<open>loop\<close>, from the test of \<^verbatim>\<open>shutdown_\<close>; the flag tells whether it goes on.\<close>

definition loop_turn ::
  "'w sys \<Rightarrow> (callback \<Rightarrow> ('w, 'm) reactor_scheme \<Rightarrow> ('w, 'm) reactor_scheme res) \<Rightarrow>
   (addr \<Rightarrow> ('w, 'm) reactor_scheme \<Rightarrow> ('w, 'm) reactor_scheme res) \<Rightarrow> addr \<Rightarrow>
   ('w, 'm) reactor_scheme \<Rightarrow> (bool \<times> ('w, 'm) reactor_scheme) res" where
  "loop_turn S run del l s =
     bindR (deref (rt_loops s) l) (\<lambda>L.
       if el_shutdown L then Inr (False, s)
       else case call (sys_epoll_wait S (el_epfd L) MAX_EVENTS (el_timeout L)) s of
         (Inl e, s) \<Rightarrow> Inr (e = EINTR, s)
       | (Inr es, s) \<Rightarrow>
           if el_nevents L < length es then Inl Out_of_bounds
           else bindR (handle_events run es s) (\<lambda>s.
                bindR (resize_events l (length es) s) (\<lambda>s.
                bindR (flush_delque del l s) (\<lambda>s. Inr (True, s)))))"

text \<open>\<^verbatim>\<open>loop\<close> itself: \<open>None\<close> is a loop that never returns.\<close>

partial_function (option) loop ::
  "'w sys \<Rightarrow> (callback \<Rightarrow> ('w, 'm) reactor_scheme \<Rightarrow> ('w, 'm) reactor_scheme res) \<Rightarrow>
   (addr \<Rightarrow> ('w, 'm) reactor_scheme \<Rightarrow> ('w, 'm) reactor_scheme res) \<Rightarrow> addr \<Rightarrow>
   ('w, 'm) reactor_scheme \<Rightarrow> ('w, 'm) reactor_scheme res option" where
  "loop S run del l s =
     (case loop_turn S run del l s of
        Inl e \<Rightarrow> Some (Inl e)
      | Inr (go, s') \<Rightarrow> if go then loop S run del l s' else Some (Inr s'))"

text \<open>\<^verbatim>\<open>delete\<close> of an \<^verbatim>\<open>eventloop\<close>: its destructor and the release of the object.\<close>

definition delete_eventloop ::
  "'w sys \<Rightarrow> (addr \<Rightarrow> ('w, 'm) reactor_scheme \<Rightarrow> ('w, 'm) reactor_scheme res) \<Rightarrow> addr \<Rightarrow>
   ('w, 'm) reactor_scheme \<Rightarrow> ('w, 'm) reactor_scheme res" where
  "delete_eventloop S del l s =
     bindR (loopbreak S l s) (\<lambda>s.
     bindR (deref (rt_loops s) l) (\<lambda>L.
     bindR (delete_all delete_event (el_evlist L) s) (\<lambda>s.
     bindR (delete_all (del_pending del l) (el_delque L) s) (\<lambda>s.
     bindR (deref (rt_loops s) l) (\<lambda>L.
       let s = snd (call (sys_close S (el_epfd L)) s);
           s = snd (call (sys_close S (el_eventfd L)) s)
       in Inr (s\<lparr>rt_loops := (rt_loops s)(l := None)\<rparr>))))))"

end
