(* ===== verification/Bfevent.thy ===== *)
theory Bfevent
  imports Buffer Eventloop
begin

text \<open>
  The buffered connection \<^verbatim>\<open>bfevent\<close> (\<^verbatim>\<open>include/moonnet/bfevent.h\<close>, \<^verbatim>\<open>src/bfevent.cpp\<close>): a
  descriptor with its event and an input and an output buffer. A read callback, which gets
  the connection as its argument, is the number of a user function; the other callbacks are
  as in the reactor.
\<close>

section \<open>State\<close>

record bfevent =
  bf_loop :: addr
  bf_fd :: fd
  bf_ev :: addr
  bf_inbuff :: buffer
  bf_outbuff :: buffer
  bf_readcb :: "nat option"
  bf_writecb :: "callback option"
  bf_eventcb :: "callback option"
  bf_closed :: bool

record 'w conns = "'w reactor" +
  rt_bfevents :: "addr \<Rightarrow> bfevent option"

definition put_bf :: "addr \<Rightarrow> bfevent \<Rightarrow> ('w, 'm) conns_scheme \<Rightarrow> ('w, 'm) conns_scheme" where
  "put_bf p b s = s\<lparr>rt_bfevents := (rt_bfevents s)(p := Some b)\<rparr>"

definition upd_bf ::
  "addr \<Rightarrow> (bfevent \<Rightarrow> bfevent) \<Rightarrow> ('w, 'm) conns_scheme \<Rightarrow> ('w, 'm) conns_scheme res" where
  "upd_bf p f s = bindR (deref (rt_bfevents s) p) (\<lambda>b. Inr (put_bf p (f b) s))"

text \<open>An operation of the connection on its event \<^verbatim>\<open>ev_\<close>.\<close>

definition on_ev ::
  "(addr \<Rightarrow> ('w, 'm) conns_scheme \<Rightarrow> 'a res) \<Rightarrow> addr \<Rightarrow> ('w, 'm) conns_scheme \<Rightarrow> 'a res" where
  "on_ev f p s = bindR (deref (rt_bfevents s) p) (\<lambda>b. f (bf_ev b) s)"

section \<open>Construction, callbacks and listening\<close>

text \<open>\<^verbatim>\<open>new bfevent(base, fd, events)\<close>.\<close>

definition new_bfevent ::
  "'w sys \<Rightarrow> addr \<Rightarrow> fd \<Rightarrow> u32 \<Rightarrow> ('w, 'm) conns_scheme \<Rightarrow> (addr \<times> ('w, 'm) conns_scheme) res" where
  "new_bfevent S base fd events s =
     (let p = rt_next s
      in case new_event base fd events (s\<lparr>rt_next := Suc p\<rparr>) of (ev, s) \<Rightarrow>
         let s = put_bf p \<lparr>bf_loop = base, bf_fd = fd, bf_ev = ev, bf_inbuff = new_buffer,
                   bf_outbuff = new_buffer, bf_readcb = None, bf_writecb = None, bf_eventcb = None,
                   bf_closed = False\<rparr> s
         in bindR (setcb ev (Some (Bf_handle_read p)) (Some (Bf_handle_write p))
                     (Some (Bf_handle_event p)) s) (\<lambda>s.
            bindR (enable_listen S ev s) (\<lambda>s. Inr (p, s))))"

definition bf_writeable :: "addr \<Rightarrow> ('w, 'm) conns_scheme \<Rightarrow> bool res" where
  "bf_writeable p s = on_ev writeable p s"

definition bf_update_ep :: "'w sys \<Rightarrow> addr \<Rightarrow> ('w, 'm) conns_scheme \<Rightarrow> ('w, 'm) conns_scheme res" where
  "bf_update_ep S p s =
     bindR (deref (rt_bfevents s) p) (\<lambda>b.
       if bf_closed b then Inr s else update_ep S (bf_ev b) s)"

definition bf_setcb ::
  "'w sys \<Rightarrow> addr \<Rightarrow> nat option \<Rightarrow> callback option \<Rightarrow> callback option \<Rightarrow>
   ('w, 'm) conns_scheme \<Rightarrow> ('w, 'm) conns_scheme res" where
  "bf_setcb S p rcb wcb ecb s =
     bindR (upd_bf p (\<lambda>b. b\<lparr>bf_readcb := rcb, bf_writecb := wcb, bf_eventcb := ecb\<rparr>) s)
       (bf_update_ep S p)"

definition bf_setrcb ::
  "'w sys \<Rightarrow> addr \<Rightarrow> nat option \<Rightarrow> ('w, 'm) conns_scheme \<Rightarrow> ('w, 'm) conns_scheme res" where
  "bf_setrcb S p rcb s = bindR (upd_bf p (\<lambda>b. b\<lparr>bf_readcb := rcb\<rparr>) s) (bf_update_ep S p)"

definition bf_setwcb ::
  "'w sys \<Rightarrow> addr \<Rightarrow> callback option \<Rightarrow> ('w, 'm) conns_scheme \<Rightarrow> ('w, 'm) conns_scheme res" where
  "bf_setwcb S p wcb s = bindR (upd_bf p (\<lambda>b. b\<lparr>bf_writecb := wcb\<rparr>) s) (bf_update_ep S p)"

definition bf_setecb ::
  "'w sys \<Rightarrow> addr \<Rightarrow> callback option \<Rightarrow> ('w, 'm) conns_scheme \<Rightarrow> ('w, 'm) conns_scheme res" where
  "bf_setecb S p ecb s = bindR (upd_bf p (\<lambda>b. b\<lparr>bf_eventcb := ecb\<rparr>) s) (bf_update_ep S p)"

definition bf_disable_cb :: "addr \<Rightarrow> ('w, 'm) conns_scheme \<Rightarrow> ('w, 'm) conns_scheme res" where
  "bf_disable_cb p = upd_bf p (\<lambda>b. b\<lparr>bf_readcb := None, bf_writecb := None, bf_eventcb := None\<rparr>)"

definition bf_enable_events ::
  "'w sys \<Rightarrow> addr \<Rightarrow> u32 \<Rightarrow> ('w, 'm) conns_scheme \<Rightarrow> ('w, 'm) conns_scheme res" where
  "bf_enable_events S p op = on_ev (\<lambda>ev. enable_events S ev op) p"

definition bf_disable_events ::
  "'w sys \<Rightarrow> addr \<Rightarrow> u32 \<Rightarrow> ('w, 'm) conns_scheme \<Rightarrow> ('w, 'm) conns_scheme res" where
  "bf_disable_events S p op = on_ev (\<lambda>ev. disable_events S ev op) p"

text \<open>\<^verbatim>\<open>enable_read\<close>, \<^verbatim>\<open>enable_write\<close>, \<^verbatim>\<open>enable_ET\<close> and their opposites pass the call on to the event.\<close>

definition bf_enable_read where "bf_enable_read S = on_ev (enable_read S)"

definition bf_disable_read where "bf_disable_read S = on_ev (disable_read S)"

definition bf_enable_write where "bf_enable_write S = on_ev (enable_write S)"

definition bf_disable_write where "bf_disable_write S = on_ev (disable_write S)"

definition bf_enable_ET where "bf_enable_ET S = on_ev (enable_ET S)"

definition bf_disable_ET where "bf_disable_ET S = on_ev (disable_ET S)"

text \<open>\<^verbatim>\<open>if(readcb_) readcb_(this)\<close>.\<close>

definition call_readcb ::
  "(callback \<Rightarrow> ('w, 'm) conns_scheme \<Rightarrow> ('w, 'm) conns_scheme res) \<Rightarrow> addr \<Rightarrow>
   ('w, 'm) conns_scheme \<Rightarrow> ('w, 'm) conns_scheme res" where
  "call_readcb run p s =
     bindR (deref (rt_bfevents s) p) (\<lambda>b.
       case bf_readcb b of None \<Rightarrow> Inr s | Some f \<Rightarrow> run (User_obj f p) s)"

definition call_writecb ::
  "(callback \<Rightarrow> ('w, 'm) conns_scheme \<Rightarrow> ('w, 'm) conns_scheme res) \<Rightarrow> addr \<Rightarrow>
   ('w, 'm) conns_scheme \<Rightarrow> ('w, 'm) conns_scheme res" where
  "call_writecb run p s = bindR (deref (rt_bfevents s) p) (\<lambda>b. call_cb run (bf_writecb b) s)"

definition call_eventcb ::
  "(callback \<Rightarrow> ('w, 'm) conns_scheme \<Rightarrow> ('w, 'm) conns_scheme res) \<Rightarrow> addr \<Rightarrow>
   ('w, 'm) conns_scheme \<Rightarrow> ('w, 'm) conns_scheme res" where
  "call_eventcb run p s = bindR (deref (rt_bfevents s) p) (\<lambda>b. call_cb run (bf_eventcb b) s)"

definition bf_del_listen ::
  "'w sys \<Rightarrow> (callback \<Rightarrow> ('w, 'm) conns_scheme \<Rightarrow> ('w, 'm) conns_scheme res) \<Rightarrow> addr \<Rightarrow>
   ('w, 'm) conns_scheme \<Rightarrow> ('w, 'm) conns_scheme res" where
  "bf_del_listen S run p s =
     bindR (deref (rt_bfevents s) p) (\<lambda>b.
     bindR (if readbytes (bf_inbuff b) > 0 then call_readcb run p s else Inr s) (\<lambda>s.
     bindR (deref (rt_bfevents s) p) (\<lambda>b.
     bindR (if readbytes (bf_outbuff b) > 0
            then bindR (on_ev writeable p s) (\<lambda>wr. if wr then Inr s else on_ev (enable_write S) p s)
            else Inr s) (\<lambda>s.
     bindR (deref (rt_bfevents s) p) (\<lambda>b.
     bindR (if readbytes (bf_outbuff b) = 0 then on_ev (disable_write S) p s else Inr s) (\<lambda>s.
     bindR (on_ev (del_listen S) p s) (\<lambda>s.
       upd_bf p (\<lambda>b. b\<lparr>bf_closed := True\<rparr>) s)))))))"

definition bf_enable_listen :: "'w sys \<Rightarrow> addr \<Rightarrow> ('w, 'm) conns_scheme \<Rightarrow> ('w, 'm) conns_scheme res" where
  "bf_enable_listen S p s =
     bindR (deref (rt_bfevents s) p) (\<lambda>b.
       if \<not> bf_closed b then Inr s
       else bindR (on_ev (enable_listen S) p s) (\<lambda>s. upd_bf p (\<lambda>b. b\<lparr>bf_closed := False\<rparr>) s))"

definition close_event ::
  "'w sys \<Rightarrow> (callback \<Rightarrow> ('w, 'm) conns_scheme \<Rightarrow> ('w, 'm) conns_scheme res) \<Rightarrow> addr \<Rightarrow>
   ('w, 'm) conns_scheme \<Rightarrow> ('w, 'm) conns_scheme res" where
  "close_event S run p s =
     bindR (deref (rt_bfevents s) p) (\<lambda>b.
       if bf_closed b then Inr s
       else bindR (bf_del_listen S run p s) (\<lambda>s.
            bindR (deref (rt_bfevents s) p) (\<lambda>b.
              upd_bf p (\<lambda>b. b\<lparr>bf_closed := True\<rparr>) (snd (call (sys_close S (bf_fd b)) s)))))"

text \<open>\<^verbatim>\<open>delete\<close> of a connection: its destructor and the release of the object.\<close>

definition delete_bfevent ::
  "'w sys \<Rightarrow> (callback \<Rightarrow> ('w, 'm) conns_scheme \<Rightarrow> ('w, 'm) conns_scheme res) \<Rightarrow> addr \<Rightarrow>
   ('w, 'm) conns_scheme \<Rightarrow> ('w, 'm) conns_scheme res" where
  "delete_bfevent S run p s =
     bindR (close_event S run p s) (\<lambda>s.
     bindR (deref (rt_bfevents s) p) (\<lambda>b.
     bindR (delete_event (bf_ev b) s) (\<lambda>s.
       Inr (s\<lparr>rt_bfevents := (rt_bfevents s)(p := None)\<rparr>))))"

section \<open>Reading and writing\<close>

text \<open>One turn of the \<^verbatim>\<open>while (true)\<close> loop of \<^verbatim>\<open>handle_read\<close>; the flag tells whether it goes on.\<close>

definition handle_read_turn ::
  "'w sys \<Rightarrow> (callback \<Rightarrow> ('w, 'm) conns_scheme \<Rightarrow> ('w, 'm) conns_scheme res) \<Rightarrow> addr \<Rightarrow>
   ('w, 'm) conns_scheme \<Rightarrow> (bool \<times> ('w, 'm) conns_scheme) res" where
  "handle_read_turn S run p s =
     bindR (deref (rt_bfevents s) p) (\<lambda>b.
     bindR (readiov (\<lambda>lens. sys_readv S (bf_fd b) lens (rt_world s)) (bf_inbuff b)) (\<lambda>(r, ib, w).
       let s = put_bf p (b\<lparr>bf_inbuff := ib\<rparr>) (s\<lparr>rt_world := w\<rparr>)
       in case r of
            Inr n \<Rightarrow>
              if n > 0 then bindR (call_readcb run p s) (\<lambda>s. Inr (True, s))
              else bindR (call_eventcb run p s) (\<lambda>s. Inr (False, s))
          | Inl e \<Rightarrow>
              if e = EAGAIN \<or> e = EWOULDBLOCK then Inr (False, s)
              else bindR (call_eventcb run p s) (\<lambda>s. Inr (False, s))))"

definition handle_read ::
  "'w sys \<Rightarrow> (callback \<Rightarrow> ('w, 'm) conns_scheme \<Rightarrow> ('w, 'm) conns_scheme res) \<Rightarrow> addr \<Rightarrow>
   ('w, 'm) conns_scheme \<Rightarrow> ('w, 'm) conns_scheme res option" where
  "handle_read S run p = repeat_turn (handle_read_turn S run p)"

text \<open>One turn of the loop of \<^verbatim>\<open>handle_write\<close>, from its condition. A write of 0 bytes goes on.\<close>

definition handle_write_turn ::
  "'w sys \<Rightarrow> (callback \<Rightarrow> ('w, 'm) conns_scheme \<Rightarrow> ('w, 'm) conns_scheme res) \<Rightarrow> addr \<Rightarrow>
   ('w, 'm) conns_scheme \<Rightarrow> (bool \<times> ('w, 'm) conns_scheme) res" where
  "handle_write_turn S run p s =
     bindR (deref (rt_bfevents s) p) (\<lambda>b.
       if readbytes (bf_outbuff b) = 0 then Inr (False, s)
       else bindR (peek (readbytes (bf_outbuff b)) (bf_outbuff b)) (\<lambda>data.
         case call (sys_write S (bf_fd b) data) s of
           (Inr n, s) \<Rightarrow>
             if n > 0
             then bindR (upd_bf p (\<lambda>b. b\<lparr>bf_outbuff := retrieve (of_nat n) (bf_outbuff b)\<rparr>) s) (\<lambda>s.
                  bindR (call_writecb run p s) (\<lambda>s. Inr (True, s)))
             else Inr (True, s)
         | (Inl e, s) \<Rightarrow>
             if e = EAGAIN \<or> e = EWOULDBLOCK then Inr (False, s)
             else bindR (call_eventcb run p s) (\<lambda>s. Inr (False, s))))"

definition handle_write ::
  "'w sys \<Rightarrow> (callback \<Rightarrow> ('w, 'm) conns_scheme \<Rightarrow> ('w, 'm) conns_scheme res) \<Rightarrow> addr \<Rightarrow>
   ('w, 'm) conns_scheme \<Rightarrow> ('w, 'm) conns_scheme res option" where
  "handle_write S run p s =
     (case repeat_turn (handle_write_turn S run p) s of
        None \<Rightarrow> None
      | Some r \<Rightarrow> Some (bindR r (\<lambda>s.
          bindR (deref (rt_bfevents s) p) (\<lambda>b.
            if readbytes (bf_outbuff b) = 0 then on_ev (disable_write S) p s else Inr s))))"

definition handle_event ::
  "(callback \<Rightarrow> ('w, 'm) conns_scheme \<Rightarrow> ('w, 'm) conns_scheme res) \<Rightarrow> addr \<Rightarrow>
   ('w, 'm) conns_scheme \<Rightarrow> ('w, 'm) conns_scheme res" where
  "handle_event run p s = call_eventcb run p s"

text \<open>
  \<^verbatim>\<open>sendout(data, len)\<close>. After a direct write that would have blocked, \<^verbatim>\<open>n\<close> is -1 and the second
  vector starts one byte in front of the data. If \<^verbatim>\<open>data\<close> is the start of an array, there is
  nothing there and the fault is \<open>Underrun\<close>: \<open>before\<close> is \<open>None\<close>. If the caller passes a pointer
  into an array, \<open>before\<close> is the byte in front of it. \<open>src\<close> is what the pointer \<^verbatim>\<open>data + n\<close> points
  to. The outcome of the first part is \<open>None\<close> when the
  function has returned, otherwise \<^verbatim>\<open>n = -1\<close> and \<^verbatim>\<open>relen\<close>.
\<close>

definition sendout_direct ::
  "'w sys \<Rightarrow> (callback \<Rightarrow> ('w, 'm) conns_scheme \<Rightarrow> ('w, 'm) conns_scheme res) \<Rightarrow> byte list \<Rightarrow> addr \<Rightarrow>
   ('w, 'm) conns_scheme \<Rightarrow> ((bool \<times> nat) option \<times> ('w, 'm) conns_scheme) res" where
  "sendout_direct S run data p s =
     bindR (bf_writeable p s) (\<lambda>wr.
     bindR (deref (rt_bfevents s) p) (\<lambda>b.
       if \<not> wr \<and> readbytes (bf_outbuff b) = 0
       then case call (sys_write S (bf_fd b) data) s of
              (Inr n, s) \<Rightarrow>
                (case bf_writecb b of
                   None \<Rightarrow> Inr (Some (False, 0), s)
                 | Some c \<Rightarrow> bindR (run c s) (\<lambda>s. Inr (None, s)))
            | (Inl e, s) \<Rightarrow>
                if e \<noteq> EAGAIN \<and> e \<noteq> EWOULDBLOCK then Inr (None, s)
                else Inr (Some (True, length data), s)
       else Inr (Some (False, length data), s)))"

definition sendout_vec ::
  "'w sys \<Rightarrow> (callback \<Rightarrow> ('w, 'm) conns_scheme \<Rightarrow> ('w, 'm) conns_scheme res) \<Rightarrow> byte option \<Rightarrow> byte list \<Rightarrow>
   bool \<Rightarrow> nat \<Rightarrow> addr \<Rightarrow> ('w, 'm) conns_scheme \<Rightarrow> (byte list option \<times> ('w, 'm) conns_scheme) res" where
  "sendout_vec S run before data blocked relen p s =
     bindR (if blocked then case before of None \<Rightarrow> Inl Underrun | Some c \<Rightarrow> Inr (c # data) else Inr data) (\<lambda>src.
         bindR (deref (rt_bfevents s) p) (\<lambda>b.
         let wbytes = readbytes (bf_outbuff b)
         in bindR (peek wbytes (bf_outbuff b)) (\<lambda>out.
            case call (sys_writev S (bf_fd b) [out, take relen src]) s of
              (Inr wvn, s) \<Rightarrow>
                if wvn < unat wbytes + relen
                then if wvn < unat wbytes
                     then bindR (upd_bf p (\<lambda>b. b\<lparr>bf_outbuff := retrieve (of_nat wvn) (bf_outbuff b)\<rparr>) s)
                            (\<lambda>s. Inr (Some (take relen data), s))
                     else bindR (upd_bf p (\<lambda>b. b\<lparr>bf_outbuff := reset (bf_outbuff b)\<rparr>) s)
                            (\<lambda>s. let diff = wvn - unat wbytes
                                 in Inr (Some (take (relen - diff) (drop diff src)), s))
                else bindR (upd_bf p (\<lambda>b. b\<lparr>bf_outbuff := reset (bf_outbuff b)\<rparr>) s) (\<lambda>s.
                     bindR (call_writecb run p s) (\<lambda>s. Inr (None, s)))
            | (Inl e, s) \<Rightarrow>
                if e \<noteq> EAGAIN \<and> e \<noteq> EWOULDBLOCK then Inr (None, s)
                else Inr (Some (take relen data), s))))"

definition sendout ::
  "'w sys \<Rightarrow> (callback \<Rightarrow> ('w, 'm) conns_scheme \<Rightarrow> ('w, 'm) conns_scheme res) \<Rightarrow> byte option \<Rightarrow> byte list \<Rightarrow>
   addr \<Rightarrow> ('w, 'm) conns_scheme \<Rightarrow> ('w, 'm) conns_scheme res" where
  "sendout S run before data p s =
     bindR (sendout_direct S run data p s) (\<lambda>(r, s).
       case r of
         None \<Rightarrow> Inr s
       | Some (blocked, relen) \<Rightarrow>
           bindR (if relen > 0 then sendout_vec S run before data blocked relen p s
                  else Inr (Some [], s)) (\<lambda>(rest, s).
             case rest of
               None \<Rightarrow> Inr s
             | Some rest \<Rightarrow>
                 if rest = [] then Inr s
                 else bindR (deref (rt_bfevents s) p) (\<lambda>b.
                      bindR (append rest (bf_outbuff b)) (\<lambda>ob.
                      let s = put_bf p (b\<lparr>bf_outbuff := ob\<rparr>) s
                      in bindR (bf_writeable p s) (\<lambda>wr.
                           if wr then Inr s else on_ev (enable_write S) p s)))))"

text \<open>\<^verbatim>\<open>sendout(const std::string&)\<close>: the data are the array of the string from its start.\<close>

definition sendout_string ::
  "'w sys \<Rightarrow> (callback \<Rightarrow> ('w, 'm) conns_scheme \<Rightarrow> ('w, 'm) conns_scheme res) \<Rightarrow> byte list \<Rightarrow>
   addr \<Rightarrow> ('w, 'm) conns_scheme \<Rightarrow> ('w, 'm) conns_scheme res" where
  [simp]: "sendout_string S run data p s = sendout S run None data p s"

definition receive_to ::
  "byte list \<Rightarrow> size_t \<Rightarrow> addr \<Rightarrow> ('w, 'm) conns_scheme \<Rightarrow> (size_t \<times> byte list \<times> ('w, 'm) conns_scheme) res" where
  "receive_to data len p s =
     bindR (deref (rt_bfevents s) p) (\<lambda>b.
     bindR (remove_to data len (bf_inbuff b)) (\<lambda>(n, data, ib).
       Inr (n, data, put_bf p (b\<lparr>bf_inbuff := ib\<rparr>) s)))"

definition receive ::
  "size_t \<Rightarrow> addr \<Rightarrow> ('w, 'm) conns_scheme \<Rightarrow> (byte list \<times> ('w, 'm) conns_scheme) res" where
  "receive len p s =
     bindR (deref (rt_bfevents s) p) (\<lambda>b.
     bindR (remove len (bf_inbuff b)) (\<lambda>(d, ib). Inr (d, put_bf p (b\<lparr>bf_inbuff := ib\<rparr>) s)))"

definition receive_all ::
  "addr \<Rightarrow> ('w, 'm) conns_scheme \<Rightarrow> (byte list \<times> ('w, 'm) conns_scheme) res" where
  "receive_all p s =
     bindR (deref (rt_bfevents s) p) (\<lambda>b. receive (readbytes (bf_inbuff b)) p s)"

end
