(* ===== verification/Timerevent.thy ===== *)
theory Timerevent
  imports Bfevent "HOL-Library.Signed_Division"
begin

text \<open>
  The timer \<^verbatim>\<open>timerevent\<close> (\<^verbatim>\<open>include/moonnet/timerevent.h\<close>, \<^verbatim>\<open>src/timerevent.cpp\<close>): a timerfd with an
  event and a callback.
\<close>

section \<open>State\<close>

record timerevent =
  tm_loop :: addr
  tm_ev :: addr
  tm_fd :: fd
  tm_timeout_ms :: int
  tm_periodic :: bool
  tm_cb :: "callback option"

record 'w timers = "'w conns" +
  rt_timerevents :: "addr \<Rightarrow> timerevent option"

definition upd_timer ::
  "addr \<Rightarrow> (timerevent \<Rightarrow> timerevent) \<Rightarrow> ('w, 'm) timers_scheme \<Rightarrow> ('w, 'm) timers_scheme res" where
  "upd_timer p f s =
     bindR (deref (rt_timerevents s) p) (\<lambda>t.
       Inr (s\<lparr>rt_timerevents := (rt_timerevents s)(p := Some (f t))\<rparr>))"

text \<open>\<^verbatim>\<open>if (ev_) ev_->f()\<close>.\<close>

definition tm_on_ev ::
  "(addr \<Rightarrow> ('w, 'm) timers_scheme \<Rightarrow> ('w, 'm) timers_scheme res) \<Rightarrow> addr \<Rightarrow>
   ('w, 'm) timers_scheme \<Rightarrow> ('w, 'm) timers_scheme res" where
  "tm_on_ev f p s =
     bindR (deref (rt_timerevents s) p) (\<lambda>t. if tm_ev t \<noteq> NULL then f (tm_ev t) s else Inr s)"

section \<open>Operations\<close>

text \<open>
  The \<^verbatim>\<open>itimerspec\<close> of a timer: the first expiration and the interval, each in seconds and
  nanoseconds. The division of C rounds towards 0.
\<close>

definition timer_spec :: "int \<Rightarrow> bool \<Rightarrow> timespec \<times> timespec" where
  "timer_spec timeout_ms periodic =
     (let t = (timeout_ms sdiv 1000, (timeout_ms smod 1000) * 1000000)
      in (t, if periodic then t else (0, 0)))"

text \<open>
  \<^verbatim>\<open>_init_\<close> on the object at \<open>p\<close>. A failing call ends the program.
\<close>

definition tm_init :: "'w sys \<Rightarrow> addr \<Rightarrow> ('w, 'm) timers_scheme \<Rightarrow> ('w, 'm) timers_scheme res" where
  "tm_init S p s =
     (case call (sys_timerfd_create S) s of
        (Inl _, s) \<Rightarrow> Inl (Exit 1)
      | (Inr fd, s) \<Rightarrow>
          bindR (deref (rt_timerevents s) p) (\<lambda>t.
            case call (sys_timerfd_settime S fd (timer_spec (tm_timeout_ms t) (tm_periodic t))) s of
              (Inl _, s) \<Rightarrow> Inl (Exit 1)
            | (Inr _, s) \<Rightarrow>
                (case new_event (tm_loop t) fd EPOLLIN s of (ev, s) \<Rightarrow>
                   bindR (upd_timer p (\<lambda>t. t\<lparr>tm_fd := fd, tm_ev := ev\<rparr>) s) (\<lambda>s.
                     setcb ev (Some (Timer_handle_timeout p)) None None s))))"

text \<open>
  \<^verbatim>\<open>new timerevent(base, timeout_ms, periodic)\<close>. The members that \<^verbatim>\<open>_init_\<close> sets hold 0 and -1
  before.
\<close>

definition new_timerevent ::
  "'w sys \<Rightarrow> addr \<Rightarrow> int \<Rightarrow> bool \<Rightarrow> ('w, 'm) timers_scheme \<Rightarrow> (addr \<times> ('w, 'm) timers_scheme) res" where
  "new_timerevent S base timeout_ms periodic s =
     (let p = rt_next s;
          s = s\<lparr>rt_next := Suc p, rt_timerevents := (rt_timerevents s)(p \<mapsto>
                 \<lparr>tm_loop = base, tm_ev = NULL, tm_fd = -1, tm_timeout_ms = timeout_ms,
                  tm_periodic = periodic, tm_cb = None\<rparr>)\<rparr>
      in bindR (tm_init S p s) (\<lambda>s. Inr (p, s)))"

definition delete_timerevent :: "'w sys \<Rightarrow> addr \<Rightarrow> ('w, 'm) timers_scheme \<Rightarrow> ('w, 'm) timers_scheme res" where
  "delete_timerevent S p s =
     bindR (deref (rt_timerevents s) p) (\<lambda>t.
     bindR (if tm_ev t \<noteq> NULL then delete_event (tm_ev t) s else Inr s) (\<lambda>s.
       let s = (if tm_fd t \<noteq> -1 then snd (call (sys_close S (tm_fd t)) s) else s)
       in Inr (s\<lparr>rt_timerevents := (rt_timerevents s)(p := None)\<rparr>)))"

definition tm_setcb :: "addr \<Rightarrow> callback option \<Rightarrow> ('w, 'm) timers_scheme \<Rightarrow> ('w, 'm) timers_scheme res" where
  "tm_setcb p cb = upd_timer p (\<lambda>t. t\<lparr>tm_cb := cb\<rparr>)"

definition tm_disable_cb :: "addr \<Rightarrow> ('w, 'm) timers_scheme \<Rightarrow> ('w, 'm) timers_scheme res" where
  "tm_disable_cb p = upd_timer p (\<lambda>t. t\<lparr>tm_cb := None\<rparr>)"

definition tm_enable_listen :: "'w sys \<Rightarrow> addr \<Rightarrow> ('w, 'm) timers_scheme \<Rightarrow> ('w, 'm) timers_scheme res" where
  "tm_enable_listen S p = tm_on_ev (enable_listen S) p"

definition tm_del_listen :: "'w sys \<Rightarrow> addr \<Rightarrow> ('w, 'm) timers_scheme \<Rightarrow> ('w, 'm) timers_scheme res" where
  "tm_del_listen S p = tm_on_ev (del_listen S) p"

definition tm_update_ep :: "'w sys \<Rightarrow> addr \<Rightarrow> ('w, 'm) timers_scheme \<Rightarrow> ('w, 'm) timers_scheme res" where
  "tm_update_ep S p = tm_on_ev (update_ep S) p"

definition tm_close :: "'w sys \<Rightarrow> addr \<Rightarrow> ('w, 'm) timers_scheme \<Rightarrow> ('w, 'm) timers_scheme res" where
  "tm_close S p = tm_del_listen S p"

definition handle_timeout ::
  "'w sys \<Rightarrow> (callback \<Rightarrow> ('w, 'm) timers_scheme \<Rightarrow> ('w, 'm) timers_scheme res) \<Rightarrow> addr \<Rightarrow>
   ('w, 'm) timers_scheme \<Rightarrow> ('w, 'm) timers_scheme res" where
  "handle_timeout S run p s =
     bindR (deref (rt_timerevents s) p) (\<lambda>t.
       case call (sys_read S (tm_fd t) 8) s of
         (Inl _, s) \<Rightarrow> Inr s
       | (Inr bs, s) \<Rightarrow> if length bs \<noteq> 8 then Inr s else call_cb run (tm_cb t) s)"

end
