(* ===== verification/Signalevent.thy ===== *)
theory Signalevent
  imports Timerevent Wrap
begin

text \<open>
  Signals as events, \<^verbatim>\<open>signalevent\<close> (\<^verbatim>\<open>include/moonnet/signalevent.h\<close>, \<^verbatim>\<open>src/signalevent.cpp\<close>): the
  handler of the signals writes their numbers into a pipe, whose read end is watched by a loop.
\<close>

section \<open>State\<close>

text \<open>The callback gets the number of the signal.\<close>

record signalevent =
  sg_loop :: addr
  sg_rfd :: fd
  sg_wfd :: fd
  sg_ev :: addr
  sg_cb :: "nat option"

text \<open>\<open>rt_sigev\<close> is the static member \<^verbatim>\<open>sigev_\<close>.\<close>

record 'w signals = "'w timers" +
  rt_signalevents :: "addr \<Rightarrow> signalevent option"
  rt_sigev :: addr

definition upd_signal ::
  "addr \<Rightarrow> (signalevent \<Rightarrow> signalevent) \<Rightarrow> ('w, 'm) signals_scheme \<Rightarrow> ('w, 'm) signals_scheme res" where
  "upd_signal p f s =
     bindR (deref (rt_signalevents s) p) (\<lambda>g.
       Inr (s\<lparr>rt_signalevents := (rt_signalevents s)(p := Some (f g))\<rparr>))"

definition sg_on_ev ::
  "(addr \<Rightarrow> ('w, 'm) signals_scheme \<Rightarrow> ('w, 'm) signals_scheme res) \<Rightarrow> addr \<Rightarrow>
   ('w, 'm) signals_scheme \<Rightarrow> ('w, 'm) signals_scheme res" where
  "sg_on_ev f p s =
     bindR (deref (rt_signalevents s) p) (\<lambda>g. if sg_ev g \<noteq> NULL then f (sg_ev g) s else Inr s)"

text \<open>A wrapper on the state of the outside world.\<close>

definition via_world :: "('w \<Rightarrow> 'w res) \<Rightarrow> ('w, 'm) reactor_scheme \<Rightarrow> ('w, 'm) reactor_scheme res" where
  "via_world f s = bindR (f (rt_world s)) (\<lambda>w. Inr (s\<lparr>rt_world := w\<rparr>))"

section \<open>Operations\<close>

text \<open>\<^verbatim>\<open>new signalevent(base)\<close>.\<close>

definition new_signalevent ::
  "'w sys \<Rightarrow> addr \<Rightarrow> ('w, 'm) signals_scheme \<Rightarrow> (addr \<times> ('w, 'm) signals_scheme) res" where
  "new_signalevent S base s =
     (let p = rt_next s; s = s\<lparr>rt_next := Suc p\<rparr>
      in case call (sys_pipe S) s of
           (Inl _, s) \<Rightarrow> Inl (Exit 1)
         | (Inr (rfd, wfd), s) \<Rightarrow>
             let s = s\<lparr>rt_world := setnonblock S wfd (setnonblock S rfd (rt_world s))\<rparr>
             in case new_event base rfd EPOLLIN s of (ev, s) \<Rightarrow>
                let s = s\<lparr>rt_signalevents := (rt_signalevents s)(p \<mapsto>
                       \<lparr>sg_loop = base, sg_rfd = rfd, sg_wfd = wfd, sg_ev = ev, sg_cb = None\<rparr>)\<rparr>
                in bindR (setcb ev (Some (Signal_handle_read p)) None None s) (\<lambda>s.
                     Inr (p, s\<lparr>rt_sigev := p\<rparr>)))"

definition delete_signalevent :: "'w sys \<Rightarrow> addr \<Rightarrow> ('w, 'm) signals_scheme \<Rightarrow> ('w, 'm) signals_scheme res" where
  "delete_signalevent S p s =
     bindR (deref (rt_signalevents s) p) (\<lambda>g.
     bindR (if sg_ev g \<noteq> NULL then delete_event (sg_ev g) s else Inr s) (\<lambda>s.
       let s = snd (call (sys_close S (sg_rfd g)) s);
           s = snd (call (sys_close S (sg_wfd g)) s)
       in Inr (s\<lparr>rt_sigev := NULL, rt_signalevents := (rt_signalevents s)(p := None)\<rparr>)))"

definition add_signal :: "'w sys \<Rightarrow> int \<Rightarrow> ('w, 'm) signals_scheme \<Rightarrow> ('w, 'm) signals_scheme res" where
  "add_signal S signo s =
     (case call (sys_sigaction S signo) s of (Inl _, s) \<Rightarrow> Inl (Exit 1) | (Inr _, s) \<Rightarrow> Inr s)"

fun add_signals :: "'w sys \<Rightarrow> int list \<Rightarrow> ('w, 'm) signals_scheme \<Rightarrow> ('w, 'm) signals_scheme res" where
  "add_signals S [] s = Inr s"
| "add_signals S (sig # sigs) s = bindR (add_signal S sig s) (add_signals S sigs)"

definition sg_setcb :: "addr \<Rightarrow> nat option \<Rightarrow> ('w, 'm) signals_scheme \<Rightarrow> ('w, 'm) signals_scheme res" where
  "sg_setcb p cb = upd_signal p (\<lambda>g. g\<lparr>sg_cb := cb\<rparr>)"

definition sg_disable_cb :: "addr \<Rightarrow> ('w, 'm) signals_scheme \<Rightarrow> ('w, 'm) signals_scheme res" where
  "sg_disable_cb p = upd_signal p (\<lambda>g. g\<lparr>sg_cb := None\<rparr>)"

definition sg_enable_listen :: "'w sys \<Rightarrow> addr \<Rightarrow> ('w, 'm) signals_scheme \<Rightarrow> ('w, 'm) signals_scheme res" where
  "sg_enable_listen S p = sg_on_ev (enable_listen S) p"

definition sg_del_listen :: "'w sys \<Rightarrow> addr \<Rightarrow> ('w, 'm) signals_scheme \<Rightarrow> ('w, 'm) signals_scheme res" where
  "sg_del_listen S p = sg_on_ev (del_listen S) p"

definition sg_update_ep :: "'w sys \<Rightarrow> addr \<Rightarrow> ('w, 'm) signals_scheme \<Rightarrow> ('w, 'm) signals_scheme res" where
  "sg_update_ep S p = sg_on_ev (update_ep S) p"

definition sg_close :: "'w sys \<Rightarrow> addr \<Rightarrow> ('w, 'm) signals_scheme \<Rightarrow> ('w, 'm) signals_scheme res" where
  "sg_close S p = sg_del_listen S p"

text \<open>
  \<^verbatim>\<open>handle_signal\<close>, the handler of the signals: one byte goes into the pipe of the last object
  made; the result of the write is ignored.
\<close>

definition handle_signal :: "'w sys \<Rightarrow> int \<Rightarrow> ('w, 'm) signals_scheme \<Rightarrow> ('w, 'm) signals_scheme res" where
  "handle_signal S signo s =
     (if rt_sigev s = NULL then Inr s
      else bindR (deref (rt_signalevents s) (rt_sigev s)) (\<lambda>g.
             Inr (snd (call (sys_write S (sg_wfd g) [of_int signo]) s))))"

text \<open>\<^verbatim>\<open>handle_read\<close>: the loop over the bytes read, which looks at \<^verbatim>\<open>cb_\<close> anew for every one.\<close>

fun call_signals ::
  "(callback \<Rightarrow> ('w, 'm) signals_scheme \<Rightarrow> ('w, 'm) signals_scheme res) \<Rightarrow> addr \<Rightarrow> byte list \<Rightarrow>
   ('w, 'm) signals_scheme \<Rightarrow> ('w, 'm) signals_scheme res" where
  "call_signals run p [] s = Inr s"
| "call_signals run p (b # bs) s =
     bindR (deref (rt_signalevents s) p) (\<lambda>g.
     bindR (case sg_cb g of None \<Rightarrow> Inr s | Some f \<Rightarrow> run (User_int f (uint b)) s)
       (call_signals run p bs))"

definition sg_handle_read ::
  "'w sys \<Rightarrow> (callback \<Rightarrow> ('w, 'm) signals_scheme \<Rightarrow> ('w, 'm) signals_scheme res) \<Rightarrow> addr \<Rightarrow>
   ('w, 'm) signals_scheme \<Rightarrow> ('w, 'm) signals_scheme res" where
  "sg_handle_read S run p s =
     bindR (deref (rt_signalevents s) p) (\<lambda>g.
       case call (sys_read S (sg_rfd g) 1024) s of
         (Inl _, s) \<Rightarrow> Inr s
       | (Inr bs, s) \<Rightarrow> call_signals run p bs s)"

end
