(* ===== verification/Signalevent_Laws.thy ===== *)
theory Signalevent_Laws
  imports Signalevent Sample_Kernel
begin

text \<open>
  The laws of timers and signals: the conversion of timeouts, what the deletion of a timer leaves
  behind, and the way of the signals through the pipe.
\<close>

section \<open>Deleting timers\<close>

text \<open>A deleted event in the list of a loop makes the destructor of the loop fault.\<close>

lemma delete_all_dangling:
  assumes "ev \<in> set ps" "ev \<noteq> NULL" "rt_events s ev = None"
  shows "delete_all delete_event ps s = Inl Dangling_pointer"
  using assms
proof (induction ps arbitrary: s)
  case (Cons q qs)
  show ?case
  proof (cases "q = NULL \<or> rt_events s q \<noteq> None")
    case True
    let ?s = "if q = NULL then s else s\<lparr>rt_events := (rt_events s)(q := None)\<rparr>"
    have "delete_event q s = Inr ?s" using True by (auto simp: delete_event_def deref_def)
    moreover have "rt_events ?s ev = None" using Cons.prems(3) by simp
    moreover have "ev \<in> set qs" using True Cons.prems by auto
    ultimately show ?thesis using Cons.IH [of ?s] Cons.prems(2) by simp
  next
    case False
    then show ?thesis by (simp add: delete_event_def deref_def)
  qed
qed simp

lemma delete_timer_frame:
  assumes "p \<noteq> NULL" "rt_timerevents s p = Some t" "tm_ev t \<noteq> NULL" "rt_events s (tm_ev t) = Some e"
  shows "\<exists>s'. delete_timerevent S p s = Inr s' \<and> rt_events s' = (rt_events s)(tm_ev t := None) \<and>
    rt_loops s' = rt_loops s \<and> rt_timerevents s' = (rt_timerevents s)(p := None)"
  using assms by (auto simp: delete_timerevent_def delete_event_def Let_def call_def split: prod.splits)

section \<open>Signals\<close>

fun raise_signals :: "'w sys \<Rightarrow> int list \<Rightarrow> ('w, 'm) signals_scheme \<Rightarrow> ('w, 'm) signals_scheme res" where
  "raise_signals S [] s = Inr s"
| "raise_signals S (n # ns) s = bindR (handle_signal S n s) (raise_signals S ns)"

text \<open>
  The application: \<open>got s\<close> are the numbers that its callback \<open>f\<close> has been given.
\<close>

definition signal_client ::
  "(('w, 'm) signals_scheme \<Rightarrow> int list) \<Rightarrow>
   (callback \<Rightarrow> ('w, 'm) signals_scheme \<Rightarrow> ('w, 'm) signals_scheme res) \<Rightarrow> nat \<Rightarrow> addr \<Rightarrow> bool" where
  "signal_client got run f p \<longleftrightarrow>
     (\<forall>s w. got (s\<lparr>rt_world := w\<rparr>) = got s) \<and>
     (\<forall>s n. \<exists>s'. run (User_int f n) s = Inr s' \<and> got s' = got s @ [n] \<and>
        rt_signalevents s' p = rt_signalevents s p)"

lemma raise_signals_piped:
  assumes "pipe_spec S piped (sg_rfd g) (sg_wfd g) cap" "signal_client got run f p" "p \<noteq> NULL"
    and "rt_sigev s = p" "rt_signalevents s p = Some g" "length (piped (rt_world s)) + length ns \<le> cap"
  shows "\<exists>s'. raise_signals S ns s = Inr s' \<and> rt_signalevents s' = rt_signalevents s \<and> got s' = got s \<and>
    piped (rt_world s') = piped (rt_world s) @ map of_int ns"
  using assms(4-)
proof (induction ns arbitrary: s)
  case (Cons n ns)
  obtain w where w: "sys_write S (sg_wfd g) [of_int n] (rt_world s) = (Inr 1, w)"
      "piped w = piped (rt_world s) @ [of_int n]"
    using assms(1) [unfolded pipe_spec_def, THEN conjunct1, rule_format, of "rt_world s"] Cons.prems(3) by auto
  let ?s = "s\<lparr>rt_world := w\<rparr>"
  have step: "handle_signal S n s = Inr ?s"
    using w Cons.prems assms(3) by (simp add: handle_signal_def call_def)
  have "got ?s = got s" using assms(2) by (simp add: signal_client_def)
  with Cons.IH [of ?s] Cons.prems w(2) step show ?case by auto
qed simp

lemma call_signals_all:
  assumes "signal_client got run f p" "p \<noteq> NULL" "rt_signalevents s p = Some g" "sg_cb g = Some f"
  shows "\<exists>s'. call_signals run p bs s = Inr s' \<and> got s' = got s @ map uint bs"
  using assms(3)
proof (induction bs arbitrary: s)
  case (Cons b bs)
  obtain s1 where s1: "run (User_int f (uint b)) s = Inr s1" "got s1 = got s @ [uint b]"
      "rt_signalevents s1 p = rt_signalevents s p"
    using assms(1) [unfolded signal_client_def, THEN conjunct2] by blast
  then show ?case using Cons.IH [of s1] Cons.prems assms(2,4) by auto
qed simp

section \<open>Properties\<close>

text \<open>
  C25. The conversion of the timeout is exact: the first expiration is the given number of
  milliseconds, in seconds and less than a second of nanoseconds, and the interval is the same
  for a periodic timer and none otherwise. Both fields are non-negative, as \<^verbatim>\<open>timerfd_settime\<close>
  requires, exactly for a non-negative timeout; a timeout of 0 gives the value that disarms
  the timer.
\<close>

theorem timer_spec_exact:
  "\<exists>sec ns. timer_spec ms periodic = ((sec, ns), if periodic then (sec, ns) else (0, 0)) \<and>
     sec * 1000000000 + ns = ms * 1000000 \<and> \<bar>ns\<bar> < 1000000000 \<and>
     ((0 \<le> sec \<and> 0 \<le> ns) = (0 \<le> ms)) \<and> ((sec, ns) = (0, 0)) = (ms = 0)"
proof -
  let ?sec = "ms sdiv 1000" and ?r = "ms smod 1000"
  have dm: "?sec * 1000 + ?r = ms" by (rule sdiv_mult_smod_eq)
  have r: "\<bar>?r\<bar> < 1000" "0 \<le> ms \<Longrightarrow> 0 \<le> ?r" "ms < 0 \<Longrightarrow> ?r \<le> 0"
    using smod_int_range [of 1000 ms] smod_int_compares [of ms 1000] by auto
  show ?thesis
    by (rule exI [of _ ?sec], rule exI [of _ "?r * 1000000"])
      (use dm r in \<open>auto simp: timer_spec_def Let_def\<close>)
qed

text \<open>
  The destructor of a timer does not take its event off the loop: after \<^verbatim>\<open>delete\<close> of a timer that
  is listened to, the loop's list still holds the address of the event that was freed with
  it, and the destructor of the loop, which deletes every event of the list, uses freed memory.
\<close>

theorem timer_delete_dangles:
  assumes "p \<noteq> NULL" and "rt_timerevents s p = Some t" and "tm_ev t \<noteq> NULL" and "rt_events s (tm_ev t) = Some e"
    and "l \<noteq> NULL" and "rt_loops s l = Some L" and "tm_ev t \<in> set (el_evlist L)" and "el_shutdown L"
  shows "\<exists>s'. delete_timerevent S p s = Inr s' \<and> rt_events s' (tm_ev t) = None \<and> rt_loops s' l = Some L \<and>
    delete_eventloop S del l s' = Inl Dangling_pointer"
proof -
  obtain s' where s': "delete_timerevent S p s = Inr s'" "rt_events s' = (rt_events s)(tm_ev t := None)"
      "rt_loops s' = rt_loops s"
    using delete_timer_frame [OF assms(1-4)] by blast
  then have "delete_all delete_event (el_evlist L) s' = Inl Dangling_pointer"
    using assms(3,7) by (intro delete_all_dangling) auto
  then have "delete_eventloop S del l s' = Inl Dangling_pointer"
    using s'(3) assms(5,6,8) by (simp add: delete_eventloop_def loopbreak_def)
  with s' assms(6) show ?thesis by auto
qed

definition timer_sample :: "kernel timers" where
  "timer_sample =
     \<lparr>rt_events = Map.empty,
      rt_loops = [1 \<mapsto> \<lparr>el_epfd = 3, el_eventfd = 4, el_timeout = -1, el_load = 0, el_shutdown = True,
        el_evlist = [], el_nevents = MAX_EVENTS, el_delque = [], el_baseloop = NULL\<rparr>],
      rt_world = kernel0, rt_next = 2, rt_bfevents = Map.empty, rt_timerevents = Map.empty\<rparr>"

lemmas timer_sample_defs = timer_sample_def sample_sys_def kernel0_def k_open_def k_ctl_def
  new_timerevent_def tm_init_def upd_timer_def new_event_def put_event_def setcb_def upd_event_def call_def
  tm_enable_listen_def tm_on_ev_def enable_listen_def add_event_def upd_loop_def put_loop_def Let_def

text \<open>A timer made and started on a loop that has ended.\<close>

theorem timer_delete_dangles_witness:
  "\<exists>s s' p. new_timerevent sample_sys 1 1500 True timer_sample = Inr (p, s) \<and>
     tm_enable_listen sample_sys p s = Inr s' \<and>
     bindR (delete_timerevent sample_sys p s') (delete_eventloop sample_sys (\<lambda>_. Inr) 1) = Inl Dangling_pointer"
proof -
  obtain s p where 1: "new_timerevent sample_sys 1 1500 True timer_sample = Inr (p, s)"
    "p = 2" "rt_timerevents s 2 \<noteq> None" "map_option tm_ev (rt_timerevents s 2) = Some 3" "rt_events s 3 \<noteq> None"
    "map_option ev_loop (rt_events s 3) = Some 1" "rt_loops s = rt_loops timer_sample"
    by (auto simp: timer_sample_defs)
  obtain s' L where 2: "tm_enable_listen sample_sys p s = Inr s'" "rt_timerevents s' = rt_timerevents s"
    "rt_events s' = rt_events s" "rt_loops s' 1 = Some L" "el_evlist L = [3]" "el_shutdown L"
    using 1 by (auto simp: timer_sample_defs split: prod.splits)
  obtain t e where te: "rt_timerevents s' 2 = Some t" "tm_ev t = 3" "rt_events s' 3 = Some e"
    using 1 2 by auto
  show ?thesis
    using timer_delete_dangles [of 2 s' t e 1 L sample_sys "\<lambda>_. Inr"] 1(1,2) 2 te by auto
qed

text \<open>
  C24. Signals go through the pipe and come out as they were: when the handler has run for some
  signals, \<^verbatim>\<open>handle_read\<close> calls the callback once for each, in the order in which they came, with
  its number, as long as they fit the pipe and the buffer of 1024 and are numbers of a byte.
\<close>

theorem signal_roundtrip:
  assumes "pipe_spec S piped (sg_rfd g) (sg_wfd g) cap" and "signal_client got run f p" and "p \<noteq> NULL"
    and "rt_sigev s = p" and "rt_signalevents s p = Some g" and "sg_cb g = Some f"
    and "piped (rt_world s) = []" and "ns \<noteq> []" and "length ns \<le> cap" and "length ns \<le> 1024"
    and "\<forall>n \<in> set ns. 0 \<le> n \<and> n < 256"
  shows "\<exists>s1 s2. raise_signals S ns s = Inr s1 \<and> sg_handle_read S run p s1 = Inr s2 \<and> got s2 = got s @ ns"
proof -
  obtain s1 where s1: "raise_signals S ns s = Inr s1" "rt_signalevents s1 = rt_signalevents s" "got s1 = got s"
      "piped (rt_world s1) = map of_int ns"
    using raise_signals_piped [OF assms(1-5), of ns] assms(7,9) by auto
  obtain w where w: "sys_read S (sg_rfd g) 1024 (rt_world s1) = (Inr (map of_int ns), w)"
    using assms(1) [unfolded pipe_spec_def, THEN conjunct2, rule_format, of "rt_world s1" 1024] s1(4) assms(8,10)
    by auto
  let ?s = "s1\<lparr>rt_world := w\<rparr>"
  have "rt_signalevents ?s p = Some g" using s1(2) assms(5) by simp
  then obtain s2 where s2: "call_signals run p (map of_int ns) ?s = Inr s2"
      "got s2 = got ?s @ map uint (map of_int ns :: byte list)"
    using call_signals_all [OF assms(2,3) _ assms(6)] by blast
  have "map uint (map of_int ns :: byte list) = ns"
    using assms(11) by (simp add: map_idI unsigned_of_int take_bit_int_eq_self)
  moreover have "got ?s = got s" using assms(2) s1(3) by (simp add: signal_client_def)
  moreover have "sg_handle_read S run p s1 = Inr s2"
    using w s1(2) s2(1) assms(3,5) by (simp add: sg_handle_read_def call_def)
  ultimately show ?thesis using s1(1) s2(2) by auto
qed

text \<open>A kernel whose descriptors 8 and 9 are the ends of a pipe, and a client with a log.\<close>

definition pipe_sys :: "kernel sys" where
  "pipe_sys = sample_sys\<lparr>sys_write := \<lambda>fd bs k.
     (Inr (length bs), k\<lparr>k_input := (k_input k)(8 := k_input k 8 @ bs)\<rparr>)\<rparr>"

definition signal_sample_run ::
  "callback \<Rightarrow> (kernel, int list) signals_scheme \<Rightarrow> (kernel, int list) signals_scheme res" where
  "signal_sample_run c s =
     (case c of User_int f n \<Rightarrow> Inr (signals.more_update (\<lambda>l. l @ [n]) s) | _ \<Rightarrow> Inr s)"

definition signal_sample_event :: signalevent where
  "signal_sample_event = \<lparr>sg_loop = 1, sg_rfd = 8, sg_wfd = 9, sg_ev = 4, sg_cb = Some 0\<rparr>"

definition signal_sample :: "(kernel, int list) signals_scheme" where
  "signal_sample =
     \<lparr>rt_events = Map.empty, rt_loops = Map.empty, rt_world = kernel0, rt_next = 10,
      rt_bfevents = Map.empty, rt_timerevents = Map.empty, rt_signalevents = [3 \<mapsto> signal_sample_event],
      rt_sigev = 3, \<dots> = []\<rparr>"

theorem signal_roundtrip_witness:
  "\<exists>s1 s2. raise_signals pipe_sys [2, 15, 2] signal_sample = Inr s1 \<and>
     sg_handle_read pipe_sys signal_sample_run 3 s1 = Inr s2 \<and> signals.more s2 = [2, 15, 2]"
proof -
  have pipe: "pipe_spec pipe_sys (\<lambda>k. k_input k 8) (sg_rfd signal_sample_event) (sg_wfd signal_sample_event) 65536"
    by (simp add: pipe_spec_def pipe_sys_def sample_sys_def signal_sample_event_def k_read_def)
  have client: "signal_client signals.more signal_sample_run 0 3"
    by (simp add: signal_client_def signal_sample_run_def)
  have "rt_sigev signal_sample = 3" "rt_signalevents signal_sample 3 = Some signal_sample_event"
      "sg_cb signal_sample_event = Some 0" "k_input (rt_world signal_sample) 8 = []"
      "signals.more signal_sample = []"
    by (simp_all add: signal_sample_def signal_sample_event_def kernel0_def)
  then show ?thesis using signal_roundtrip [OF pipe client, of signal_sample "[2, 15, 2]"] by simp
qed

end
