(* ===== verification/Udpevent.thy ===== *)
theory Udpevent
  imports Signalevent
begin

text \<open>
  The UDP socket \<^verbatim>\<open>udpevent\<close> (\<^verbatim>\<open>include/moonnet/udpevent.h\<close>, \<^verbatim>\<open>src/udpevent.cpp\<close>): a socket with an
  event, an input buffer and callbacks.
\<close>

section \<open>State\<close>

text \<open>The receive callback gets the address of the sender and the object.\<close>

record udpevent =
  ud_loop :: addr
  ud_fd :: fd
  ud_ev :: addr
  ud_inbuff :: buffer
  ud_receive_cb :: "nat option"
  ud_event_cb :: "callback option"
  ud_started :: bool

record 'w udps = "'w signals" +
  rt_udpevents :: "addr \<Rightarrow> udpevent option"

definition put_udp :: "addr \<Rightarrow> udpevent \<Rightarrow> ('w, 'm) udps_scheme \<Rightarrow> ('w, 'm) udps_scheme" where
  "put_udp p u s = s\<lparr>rt_udpevents := (rt_udpevents s)(p := Some u)\<rparr>"

definition upd_udp ::
  "addr \<Rightarrow> (udpevent \<Rightarrow> udpevent) \<Rightarrow> ('w, 'm) udps_scheme \<Rightarrow> ('w, 'm) udps_scheme res" where
  "upd_udp p f s = bindR (deref (rt_udpevents s) p) (\<lambda>u. Inr (put_udp p (f u) s))"

text \<open>\<^verbatim>\<open>ev_->f()\<close>, which faults when there is no event yet.\<close>

definition ud_on_ev ::
  "(addr \<Rightarrow> ('w, 'm) udps_scheme \<Rightarrow> ('w, 'm) udps_scheme res) \<Rightarrow> addr \<Rightarrow>
   ('w, 'm) udps_scheme \<Rightarrow> ('w, 'm) udps_scheme res" where
  "ud_on_ev f p s = bindR (deref (rt_udpevents s) p) (\<lambda>u. f (ud_ev u) s)"

section \<open>Operations\<close>

text \<open>The address that the sources make for a port: any interface, the port cut to 16 bits.\<close>

definition any_addr :: "int \<Rightarrow> sockaddr" where
  "any_addr port = (0, of_int port)"

definition ud_init_sock :: "'w sys \<Rightarrow> addr \<Rightarrow> int \<Rightarrow> ('w, 'm) udps_scheme \<Rightarrow> ('w, 'm) udps_scheme res" where
  "ud_init_sock S p port s =
     (case call (sys_socket S SOCK_DGRAM) s of
        (Inl _, s) \<Rightarrow> Inl (Exit 1)
      | (Inr fd, s) \<Rightarrow>
          let s = s\<lparr>rt_world := setnonblock S fd (rt_world s)\<rparr>
          in bindR (via_world (setreuse S fd) s) (\<lambda>s.
             case call (sys_bind S fd (any_addr port)) s of
               (Inl _, s) \<Rightarrow> Inl (Exit 1)
             | (Inr _, s) \<Rightarrow>
                 bindR (deref (rt_udpevents s) p) (\<lambda>u.
                   case new_event (ud_loop u) fd (EPOLLIN OR EPOLLET) s of (ev, s) \<Rightarrow>
                   bindR (upd_udp p (\<lambda>u. u\<lparr>ud_fd := fd, ud_ev := ev\<rparr>) s) (\<lambda>s.
                     setcb ev (Some (Udp_handle_receive p)) None None s))))"

text \<open>\<^verbatim>\<open>new udpevent(base, port)\<close>.\<close>

definition new_udpevent ::
  "'w sys \<Rightarrow> addr \<Rightarrow> int \<Rightarrow> ('w, 'm) udps_scheme \<Rightarrow> (addr \<times> ('w, 'm) udps_scheme) res" where
  "new_udpevent S base port s =
     (let p = rt_next s;
          s = put_udp p \<lparr>ud_loop = base, ud_fd = -1, ud_ev = NULL, ud_inbuff = new_buffer,
                ud_receive_cb = None, ud_event_cb = None, ud_started = False\<rparr> (s\<lparr>rt_next := Suc p\<rparr>)
      in bindR (if port \<noteq> -1 then ud_init_sock S p port s else Inr s) (\<lambda>s. Inr (p, s)))"

definition delete_udpevent :: "'w sys \<Rightarrow> addr \<Rightarrow> ('w, 'm) udps_scheme \<Rightarrow> ('w, 'm) udps_scheme res" where
  "delete_udpevent S p s =
     bindR (deref (rt_udpevents s) p) (\<lambda>u.
     bindR (if ud_ev u \<noteq> NULL then delete_event (ud_ev u) s else Inr s) (\<lambda>s.
       let s = (if ud_fd u \<noteq> -1 then snd (call (sys_close S (ud_fd u)) s) else s)
       in Inr (s\<lparr>rt_udpevents := (rt_udpevents s)(p := None)\<rparr>)))"

definition ud_update_ep :: "'w sys \<Rightarrow> addr \<Rightarrow> ('w, 'm) udps_scheme \<Rightarrow> ('w, 'm) udps_scheme res" where
  "ud_update_ep S p s =
     bindR (deref (rt_udpevents s) p) (\<lambda>u. if ud_started u then update_ep S (ud_ev u) s else Inr s)"

definition ud_setcb ::
  "'w sys \<Rightarrow> addr \<Rightarrow> nat option \<Rightarrow> callback option \<Rightarrow> ('w, 'm) udps_scheme \<Rightarrow> ('w, 'm) udps_scheme res" where
  "ud_setcb S p rcb ecb s =
     bindR (upd_udp p (\<lambda>u. u\<lparr>ud_receive_cb := rcb, ud_event_cb := ecb\<rparr>) s) (ud_update_ep S p)"

definition ud_setrcb ::
  "'w sys \<Rightarrow> addr \<Rightarrow> nat option \<Rightarrow> ('w, 'm) udps_scheme \<Rightarrow> ('w, 'm) udps_scheme res" where
  "ud_setrcb S p rcb s = bindR (upd_udp p (\<lambda>u. u\<lparr>ud_receive_cb := rcb\<rparr>) s) (ud_update_ep S p)"

definition ud_setecb ::
  "'w sys \<Rightarrow> addr \<Rightarrow> callback option \<Rightarrow> ('w, 'm) udps_scheme \<Rightarrow> ('w, 'm) udps_scheme res" where
  "ud_setecb S p ecb s = bindR (upd_udp p (\<lambda>u. u\<lparr>ud_event_cb := ecb\<rparr>) s) (ud_update_ep S p)"

definition ud_enable_listen :: "'w sys \<Rightarrow> addr \<Rightarrow> ('w, 'm) udps_scheme \<Rightarrow> ('w, 'm) udps_scheme res" where
  "ud_enable_listen S p s =
     bindR (deref (rt_udpevents s) p) (\<lambda>u.
       if ud_started u then Inr s
       else bindR (if ud_ev u \<noteq> NULL then enable_listen S (ud_ev u) s else Inr s)
              (upd_udp p (\<lambda>u. u\<lparr>ud_started := True\<rparr>)))"

definition ud_del_listen :: "'w sys \<Rightarrow> addr \<Rightarrow> ('w, 'm) udps_scheme \<Rightarrow> ('w, 'm) udps_scheme res" where
  "ud_del_listen S p s =
     bindR (deref (rt_udpevents s) p) (\<lambda>u.
       if \<not> ud_started u then Inr s
       else bindR (if ud_ev u \<noteq> NULL then del_listen S (ud_ev u) s else Inr s)
              (upd_udp p (\<lambda>u. u\<lparr>ud_started := False\<rparr>)))"

definition ud_close :: "'w sys \<Rightarrow> addr \<Rightarrow> ('w, 'm) udps_scheme \<Rightarrow> ('w, 'm) udps_scheme res" where
  "ud_close S p = ud_del_listen S p"

definition ud_receive_to ::
  "byte list \<Rightarrow> size_t \<Rightarrow> addr \<Rightarrow> ('w, 'm) udps_scheme \<Rightarrow> (size_t \<times> byte list \<times> ('w, 'm) udps_scheme) res" where
  "ud_receive_to data len p s =
     bindR (deref (rt_udpevents s) p) (\<lambda>u.
     bindR (remove_to data len (ud_inbuff u)) (\<lambda>(n, data, ib).
       Inr (n, data, put_udp p (u\<lparr>ud_inbuff := ib\<rparr>) s)))"

definition ud_receive ::
  "size_t \<Rightarrow> addr \<Rightarrow> ('w, 'm) udps_scheme \<Rightarrow> (byte list \<times> ('w, 'm) udps_scheme) res" where
  "ud_receive len p s =
     bindR (deref (rt_udpevents s) p) (\<lambda>u.
     bindR (remove len (ud_inbuff u)) (\<lambda>(d, ib). Inr (d, put_udp p (u\<lparr>ud_inbuff := ib\<rparr>) s)))"

definition ud_receive_all ::
  "addr \<Rightarrow> ('w, 'm) udps_scheme \<Rightarrow> (byte list \<times> ('w, 'm) udps_scheme) res" where
  "ud_receive_all p s =
     bindR (deref (rt_udpevents s) p) (\<lambda>u.
     bindR (remove_all (ud_inbuff u)) (\<lambda>(d, ib). Inr (d, put_udp p (u\<lparr>ud_inbuff := ib\<rparr>) s)))"

definition send_to ::
  "'w sys \<Rightarrow> byte list \<Rightarrow> sockaddr \<Rightarrow> addr \<Rightarrow> ('w, 'm) udps_scheme \<Rightarrow> ('w, 'm) udps_scheme res" where
  "send_to S data sa p s =
     bindR (deref (rt_udpevents s) p) (\<lambda>u. Inr (snd (call (sys_sendto S (ud_fd u) data sa) s)))"

definition ud_enable_read where "ud_enable_read S = ud_on_ev (enable_read S)"

definition ud_enable_ET where "ud_enable_ET S = ud_on_ev (enable_ET S)"

definition ud_disable_read where "ud_disable_read S = ud_on_ev (disable_read S)"

text \<open>\<^verbatim>\<open>disable_ET\<close> calls \<^verbatim>\<open>disable_read\<close>.\<close>

definition ud_disable_ET where "ud_disable_ET S = ud_on_ev (disable_read S)"

definition ud_disable_cb :: "addr \<Rightarrow> ('w, 'm) udps_scheme \<Rightarrow> ('w, 'm) udps_scheme res" where
  "ud_disable_cb p = upd_udp p (\<lambda>u. u\<lparr>ud_receive_cb := None, ud_event_cb := None\<rparr>)"

definition ud_call_eventcb ::
  "(callback \<Rightarrow> ('w, 'm) udps_scheme \<Rightarrow> ('w, 'm) udps_scheme res) \<Rightarrow> addr \<Rightarrow>
   ('w, 'm) udps_scheme \<Rightarrow> ('w, 'm) udps_scheme res" where
  "ud_call_eventcb run p s = bindR (deref (rt_udpevents s) p) (\<lambda>u. call_cb run (ud_event_cb u) s)"

text \<open>One turn of the loop of \<^verbatim>\<open>handle_receive\<close>; the flag tells whether it goes on.\<close>

definition handle_receive_turn ::
  "'w sys \<Rightarrow> (callback \<Rightarrow> ('w, 'm) udps_scheme \<Rightarrow> ('w, 'm) udps_scheme res) \<Rightarrow> addr \<Rightarrow>
   ('w, 'm) udps_scheme \<Rightarrow> (bool \<times> ('w, 'm) udps_scheme) res" where
  "handle_receive_turn S run p s =
     bindR (deref (rt_udpevents s) p) (\<lambda>u.
       case call (sys_recvfrom S (ud_fd u) BUFSIZE) s of
         (Inr (bs, sa), s) \<Rightarrow>
           if length bs > 0
           then bindR (append bs (ud_inbuff u)) (\<lambda>ib.
                let s = put_udp p (u\<lparr>ud_inbuff := ib\<rparr>) s
                in bindR (case ud_receive_cb u of None \<Rightarrow> Inr s | Some f \<Rightarrow> run (User_udp f sa p) s)
                     (\<lambda>s. Inr (True, s)))
           else bindR (ud_call_eventcb run p s) (\<lambda>s. Inr (False, s))
       | (Inl e, s) \<Rightarrow>
           if e = EAGAIN \<or> e = EWOULDBLOCK then Inr (False, s)
           else bindR (ud_call_eventcb run p s) (\<lambda>s. Inr (False, s)))"

definition handle_receive ::
  "'w sys \<Rightarrow> (callback \<Rightarrow> ('w, 'm) udps_scheme \<Rightarrow> ('w, 'm) udps_scheme res) \<Rightarrow> addr \<Rightarrow>
   ('w, 'm) udps_scheme \<Rightarrow> ('w, 'm) udps_scheme res option" where
  "handle_receive S run p = repeat_turn (handle_receive_turn S run p)"

end
