(* ===== verification/Drain_Loop.thy ===== *)
theory Drain_Loop
  imports Moon_Prelude
begin

text \<open>
  The loops that an edge-triggered event starts (\<^verbatim>\<open>handle_receive\<close>): take the
  elements of a queue one by one, hand each on, and stop when the queue is empty or at an
  element that ends the loop. The contract of one turn gives what the whole loop does.
\<close>

locale drain_loop =
  fixes turn :: "'s \<Rightarrow> (bool \<times> 's) res"
    and inv :: "'s \<Rightarrow> bool"
    and queue :: "'s \<Rightarrow> 'a list"
    and log :: "'s \<Rightarrow> 'b list"
    and good :: "'a \<Rightarrow> bool"
    and entry :: "'a \<Rightarrow> 'b"
  assumes take_good: "inv s \<Longrightarrow> queue s = x # xs \<Longrightarrow> good x \<Longrightarrow>
      \<exists>s'. turn s = Inr (True, s') \<and> inv s' \<and> queue s' = xs \<and> log s' = log s @ [entry x]"
    and take_bad: "inv s \<Longrightarrow> queue s = x # xs \<Longrightarrow> \<not> good x \<Longrightarrow>
      \<exists>s'. turn s = Inr (False, s') \<and> inv s' \<and> queue s' = xs \<and> log s' = log s"
    and stop: "inv s \<Longrightarrow> queue s = [] \<Longrightarrow>
      \<exists>s'. turn s = Inr (False, s') \<and> inv s' \<and> queue s' = [] \<and> log s' = log s"
begin

lemma drains_to_bad:
  assumes "inv s"
  shows "\<exists>s'. repeat_turn turn s = Some (Inr s') \<and> inv s' \<and>
           log s' = log s @ map entry (takeWhile good (queue s)) \<and>
           queue s' = tl (dropWhile good (queue s))"
  using assms
proof (induction "queue s" arbitrary: s)
  case Nil
  then obtain s' where "turn s = Inr (False, s')" "inv s'" "queue s' = []" "log s' = log s"
    using stop by metis
  with Nil.hyps show ?case using repeat_turn_done [of turn s s'] by auto
next
  case (Cons x xs)
  show ?case
  proof (cases "good x")
    case True
    then obtain s' where s': "turn s = Inr (True, s')" "inv s'" "queue s' = xs" "log s' = log s @ [entry x]"
      using take_good [of s x xs] Cons by auto
    with Cons.hyps(1) [of s'] True show ?thesis
      using repeat_turn_again [of turn s s', OF s'(1)] by (auto simp: Cons.hyps(2) [symmetric])
  next
    case False
    then obtain s' where "turn s = Inr (False, s')" "inv s'" "queue s' = xs" "log s' = log s"
      using take_bad [of s x xs] Cons by auto
    with False Cons.hyps(2) [symmetric] show ?thesis using repeat_turn_done [of turn s s'] by auto
  qed
qed

lemma drains_all:
  assumes "inv s" "\<forall>x \<in> set (queue s). good x"
  shows "\<exists>s'. repeat_turn turn s = Some (Inr s') \<and> inv s' \<and> log s' = log s @ map entry (queue s) \<and> queue s' = []"
proof -
  have "takeWhile good (queue s) = queue s" "dropWhile good (queue s) = []" using assms(2) by simp_all
  with drains_to_bad [OF assms(1)] show ?thesis by simp
qed

end

end
