(* ===== verification/Udpevent_Laws.thy ===== *)
theory Udpevent_Laws
  imports Udpevent Drain_Loop Sample_Kernel
begin

text \<open>
  The laws of the UDP socket: its receiving loop as an instance of the draining loops, and what
  it delivers to a client.
\<close>

section \<open>Callbacks and observations\<close>

text \<open>
  \<open>seen s\<close> is what the application has been given so far: pairs of sender and data. It is not
  changed by the library itself.
\<close>

definition udp_observation :: "(('w, 'm) udps_scheme \<Rightarrow> 'b) \<Rightarrow> bool" where
  "udp_observation seen \<longleftrightarrow>
     (\<forall>s w. seen (s\<lparr>rt_world := w\<rparr>) = seen s) \<and> (\<forall>s p u. seen (put_udp p u s) = seen s)"

text \<open>
  A client of the socket at \<open>p\<close>: its receive callback \<open>f\<close> takes everything that is buffered, and
  its event callback returns; neither touches the socket otherwise.
\<close>

definition udp_client ::
  "(('w, 'm) udps_scheme \<Rightarrow> (sockaddr \<times> byte list) list) \<Rightarrow> ('w \<Rightarrow> fd \<Rightarrow> (byte list \<times> sockaddr) list) \<Rightarrow>
   (callback \<Rightarrow> ('w, 'm) udps_scheme \<Rightarrow> ('w, 'm) udps_scheme res) \<Rightarrow> nat \<Rightarrow> callback option \<Rightarrow> addr \<Rightarrow> bool" where
  "udp_client seen dgrams run f ecb p \<longleftrightarrow>
     (\<forall>s u sa. rt_udpevents s p = Some u \<and> buf_inv (ud_inbuff u) \<longrightarrow>
        (\<exists>s' ib. run (User_udp f sa p) s = Inr s' \<and> seen s' = seen s @ [(sa, contents (ud_inbuff u))] \<and>
           rt_udpevents s' p = Some (u\<lparr>ud_inbuff := ib\<rparr>) \<and> buf_inv ib \<and> contents ib = [] \<and>
           dgrams (rt_world s') (ud_fd u) = dgrams (rt_world s) (ud_fd u))) \<and>
     (\<forall>s c. ecb = Some c \<longrightarrow>
        (\<exists>s'. run c s = Inr s' \<and> seen s' = seen s \<and> rt_udpevents s' p = rt_udpevents s p \<and>
           dgrams (rt_world s') = dgrams (rt_world s)))"

lemma udp_client_receive:
  assumes "udp_client seen dgrams run f ecb p" "rt_udpevents s p = Some u" "buf_inv (ud_inbuff u)"
  shows "\<exists>s' ib. run (User_udp f sa p) s = Inr s' \<and> seen s' = seen s @ [(sa, contents (ud_inbuff u))] \<and>
     rt_udpevents s' p = Some (u\<lparr>ud_inbuff := ib\<rparr>) \<and> buf_inv ib \<and> contents ib = [] \<and>
     dgrams (rt_world s') (ud_fd u) = dgrams (rt_world s) (ud_fd u)"
  using assms(1) [unfolded udp_client_def, THEN conjunct1, rule_format, OF conjI, OF assms(2,3)] by blast

text \<open>The state between two turns of the loop.\<close>

definition udp_inv ::
  "'w sys \<Rightarrow> (('w, 'm) udps_scheme \<Rightarrow> (sockaddr \<times> byte list) list) \<Rightarrow>
   ('w \<Rightarrow> fd \<Rightarrow> (byte list \<times> sockaddr) list) \<Rightarrow>
   (callback \<Rightarrow> ('w, 'm) udps_scheme \<Rightarrow> ('w, 'm) udps_scheme res) \<Rightarrow> nat \<Rightarrow> callback option \<Rightarrow> addr \<Rightarrow> fd \<Rightarrow>
   ('w, 'm) udps_scheme \<Rightarrow> bool" where
  "udp_inv S seen dgrams run f ecb p fd s \<longleftrightarrow>
     recvfrom_spec S dgrams \<and> udp_observation seen \<and> udp_client seen dgrams run f ecb p \<and> p \<noteq> NULL \<and>
     (\<exists>u. rt_udpevents s p = Some u \<and> ud_fd u = fd \<and> ud_receive_cb u = Some f \<and> ud_event_cb u = ecb \<and>
        buf_inv (ud_inbuff u) \<and> contents (ud_inbuff u) = [])"

section \<open>One turn\<close>

lemma udp_turn_good:
  assumes "udp_inv S seen dgrams run f ecb p fd s" "dgrams (rt_world s) fd = (bs, sa) # ds" "bs \<noteq> []"
  shows "\<exists>s'. handle_receive_turn S run p s = Inr (True, s') \<and> udp_inv S seen dgrams run f ecb p fd s' \<and>
    dgrams (rt_world s') fd = ds \<and> seen s' = seen s @ [(sa, take BUFSIZE bs)]"
proof -
  obtain u where u: "rt_udpevents s p = Some u" "ud_fd u = fd" "ud_receive_cb u = Some f"
      "ud_event_cb u = ecb" "buf_inv (ud_inbuff u)" "contents (ud_inbuff u) = []"
    and inv: "recvfrom_spec S dgrams" "udp_observation seen" "udp_client seen dgrams run f ecb p" "p \<noteq> NULL"
    using assms(1) by (auto simp: udp_inv_def)
  obtain w where w: "sys_recvfrom S fd BUFSIZE (rt_world s) = (Inr (take BUFSIZE bs, sa), w)" "dgrams w fd = ds"
    using inv(1) assms(2) unfolding recvfrom_spec_def by blast
  have "length (contents (ud_inbuff u)) + length (take BUFSIZE bs) \<le> VECTOR_MAX"
    using u(6) by (simp add: VECTOR_MAX_def)
  then obtain ib where ib: "append (take BUFSIZE bs) (ud_inbuff u) = Inr ib" "buf_inv ib"
      "contents ib = take BUFSIZE bs"
    using append_ok [OF u(5)] u(6) by force
  let ?u = "u\<lparr>ud_inbuff := ib\<rparr>" and ?s = "put_udp p (u\<lparr>ud_inbuff := ib\<rparr>) (s\<lparr>rt_world := w\<rparr>)"
  have live: "rt_udpevents ?s p = Some ?u" by (simp add: put_udp_def)
  obtain s' ib' where s': "run (User_udp f sa p) ?s = Inr s'" "seen s' = seen ?s @ [(sa, contents ib)]"
      "rt_udpevents s' p = Some (?u\<lparr>ud_inbuff := ib'\<rparr>)" "buf_inv ib'" "contents ib' = []"
      "dgrams (rt_world s') fd = dgrams (rt_world ?s) fd"
    using udp_client_receive [OF inv(3) live, of sa] ib(2) u(2) by auto
  have "seen ?s = seen s" using inv(2) unfolding udp_observation_def by (simp only:)
  moreover have "dgrams (rt_world ?s) fd = ds" using w(2) by (simp add: put_udp_def)
  ultimately show ?thesis
    using s' u inv w ib assms(3) by (auto simp: handle_receive_turn_def call_def udp_inv_def Let_def)
qed

lemma udp_turn_bad:
  assumes "udp_inv S seen dgrams run f ecb p fd s" "dgrams (rt_world s) fd = ([], sa) # ds"
  shows "\<exists>s'. handle_receive_turn S run p s = Inr (False, s') \<and> udp_inv S seen dgrams run f ecb p fd s' \<and>
    dgrams (rt_world s') fd = ds \<and> seen s' = seen s"
proof -
  obtain u where u: "rt_udpevents s p = Some u" "ud_fd u = fd" "ud_event_cb u = ecb"
    and inv: "recvfrom_spec S dgrams" "udp_observation seen" "udp_client seen dgrams run f ecb p" "p \<noteq> NULL"
    using assms(1) by (auto simp: udp_inv_def)
  obtain w where w: "sys_recvfrom S fd BUFSIZE (rt_world s) = (Inr ([], sa), w)" "dgrams w fd = ds"
    using inv(1) assms(2) unfolding recvfrom_spec_def by (metis take_Nil)
  let ?s = "s\<lparr>rt_world := w\<rparr>"
  have seen: "seen ?s = seen s" using inv(2) by (simp add: udp_observation_def)
  have turn: "handle_receive_turn S run p s = bindR (call_cb run ecb ?s) (\<lambda>s. Inr (False, s))"
    using u w inv(4) by (simp add: handle_receive_turn_def call_def ud_call_eventcb_def)
  have "\<exists>s'. call_cb run ecb ?s = Inr s' \<and> seen s' = seen s \<and> rt_udpevents s' p = rt_udpevents ?s p \<and>
      dgrams (rt_world s') = dgrams w"
  proof (cases ecb)
    case None
    then show ?thesis using seen by (simp add: call_cb_def)
  next
    case (Some c)
    then show ?thesis
      using inv(3) [unfolded udp_client_def, THEN conjunct2, rule_format, OF Some, of ?s] seen
      by (auto simp: call_cb_def)
  qed
  then show ?thesis using turn assms(1) w(2) by (auto simp: udp_inv_def)
qed

lemma udp_turn_stop:
  assumes "udp_inv S seen dgrams run f ecb p fd s" "dgrams (rt_world s) fd = []"
  shows "\<exists>s'. handle_receive_turn S run p s = Inr (False, s') \<and> udp_inv S seen dgrams run f ecb p fd s' \<and>
    dgrams (rt_world s') fd = [] \<and> seen s' = seen s"
proof -
  obtain u where u: "rt_udpevents s p = Some u" "ud_fd u = fd"
    and inv: "recvfrom_spec S dgrams" "udp_observation seen" "p \<noteq> NULL"
    using assms(1) by (auto simp: udp_inv_def)
  obtain w where w: "sys_recvfrom S fd BUFSIZE (rt_world s) = (Inl EAGAIN, w)" "dgrams w fd = []"
    using inv(1) assms(2) unfolding recvfrom_spec_def by blast
  have "seen (s\<lparr>rt_world := w\<rparr>) = seen s" using inv(2) by (simp add: udp_observation_def)
  then show ?thesis
    using u w inv(3) assms(1) by (auto simp: handle_receive_turn_def call_def udp_inv_def)
qed

interpretation udp: drain_loop
  "handle_receive_turn S run p" "udp_inv S seen dgrams run f ecb p fd"
  "\<lambda>s. dgrams (rt_world s) fd" seen "\<lambda>(bs, sa). bs \<noteq> []" "\<lambda>(bs, sa). (sa, take BUFSIZE bs)"
  for S run p seen dgrams f ecb fd
  by unfold_locales (auto intro: udp_turn_good udp_turn_bad udp_turn_stop)

section \<open>Properties\<close>

text \<open>
  C21. Datagrams keep their boundaries: \<^verbatim>\<open>handle_receive\<close> returns, and has called the receive callback
  once for each waiting datagram, in order, with its sender and its bytes (at most \<^verbatim>\<open>BUFSIZE\<close>),
  when the callback takes what it is given. It stops at the first empty datagram, though:
  that is taken for the end of the data, and what is behind it stays in the socket.
\<close>

theorem handle_receive_datagrams:
  assumes "recvfrom_spec S dgrams" and "udp_observation seen" and "udp_client seen dgrams run f (ud_event_cb u) p"
    and "p \<noteq> NULL" and "rt_udpevents s p = Some u" and "ud_receive_cb u = Some f"
    and "buf_inv (ud_inbuff u)" and "contents (ud_inbuff u) = []"
  shows "\<exists>s'. handle_receive S run p s = Some (Inr s') \<and>
    seen s' = seen s @ map (\<lambda>(bs, sa). (sa, take BUFSIZE bs))
      (takeWhile (\<lambda>(bs, sa). bs \<noteq> []) (dgrams (rt_world s) (ud_fd u))) \<and>
    dgrams (rt_world s') (ud_fd u) = tl (dropWhile (\<lambda>(bs, sa). bs \<noteq> []) (dgrams (rt_world s) (ud_fd u)))"
proof -
  have "udp_inv S seen dgrams run f (ud_event_cb u) p (ud_fd u) s" using assms by (simp add: udp_inv_def)
  from udp.drains_to_bad [OF this] show ?thesis by (auto simp: handle_receive_def)
qed

text \<open>\<^verbatim>\<open>disable_ET\<close> does what \<^verbatim>\<open>disable_read\<close> does: it keeps the edge-triggered mode and stops reading.\<close>

lemma ud_disable_ET_is_disable_read: "ud_disable_ET S p s = ud_disable_read S p s"
  by (simp add: ud_disable_ET_def ud_disable_read_def)

section \<open>A client that takes everything\<close>

text \<open>The log of the client is kept beside the heaps.\<close>

definition udp_sample_run ::
  "callback \<Rightarrow> (kernel, (sockaddr \<times> byte list) list) udps_scheme \<Rightarrow>
   (kernel, (sockaddr \<times> byte list) list) udps_scheme res" where
  "udp_sample_run c s =
     (case c of
        User_udp f sa p \<Rightarrow>
          bindR (ud_receive_all p s) (\<lambda>(d, s). Inr (udps.more_update (\<lambda>l. l @ [(sa, d)]) s))
      | _ \<Rightarrow> Inr s)"

definition udp_sample_event :: udpevent where
  "udp_sample_event = \<lparr>ud_loop = 1, ud_fd = 8, ud_ev = 4, ud_inbuff = new_buffer, ud_receive_cb = Some 0,
     ud_event_cb = None, ud_started = True\<rparr>"

definition udp_sample :: "(kernel, (sockaddr \<times> byte list) list) udps_scheme" where
  "udp_sample =
     \<lparr>rt_events = Map.empty, rt_loops = Map.empty,
      rt_world = kernel0\<lparr>k_dgrams := (\<lambda>_. [])(8 := [([1, 2], (5, 7)), ([3], (6, 7)), ([], (5, 7)), ([4], (5, 7))])\<rparr>,
      rt_next = 10, rt_bfevents = Map.empty, rt_timerevents = Map.empty, rt_signalevents = Map.empty,
      rt_sigev = NULL, rt_udpevents = [3 \<mapsto> udp_sample_event], \<dots> = []\<rparr>"

lemma sample_recvfrom_spec: "recvfrom_spec sample_sys k_dgrams"
  by (simp add: recvfrom_spec_def sample_sys_def k_recvfrom_def)

lemma udp_observation_more: "udp_observation udps.more"
  by (simp add: udp_observation_def put_udp_def)

lemma remove_everything:
  assumes "buf_inv b"
  shows "\<exists>b'. remove_all b = Inr (contents b, b') \<and> buf_inv b' \<and> contents b' = []"
  using remove_ok [OF assms, of "readbytes b"] assms by (auto simp: remove_all_def unat_readbytes)

lemma udp_sample_client:
  assumes "p \<noteq> NULL"
  shows "udp_client udps.more k_dgrams udp_sample_run f None p"
  unfolding udp_client_def
proof (intro conjI allI impI)
  fix s :: "(kernel, (sockaddr \<times> byte list) list) udps_scheme" and u sa
  assume "rt_udpevents s p = Some u \<and> buf_inv (ud_inbuff u)"
  then have s: "rt_udpevents s p = Some u" "buf_inv (ud_inbuff u)" by simp_all
  obtain ib where "remove_all (ud_inbuff u) = Inr (contents (ud_inbuff u), ib)" "buf_inv ib" "contents ib = []"
    using remove_everything [OF s(2)] by blast
  with s assms show "\<exists>s' ib. udp_sample_run (User_udp f sa p) s = Inr s' \<and>
      udps.more s' = udps.more s @ [(sa, contents (ud_inbuff u))] \<and>
      rt_udpevents s' p = Some (u\<lparr>ud_inbuff := ib\<rparr>) \<and> buf_inv ib \<and> contents ib = [] \<and>
      k_dgrams (rt_world s') (ud_fd u) = k_dgrams (rt_world s) (ud_fd u)"
    by (auto simp: udp_sample_run_def ud_receive_all_def put_udp_def)
qed simp

theorem handle_receive_datagrams_witness:
  "\<exists>s'. handle_receive sample_sys udp_sample_run 3 udp_sample = Some (Inr s') \<and>
     udps.more s' = [((5, 7), [1, 2]), ((6, 7), [3])] \<and> k_dgrams (rt_world s') 8 = [([4], (5, 7))]"
proof -
  have u: "rt_udpevents udp_sample 3 = Some udp_sample_event" by (simp add: udp_sample_def)
  have cl: "udp_client udps.more k_dgrams udp_sample_run 0 (ud_event_cb udp_sample_event) 3"
    using udp_sample_client [of 3 0] by (simp add: udp_sample_event_def)
  show ?thesis
    using handle_receive_datagrams [OF sample_recvfrom_spec udp_observation_more cl _ u] new_buffer_ok
    by (simp add: udp_sample_event_def) (simp add: udp_sample_def)
qed

end
