(* ===== verification/Acceptor.thy ===== *)
theory Acceptor
  imports Udpevent
begin

text \<open>
  The listening socket \<^verbatim>\<open>acceptor\<close> (\<^verbatim>\<open>include/moonnet/acceptor.h\<close>, \<^verbatim>\<open>src/acceptor.cpp\<close>).
\<close>

section \<open>State\<close>

text \<open>The constructor sets neither \<^verbatim>\<open>lfd_\<close> nor \<^verbatim>\<open>ev_\<close>: \<open>None\<close> is an uninitialised member.\<close>

record acceptor =
  ac_lfd :: "fd option"
  ac_loop :: addr
  ac_ev :: "addr option"
  ac_cb :: "(fd \<Rightarrow> callback) option"
  ac_shutdown :: bool

record 'w acceptors = "'w udps" +
  rt_acceptors :: "addr \<Rightarrow> acceptor option"

definition upd_acceptor ::
  "addr \<Rightarrow> (acceptor \<Rightarrow> acceptor) \<Rightarrow> ('w, 'm) acceptors_scheme \<Rightarrow> ('w, 'm) acceptors_scheme res" where
  "upd_acceptor p f s =
     bindR (deref (rt_acceptors s) p) (\<lambda>a.
       Inr (s\<lparr>rt_acceptors := (rt_acceptors s)(p := Some (f a))\<rparr>))"

definition member :: "'a option \<Rightarrow> 'a res" where
  "member x = (case x of None \<Rightarrow> Inl Uninitialised | Some y \<Rightarrow> Inr y)"

section \<open>Operations\<close>

definition SOMAXCONN :: int where
  "SOMAXCONN = 4096"

definition ac_init_sock :: "'w sys \<Rightarrow> addr \<Rightarrow> int \<Rightarrow> ('w, 'm) acceptors_scheme \<Rightarrow> ('w, 'm) acceptors_scheme res" where
  "ac_init_sock S p port s =
     bindR (Socket S SOCK_STREAM (rt_world s)) (\<lambda>(fd, w).
     bindR (via_world (setreuse S fd) (s\<lparr>rt_world := setnonblock S fd w\<rparr>)) (\<lambda>s.
     bindR (via_world (Bind S fd (any_addr port)) s) (\<lambda>s.
     bindR (via_world (Listen S fd SOMAXCONN) s) (\<lambda>s.
       upd_acceptor p (\<lambda>a. a\<lparr>ac_lfd := Some fd\<rparr>) s))))"

definition new_acceptor ::
  "'w sys \<Rightarrow> int \<Rightarrow> addr \<Rightarrow> ('w, 'm) acceptors_scheme \<Rightarrow> (addr \<times> ('w, 'm) acceptors_scheme) res" where
  "new_acceptor S port base s =
     (let p = rt_next s;
          s = s\<lparr>rt_next := Suc p, rt_acceptors := (rt_acceptors s)(p \<mapsto>
                 \<lparr>ac_lfd = None, ac_loop = base, ac_ev = None, ac_cb = None, ac_shutdown = True\<rparr>)\<rparr>
      in bindR (if port \<noteq> -1 then ac_init_sock S p port s else Inr s) (\<lambda>s. Inr (p, s)))"

definition ac_setcb ::
  "addr \<Rightarrow> (fd \<Rightarrow> callback) option \<Rightarrow> ('w, 'm) acceptors_scheme \<Rightarrow> ('w, 'm) acceptors_scheme res" where
  "ac_setcb p cb = upd_acceptor p (\<lambda>a. a\<lparr>ac_cb := cb\<rparr>)"

definition ac_listen :: "'w sys \<Rightarrow> addr \<Rightarrow> ('w, 'm) acceptors_scheme \<Rightarrow> ('w, 'm) acceptors_scheme res" where
  "ac_listen S p s =
     bindR (deref (rt_acceptors s) p) (\<lambda>a.
       if \<not> ac_shutdown a then Inr s
       else bindR (member (ac_lfd a)) (\<lambda>lfd.
            case new_event (ac_loop a) lfd (EPOLLIN OR EPOLLET) s of (ev, s) \<Rightarrow>
            bindR (setcb ev (Some (Acceptor_handle_accept p)) None None s) (\<lambda>s.
            bindR (add_event S (ac_loop a) ev s) (\<lambda>s.
              upd_acceptor p (\<lambda>a. a\<lparr>ac_ev := Some ev, ac_shutdown := False\<rparr>) s))))"

definition ac_stop :: "'w sys \<Rightarrow> addr \<Rightarrow> ('w, 'm) acceptors_scheme \<Rightarrow> ('w, 'm) acceptors_scheme res" where
  "ac_stop S p s =
     bindR (deref (rt_acceptors s) p) (\<lambda>a.
       if ac_shutdown a then Inr s
       else bindR (member (ac_ev a)) (\<lambda>ev.
            bindR (del_listen S ev s) (upd_acceptor p (\<lambda>a. a\<lparr>ac_shutdown := True\<rparr>))))"

definition delete_acceptor :: "'w sys \<Rightarrow> addr \<Rightarrow> ('w, 'm) acceptors_scheme \<Rightarrow> ('w, 'm) acceptors_scheme res" where
  "delete_acceptor S p s =
     bindR (ac_stop S p s) (\<lambda>s.
     bindR (deref (rt_acceptors s) p) (\<lambda>a.
     bindR (member (ac_ev a)) (\<lambda>ev.
     bindR (delete_event ev s) (\<lambda>s.
     bindR (member (ac_lfd a)) (\<lambda>lfd.
       let s = snd (call (sys_close S lfd) s)
       in Inr (s\<lparr>rt_acceptors := (rt_acceptors s)(p := None)\<rparr>))))))"

text \<open>One turn of the loop of \<^verbatim>\<open>handle_accept\<close>; the flag tells whether it goes on.\<close>

definition handle_accept_turn ::
  "'w sys \<Rightarrow> (callback \<Rightarrow> ('w, 'm) acceptors_scheme \<Rightarrow> ('w, 'm) acceptors_scheme res) \<Rightarrow> addr \<Rightarrow>
   ('w, 'm) acceptors_scheme \<Rightarrow> (bool \<times> ('w, 'm) acceptors_scheme) res" where
  "handle_accept_turn S run p s =
     bindR (deref (rt_acceptors s) p) (\<lambda>a.
     bindR (member (ac_lfd a)) (\<lambda>lfd.
       case call (sys_accept S lfd) s of
         (Inl _, s) \<Rightarrow> Inr (False, s)
       | (Inr cfd, s) \<Rightarrow>
           bindR (via_world (settcpnodelay S cfd) (s\<lparr>rt_world := setnonblock S cfd (rt_world s)\<rparr>)) (\<lambda>s.
           bindR (case ac_cb a of None \<Rightarrow> Inr s | Some cb \<Rightarrow> run (cb cfd) s) (\<lambda>s. Inr (True, s)))))"

definition handle_accept ::
  "'w sys \<Rightarrow> (callback \<Rightarrow> ('w, 'm) acceptors_scheme \<Rightarrow> ('w, 'm) acceptors_scheme res) \<Rightarrow> addr \<Rightarrow>
   ('w, 'm) acceptors_scheme \<Rightarrow> ('w, 'm) acceptors_scheme res option" where
  "handle_accept S run p = repeat_turn (handle_accept_turn S run p)"

end
