(* ===== verification/Looptpool.thy ===== *)
theory Looptpool
  imports Acceptor Load_Scan
begin

text \<open>
  The event loops in threads of their own, \<^verbatim>\<open>loopthread\<close> (\<^verbatim>\<open>include/moonnet/loopthread.h\<close>,
  \<^verbatim>\<open>src/loopthread.cpp\<close>), and the pool of them, \<^verbatim>\<open>looptpool\<close> (\<^verbatim>\<open>include/moonnet/looptpool.h\<close>,
  \<^verbatim>\<open>src/looptpool.cpp\<close>). The loops live in the heap of the reactor; \<open>run\<close> and \<open>del\<close> are what their
  callbacks and deletions do. \<open>hc\<close> is \<^verbatim>\<open>std::thread::hardware_concurrency()\<close>.
\<close>

section \<open>loopthread\<close>

text \<open>
  The object and its thread. \<^verbatim>\<open>timeout_\<close> is declared behind \<^verbatim>\<open>t_\<close>, so the thread runs before the
  member is set: the value it reads is the argument \<open>seen\<close> of the definitions.
\<close>

record loopthread =
  lh_loop :: addr
  lh_timeout :: int
  lh_joinable :: bool

record 'w pools = "'w acceptors" +
  rt_loopthreads :: "addr \<Rightarrow> loopthread option"

definition upd_loopthread ::
  "addr \<Rightarrow> (loopthread \<Rightarrow> loopthread) \<Rightarrow> ('w, 'm) pools_scheme \<Rightarrow> ('w, 'm) pools_scheme res" where
  "upd_loopthread p f s =
     bindR (deref (rt_loopthreads s) p) (\<lambda>t.
       Inr (s\<lparr>rt_loopthreads := (rt_loopthreads s)(p := Some (f t))\<rparr>))"

definition MAX_EPOLL_TIMEOUT_MSEC :: int where
  "MAX_EPOLL_TIMEOUT_MSEC = 35 * 60 * 1000"

definition new_loopthread :: "int \<Rightarrow> ('w, 'm) pools_scheme \<Rightarrow> addr \<times> ('w, 'm) pools_scheme" where
  "new_loopthread timeout s =
     (let p = rt_next s
      in (p, s\<lparr>rt_next := Suc p, rt_loopthreads := (rt_loopthreads s)(p \<mapsto>
                 \<lparr>lh_loop = NULL,
                  lh_timeout = (if timeout > MAX_EPOLL_TIMEOUT_MSEC then MAX_EPOLL_TIMEOUT_MSEC else timeout),
                  lh_joinable = True\<rparr>)\<rparr>))"

text \<open>\<^verbatim>\<open>_init_\<close>, up to the call of \<^verbatim>\<open>loop\<close>.\<close>

definition lh_init :: "'w sys \<Rightarrow> int \<Rightarrow> addr \<Rightarrow> ('w, 'm) pools_scheme \<Rightarrow> ('w, 'm) pools_scheme res" where
  "lh_init S seen p s =
     bindR (new_eventloop S p seen s) (\<lambda>(l, s). upd_loopthread p (\<lambda>t. t\<lparr>lh_loop := l\<rparr>) s)"

text \<open>\<^verbatim>\<open>getloop\<close> waits until the thread has set \<^verbatim>\<open>loop_\<close>.\<close>

definition lh_getloop ::
  "'w sys \<Rightarrow> int \<Rightarrow> addr \<Rightarrow> ('w, 'm) pools_scheme \<Rightarrow> (addr \<times> ('w, 'm) pools_scheme) res" where
  "lh_getloop S seen p s =
     bindR (deref (rt_loopthreads s) p) (\<lambda>t.
     bindR (if lh_loop t = NULL then lh_init S seen p s else Inr s) (\<lambda>s.
     bindR (deref (rt_loopthreads s) p) (\<lambda>t. Inr (lh_loop t, s))))"

text \<open>\<^verbatim>\<open>join\<close> waits while the thread runs its loop to the end.\<close>

definition lh_join ::
  "'w sys \<Rightarrow> (callback \<Rightarrow> ('w, 'm) pools_scheme \<Rightarrow> ('w, 'm) pools_scheme res) \<Rightarrow>
   (addr \<Rightarrow> ('w, 'm) pools_scheme \<Rightarrow> ('w, 'm) pools_scheme res) \<Rightarrow> addr \<Rightarrow>
   ('w, 'm) pools_scheme \<Rightarrow> ('w, 'm) pools_scheme res" where
  "lh_join S run del p s =
     bindR (deref (rt_loopthreads s) p) (\<lambda>t.
       if lh_joinable t
       then bindR (returned (loop S run del (lh_loop t) s)) (upd_loopthread p (\<lambda>t. t\<lparr>lh_joinable := False\<rparr>))
       else Inr s)"

definition delete_loopthread ::
  "'w sys \<Rightarrow> (callback \<Rightarrow> ('w, 'm) pools_scheme \<Rightarrow> ('w, 'm) pools_scheme res) \<Rightarrow>
   (addr \<Rightarrow> ('w, 'm) pools_scheme \<Rightarrow> ('w, 'm) pools_scheme res) \<Rightarrow> addr \<Rightarrow>
   ('w, 'm) pools_scheme \<Rightarrow> ('w, 'm) pools_scheme res" where
  "delete_loopthread S run del p s =
     bindR (deref (rt_loopthreads s) p) (\<lambda>t.
     bindR (if lh_loop t \<noteq> NULL
            then bindR (loopbreak S (lh_loop t) s) (\<lambda>s.
                 bindR (lh_join S run del p s) (\<lambda>s. delete_eventloop S del (lh_loop t) s))
            else lh_join S run del p s) (\<lambda>s.
       Inr (s\<lparr>rt_loopthreads := (rt_loopthreads s)(p := None)\<rparr>)))"

section \<open>looptpool: state\<close>

text \<open>\<open>lo_manager\<close>: the manager thread is joinable. The integers do not come near the limits of \<^verbatim>\<open>int\<close>.\<close>

record looptpool =
  lo_baseloop :: addr
  lo_manager :: bool
  lo_loadvec :: "addr list"
  lo_next :: int
  lo_tnum :: int
  lo_timeout :: int
  lo_max_tnum :: int
  lo_min_tnum :: int
  lo_dispath :: bool
  lo_coolsec :: int
  lo_timesec :: int
  lo_scale_max :: int
  lo_scale_min :: int

section \<open>looptpool: size\<close>

definition getcore :: "nat \<Rightarrow> nat" where
  "getcore hc = (let cpu_cores = hc div 2 in (if cpu_cores = 0 then 4 else cpu_cores) + 1)"

definition settnum_n :: "int \<Rightarrow> looptpool \<Rightarrow> looptpool" where
  "settnum_n n lp = lp\<lparr>lo_tnum := n, lo_max_tnum := n * 2 - 1, lo_min_tnum := n\<rparr>"

definition settnum :: "nat \<Rightarrow> looptpool \<Rightarrow> looptpool" where
  "settnum hc lp = (let n = int (getcore hc) in lp\<lparr>lo_tnum := n, lo_max_tnum := n * 2 - 1, lo_min_tnum := n\<rparr>)"

definition settnum_noadjust :: "int \<Rightarrow> looptpool \<Rightarrow> looptpool" where
  "settnum_noadjust n lp = lp\<lparr>lo_tnum := n, lo_min_tnum := n, lo_max_tnum := n\<rparr>"

text \<open>Assigning to a \<^verbatim>\<open>std::thread\<close> that is joinable ends the program.\<close>

definition init_adjust :: "looptpool \<Rightarrow> looptpool res" where
  "init_adjust lp = (if lo_manager lp then Inl Terminate else Inr (lp\<lparr>lo_manager := True\<rparr>))"

definition stop_adjust :: "looptpool \<Rightarrow> looptpool" where
  "stop_adjust lp = (if \<not> lo_dispath lp then lp else lp\<lparr>lo_dispath := False\<rparr>)"

definition enable_adjust :: "looptpool \<Rightarrow> looptpool res" where
  "enable_adjust lp = (if \<not> lo_manager lp then init_adjust (lp\<lparr>lo_dispath := True\<rparr>) else Inr lp)"

definition new_looptpool :: "addr \<Rightarrow> bool \<Rightarrow> looptpool res" where
  "new_looptpool base dispath =
     (let lp = \<lparr>lo_baseloop = base, lo_manager = False, lo_loadvec = [], lo_next = 0, lo_tnum = 0,
                lo_timeout = -1, lo_max_tnum = 0, lo_min_tnum = 0, lo_dispath = dispath,
                lo_coolsec = 30, lo_timesec = 5, lo_scale_max = 80, lo_scale_min = 20\<rparr>
      in if dispath then init_adjust lp else Inr lp)"

section \<open>looptpool: creating loops\<close>

definition start_loop ::
  "'w sys \<Rightarrow> (addr \<Rightarrow> int) \<Rightarrow> int \<Rightarrow> ('w, 'm) pools_scheme \<Rightarrow> (addr \<times> ('w, 'm) pools_scheme) res" where
  "start_loop S seen timeout s =
     (case new_loopthread timeout s of (t, s) \<Rightarrow> lh_getloop S (seen t) t s)"

fun start_loops ::
  "'w sys \<Rightarrow> (addr \<Rightarrow> int) \<Rightarrow> int \<Rightarrow> nat \<Rightarrow> ('w, 'm) pools_scheme \<Rightarrow> (addr list \<times> ('w, 'm) pools_scheme) res" where
  "start_loops S seen timeout 0 s = Inr ([], s)"
| "start_loops S seen timeout (Suc n) s =
     bindR (start_loop S seen timeout s) (\<lambda>(l, s).
     bindR (start_loops S seen timeout n s) (\<lambda>(ls, s). Inr (l # ls, s)))"

definition init_pool ::
  "'w sys \<Rightarrow> (addr \<Rightarrow> int) \<Rightarrow> int \<Rightarrow> looptpool \<Rightarrow> ('w, 'm) pools_scheme \<Rightarrow>
   (looptpool \<times> ('w, 'm) pools_scheme) res" where
  "init_pool S seen timeout lp s =
     bindR (start_loops S seen timeout (nat (lo_tnum lp)) s) (\<lambda>(ls, s).
       Inr (lp\<lparr>lo_timeout := timeout, lo_loadvec := lo_loadvec lp @ ls\<rparr>, s))"

definition create_pool ::
  "'w sys \<Rightarrow> (addr \<Rightarrow> int) \<Rightarrow> nat \<Rightarrow> int \<Rightarrow> looptpool \<Rightarrow> ('w, 'm) pools_scheme \<Rightarrow>
   (looptpool \<times> ('w, 'm) pools_scheme) res" where
  "create_pool S seen hc timeout lp s =
     bindR (init_pool S seen timeout (settnum hc (lp\<lparr>lo_dispath := True\<rparr>)) s) (\<lambda>(lp, s).
     bindR (init_adjust lp) (\<lambda>lp. Inr (lp, s)))"

definition create_pool_n ::
  "'w sys \<Rightarrow> (addr \<Rightarrow> int) \<Rightarrow> int \<Rightarrow> int \<Rightarrow> looptpool \<Rightarrow> ('w, 'm) pools_scheme \<Rightarrow>
   (looptpool \<times> ('w, 'm) pools_scheme) res" where
  "create_pool_n S seen n timeout lp s =
     bindR (init_pool S seen timeout (settnum_n n (lp\<lparr>lo_dispath := True\<rparr>)) s) (\<lambda>(lp, s).
     bindR (init_adjust lp) (\<lambda>lp. Inr (lp, s)))"

definition create_pool_noadjust ::
  "'w sys \<Rightarrow> (addr \<Rightarrow> int) \<Rightarrow> int \<Rightarrow> int \<Rightarrow> looptpool \<Rightarrow> ('w, 'm) pools_scheme \<Rightarrow>
   (looptpool \<times> ('w, 'm) pools_scheme) res" where
  "create_pool_noadjust S seen n timeout lp s =
     bindR (init_pool S seen timeout (settnum_noadjust n lp) s) (\<lambda>(lp, s). Inr (stop_adjust lp, s))"

definition addloop ::
  "'w sys \<Rightarrow> (addr \<Rightarrow> int) \<Rightarrow> looptpool \<Rightarrow> ('w, 'm) pools_scheme \<Rightarrow>
   (looptpool \<times> ('w, 'm) pools_scheme) res" where
  "addloop S seen lp s =
     bindR (start_loop S seen (lo_timeout lp) s) (\<lambda>(l, s).
       Inr (lp\<lparr>lo_loadvec := lo_loadvec lp @ [l], lo_tnum := lo_tnum lp + 1\<rparr>, s))"

section \<open>looptpool: choosing a loop\<close>

definition loop_load :: "looptpool \<Rightarrow> ('w, 'm) pools_scheme \<Rightarrow> nat \<Rightarrow> int res" where
  "loop_load lp s i =
     (if i < length (lo_loadvec lp) then getload (lo_loadvec lp ! i) s else Inl Out_of_bounds)"

text \<open>\<^verbatim>\<open>unsigned int size = t_num\<close>.\<close>

definition lo_size :: "looptpool \<Rightarrow> nat" where
  "lo_size lp = unat (of_int (lo_tnum lp) :: u32)"

definition getminload :: "looptpool \<Rightarrow> ('w, 'm) pools_scheme \<Rightarrow> addr res" where
  "getminload lp s =
     bindR (scan_all (<) (loop_load lp s) (lo_size lp)) (\<lambda>idx. Inr (lo_loadvec lp ! idx))"

definition lo_getmaxidx :: "looptpool \<Rightarrow> ('w, 'm) pools_scheme \<Rightarrow> nat res" where
  "lo_getmaxidx lp s = scan_all (\<lambda>a b. b < a) (loop_load lp s) (lo_size lp)"

definition ev_dispatch :: "looptpool \<Rightarrow> ('w, 'm) pools_scheme \<Rightarrow> (addr \<times> looptpool) res" where
  "ev_dispatch lp s =
     (if lo_tnum lp = 0 then Inr (lo_baseloop lp, lp)
      else if lo_dispath lp then bindR (getminload lp s) (\<lambda>l. Inr (l, lp))
      else let n = (lo_next lp + 1) smod lo_tnum lp; lp = lp\<lparr>lo_next := n\<rparr>
           in if 0 \<le> n \<and> nat n < length (lo_loadvec lp) then Inr (lo_loadvec lp ! nat n, lp)
              else Inl Out_of_bounds)"

fun sum_loop_loads :: "addr list \<Rightarrow> ('w, 'm) pools_scheme \<Rightarrow> int res" where
  "sum_loop_loads [] s = Inr 0"
| "sum_loop_loads (l # ls) s =
     bindR (getload l s) (\<lambda>n. bindR (sum_loop_loads ls s) (\<lambda>m. Inr (n + m)))"

definition getscale :: "looptpool \<Rightarrow> ('w, 'm) pools_scheme \<Rightarrow> int res" where
  "getscale lp s =
     bindR (sum_loop_loads (lo_loadvec lp) s) (\<lambda>sum.
       if sum = 0 then Inr 0
       else if lo_tnum lp = 0 then Inl Division_by_zero
       else let avg_scale = sum sdiv lo_tnum lp in Inr ((avg_scale sdiv sum) * 100))"

section \<open>looptpool: removing a loop and stopping\<close>

fun redispatch_events ::
  "'w sys \<Rightarrow> addr list \<Rightarrow> looptpool \<Rightarrow> ('w, 'm) pools_scheme \<Rightarrow> (looptpool \<times> ('w, 'm) pools_scheme) res" where
  "redispatch_events S [] lp s = Inr (lp, s)"
| "redispatch_events S (ev # evs) lp s =
     bindR (ev_dispatch lp s) (\<lambda>(l, lp). bindR (add_event S l ev s) (redispatch_events S evs lp))"

definition delloop_dispatch ::
  "'w sys \<Rightarrow> (callback \<Rightarrow> ('w, 'm) pools_scheme \<Rightarrow> ('w, 'm) pools_scheme res) \<Rightarrow>
   (addr \<Rightarrow> ('w, 'm) pools_scheme \<Rightarrow> ('w, 'm) pools_scheme res) \<Rightarrow> looptpool \<Rightarrow>
   ('w, 'm) pools_scheme \<Rightarrow> (looptpool \<times> ('w, 'm) pools_scheme) res" where
  "delloop_dispatch S run del lp s =
     bindR (lo_getmaxidx lp s) (\<lambda>idx.
       if idx \<ge> length (lo_loadvec lp) then Inl Out_of_bounds
       else let ep = lo_loadvec lp ! idx
            in bindR (getallev ep [] s) (\<lambda>(evs, s).
               bindR (redispatch_events S evs lp s) (\<lambda>(lp, s).
               let lp = lp\<lparr>lo_loadvec := butlast ((lo_loadvec lp)[idx := last (lo_loadvec lp)])\<rparr>
               in bindR (deref (rt_loops s) ep) (\<lambda>L.
                  bindR (delete_loopthread S run del (el_baseloop L) s) (\<lambda>s.
                    Inr (lp\<lparr>lo_tnum := lo_tnum lp - 1\<rparr>, s))))))"

definition lo_adjust_body ::
  "'w sys \<Rightarrow> (callback \<Rightarrow> ('w, 'm) pools_scheme \<Rightarrow> ('w, 'm) pools_scheme res) \<Rightarrow>
   (addr \<Rightarrow> ('w, 'm) pools_scheme \<Rightarrow> ('w, 'm) pools_scheme res) \<Rightarrow> (addr \<Rightarrow> int) \<Rightarrow> looptpool \<Rightarrow>
   ('w, 'm) pools_scheme \<Rightarrow> (looptpool \<times> ('w, 'm) pools_scheme) res" where
  "lo_adjust_body S run del seen lp s =
     bindR (if lo_tnum lp > lo_min_tnum lp \<and> lo_tnum lp < lo_max_tnum lp
            then bindR (getscale lp s) (\<lambda>scale.
                   if scale < lo_scale_min lp
                   then bindR (delloop_dispatch S run del lp s) (\<lambda>(lp, s).
                          Inr (lp\<lparr>lo_timesec := lo_timesec lp + lo_coolsec lp\<rparr>, s))
                   else if scale > lo_scale_max lp
                   then bindR (addloop S seen lp s) (\<lambda>(lp, s).
                          Inr (lp\<lparr>lo_timesec := lo_timesec lp - lo_coolsec lp\<rparr>, s))
                   else Inr (lp, s))
            else Inr (lp, s)) (\<lambda>(lp, s).
       Inr (if lo_timesec lp < 5 then lp\<lparr>lo_timesec := 5\<rparr> else lp, s))"

text \<open>
  One turn of \<^verbatim>\<open>adjust_task\<close>; \<open>later\<close> is the value of \<^verbatim>\<open>dispath_\<close> after the pause. The flag in the
  result tells whether the loop goes on.
\<close>

definition lo_adjust_turn ::
  "'w sys \<Rightarrow> (callback \<Rightarrow> ('w, 'm) pools_scheme \<Rightarrow> ('w, 'm) pools_scheme res) \<Rightarrow>
   (addr \<Rightarrow> ('w, 'm) pools_scheme \<Rightarrow> ('w, 'm) pools_scheme res) \<Rightarrow> (addr \<Rightarrow> int) \<Rightarrow> bool \<Rightarrow> looptpool \<Rightarrow>
   ('w, 'm) pools_scheme \<Rightarrow> (bool \<times> looptpool \<times> ('w, 'm) pools_scheme) res" where
  "lo_adjust_turn S run del seen later lp s =
     (if lo_dispath lp \<and> later
      then bindR (lo_adjust_body S run del seen lp s) (\<lambda>(lp, s). Inr (True, lp, s))
      else Inr (False, lp, s))"

fun stop_loops ::
  "'w sys \<Rightarrow> (callback \<Rightarrow> ('w, 'm) pools_scheme \<Rightarrow> ('w, 'm) pools_scheme res) \<Rightarrow>
   (addr \<Rightarrow> ('w, 'm) pools_scheme \<Rightarrow> ('w, 'm) pools_scheme res) \<Rightarrow> addr list \<Rightarrow>
   ('w, 'm) pools_scheme \<Rightarrow> ('w, 'm) pools_scheme res" where
  "stop_loops S run del [] s = Inr s"
| "stop_loops S run del (l # ls) s =
     bindR (loopbreak S l s) (\<lambda>s.
     bindR (deref (rt_loops s) l) (\<lambda>L.
     bindR (lh_join S run del (el_baseloop L) s) (stop_loops S run del ls)))"

definition lo_stop ::
  "'w sys \<Rightarrow> (callback \<Rightarrow> ('w, 'm) pools_scheme \<Rightarrow> ('w, 'm) pools_scheme res) \<Rightarrow>
   (addr \<Rightarrow> ('w, 'm) pools_scheme \<Rightarrow> ('w, 'm) pools_scheme res) \<Rightarrow> looptpool \<Rightarrow>
   ('w, 'm) pools_scheme \<Rightarrow> (looptpool \<times> ('w, 'm) pools_scheme) res" where
  "lo_stop S run del lp s =
     bindR (stop_loops S run del (lo_loadvec lp) s) (\<lambda>s.
       Inr (if lo_manager lp then (stop_adjust lp)\<lparr>lo_manager := False\<rparr> else lp, s))"

fun delete_loops ::
  "'w sys \<Rightarrow> (callback \<Rightarrow> ('w, 'm) pools_scheme \<Rightarrow> ('w, 'm) pools_scheme res) \<Rightarrow>
   (addr \<Rightarrow> ('w, 'm) pools_scheme \<Rightarrow> ('w, 'm) pools_scheme res) \<Rightarrow> addr list \<Rightarrow>
   ('w, 'm) pools_scheme \<Rightarrow> ('w, 'm) pools_scheme res" where
  "delete_loops S run del [] s = Inr s"
| "delete_loops S run del (l # ls) s =
     bindR (deref (rt_loops s) l) (\<lambda>L.
     bindR (delete_loopthread S run del (el_baseloop L) s) (delete_loops S run del ls))"

definition delete_looptpool ::
  "'w sys \<Rightarrow> (callback \<Rightarrow> ('w, 'm) pools_scheme \<Rightarrow> ('w, 'm) pools_scheme res) \<Rightarrow>
   (addr \<Rightarrow> ('w, 'm) pools_scheme \<Rightarrow> ('w, 'm) pools_scheme res) \<Rightarrow> looptpool \<Rightarrow>
   ('w, 'm) pools_scheme \<Rightarrow> (looptpool \<times> ('w, 'm) pools_scheme) res" where
  "delete_looptpool S run del lp s =
     bindR (lo_stop S run del lp s) (\<lambda>(lp, s).
     bindR (delete_loops S run del (lo_loadvec lp) s) (\<lambda>s.
       Inr (lp\<lparr>lo_loadvec := [], lo_tnum := 0\<rparr>, s)))"

end
