(* ===== verification/Looptpool_Laws.thy ===== *)
theory Looptpool_Laws
  imports Looptpool Sample_Kernel
begin

text \<open>
  The laws of the pool of event loops: how it chooses a loop, and what its manager thread does.
\<close>

section \<open>A pool in service\<close>

text \<open>As many loops as the pool counts, all live, and a cursor within them.\<close>

definition loops_ok :: "looptpool \<Rightarrow> ('w, 'm) pools_scheme \<Rightarrow> bool" where
  "loops_ok lp s \<longleftrightarrow>
     lo_tnum lp = int (length (lo_loadvec lp)) \<and> length (lo_loadvec lp) < 2 ^ 31 \<and>
     0 \<le> lo_next lp \<and> (\<forall>l \<in> set (lo_loadvec lp). l \<noteq> NULL \<and> rt_loops s l \<noteq> None)"

definition load_of :: "('w, 'm) pools_scheme \<Rightarrow> addr \<Rightarrow> int" where
  "load_of s l = sint (el_load (the (rt_loops s l)))"

lemma getload_of: "loops_ok lp s \<Longrightarrow> l \<in> set (lo_loadvec lp) \<Longrightarrow> getload l s = Inr (load_of s l)"
  by (auto simp: loops_ok_def getload_def load_of_def)

lemma lo_size_ok: "loops_ok lp s \<Longrightarrow> lo_size lp = length (lo_loadvec lp)"
  by (simp add: loops_ok_def lo_size_def unat_of_nat)

lemma getminload_ok:
  assumes "loops_ok lp s" "lo_loadvec lp \<noteq> []"
  shows "\<exists>l \<in> set (lo_loadvec lp). getminload lp s = Inr l \<and>
    (\<forall>l' \<in> set (lo_loadvec lp). load_of s l \<le> load_of s l')"
proof -
  let ?f = "\<lambda>i. load_of s (lo_loadvec lp ! i)"
  have "\<forall>i < length (lo_loadvec lp). loop_load lp s i = Inr (?f i)"
    using getload_of [OF assms(1)] by (simp add: loop_load_def)
  then obtain r where r: "scan_all (<) (loop_load lp s) (lo_size lp) = Inr r" "r < length (lo_loadvec lp)"
      "\<forall>j < length (lo_loadvec lp). \<not> ?f j < ?f r"
    using smaller.scan_all_best [of "length (lo_loadvec lp)" "loop_load lp s" ?f] assms
    by (auto simp: lo_size_ok)
  then have "\<forall>l' \<in> set (lo_loadvec lp). load_of s (lo_loadvec lp ! r) \<le> load_of s l'"
    by (metis in_set_conv_nth not_less)
  with r show ?thesis by (intro bexI [of _ "lo_loadvec lp ! r"]) (auto simp: getminload_def)
qed

lemma dispatch_turn:
  assumes "loops_ok lp s" "lo_loadvec lp \<noteq> []" "\<not> lo_dispath lp"
  shows "ev_dispatch lp s = Inr (lo_loadvec lp ! (nat (lo_next lp + 1) mod length (lo_loadvec lp)),
    lp\<lparr>lo_next := (lo_next lp + 1) mod lo_tnum lp\<rparr>)"
proof -
  let ?n = "length (lo_loadvec lp)"
  have ok: "lo_tnum lp = int ?n" "0 \<le> lo_next lp" "0 < ?n" using assms by (auto simp: loops_ok_def)
  have m: "(lo_next lp + 1) smod lo_tnum lp = (lo_next lp + 1) mod lo_tnum lp"
    using ok by (intro smod_mod_positive) simp_all
  have "nat ((lo_next lp + 1) mod int ?n) = nat (lo_next lp + 1) mod ?n"
    using ok(2) by (simp add: nat_mod_distrib)
  then show ?thesis using assms(3) ok m by (simp add: ev_dispatch_def Let_def)
qed

lemma ev_dispatch_ok:
  assumes "loops_ok lp s"
  shows "\<exists>l lp'. ev_dispatch lp s = Inr (l, lp') \<and> loops_ok lp' s \<and> lo_loadvec lp' = lo_loadvec lp \<and>
    (if lo_loadvec lp = [] then l = lo_baseloop lp
     else if lo_dispath lp
     then l \<in> set (lo_loadvec lp) \<and> (\<forall>l' \<in> set (lo_loadvec lp). load_of s l \<le> load_of s l')
     else l = lo_loadvec lp ! (nat (lo_next lp + 1) mod length (lo_loadvec lp)) \<and>
          lo_next lp' = (lo_next lp + 1) mod int (length (lo_loadvec lp)))"
proof -
  have n: "lo_tnum lp = int (length (lo_loadvec lp))" using assms by (simp add: loops_ok_def)
  consider "lo_loadvec lp = []" | "lo_loadvec lp \<noteq> []" "lo_dispath lp" | "lo_loadvec lp \<noteq> []" "\<not> lo_dispath lp"
    by blast
  then show ?thesis
  proof cases
    case 1
    then show ?thesis using assms n by (simp add: ev_dispatch_def)
  next
    case 2
    then show ?thesis using assms n getminload_ok [OF assms] by (auto simp: ev_dispatch_def)
  next
    case 3
    then have "0 \<le> (lo_next lp + 1) mod lo_tnum lp" using n by simp
    with 3 show ?thesis using assms n dispatch_turn [OF assms 3] by (auto simp: loops_ok_def)
  qed
qed

section \<open>Properties\<close>

text \<open>
  C23. The pool balances: without loops of its own it gives the base loop; with the dynamic
  balancing on, a loop that no other loop of the pool undercuts in load; with it off, the
  loops in turn.
\<close>

theorem ev_dispatch_balances:
  assumes "loops_ok lp s"
  shows "\<exists>l lp'. ev_dispatch lp s = Inr (l, lp') \<and> loops_ok lp' s \<and> lo_loadvec lp' = lo_loadvec lp \<and>
    (if lo_loadvec lp = [] then l = lo_baseloop lp
     else if lo_dispath lp
     then l \<in> set (lo_loadvec lp) \<and> (\<forall>l' \<in> set (lo_loadvec lp). load_of s l \<le> load_of s l')
     else l = lo_loadvec lp ! (nat (lo_next lp + 1) mod length (lo_loadvec lp)) \<and>
          lo_next lp' = (lo_next lp + 1) mod int (length (lo_loadvec lp)))"
  using assms by (rule ev_dispatch_ok)

text \<open>Two loops with loads 2 and 1.\<close>

definition loops_sample :: "kernel pools" where
  "loops_sample =
     (let L = \<lparr>el_epfd = 3, el_eventfd = 4, el_timeout = -1, el_load = 2, el_shutdown = False, el_evlist = [],
               el_nevents = MAX_EVENTS, el_delque = [], el_baseloop = 6\<rparr>
      in \<lparr>rt_events = Map.empty, rt_loops = [2 \<mapsto> L, 3 \<mapsto> L\<lparr>el_load := 1\<rparr>], rt_world = kernel0,
          rt_next = 9, rt_bfevents = Map.empty, rt_timerevents = Map.empty, rt_signalevents = Map.empty,
          rt_sigev = NULL, rt_udpevents = Map.empty, rt_acceptors = Map.empty, rt_loopthreads = Map.empty\<rparr>)"

definition pool_sample :: looptpool where
  "pool_sample = \<lparr>lo_baseloop = 1, lo_manager = True, lo_loadvec = [2, 3], lo_next = 0, lo_tnum = 2,
     lo_timeout = -1, lo_max_tnum = 3, lo_min_tnum = 2, lo_dispath = True, lo_coolsec = 30,
     lo_timesec = 5, lo_scale_max = 80, lo_scale_min = 20\<rparr>"

theorem ev_dispatch_balances_witness:
  "\<exists>lp'. ev_dispatch pool_sample loops_sample = Inr (3, lp')"
proof -
  have "loops_ok pool_sample loops_sample"
    by (simp add: loops_ok_def pool_sample_def loops_sample_def Let_def)
  from ev_dispatch_balances [OF this] show ?thesis
    by (auto simp: pool_sample_def loops_sample_def Let_def load_of_def)
qed

section \<open>The manager thread\<close>

text \<open>A pool keeps the size it was created with: the manager changes it only above the minimum.\<close>

lemma lo_adjust_body_idle:
  assumes "lo_tnum lp = lo_min_tnum lp" "5 \<le> lo_timesec lp"
  shows "lo_adjust_body S run del seen lp s = Inr (lp, s)"
  using assms by (simp add: lo_adjust_body_def)

lemma create_pool_sizes:
  "create_pool S seen hc timeout lp s = Inr (lp', s') \<Longrightarrow> lo_tnum lp' = lo_min_tnum lp'"
  "create_pool_n S seen n timeout lp s = Inr (lp', s') \<Longrightarrow> lo_tnum lp' = lo_min_tnum lp'"
  by (auto simp: create_pool_def create_pool_n_def init_pool_def init_adjust_def settnum_def settnum_n_def
      Let_def bindR_eq_Inr split: if_splits)

text \<open>Creating a pool twice ends the program: the manager thread is still joinable.\<close>

lemma create_pool_twice:
  assumes "lo_manager lp" "start_loops S seen timeout (nat n) s = Inr (ls, s1)"
  shows "create_pool_n S seen n timeout lp s = Inl Terminate"
  using assms by (simp add: create_pool_n_def init_pool_def init_adjust_def settnum_n_def)

end
