(* ===== verification/Base_event.thy ===== *)
theory Base_event
  imports Looptpool
begin

text \<open>
  The virtual functions of \<^verbatim>\<open>base_event\<close> (\<^verbatim>\<open>include/moonnet/base_event.h\<close>), each dispatched to the class
  of the object.
\<close>

section \<open>Virtual functions of base_event\<close>

text \<open>
  The classes derived from \<^verbatim>\<open>base_event\<close> have one heap each and addresses are not reused, so
  the heap in which an address is live is the dynamic type of the object.
\<close>

datatype ev_class = C_event | C_bfevent | C_timerevent | C_signalevent | C_udpevent

definition class_of :: "addr \<Rightarrow> ('w, 'm) pools_scheme \<Rightarrow> ev_class res" where
  "class_of p s =
     (if p = NULL then Inl Null_pointer
      else if rt_events s p \<noteq> None then Inr C_event
      else if rt_bfevents s p \<noteq> None then Inr C_bfevent
      else if rt_timerevents s p \<noteq> None then Inr C_timerevent
      else if rt_signalevents s p \<noteq> None then Inr C_signalevent
      else if rt_udpevents s p \<noteq> None then Inr C_udpevent
      else Inl Dangling_pointer)"

definition be_getloop :: "addr \<Rightarrow> ('w, 'm) pools_scheme \<Rightarrow> addr res" where
  "be_getloop p s =
     bindR (class_of p s) (\<lambda>c. case c of
         C_event \<Rightarrow> bindR (deref (rt_events s) p) (\<lambda>e. Inr (ev_loop e))
       | C_bfevent \<Rightarrow> bindR (deref (rt_bfevents s) p) (\<lambda>b. Inr (bf_loop b))
       | C_timerevent \<Rightarrow> bindR (deref (rt_timerevents s) p) (\<lambda>t. Inr (tm_loop t))
       | C_signalevent \<Rightarrow> bindR (deref (rt_signalevents s) p) (\<lambda>g. Inr (sg_loop g))
       | C_udpevent \<Rightarrow> bindR (deref (rt_udpevents s) p) (\<lambda>u. Inr (ud_loop u)))"

definition be_disable_cb :: "addr \<Rightarrow> ('w, 'm) pools_scheme \<Rightarrow> ('w, 'm) pools_scheme res" where
  "be_disable_cb p s =
     bindR (class_of p s) (\<lambda>c. case c of
         C_event \<Rightarrow> disable_cb p s
       | C_bfevent \<Rightarrow> bf_disable_cb p s
       | C_timerevent \<Rightarrow> tm_disable_cb p s
       | C_signalevent \<Rightarrow> sg_disable_cb p s
       | C_udpevent \<Rightarrow> ud_disable_cb p s)"

definition be_enable_listen :: "'w sys \<Rightarrow> addr \<Rightarrow> ('w, 'm) pools_scheme \<Rightarrow> ('w, 'm) pools_scheme res" where
  "be_enable_listen S p s =
     bindR (class_of p s) (\<lambda>c. case c of
         C_event \<Rightarrow> enable_listen S p s
       | C_bfevent \<Rightarrow> bf_enable_listen S p s
       | C_timerevent \<Rightarrow> tm_enable_listen S p s
       | C_signalevent \<Rightarrow> sg_enable_listen S p s
       | C_udpevent \<Rightarrow> ud_enable_listen S p s)"

definition be_update_ep :: "'w sys \<Rightarrow> addr \<Rightarrow> ('w, 'm) pools_scheme \<Rightarrow> ('w, 'm) pools_scheme res" where
  "be_update_ep S p s =
     bindR (class_of p s) (\<lambda>c. case c of
         C_event \<Rightarrow> update_ep S p s
       | C_bfevent \<Rightarrow> bf_update_ep S p s
       | C_timerevent \<Rightarrow> tm_update_ep S p s
       | C_signalevent \<Rightarrow> sg_update_ep S p s
       | C_udpevent \<Rightarrow> ud_update_ep S p s)"

definition be_del_listen ::
  "'w sys \<Rightarrow> (callback \<Rightarrow> ('w, 'm) pools_scheme \<Rightarrow> ('w, 'm) pools_scheme res) \<Rightarrow> addr \<Rightarrow>
   ('w, 'm) pools_scheme \<Rightarrow> ('w, 'm) pools_scheme res" where
  "be_del_listen S run p s =
     bindR (class_of p s) (\<lambda>c. case c of
         C_event \<Rightarrow> del_listen S p s
       | C_bfevent \<Rightarrow> bf_del_listen S run p s
       | C_timerevent \<Rightarrow> tm_del_listen S p s
       | C_signalevent \<Rightarrow> sg_del_listen S p s
       | C_udpevent \<Rightarrow> ud_del_listen S p s)"

definition be_close ::
  "'w sys \<Rightarrow> (callback \<Rightarrow> ('w, 'm) pools_scheme \<Rightarrow> ('w, 'm) pools_scheme res) \<Rightarrow> addr \<Rightarrow>
   ('w, 'm) pools_scheme \<Rightarrow> ('w, 'm) pools_scheme res" where
  "be_close S run p s =
     bindR (class_of p s) (\<lambda>c. case c of
         C_event \<Rightarrow> del_listen S p s
       | C_bfevent \<Rightarrow> close_event S run p s
       | C_timerevent \<Rightarrow> tm_close S p s
       | C_signalevent \<Rightarrow> sg_close S p s
       | C_udpevent \<Rightarrow> ud_close S p s)"

text \<open>\<^verbatim>\<open>delete\<close> through a \<^verbatim>\<open>base_event\<close> pointer, whose destructor is virtual.\<close>

definition be_delete ::
  "'w sys \<Rightarrow> (callback \<Rightarrow> ('w, 'm) pools_scheme \<Rightarrow> ('w, 'm) pools_scheme res) \<Rightarrow> addr \<Rightarrow>
   ('w, 'm) pools_scheme \<Rightarrow> ('w, 'm) pools_scheme res" where
  "be_delete S run p s =
     bindR (class_of p s) (\<lambda>c. case c of
         C_event \<Rightarrow> delete_event p s
       | C_bfevent \<Rightarrow> delete_bfevent S run p s
       | C_timerevent \<Rightarrow> delete_timerevent S p s
       | C_signalevent \<Rightarrow> delete_signalevent S p s
       | C_udpevent \<Rightarrow> delete_udpevent S p s)"

end
