(* ===== verification/Server.thy ===== *)
theory Server
  imports Base_event
begin

text \<open>
  The server (\<^verbatim>\<open>include/moonnet/server.h\<close>, \<^verbatim>\<open>src/server.cpp\<close>), which ties the parts together: a base
  loop with the listening socket, the pool of loops, and the list of the events it owns.
  The mutex around that list is not modelled: an operation of the server is one step.
\<close>

section \<open>State\<close>

record server =
  sv_base :: addr
  sv_pool :: looptpool
  sv_acceptor :: addr
  sv_port :: int
  sv_tcp_enable :: bool
  sv_events :: "addr list"
  sv_readcb :: "nat option"
  sv_writecb :: "callback option"
  sv_eventcb :: "callback option"

text \<open>The program has one server; its callbacks that bind \<^verbatim>\<open>this\<close> bind it.\<close>

record 'w servers = "'w pools" +
  rt_server :: server

definition upd_server :: "(server \<Rightarrow> server) \<Rightarrow> ('w, 'm) servers_scheme \<Rightarrow> ('w, 'm) servers_scheme" where
  "upd_server f s = s\<lparr>rt_server := f (rt_server s)\<rparr>"

text \<open>An operation of \<^verbatim>\<open>pool_\<close>.\<close>

definition on_pool ::
  "(looptpool \<Rightarrow> ('w, 'm) servers_scheme \<Rightarrow> (looptpool \<times> ('w, 'm) servers_scheme) res) \<Rightarrow>
   ('w, 'm) servers_scheme \<Rightarrow> ('w, 'm) servers_scheme res" where
  "on_pool f s =
     bindR (f (sv_pool (rt_server s)) s) (\<lambda>(lp, s). Inr (upd_server (\<lambda>v. v\<lparr>sv_pool := lp\<rparr>) s))"

definition dispatch :: "('w, 'm) servers_scheme \<Rightarrow> (addr \<times> ('w, 'm) servers_scheme) res" where
  "dispatch s =
     bindR (ev_dispatch (sv_pool (rt_server s)) s) (\<lambda>(l, lp).
       Inr (l, upd_server (\<lambda>v. v\<lparr>sv_pool := lp\<rparr>) s))"

definition remember :: "addr \<Rightarrow> ('w, 'm) servers_scheme \<Rightarrow> ('w, 'm) servers_scheme" where
  "remember p s = upd_server (\<lambda>v. v\<lparr>sv_events := sv_events v @ [p]\<rparr>) s"

section \<open>Connections\<close>

definition acceptcb :: "'w sys \<Rightarrow> fd \<Rightarrow> ('w, 'm) servers_scheme \<Rightarrow> ('w, 'm) servers_scheme res" where
  "acceptcb S fd s =
     bindR (dispatch s) (\<lambda>(l, s).
     bindR (new_bfevent S l fd (EPOLLIN OR EPOLLET) s) (\<lambda>(p, s).
     bindR (bf_setcb S p (sv_readcb (rt_server s)) (sv_writecb (rt_server s)) (Some (Server_tcp_eventcb p)) s)
       (\<lambda>s. Inr (remember p s))))"

definition handle_close :: "addr \<Rightarrow> ('w, 'm) servers_scheme \<Rightarrow> ('w, 'm) servers_scheme res" where
  "handle_close p s =
     bindR (be_disable_cb p (upd_server (\<lambda>v. v\<lparr>sv_events := removeAll p (sv_events v)\<rparr>) s)) (\<lambda>s.
     bindR (be_getloop p s) (\<lambda>l. add_pending_del l p s))"

text \<open>\<open>user\<close> is what the callbacks of the user do.\<close>

definition tcp_eventcb ::
  "(callback \<Rightarrow> ('w, 'm) servers_scheme \<Rightarrow> ('w, 'm) servers_scheme res) \<Rightarrow> addr \<Rightarrow>
   ('w, 'm) servers_scheme \<Rightarrow> ('w, 'm) servers_scheme res" where
  "tcp_eventcb user p s = bindR (call_cb user (sv_eventcb (rt_server s)) s) (handle_close p)"

section \<open>What a callback does\<close>

text \<open>
  The callbacks that the handlers of the library call: those of the server and of the user.
  The lambdas of \<^verbatim>\<open>addev\<close> and \<^verbatim>\<open>add_udpev\<close> capture their parameters by reference and are called
  after the function has returned.
\<close>

definition run_user ::
  "'w sys \<Rightarrow> (callback \<Rightarrow> ('w, 'm) servers_scheme \<Rightarrow> ('w, 'm) servers_scheme res) \<Rightarrow> callback \<Rightarrow>
   ('w, 'm) servers_scheme \<Rightarrow> ('w, 'm) servers_scheme res" where
  "run_user S user c s =
     (case c of
        Server_tcp_eventcb p \<Rightarrow> tcp_eventcb user p s
      | Server_acceptcb fd \<Rightarrow> acceptcb S fd s
      | Dangling_closure \<Rightarrow> Inl Dangling_pointer
      | _ \<Rightarrow> user c s)"

text \<open>The callbacks of the events, which the loops call.\<close>

definition run_event ::
  "'w sys \<Rightarrow> (callback \<Rightarrow> ('w, 'm) servers_scheme \<Rightarrow> ('w, 'm) servers_scheme res) \<Rightarrow> callback \<Rightarrow>
   ('w, 'm) servers_scheme \<Rightarrow> ('w, 'm) servers_scheme res" where
  "run_event S user c s =
     (case c of
        Read_eventfd l \<Rightarrow> read_eventfd S l s
      | Bf_handle_read p \<Rightarrow> returned (handle_read S (run_user S user) p s)
      | Bf_handle_write p \<Rightarrow> returned (handle_write S (run_user S user) p s)
      | Bf_handle_event p \<Rightarrow> handle_event (run_user S user) p s
      | Timer_handle_timeout p \<Rightarrow> handle_timeout S (run_user S user) p s
      | Signal_handle_read p \<Rightarrow> sg_handle_read S (run_user S user) p s
      | Udp_handle_receive p \<Rightarrow> returned (handle_receive S (run_user S user) p s)
      | Acceptor_handle_accept p \<Rightarrow> returned (handle_accept S (run_user S user) p s)
      | _ \<Rightarrow> run_user S user c s)"

abbreviation sv_del where
  "sv_del S user \<equiv> be_delete S (run_user S user)"

section \<open>Service\<close>

definition sv_start ::
  "'w sys \<Rightarrow> (callback \<Rightarrow> ('w, 'm) servers_scheme \<Rightarrow> ('w, 'm) servers_scheme res) \<Rightarrow>
   ('w, 'm) servers_scheme \<Rightarrow> ('w, 'm) servers_scheme res option" where
  "sv_start S user s = loop S (run_event S user) (sv_del S user) (sv_base (rt_server s)) s"

definition sv_stop ::
  "'w sys \<Rightarrow> (callback \<Rightarrow> ('w, 'm) servers_scheme \<Rightarrow> ('w, 'm) servers_scheme res) \<Rightarrow>
   ('w, 'm) servers_scheme \<Rightarrow> ('w, 'm) servers_scheme res" where
  "sv_stop S user s =
     bindR (on_pool (lo_stop S (run_event S user) (sv_del S user)) s) (\<lambda>s.
       loopbreak S (sv_base (rt_server s)) s)"

definition sv_init_pool ::
  "'w sys \<Rightarrow> (addr \<Rightarrow> int) \<Rightarrow> nat \<Rightarrow> int \<Rightarrow> ('w, 'm) servers_scheme \<Rightarrow> ('w, 'm) servers_scheme res" where
  "sv_init_pool S seen hc timeout = on_pool (create_pool S seen hc timeout)"

definition sv_init_pool_n ::
  "'w sys \<Rightarrow> (addr \<Rightarrow> int) \<Rightarrow> int \<Rightarrow> int \<Rightarrow> ('w, 'm) servers_scheme \<Rightarrow> ('w, 'm) servers_scheme res" where
  "sv_init_pool_n S seen tnum timeout = on_pool (create_pool_n S seen tnum timeout)"

definition init_pool_noadjust ::
  "'w sys \<Rightarrow> (addr \<Rightarrow> int) \<Rightarrow> int \<Rightarrow> int \<Rightarrow> ('w, 'm) servers_scheme \<Rightarrow> ('w, 'm) servers_scheme res" where
  "init_pool_noadjust S seen tnum timeout = on_pool (create_pool_noadjust S seen tnum timeout)"

definition set_tcpcb ::
  "nat option \<Rightarrow> callback option \<Rightarrow> callback option \<Rightarrow> ('w, 'm) servers_scheme \<Rightarrow> ('w, 'm) servers_scheme" where
  "set_tcpcb rcb wcb ecb = upd_server (\<lambda>v. v\<lparr>sv_readcb := rcb, sv_writecb := wcb, sv_eventcb := ecb\<rparr>)"

definition enable_tcp_accept :: "'w sys \<Rightarrow> ('w, 'm) servers_scheme \<Rightarrow> ('w, 'm) servers_scheme res" where
  "enable_tcp_accept S s = ac_listen S (sv_acceptor (rt_server s)) s"

definition disable_tcp_accept :: "'w sys \<Rightarrow> ('w, 'm) servers_scheme \<Rightarrow> ('w, 'm) servers_scheme res" where
  "disable_tcp_accept S s = ac_stop S (sv_acceptor (rt_server s)) s"

definition enable_tcp :: "'w sys \<Rightarrow> int \<Rightarrow> ('w, 'm) servers_scheme \<Rightarrow> ('w, 'm) servers_scheme res" where
  "enable_tcp S port s =
     (if sv_tcp_enable (rt_server s) then Inr s
      else let s = upd_server (\<lambda>v. v\<lparr>sv_port := port\<rparr>) s; a = sv_acceptor (rt_server s)
           in bindR (ac_init_sock S a port s) (\<lambda>s.
              bindR (ac_setcb a (Some Server_acceptcb) s) (\<lambda>s.
              bindR (ac_listen S a s) (\<lambda>s.
                Inr (upd_server (\<lambda>v. v\<lparr>sv_tcp_enable := True\<rparr>) s)))))"

text \<open>The constructor, on a state that holds no server yet.\<close>

definition new_server :: "'w sys \<Rightarrow> int \<Rightarrow> ('w, 'm) servers_scheme \<Rightarrow> ('w, 'm) servers_scheme res" where
  "new_server S port s =
     bindR (new_eventloop S NULL (-1) s) (\<lambda>(l, s).
     bindR (new_looptpool l False) (\<lambda>lp.
     bindR (new_acceptor S port l s) (\<lambda>(a, s).
       let s = s\<lparr>rt_server := \<lparr>sv_base = l, sv_pool = lp, sv_acceptor = a, sv_port = port,
                 sv_tcp_enable = False, sv_events = [], sv_readcb = None, sv_writecb = None,
                 sv_eventcb = None\<rparr>\<rparr>
       in if port > 0 then enable_tcp S port s else Inr s)))"

section \<open>Events\<close>

text \<open>
  \<^verbatim>\<open>addev\<close>: for a \<^verbatim>\<open>udpevent\<close> the event callback is replaced by a lambda that captures the locals
  by reference.
\<close>

definition addev :: "'w sys \<Rightarrow> addr \<Rightarrow> ('w, 'm) servers_scheme \<Rightarrow> ('w, 'm) servers_scheme res" where
  "addev S p s =
     bindR (class_of p s) (\<lambda>c.
     bindR (if c = C_udpevent then ud_setecb S p (Some Dangling_closure) s else Inr s) (\<lambda>s.
     bindR (be_enable_listen S p s) (\<lambda>s. Inr (remember p s))))"

definition modev :: "'w sys \<Rightarrow> addr \<Rightarrow> ('w, 'm) servers_scheme \<Rightarrow> ('w, 'm) servers_scheme res" where
  "modev S p s = be_update_ep S p s"

definition delev ::
  "'w sys \<Rightarrow> (callback \<Rightarrow> ('w, 'm) servers_scheme \<Rightarrow> ('w, 'm) servers_scheme res) \<Rightarrow> addr \<Rightarrow>
   ('w, 'm) servers_scheme \<Rightarrow> ('w, 'm) servers_scheme res" where
  "delev S user p s = bindR (be_del_listen S (run_user S user) p s) (handle_close p)"

definition add_udpev ::
  "'w sys \<Rightarrow> int \<Rightarrow> nat option \<Rightarrow> ('w, 'm) servers_scheme \<Rightarrow> (addr \<times> ('w, 'm) servers_scheme) res" where
  "add_udpev S port rcb s =
     bindR (dispatch s) (\<lambda>(l, s).
     bindR (new_udpevent S l port s) (\<lambda>(p, s).
     bindR (ud_setcb S p rcb (Some Dangling_closure) s) (\<lambda>s.
     bindR (ud_enable_listen S p s) (\<lambda>s. Inr (p, remember p s)))))"

definition add_sev ::
  "'w sys \<Rightarrow> int \<Rightarrow> nat option \<Rightarrow> ('w, 'm) servers_scheme \<Rightarrow> (addr \<times> ('w, 'm) servers_scheme) res" where
  "add_sev S signo cb s =
     bindR (new_signalevent S (sv_base (rt_server s)) s) (\<lambda>(p, s).
     bindR (add_signal S signo s) (\<lambda>s.
     bindR (sg_setcb p cb s) (\<lambda>s.
     bindR (sg_enable_listen S p s) (\<lambda>s. Inr (p, remember p s)))))"

definition add_sevs ::
  "'w sys \<Rightarrow> int list \<Rightarrow> nat option \<Rightarrow> ('w, 'm) servers_scheme \<Rightarrow> (addr \<times> ('w, 'm) servers_scheme) res" where
  "add_sevs S signals cb s =
     bindR (new_signalevent S (sv_base (rt_server s)) s) (\<lambda>(p, s).
     bindR (add_signals S signals s) (\<lambda>s.
     bindR (sg_setcb p cb s) (\<lambda>s.
     bindR (sg_enable_listen S p s) (\<lambda>s. Inr (p, remember p s)))))"

definition add_timeev ::
  "'w sys \<Rightarrow> int \<Rightarrow> bool \<Rightarrow> callback option \<Rightarrow> ('w, 'm) servers_scheme \<Rightarrow>
   (addr \<times> ('w, 'm) servers_scheme) res" where
  "add_timeev S timeout_ms periodic cb s =
     bindR (dispatch s) (\<lambda>(l, s).
     bindR (new_timerevent S l timeout_ms periodic s) (\<lambda>(p, s).
     bindR (tm_setcb p cb s) (\<lambda>s.
     bindR (tm_enable_listen S p s) (\<lambda>s. Inr (p, remember p s)))))"

text \<open>The destructor, with those of the members \<^verbatim>\<open>acceptor_\<close>, \<^verbatim>\<open>pool_\<close> and \<^verbatim>\<open>base_\<close>.\<close>

definition close_delete ::
  "'w sys \<Rightarrow> (callback \<Rightarrow> ('w, 'm) servers_scheme \<Rightarrow> ('w, 'm) servers_scheme res) \<Rightarrow> addr \<Rightarrow>
   ('w, 'm) servers_scheme \<Rightarrow> ('w, 'm) servers_scheme res" where
  "close_delete S user p s = bindR (be_close S (run_user S user) p s) (be_delete S (run_user S user) p)"

definition delete_server ::
  "'w sys \<Rightarrow> (callback \<Rightarrow> ('w, 'm) servers_scheme \<Rightarrow> ('w, 'm) servers_scheme res) \<Rightarrow>
   ('w, 'm) servers_scheme \<Rightarrow> ('w, 'm) servers_scheme res" where
  "delete_server S user s =
     bindR (sv_stop S user s) (\<lambda>s.
     bindR (if sv_tcp_enable (rt_server s) then ac_stop S (sv_acceptor (rt_server s)) s else Inr s) (\<lambda>s.
     bindR (delete_all (close_delete S user) (sv_events (rt_server s)) s) (\<lambda>s.
     let s = upd_server (\<lambda>v. v\<lparr>sv_events := []\<rparr>) s
     in bindR (delete_acceptor S (sv_acceptor (rt_server s)) s) (\<lambda>s.
        bindR (on_pool (delete_looptpool S (run_event S user) (sv_del S user)) s) (\<lambda>s.
          delete_eventloop S (sv_del S user) (sv_base (rt_server s)) s)))))"

end
