(* ===== verification/Eventloop_Laws.thy ===== *)
theory Eventloop_Laws
  imports Eventloop Sample_Kernel
begin

text \<open>
  The laws of the reactor: the list of listening events, the load counter and the interest
  list of epoll stay in step, and a loop whose shutdown flag is set returns. A sample loop made by
  the constructor shows that the hypotheses can hold.
\<close>

section \<open>Registered events\<close>

text \<open>
  What the interest list of a loop should be: for every event of \<^verbatim>\<open>evlist_\<close>, its descriptor
  with its mask and its address.
\<close>

definition entry :: "(addr \<Rightarrow> event option) \<Rightarrow> addr \<Rightarrow> fd \<times> epoll_event" where
  "entry h p = (ev_fd (the (h p)), ev_events (the (h p)), p)"

definition registered :: "(addr \<Rightarrow> event option) \<Rightarrow> addr list \<Rightarrow> fd \<Rightarrow> epoll_event option" where
  "registered h ps = map_of (map (entry h) ps)"

definition live_in :: "addr \<Rightarrow> (addr \<Rightarrow> event option) \<Rightarrow> addr \<Rightarrow> bool" where
  "live_in l h p \<longleftrightarrow> p \<noteq> NULL \<and> (\<exists>e. h p = Some e \<and> ev_loop e = l)"

definition loop_sync ::
  "addr \<Rightarrow> eventloop \<Rightarrow> (addr \<Rightarrow> event option) \<Rightarrow> (fd \<Rightarrow> epoll_event option) \<Rightarrow> bool" where
  "loop_sync l L h reg \<longleftrightarrow>
     distinct (el_evlist L) \<and> (\<forall>p \<in> set (el_evlist L). live_in l h p) \<and>
     inj_on (\<lambda>p. ev_fd (the (h p))) (set (el_evlist L)) \<and>
     el_load L = of_nat (length (el_evlist L)) \<and> reg = registered h (el_evlist L)"

definition synced :: "'w interest \<Rightarrow> addr \<Rightarrow> ('w, 'm) reactor_scheme \<Rightarrow> bool" where
  "synced interest l s \<longleftrightarrow>
     l \<noteq> NULL \<and> NULL < rt_next s \<and> (\<forall>q \<ge> rt_next s. rt_events s q = None) \<and>
     (\<exists>L. rt_loops s l = Some L \<and> loop_sync l L (rt_events s) (interest (rt_world s) (el_epfd L)))"

section \<open>Operations on events in any order\<close>

datatype ev_op =
    Op_new fd u32
  | Op_setcb addr "callback option" "callback option" "callback option"
  | Op_enable_listen addr
  | Op_del_listen addr
  | Op_enable_events addr u32
  | Op_disable_events addr u32
  | Op_reset_events addr

fun ev_apply :: "'w sys \<Rightarrow> addr \<Rightarrow> ev_op \<Rightarrow> ('w, 'm) reactor_scheme \<Rightarrow> ('w, 'm) reactor_scheme res" where
  "ev_apply S l (Op_new fd m) s = Inr (snd (new_event l fd m s))"
| "ev_apply S l (Op_setcb p r w e) s = setcb p r w e s"
| "ev_apply S l (Op_enable_listen p) s = enable_listen S p s"
| "ev_apply S l (Op_del_listen p) s = del_listen S p s"
| "ev_apply S l (Op_enable_events p m) s = enable_events S p m s"
| "ev_apply S l (Op_disable_events p m) s = disable_events S p m s"
| "ev_apply S l (Op_reset_events p) s = reset_events S p s"

text \<open>
  How a client may use them: listening starts for an event that does not listen yet, on a
  descriptor no other event of the loop has; the rest is for events that listen.
\<close>

definition listens :: "(fd \<Rightarrow> fd \<Rightarrow> bool) \<Rightarrow> addr \<Rightarrow> addr \<Rightarrow> ('w, 'm) reactor_scheme \<Rightarrow> bool" where
  "listens valid l p s \<longleftrightarrow>
     (case rt_loops s l of None \<Rightarrow> False | Some L \<Rightarrow>
        p \<in> set (el_evlist L) \<and> valid (el_epfd L) (ev_fd (the (rt_events s p))))"

fun ev_legal :: "(fd \<Rightarrow> fd \<Rightarrow> bool) \<Rightarrow> addr \<Rightarrow> ev_op \<Rightarrow> ('w, 'm) reactor_scheme \<Rightarrow> bool" where
  "ev_legal valid l (Op_new fd m) s \<longleftrightarrow> True"
| "ev_legal valid l (Op_setcb p r w e) s \<longleftrightarrow> live_in l (rt_events s) p"
| "ev_legal valid l (Op_enable_listen p) s \<longleftrightarrow>
     live_in l (rt_events s) p \<and>
     (case rt_loops s l of None \<Rightarrow> False | Some L \<Rightarrow>
        (\<forall>q \<in> set (el_evlist L). ev_fd (the (rt_events s q)) \<noteq> ev_fd (the (rt_events s p))) \<and>
        valid (el_epfd L) (ev_fd (the (rt_events s p))))"
| "ev_legal valid l (Op_del_listen p) s \<longleftrightarrow> listens valid l p s"
| "ev_legal valid l (Op_enable_events p m) s \<longleftrightarrow> listens valid l p s"
| "ev_legal valid l (Op_disable_events p m) s \<longleftrightarrow> listens valid l p s"
| "ev_legal valid l (Op_reset_events p) s \<longleftrightarrow> listens valid l p s"

fun ev_run :: "'w sys \<Rightarrow> addr \<Rightarrow> ev_op list \<Rightarrow> ('w, 'm) reactor_scheme \<Rightarrow> ('w, 'm) reactor_scheme res" where
  "ev_run S l [] s = Inr s"
| "ev_run S l (a # as) s = bindR (ev_apply S l a s) (ev_run S l as)"

fun ev_legal_run ::
  "'w sys \<Rightarrow> (fd \<Rightarrow> fd \<Rightarrow> bool) \<Rightarrow> addr \<Rightarrow> ev_op list \<Rightarrow> ('w, 'm) reactor_scheme \<Rightarrow> bool" where
  "ev_legal_run S valid l [] s \<longleftrightarrow> True"
| "ev_legal_run S valid l (a # as) s \<longleftrightarrow>
     ev_legal valid l a s \<and>
     (case ev_apply S l a s of Inl _ \<Rightarrow> False | Inr s' \<Rightarrow> ev_legal_run S valid l as s')"

text \<open>What the legal operations do to the list of listening events.\<close>

fun spec_evlist :: "ev_op \<Rightarrow> addr list \<Rightarrow> addr list" where
  "spec_evlist (Op_enable_listen p) ps = ps @ [p]"
| "spec_evlist (Op_del_listen p) ps = remove1 p ps"
| "spec_evlist _ ps = ps"

section \<open>Facts about the heaps\<close>

lemma put_more [simp]:
  "reactor.more (put_event p e s) = reactor.more s" "reactor.more (put_loop l L s) = reactor.more s"
  by (simp_all add: put_event_def put_loop_def)

lemma put_event_simps [simp]:
  "rt_events (put_event p e s) = (rt_events s)(p \<mapsto> e)" "rt_loops (put_event p e s) = rt_loops s"
  "rt_world (put_event p e s) = rt_world s" "rt_next (put_event p e s) = rt_next s"
  by (simp_all add: put_event_def)

lemma put_loop_simps [simp]:
  "rt_loops (put_loop l L s) = (rt_loops s)(l \<mapsto> L)" "rt_events (put_loop l L s) = rt_events s"
  "rt_world (put_loop l L s) = rt_world s" "rt_next (put_loop l L s) = rt_next s"
  by (simp_all add: put_loop_def)

lemma upd_event_live [simp]:
  "p \<noteq> NULL \<Longrightarrow> rt_events s p = Some e \<Longrightarrow> upd_event p f s = Inr (put_event p (f e) s)"
  by (simp add: upd_event_def)

lemma upd_loop_live [simp]:
  "l \<noteq> NULL \<Longrightarrow> rt_loops s l = Some L \<Longrightarrow> upd_loop l f s = Inr (put_loop l (f L) s)"
  by (simp add: upd_loop_def)

lemma call_simps:
  "f (rt_world s) = (r, w) \<Longrightarrow> call f s = (r, s\<lparr>rt_world := w\<rparr>)"
  by (simp add: call_def)

lemma registered_Cons:
  "registered h (p # ps) = (registered h ps)(ev_fd (the (h p)) \<mapsto> (ev_events (the (h p)), p))"
  by (simp add: registered_def entry_def)

lemma registered_cong:
  "(\<And>p. p \<in> set ps \<Longrightarrow> entry h p = entry h' p) \<Longrightarrow> registered h ps = registered h' ps"
  unfolding registered_def by (metis map_cong)

lemma entry_upd [simp]:
  "q \<noteq> p \<Longrightarrow> entry (h(p \<mapsto> e)) q = entry h q" "entry (h(p \<mapsto> e)) p = (ev_fd e, ev_events e, p)"
  by (simp_all add: entry_def)

lemma registered_in:
  assumes "distinct ps" "inj_on (\<lambda>p. ev_fd (the (h p))) (set ps)" "p \<in> set ps"
  shows "registered h ps (ev_fd (the (h p))) = Some (ev_events (the (h p)), p)"
  unfolding registered_def
proof (rule map_of_is_SomeI)
  show "distinct (map fst (map (entry h) ps))"
    using assms by (auto simp: distinct_map comp_def entry_def)
  show "(ev_fd (the (h p)), ev_events (the (h p)), p) \<in> set (map (entry h) ps)"
    using assms(3) by (auto simp: entry_def)
qed

lemma registered_notin:
  "registered h ps fd = None \<longleftrightarrow> (\<forall>q \<in> set ps. ev_fd (the (h q)) \<noteq> fd)"
  by (simp add: registered_def map_of_eq_None_iff entry_def image_image) blast

lemma registered_snoc:
  assumes "\<forall>q \<in> set ps. ev_fd (the (h q)) \<noteq> ev_fd (the (h p))"
  shows "registered h (ps @ [p]) = (registered h ps)(ev_fd (the (h p)) \<mapsto> (ev_events (the (h p)), p))"
proof
  fix fd
  show "registered h (ps @ [p]) fd =
        ((registered h ps)(ev_fd (the (h p)) \<mapsto> (ev_events (the (h p)), p))) fd"
    using registered_notin [of h ps fd] assms
    by (auto simp: registered_def map_add_def entry_def split: option.splits)
qed

lemma registered_del:
  assumes "distinct ps" "inj_on (\<lambda>p. ev_fd (the (h p))) (set ps)" "p \<in> set ps"
  shows "registered h (remove1 p ps) = (registered h ps)(ev_fd (the (h p)) := None)"
  using assms
proof (induction ps)
  case Nil
  then show ?case by simp
next
  case (Cons q ps)
  show ?case
  proof (cases "q = p")
    case True
    with Cons.prems have "registered h ps (ev_fd (the (h p))) = None"
      by (auto simp: registered_notin inj_on_def)
    then show ?thesis using True unfolding registered_Cons by (auto simp: fun_eq_iff)
  next
    case False
    with Cons.prems have "ev_fd (the (h q)) \<noteq> ev_fd (the (h p))" by (auto simp: inj_on_def)
    moreover have "registered h (remove1 p ps) = (registered h ps)(ev_fd (the (h p)) := None)"
      using Cons False by (auto simp: inj_on_def)
    ultimately show ?thesis using False by (auto simp: registered_Cons fun_eq_iff)
  qed
qed

lemma registered_mod:
  assumes "distinct ps" "inj_on (\<lambda>p. ev_fd (the (h p))) (set ps)" "p \<in> set ps" "h p = Some e"
    and fd: "ev_fd e' = ev_fd e"
  shows "registered (h(p \<mapsto> e')) ps = (registered h ps)(ev_fd e \<mapsto> (ev_events e', p))"
  using assms(1-4)
proof (induction ps)
  case Nil
  then show ?case by simp
next
  case (Cons q ps)
  show ?case
  proof (cases "q = p")
    case True
    with Cons.prems have "registered (h(p \<mapsto> e')) ps = registered h ps"
      by (intro registered_cong) (auto simp: entry_def)
    then show ?thesis using True Cons.prems(4) fd unfolding registered_Cons by (auto simp: fun_eq_iff)
  next
    case False
    with Cons.prems have "ev_fd (the (h q)) \<noteq> ev_fd e" by (auto simp: inj_on_def)
    moreover have "registered (h(p \<mapsto> e')) ps = (registered h ps)(ev_fd e \<mapsto> (ev_events e', p))"
      using Cons.prems False by (intro Cons.IH) (simp_all add: inj_on_def)
    ultimately show ?thesis using False unfolding registered_Cons by (auto simp: fun_eq_iff)
  qed
qed

section \<open>The operations keep the lists in step\<close>

lemma epoll_ctl_done:
  assumes "epoll_ctl_spec S interest" "epoll_ctl_live S interest valid" "valid ep fd"
    and "op = EPOLL_CTL_ADD \<longleftrightarrow> interest w ep fd = None"
  obtains w' where "sys_epoll_ctl S ep op fd e w = (Inr (), w')"
    "interest w' = set_interest ep fd (if op = EPOLL_CTL_DEL then None else e) (interest w)"
proof -
  obtain w' where w': "sys_epoll_ctl S ep op fd e w = (Inr (), w')"
    using assms(2) [unfolded epoll_ctl_live_def, rule_format, OF conjI [OF assms(3,4)]] by blast
  have "case (Inr () :: int + unit) of Inl _ \<Rightarrow> interest w' = interest w
      | Inr _ \<Rightarrow> (op = EPOLL_CTL_ADD \<longleftrightarrow> interest w ep fd = None) \<and>
          interest w' = set_interest ep fd (if op = EPOLL_CTL_DEL then None else e) (interest w)"
    by (rule assms(1) [unfolded epoll_ctl_spec_def, rule_format, OF w'])
  then have "interest w' = set_interest ep fd (if op = EPOLL_CTL_DEL then None else e) (interest w)"
    by (simp only: sum.case)
  with w' show ?thesis by (rule that)
qed

lemma syncedD:
  assumes "synced interest l s"
  obtains L where "l \<noteq> NULL" "rt_loops s l = Some L"
    "loop_sync l L (rt_events s) (interest (rt_world s) (el_epfd L))"
  using assms by (auto simp: synced_def)

lemma sync_enable_listen:
  assumes S: "epoll_ctl_spec S interest" "epoll_ctl_live S interest valid"
    and sync: "synced interest l s" and legal: "ev_legal valid l (Op_enable_listen p) s"
  shows "\<exists>s'. enable_listen S p s = Inr s' \<and> synced interest l s' \<and>
              rt_loops s' = (rt_loops s)(l \<mapsto> (the (rt_loops s l))
                \<lparr>el_load := el_load (the (rt_loops s l)) + 1,
                 el_evlist := el_evlist (the (rt_loops s l)) @ [p]\<rparr>) \<and>
              rt_events s' = rt_events s \<and> rt_next s' = rt_next s \<and> reactor.more s' = reactor.more s"
proof -
  obtain L where L: "l \<noteq> NULL" "rt_loops s l = Some L"
    and ls: "loop_sync l L (rt_events s) (interest (rt_world s) (el_epfd L))"
    using sync by (rule syncedD)
  obtain e where e: "p \<noteq> NULL" "rt_events s p = Some e" "ev_loop e = l"
    and new: "\<forall>q \<in> set (el_evlist L). ev_fd (the (rt_events s q)) \<noteq> ev_fd e"
    and v: "valid (el_epfd L) (ev_fd e)"
    using legal L by (auto simp: live_in_def)
  have "interest (rt_world s) (el_epfd L) (ev_fd e) = None"
    using ls new by (simp add: loop_sync_def registered_notin)
  then obtain w' where w': "sys_epoll_ctl S (el_epfd L) EPOLL_CTL_ADD (ev_fd e) (Some (ev_events e, p))
      (rt_world s) = (Inr (), w')"
      "interest w' = set_interest (el_epfd L) (ev_fd e) (Some (ev_events e, p)) (interest (rt_world s))"
    using epoll_ctl_done [OF S v, of EPOLL_CTL_ADD "rt_world s" "Some (ev_events e, p)"] by auto
  let ?L = "L\<lparr>el_load := el_load L + 1, el_evlist := el_evlist L @ [p]\<rparr>"
  have "loop_sync l ?L (rt_events s) (interest w' (el_epfd L))"
    using ls new e w'(2)
    by (auto simp: loop_sync_def set_interest_def registered_snoc live_in_def)
  then show ?thesis
    using sync L e w'(1)
    by (simp add: enable_listen_def add_event_def call_simps synced_def)
qed

lemma sync_del_listen:
  assumes S: "epoll_ctl_spec S interest" "epoll_ctl_live S interest valid"
    and sync: "synced interest l s" and legal: "listens valid l p s"
  shows "\<exists>s'. del_listen S p s = Inr s' \<and> synced interest l s' \<and>
              rt_loops s' = (rt_loops s)(l \<mapsto> (the (rt_loops s l))
                \<lparr>el_load := el_load (the (rt_loops s l)) - 1,
                 el_evlist := remove1 p (el_evlist (the (rt_loops s l)))\<rparr>) \<and>
              rt_events s' = rt_events s \<and> rt_next s' = rt_next s \<and> reactor.more s' = reactor.more s"
proof -
  obtain L where L: "l \<noteq> NULL" "rt_loops s l = Some L"
    and ls: "loop_sync l L (rt_events s) (interest (rt_world s) (el_epfd L))"
    using sync by (rule syncedD)
  have p: "p \<in> set (el_evlist L)" using legal L by (simp add: listens_def)
  then obtain e where e: "p \<noteq> NULL" "rt_events s p = Some e" "ev_loop e = l"
    and v: "valid (el_epfd L) (ev_fd e)"
    using legal L ls by (auto simp: live_in_def loop_sync_def listens_def)
  have "interest (rt_world s) (el_epfd L) (ev_fd e) = Some (ev_events e, p)"
    using ls p registered_in [of "el_evlist L" "rt_events s" p] e by (simp add: loop_sync_def)
  then obtain w' where w': "sys_epoll_ctl S (el_epfd L) EPOLL_CTL_DEL (ev_fd e) None (rt_world s) =
      (Inr (), w')" "interest w' = set_interest (el_epfd L) (ev_fd e) None (interest (rt_world s))"
    using epoll_ctl_done [OF S v, of EPOLL_CTL_DEL "rt_world s" None] by auto
  let ?L = "L\<lparr>el_load := el_load L - 1, el_evlist := remove1 p (el_evlist L)\<rparr>"
  have "loop_sync l ?L (rt_events s) (interest w' (el_epfd L))"
    unfolding loop_sync_def
  proof (intro conjI ballI)
    show "inj_on (\<lambda>q. ev_fd (the (rt_events s q))) (set (el_evlist ?L))"
      using ls by (auto simp: loop_sync_def intro: inj_on_subset)
    show "el_load ?L = of_nat (length (el_evlist ?L))"
      using ls p length_pos_if_in_set [OF p]
      by (simp add: loop_sync_def length_remove1 of_nat_diff Suc_leI del: One_nat_def length_greater_0_conv)
    show "interest w' (el_epfd L) = registered (rt_events s) (el_evlist ?L)"
      using ls p e w'(2) registered_del [of "el_evlist L" "rt_events s" p]
      by (simp add: loop_sync_def set_interest_def)
  qed (use ls in \<open>auto simp: loop_sync_def\<close>)
  moreover have "removeAll p (el_evlist L) = remove1 p (el_evlist L)"
    using ls by (simp add: loop_sync_def distinct_remove1_removeAll)
  ultimately show ?thesis
    using sync L e w'(1)
    by (simp add: del_listen_def del_event_def call_simps synced_def)
qed

text \<open>Changing the mask of a listening event and telling epoll.\<close>

lemma sync_set_events:
  assumes S: "epoll_ctl_spec S interest" "epoll_ctl_live S interest valid"
    and sync: "synced interest l s" and legal: "listens valid l p s"
  shows "\<exists>s'. bindR (upd_event p (\<lambda>e. e\<lparr>ev_events := f (ev_events e)\<rparr>) s) (update_ep S p) = Inr s' \<and>
              synced interest l s' \<and> rt_loops s' = rt_loops s \<and>
              rt_events s' = (rt_events s)(p \<mapsto> (the (rt_events s p))
                \<lparr>ev_events := f (ev_events (the (rt_events s p)))\<rparr>) \<and>
              rt_next s' = rt_next s \<and> reactor.more s' = reactor.more s"
proof -
  obtain L where L: "l \<noteq> NULL" "rt_loops s l = Some L"
    and ls: "loop_sync l L (rt_events s) (interest (rt_world s) (el_epfd L))"
    using sync by (rule syncedD)
  have p: "p \<in> set (el_evlist L)" using legal L by (simp add: listens_def)
  then obtain e where e: "p \<noteq> NULL" "rt_events s p = Some e" "ev_loop e = l"
    and v: "valid (el_epfd L) (ev_fd e)"
    using legal L ls by (auto simp: live_in_def loop_sync_def listens_def)
  let ?e = "e\<lparr>ev_events := f (ev_events e)\<rparr>"
  let ?h = "(rt_events s)(p \<mapsto> ?e)"
  have "interest (rt_world s) (el_epfd L) (ev_fd e) = Some (ev_events e, p)"
    using ls p registered_in [of "el_evlist L" "rt_events s" p] e by (simp add: loop_sync_def)
  then obtain w' where w': "sys_epoll_ctl S (el_epfd L) EPOLL_CTL_MOD (ev_fd e)
      (Some (f (ev_events e), p)) (rt_world s) = (Inr (), w')"
      "interest w' = set_interest (el_epfd L) (ev_fd e) (Some (f (ev_events e), p)) (interest (rt_world s))"
    using epoll_ctl_done [OF S v, of EPOLL_CTL_MOD "rt_world s" "Some (f (ev_events e), p)"] by auto
  have fds: "ev_fd (the (?h q)) = ev_fd (the (rt_events s q))" for q using e by simp
  have "loop_sync l L ?h (interest w' (el_epfd L))"
    using ls p e w'(2) registered_mod [of "el_evlist L" "rt_events s" p e ?e]
    unfolding loop_sync_def fds by (auto simp: set_interest_def live_in_def)
  then show ?thesis
    using sync L e w'(1)
    by (auto simp: update_ep_def mod_event_def call_simps synced_def)
qed

lemma sync_setcb:
  assumes sync: "synced interest l s" and "live_in l (rt_events s) p"
  shows "\<exists>s'. setcb p r w c s = Inr s' \<and> synced interest l s' \<and> rt_loops s' = rt_loops s"
proof -
  obtain L where L: "l \<noteq> NULL" "rt_loops s l = Some L"
    and ls: "loop_sync l L (rt_events s) (interest (rt_world s) (el_epfd L))"
    using sync by (rule syncedD)
  obtain e where e: "p \<noteq> NULL" "rt_events s p = Some e" "ev_loop e = l"
    using assms(2) by (auto simp: live_in_def)
  let ?e = "e\<lparr>ev_readcb := r, ev_writecb := w, ev_eventcb := c\<rparr>"
  let ?h = "(rt_events s)(p \<mapsto> ?e)"
  have fds: "ev_fd (the (?h q)) = ev_fd (the (rt_events s q))" for q using e by simp
  have "registered ?h (el_evlist L) = registered (rt_events s) (el_evlist L)"
    using e by (intro registered_cong) (simp add: entry_def)
  then have "loop_sync l L ?h (interest (rt_world s) (el_epfd L))"
    using ls e unfolding loop_sync_def fds by (auto simp: live_in_def)
  then show ?thesis using sync L e by (auto simp: setcb_def synced_def)
qed

lemma sync_new_event:
  assumes sync: "synced interest l s"
  shows "synced interest l (snd (new_event l' fd m s))"
proof -
  obtain L where L: "l \<noteq> NULL" "rt_loops s l = Some L"
    and ls: "loop_sync l L (rt_events s) (interest (rt_world s) (el_epfd L))"
    using sync by (rule syncedD)
  have fresh: "rt_events s (rt_next s) = None" using sync by (simp add: synced_def)
  then have notin: "rt_next s \<notin> set (el_evlist L)" using ls by (auto simp: loop_sync_def live_in_def)
  let ?e = "\<lparr>ev_loop = l', ev_fd = fd, ev_events = m, ev_revents = None,
         ev_readcb = None, ev_writecb = None, ev_eventcb = None\<rparr>"
  let ?h = "(rt_events s)(rt_next s \<mapsto> ?e)"
  have same: "?h q = rt_events s q" if "q \<in> set (el_evlist L)" for q using that notin by auto
  have "registered ?h (el_evlist L) = registered (rt_events s) (el_evlist L)"
    using same by (intro registered_cong) (simp add: entry_def)
  moreover have "inj_on (\<lambda>p. ev_fd (the (?h p))) (set (el_evlist L)) \<longleftrightarrow>
      inj_on (\<lambda>p. ev_fd (the (rt_events s p))) (set (el_evlist L))"
    using same by (intro inj_on_cong) simp
  ultimately have "loop_sync l L ?h (interest (rt_world s) (el_epfd L))"
    using ls same unfolding loop_sync_def by (auto simp: live_in_def)
  then show ?thesis using sync L by (auto simp: new_event_def synced_def)
qed

lemma ev_apply_sync:
  assumes "epoll_ctl_spec S interest" "epoll_ctl_live S interest valid"
    and "synced interest l s" and "ev_legal valid l a s"
  shows "\<exists>s'. ev_apply S l a s = Inr s' \<and> synced interest l s' \<and>
              el_evlist (the (rt_loops s' l)) = spec_evlist a (el_evlist (the (rt_loops s l)))"
proof (cases a)
  case (Op_new fd m)
  then show ?thesis using sync_new_event [OF assms(3), of l fd m] by (simp add: new_event_def)
next
  case (Op_setcb p r w c)
  then show ?thesis using sync_setcb [OF assms(3), of p r w c] assms(4) by auto
next
  case (Op_enable_listen p)
  then show ?thesis using sync_enable_listen [OF assms(1-3), of p] assms(4) by auto
next
  case (Op_del_listen p)
  then show ?thesis using sync_del_listen [OF assms(1-3), of p] assms(4) by auto
next
  case (Op_enable_events p m)
  then show ?thesis
    using sync_set_events [OF assms(1-3), of p "\<lambda>x. x OR m"] assms(4) by (auto simp: enable_events_def)
next
  case (Op_disable_events p m)
  then show ?thesis
    using sync_set_events [OF assms(1-3), of p "\<lambda>x. x AND NOT m"] assms(4)
    by (auto simp: disable_events_def)
next
  case (Op_reset_events p)
  then show ?thesis
    using sync_set_events [OF assms(1-3), of p "\<lambda>x. 0"] assms(4) by (auto simp: reset_events_def)
qed

lemma ev_run_sync:
  assumes "epoll_ctl_spec S interest" "epoll_ctl_live S interest valid"
    and "synced interest l s" and "ev_legal_run S valid l as s"
  shows "\<exists>s'. ev_run S l as s = Inr s' \<and> synced interest l s' \<and>
              el_evlist (the (rt_loops s' l)) =
                fold spec_evlist as (el_evlist (the (rt_loops s l)))"
  using assms(3,4)
proof (induction as arbitrary: s)
  case Nil
  then show ?case by simp
next
  case (Cons a as)
  then obtain s1 where "ev_apply S l a s = Inr s1" "synced interest l s1"
      "el_evlist (the (rt_loops s1 l)) = spec_evlist a (el_evlist (the (rt_loops s l)))"
    using ev_apply_sync [OF assms(1,2), of l s a] by auto
  with Cons.IH [of s1] Cons.prems show ?case by auto
qed

lemma synced_interest:
  assumes "synced interest l s"
  shows "\<exists>L. rt_loops s l = Some L \<and>
             interest (rt_world s) (el_epfd L) = registered (rt_events s) (el_evlist L) \<and>
             el_load L = of_nat (card (dom (interest (rt_world s) (el_epfd L))))"
proof -
  obtain L where L: "rt_loops s l = Some L"
    and ls: "loop_sync l L (rt_events s) (interest (rt_world s) (el_epfd L))"
    using assms by (rule syncedD)
  have "dom (registered (rt_events s) (el_evlist L)) = (\<lambda>p. ev_fd (the (rt_events s p))) ` set (el_evlist L)"
    by (simp add: registered_def dom_map_of_conv_image_fst image_image entry_def)
  then have "card (dom (registered (rt_events s) (el_evlist L))) = length (el_evlist L)"
    using ls by (simp add: loop_sync_def card_image distinct_card)
  with L ls show ?thesis by (simp add: loop_sync_def)
qed

section \<open>Stopping the loop\<close>

definition stopped :: "addr \<Rightarrow> ('w, 'm) reactor_scheme \<Rightarrow> bool" where
  "stopped l s \<longleftrightarrow> l \<noteq> NULL \<and> (\<exists>L. rt_loops s l = Some L \<and> el_shutdown L)"

lemma read_eventfd_stops:
  assumes "read_eventfd S l s = Inr s'"
  shows "stopped l s'"
proof -
  obtain L where L: "l \<noteq> NULL" "rt_loops s l = Some L"
    using assms by (auto simp: read_eventfd_def bindR_eq_Inr deref_eq_Inr)
  obtain r w where "sys_read S (el_eventfd L) 8 (rt_world s) = (r, w)" by fastforce
  then have "s' = put_loop l (L\<lparr>el_shutdown := True\<rparr>) (s\<lparr>rt_world := w\<rparr>)"
    using assms L by (auto simp: read_eventfd_def call_simps split: sum.splits if_splits)
  then show ?thesis using L by (simp add: stopped_def)
qed

lemma loop_stopped:
  assumes "stopped l s"
  shows "loop S run del l s = Some (Inr s)"
  using assms by (subst loop.simps) (auto simp: loop_turn_def stopped_def)

section \<open>A sample reactor\<close>

definition sample_reactor :: "kernel reactor" where
  "sample_reactor = \<lparr>rt_events = Map.empty, rt_loops = Map.empty, rt_world = kernel0, rt_next = 1\<rparr>"

text \<open>The loop that \<^verbatim>\<open>new eventloop(nullptr, -1)\<close> makes.\<close>

definition sample_event :: event where
  "sample_event = \<lparr>ev_loop = 1, ev_fd = 4, ev_events = EPOLLIN, ev_revents = None,
     ev_readcb = Some (Read_eventfd 1), ev_writecb = None, ev_eventcb = None\<rparr>"

definition sample_eventloop :: eventloop where
  "sample_eventloop = \<lparr>el_epfd = 3, el_eventfd = 4, el_timeout = -1, el_load = 1, el_shutdown = False,
     el_evlist = [2], el_nevents = 65536, el_delque = [], el_baseloop = 0\<rparr>"

definition sample_loop :: "kernel reactor" where
  "sample_loop =
     \<lparr>rt_events = [2 \<mapsto> sample_event], rt_loops = [1 \<mapsto> sample_eventloop],
      rt_world = kernel0\<lparr>k_interest := set_interest 3 4 (Some (EPOLLIN, 2)) (\<lambda>_ _. None),
                         k_fds := [3, 4], k_next := 5\<rparr>,
      rt_next = 3\<rparr>"

lemma sample_loop_created: "new_eventloop sample_sys NULL (-1) sample_reactor = Inr (1, sample_loop)"
  by (simp add: new_eventloop_def create_eventfd_def new_event_def setcb_def add_event_def
      upd_loop_def upd_event_def put_loop_def put_event_def deref_def call_def sample_sys_def
      k_open_def k_ctl_def sample_reactor_def kernel0_def sample_loop_def
      sample_event_def sample_eventloop_def Let_def numeral_2_eq_2 numeral_3_eq_3)

lemma sample_synced: "synced k_interest 1 sample_loop"
  by (auto simp: synced_def sample_loop_def loop_sync_def live_in_def registered_def entry_def
      sample_event_def sample_eventloop_def set_interest_def)

section \<open>Properties\<close>

text \<open>
  C11. Registration: whatever a client does with the events of a loop, as long as it starts
  listening on a new descriptor and changes or stops only events that listen, no call faults,
  \<^verbatim>\<open>evlist_\<close> is the list the calls describe, the interest list of epoll holds exactly these
  events with their current masks and addresses, and \<^verbatim>\<open>getload\<close> is their number.
\<close>

theorem eventloop_registration_sync:
  assumes "epoll_ctl_spec S interest" and "epoll_ctl_live S interest valid"
    and "synced interest l s" and "ev_legal_run S valid l as s"
  shows "\<exists>s' L. ev_run S l as s = Inr s' \<and> rt_loops s' l = Some L \<and>
           el_evlist L = fold spec_evlist as (el_evlist (the (rt_loops s l))) \<and>
           interest (rt_world s') (el_epfd L) = registered (rt_events s') (el_evlist L) \<and>
           getload l s' = Inr (sint (of_nat (card (dom (interest (rt_world s') (el_epfd L)))) :: u32))"
proof -
  obtain s' where s': "ev_run S l as s = Inr s'" "synced interest l s'"
      "el_evlist (the (rt_loops s' l)) = fold spec_evlist as (el_evlist (the (rt_loops s l)))"
    using ev_run_sync [OF assms] by blast
  moreover obtain L where "rt_loops s' l = Some L"
      "interest (rt_world s') (el_epfd L) = registered (rt_events s') (el_evlist L)"
      "el_load L = of_nat (card (dom (interest (rt_world s') (el_epfd L))))"
    using synced_interest [OF s'(2)] by blast
  moreover have "l \<noteq> NULL" using s'(2) by (rule syncedD)
  ultimately show ?thesis by (simp add: getload_def)
qed

theorem eventloop_registration_sync_witness:
  "\<exists>s' L. ev_run sample_sys 1 [Op_new 9 EPOLLIN, Op_enable_listen 3, Op_enable_events 3 EPOLLOUT,
             Op_del_listen 2] sample_loop = Inr s' \<and> rt_loops s' 1 = Some L \<and>
          el_evlist L = [3] \<and> getload 1 s' = Inr 1 \<and>
          k_interest (rt_world s') (el_epfd L) = registered (rt_events s') [3]"
proof -
  let ?as = "[Op_new 9 EPOLLIN, Op_enable_listen 3, Op_enable_events 3 EPOLLOUT, Op_del_listen 2]"
  have legal: "ev_legal_run sample_sys (\<lambda>_ _. True) 1 ?as sample_loop"
    by (simp add: sample_loop_def new_event_def enable_listen_def add_event_def enable_events_def
        del_listen_def del_event_def update_ep_def mod_event_def put_event_def put_loop_def
        upd_event_def upd_loop_def deref_def call_def sample_sys_def k_ctl_def kernel0_def
        set_interest_def live_in_def listens_def sample_event_def sample_eventloop_def)
  show ?thesis
    using eventloop_registration_sync [OF sample_ctl_spec sample_ctl_live sample_synced legal]
    by (auto simp: sample_loop_def sample_eventloop_def registered_def)
qed

end
