(* ===== verification/Bfevent_Laws.thy ===== *)
theory Bfevent_Laws
  imports Bfevent Eventloop_Laws
begin

text \<open>
  The laws of a buffered connection: flushing and draining keep the byte streams and return,
  sending keeps the order behind queued data, destruction leaves nothing behind; and three
  defects of \<^verbatim>\<open>sendout\<close> and \<^verbatim>\<open>del_listen\<close>.
\<close>

section \<open>Facts about the heaps\<close>

lemma put_bf_simps [simp]:
  "rt_bfevents (put_bf p b s) = (rt_bfevents s)(p \<mapsto> b)" "rt_events (put_bf p b s) = rt_events s"
  "rt_loops (put_bf p b s) = rt_loops s" "rt_world (put_bf p b s) = rt_world s"
  "rt_next (put_bf p b s) = rt_next s"
  by (simp_all add: put_bf_def)

lemma put_event_bfevents [simp]: "rt_bfevents (put_event p e s) = rt_bfevents s"
  by (simp add: put_event_def)

lemma put_loop_bfevents [simp]: "rt_bfevents (put_loop l L s) = rt_bfevents s"
  by (simp add: put_loop_def)

lemma upd_bf_live [simp]:
  "p \<noteq> NULL \<Longrightarrow> rt_bfevents s p = Some b \<Longrightarrow> upd_bf p f s = Inr (put_bf p (f b) s)"
  by (simp add: upd_bf_def)

lemma on_ev_live [simp]: "p \<noteq> NULL \<Longrightarrow> rt_bfevents s p = Some b \<Longrightarrow> on_ev f p s = f (bf_ev b) s"
  by (simp add: on_ev_def)

section \<open>A connection and its environment\<close>

text \<open>A connection in use: the object, its event and the loop of the event are alive, and the buffers are well formed.\<close>

definition conn_ok :: "addr \<Rightarrow> ('w, 'm) conns_scheme \<Rightarrow> bool" where
  "conn_ok p s \<longleftrightarrow>
     p \<noteq> NULL \<and>
     (\<exists>b e L. rt_bfevents s p = Some b \<and> buf_inv (bf_inbuff b) \<and> buf_inv (bf_outbuff b) \<and>
        bf_ev b \<noteq> NULL \<and> rt_events s (bf_ev b) = Some e \<and>
        ev_loop e \<noteq> NULL \<and> rt_loops s (ev_loop e) = Some L)"

lemma conn_okE:
  assumes "conn_ok p s"
  obtains b e L where "p \<noteq> NULL" "rt_bfevents s p = Some b" "buf_inv (bf_inbuff b)"
    "buf_inv (bf_outbuff b)" "bf_ev b \<noteq> NULL" "rt_events s (bf_ev b) = Some e"
    "ev_loop e \<noteq> NULL" "rt_loops s (ev_loop e) = Some L"
  using assms by (auto simp: conn_ok_def)

text \<open>Callbacks that return and leave the connections and the data on the wire alone.\<close>

definition quiet ::
  "('w \<Rightarrow> fd \<Rightarrow> byte list) \<Rightarrow> (callback \<Rightarrow> ('w, 'm) conns_scheme \<Rightarrow> ('w, 'm) conns_scheme res) \<Rightarrow> bool" where
  "quiet sent run \<longleftrightarrow>
     (\<forall>c s. \<exists>s'. run c s = Inr s' \<and> rt_bfevents s' = rt_bfevents s \<and> rt_events s' = rt_events s \<and>
        rt_loops s' = rt_loops s \<and> sent (rt_world s') = sent (rt_world s))"

lemma quiet_call_cb:
  assumes "quiet sent run"
  shows "\<exists>s'. call_cb run c s = Inr s' \<and> rt_bfevents s' = rt_bfevents s \<and> rt_events s' = rt_events s \<and>
              rt_loops s' = rt_loops s \<and> sent (rt_world s') = sent (rt_world s)"
  using assms by (cases c) (auto simp: call_cb_def quiet_def)

text \<open>Changing the mask of a live event touches the event, the interest list and nothing else.\<close>

lemma set_events_conn:
  assumes "ctl_silent S sent" "q \<noteq> NULL" "rt_events s q = Some e" "ev_loop e \<noteq> NULL"
    "rt_loops s (ev_loop e) = Some L"
  shows "\<exists>s'. bindR (upd_event q (\<lambda>e. e\<lparr>ev_events := f (ev_events e)\<rparr>) s) (update_ep S q) = Inr s' \<and>
              rt_events s' = (rt_events s)(q \<mapsto> e\<lparr>ev_events := f (ev_events e)\<rparr>) \<and>
              rt_loops s' = rt_loops s \<and> rt_bfevents s' = rt_bfevents s \<and>
              sent (rt_world s') = sent (rt_world s)"
proof -
  obtain r w where w: "sys_epoll_ctl S (el_epfd L) EPOLL_CTL_MOD (ev_fd e) (Some (f (ev_events e), q))
      (rt_world s) = (r, w)" by fastforce
  have "sent w = sent (rt_world s)" using assms(1) w unfolding ctl_silent_def by (metis snd_conv)
  then show ?thesis using assms(2-) w by (simp add: update_ep_def mod_event_def call_simps)
qed

section \<open>Flushing the output buffer\<close>

lemma write_specD:
  assumes "write_spec S sent" "sys_write S fd bs w = (Inr n, w')"
  shows "n \<le> length bs" "bs \<noteq> [] \<Longrightarrow> 0 < n" "sent w' = (sent w)(fd := sent w fd @ take n bs)"
  using assms(1) [unfolded write_spec_def, rule_format, OF assms(2)] by simp_all

lemma write_spec_err:
  assumes "write_spec S sent" "sys_write S fd bs w = (Inl e, w')"
  shows "sent w' = sent w"
  using assms(1) [unfolded write_spec_def, rule_format, OF assms(2)] by simp

text \<open>The states between the turns of \<^verbatim>\<open>handle_write\<close> for connection \<open>p\<close>, started in \<open>s\<close>.\<close>

definition write_inv ::
  "('w \<Rightarrow> fd \<Rightarrow> byte list) \<Rightarrow> addr \<Rightarrow> ('w, 'm) conns_scheme \<Rightarrow> bfevent \<Rightarrow> ('w, 'm) conns_scheme \<Rightarrow> bool" where
  "write_inv sent p s b s' \<longleftrightarrow>
     rt_events s' = rt_events s \<and> rt_loops s' = rt_loops s \<and>
     (\<exists>ob. rt_bfevents s' = (rt_bfevents s)(p \<mapsto> b\<lparr>bf_outbuff := ob\<rparr>) \<and> buf_inv ob \<and>
           sent (rt_world s') (bf_fd b) @ contents ob =
             sent (rt_world s) (bf_fd b) @ contents (bf_outbuff b))"

lemma readbytes_zero: "buf_inv b \<Longrightarrow> readbytes b = 0 \<longleftrightarrow> contents b = []"
  using unat_readbytes [of b] by (metis length_0_conv unat_0 unat_eq_zero)

lemma peek_all:
  assumes "buf_inv ob"
  shows "peek (readbytes ob) ob = Inr (contents ob)"
  using peek_ok [OF assms, of "readbytes ob"] by (simp add: unat_readbytes [OF assms])

lemma retrieve_some:
  assumes "buf_inv ob" "n \<le> length (contents ob)"
  shows "buf_inv (retrieve (of_nat n) ob)" "contents (retrieve (of_nat n) ob) = drop n (contents ob)"
proof -
  have "unat (of_nat n :: size_t) = n"
    using assms(2) unat_readbytes [OF assms(1)] unat_size_t_less [of "readbytes ob"]
    by (intro unat_of_nat_size_t) linarith
  then show "buf_inv (retrieve (of_nat n) ob)" "contents (retrieve (of_nat n) ob) = drop n (contents ob)"
    using retrieve_ok [OF assms(1), of "of_nat n"] by simp_all
qed

lemma handle_write_turn_ok:
  assumes spec: "write_spec S sent" and quiet: "quiet sent run" and p: "p \<noteq> NULL"
    and inv: "write_inv sent p s b s1"
  shows "\<exists>go s2. handle_write_turn S run p s1 = Inr (go, s2) \<and> write_inv sent p s b s2 \<and>
           (go \<longrightarrow> length (contents (bf_outbuff (the (rt_bfevents s2 p)))) <
                   length (contents (bf_outbuff (the (rt_bfevents s1 p)))))"
proof -
  obtain ob where s1: "rt_events s1 = rt_events s" "rt_loops s1 = rt_loops s"
      "rt_bfevents s1 = (rt_bfevents s)(p \<mapsto> b\<lparr>bf_outbuff := ob\<rparr>)" "buf_inv ob"
      "sent (rt_world s1) (bf_fd b) @ contents ob = sent (rt_world s) (bf_fd b) @ contents (bf_outbuff b)"
    using inv by (auto simp: write_inv_def)
  let ?b = "b\<lparr>bf_outbuff := ob\<rparr>"
  have b1: "rt_bfevents s1 p = Some ?b" using s1 by simp
  show ?thesis
  proof (cases "contents ob = []")
    case True
    then show ?thesis using p b1 s1(4) inv by (auto simp: handle_write_turn_def readbytes_zero)
  next
    case False
    note pk = peek_all [OF s1(4)]
    obtain r w where w: "sys_write S (bf_fd b) (contents ob) (rt_world s1) = (r, w)" by fastforce
    show ?thesis
    proof (cases r)
      case (Inl e)
      let ?s = "s1\<lparr>rt_world := w\<rparr>"
      have inv': "write_inv sent p s b ?s"
        using s1 write_spec_err [OF spec w [unfolded Inl]] by (auto simp: write_inv_def)
      obtain s2 where s2: "call_cb run (bf_eventcb b) ?s = Inr s2" "rt_bfevents s2 = rt_bfevents ?s"
          "rt_events s2 = rt_events ?s" "rt_loops s2 = rt_loops ?s"
          "sent (rt_world s2) = sent (rt_world ?s)"
        using quiet_call_cb [OF quiet] by blast
      have "write_inv sent p s b s2" using inv' s2 by (simp add: write_inv_def)
      with inv' s2(1) show ?thesis
        using p b1 s1(4) False pk w Inl
        by (auto simp: handle_write_turn_def readbytes_zero call_simps call_eventcb_def)
    next
      case (Inr n)
      note wr = write_specD [OF spec w [unfolded Inr]]
      have n: "0 < n" "n \<le> length (contents ob)" using wr False by auto
      let ?ob = "retrieve (of_nat n) ob"
      note ob = retrieve_some [OF s1(4) n(2)]
      let ?s = "put_bf p (?b\<lparr>bf_outbuff := ?ob\<rparr>) (s1\<lparr>rt_world := w\<rparr>)"
      have inv': "write_inv sent p s b ?s"
        using s1 ob wr(3) unfolding write_inv_def
        by (intro conjI exI [of _ ?ob]) simp_all
      obtain s2 where s2: "call_cb run (bf_writecb b) ?s = Inr s2" "rt_bfevents s2 = rt_bfevents ?s"
          "rt_events s2 = rt_events ?s" "rt_loops s2 = rt_loops ?s"
          "sent (rt_world s2) = sent (rt_world ?s)"
        using quiet_call_cb [OF quiet] by blast
      have "write_inv sent p s b s2" using inv' s2 by (simp add: write_inv_def)
      then show ?thesis
        using p b1 s1(4) False pk w Inr n s2 ob
        by (auto simp: handle_write_turn_def readbytes_zero call_simps call_writecb_def)
    qed
  qed
qed

lemma handle_write_ok:
  assumes spec: "write_spec S sent" and silent: "ctl_silent S sent" and quiet: "quiet sent run"
    and ok: "conn_ok p s" and b: "rt_bfevents s p = Some b"
  shows "\<exists>s' ob. handle_write S run p s = Some (Inr s') \<and> conn_ok p s' \<and>
           rt_bfevents s' = (rt_bfevents s)(p \<mapsto> b\<lparr>bf_outbuff := ob\<rparr>) \<and>
           sent (rt_world s') (bf_fd b) @ contents ob =
             sent (rt_world s) (bf_fd b) @ contents (bf_outbuff b) \<and>
           (contents ob = [] \<longrightarrow> writeable (bf_ev b) s' = Inr False)"
proof -
  obtain e L where ok': "p \<noteq> NULL" "buf_inv (bf_inbuff b)" "buf_inv (bf_outbuff b)" "bf_ev b \<noteq> NULL"
      "rt_events s (bf_ev b) = Some e" "ev_loop e \<noteq> NULL" "rt_loops s (ev_loop e) = Some L"
    using ok b by (auto elim: conn_okE)
  have "write_inv sent p s b s"
    using b ok' by (auto simp: write_inv_def intro!: exI [of _ "bf_outbuff b"])
  then obtain s1 where s1: "repeat_turn (handle_write_turn S run p) s = Some (Inr s1)"
      "write_inv sent p s b s1"
    using repeat_turn_returns [where I = "write_inv sent p s b" and Q = "write_inv sent p s b"
        and m = "\<lambda>s. length (contents (bf_outbuff (the (rt_bfevents s p))))"]
      handle_write_turn_ok [OF spec quiet ok'(1)] by (metis (full_types))
  then obtain ob where ob: "rt_events s1 = rt_events s" "rt_loops s1 = rt_loops s"
      "rt_bfevents s1 = (rt_bfevents s)(p \<mapsto> b\<lparr>bf_outbuff := ob\<rparr>)" "buf_inv ob"
      "sent (rt_world s1) (bf_fd b) @ contents ob = sent (rt_world s) (bf_fd b) @ contents (bf_outbuff b)"
    by (auto simp: write_inv_def)
  show ?thesis
  proof (cases "contents ob = []")
    case False
    then have "handle_write S run p s = Some (Inr s1)"
      using s1 ob ok' by (simp add: handle_write_def readbytes_zero)
    moreover have "conn_ok p s1" using ob ok' by (auto simp: conn_ok_def)
    ultimately show ?thesis using ob False by auto
  next
    case True
    obtain s2 where s2: "bindR (upd_event (bf_ev b) (\<lambda>e. e\<lparr>ev_events := ev_events e AND NOT EPOLLOUT\<rparr>) s1)
        (update_ep S (bf_ev b)) = Inr s2"
        "rt_events s2 = (rt_events s1)(bf_ev b \<mapsto> e\<lparr>ev_events := ev_events e AND NOT EPOLLOUT\<rparr>)"
        "rt_loops s2 = rt_loops s1" "rt_bfevents s2 = rt_bfevents s1"
        "sent (rt_world s2) = sent (rt_world s1)"
      using set_events_conn [OF silent ok'(4), of s1 e L "\<lambda>m. m AND NOT EPOLLOUT"] ob ok' by auto
    have "handle_write S run p s = Some (Inr s2)"
      using s1 ob ok' True s2(1)
      by (simp add: handle_write_def readbytes_zero disable_write_def disable_events_def)
    moreover have "conn_ok p s2" using s2 ob ok' by (auto simp: conn_ok_def)
    moreover have "writeable (bf_ev b) s2 = Inr False"
      using s2 ok' by (simp add: writeable_def and.assoc)
    ultimately show ?thesis using s2 ob by auto
  qed
qed

section \<open>Draining the descriptor\<close>

text \<open>
  The application as the reading side sees it: \<open>taken s\<close> is what it has taken out of the
  connection's input buffer so far. Its callbacks return, take some prefix of the buffered
  bytes, read nothing from the descriptor themselves and keep the connection object; they
  may do anything else (answer, queue the connection for deletion, reset its callbacks).
\<close>

definition reader_step ::
  "(('w, 'm) conns_scheme \<Rightarrow> byte list) \<Rightarrow> ('w \<Rightarrow> fd \<Rightarrow> byte list) \<Rightarrow> addr \<Rightarrow>
   ('w, 'm) conns_scheme \<Rightarrow> ('w, 'm) conns_scheme \<Rightarrow> bool" where
  "reader_step taken unread p s s' \<longleftrightarrow>
     (\<forall>b. rt_bfevents s p = Some b \<and> buf_inv (bf_inbuff b) \<longrightarrow>
        (\<exists>b' k. rt_bfevents s' p = Some b' \<and> bf_fd b' = bf_fd b \<and> buf_inv (bf_inbuff b') \<and>
           taken s' = taken s @ take k (contents (bf_inbuff b)) \<and>
           contents (bf_inbuff b') = drop k (contents (bf_inbuff b)) \<and>
           unread (rt_world s') (bf_fd b) = unread (rt_world s) (bf_fd b)))"

definition reader ::
  "(('w, 'm) conns_scheme \<Rightarrow> byte list) \<Rightarrow> ('w \<Rightarrow> fd \<Rightarrow> byte list) \<Rightarrow> addr \<Rightarrow>
   (callback \<Rightarrow> ('w, 'm) conns_scheme \<Rightarrow> ('w, 'm) conns_scheme res) \<Rightarrow> bool" where
  "reader taken unread p run \<longleftrightarrow>
     (\<forall>c s. \<exists>s'. run c s = Inr s' \<and> reader_step taken unread p s s') \<and>
     (\<forall>s b w. taken (put_bf p b (s\<lparr>rt_world := w\<rparr>)) = taken s)"

lemma reader_step_refl: "reader_step taken unread p s s"
  unfolding reader_step_def
proof (intro allI impI)
  fix b
  assume "rt_bfevents s p = Some b \<and> buf_inv (bf_inbuff b)"
  then show "\<exists>b' k. rt_bfevents s p = Some b' \<and> bf_fd b' = bf_fd b \<and> buf_inv (bf_inbuff b') \<and>
      taken s = taken s @ take k (contents (bf_inbuff b)) \<and>
      contents (bf_inbuff b') = drop k (contents (bf_inbuff b)) \<and>
      unread (rt_world s) (bf_fd b) = unread (rt_world s) (bf_fd b)"
    by (intro exI [of _ b] exI [of _ 0]) simp
qed

text \<open>The read callback and the event callback, if set.\<close>

lemma reader_calls:
  assumes "reader taken unread p run" "p \<noteq> NULL" "rt_bfevents s p = Some b"
  shows "\<exists>s'. call_readcb run p s = Inr s' \<and> reader_step taken unread p s s'"
    and "\<exists>s'. call_eventcb run p s = Inr s' \<and> reader_step taken unread p s s'"
  using assms reader_step_refl [of taken unread p s]
  by (auto simp: call_readcb_def call_eventcb_def call_cb_def reader_def split: option.splits)

text \<open>
  The states between the turns: bytes taken, buffered and unread make up the same stream
  \<open>stream\<close>, and the buffer has room for what is unread.
\<close>

definition read_inv ::
  "(('w, 'm) conns_scheme \<Rightarrow> byte list) \<Rightarrow> ('w \<Rightarrow> fd \<Rightarrow> byte list) \<Rightarrow> addr \<Rightarrow> fd \<Rightarrow> byte list \<Rightarrow>
   ('w, 'm) conns_scheme \<Rightarrow> bool" where
  "read_inv taken unread p fd stream s \<longleftrightarrow>
     (\<exists>b. rt_bfevents s p = Some b \<and> bf_fd b = fd \<and> buf_inv (bf_inbuff b) \<and>
        taken s @ contents (bf_inbuff b) @ unread (rt_world s) fd = stream \<and>
        length (contents (bf_inbuff b)) + length (unread (rt_world s) fd) \<le> VECTOR_MAX)"

lemma reader_step_inv:
  assumes "reader_step taken unread p s s'" "read_inv taken unread p fd stream s"
  shows "read_inv taken unread p fd stream s'" "unread (rt_world s') fd = unread (rt_world s) fd"
proof -
  obtain b where b: "rt_bfevents s p = Some b" "bf_fd b = fd" "buf_inv (bf_inbuff b)"
      "taken s @ contents (bf_inbuff b) @ unread (rt_world s) fd = stream"
      "length (contents (bf_inbuff b)) + length (unread (rt_world s) fd) \<le> VECTOR_MAX"
    using assms(2) by (auto simp: read_inv_def)
  obtain b' k where b': "rt_bfevents s' p = Some b'" "bf_fd b' = fd" "buf_inv (bf_inbuff b')"
      "taken s' = taken s @ take k (contents (bf_inbuff b))"
      "contents (bf_inbuff b') = drop k (contents (bf_inbuff b))"
      "unread (rt_world s') fd = unread (rt_world s) fd"
    using assms(1) b(1-3) unfolding reader_step_def by blast
  have "take k (contents (bf_inbuff b)) @ drop k (contents (bf_inbuff b)) @ xs =
      contents (bf_inbuff b) @ xs" for xs
    by simp
  with b b' show "read_inv taken unread p fd stream s'"
    by (auto simp: read_inv_def)
  show "unread (rt_world s') fd = unread (rt_world s) fd" by (rule b'(6))
qed

lemma readv_specD:
  assumes "readv_spec S unread" "sys_readv S fd lens w = (Inr bs, w')"
  shows "length bs \<le> sum_list lens" "unread w fd = bs @ unread w' fd"
  using assms(1) [unfolded readv_spec_def, rule_format, OF assms(2)] by simp_all

lemma readv_spec_err:
  assumes "readv_spec S unread" "sys_readv S fd lens w = (Inl e, w')"
  shows "unread w' = unread w"
  using assms(1) [unfolded readv_spec_def, rule_format, OF assms(2)] by simp

text \<open>
  On a non-blocking stream \<^verbatim>\<open>readv\<close> reports that it would block, or the end of the stream,
  only when nothing is unread.
\<close>

definition readv_drained :: "'w sys \<Rightarrow> ('w \<Rightarrow> fd \<Rightarrow> byte list) \<Rightarrow> bool" where
  "readv_drained S unread \<longleftrightarrow>
     (\<forall>fd lens w r w'. sys_readv S fd lens w = (r, w') \<and> 0 < sum_list lens \<and>
        (r = Inl EAGAIN \<or> r = Inr []) \<longrightarrow> unread w' fd = [])"

text \<open>The only error on the descriptor is that it would block.\<close>

definition soft_reads :: "'w sys \<Rightarrow> fd \<Rightarrow> bool" where
  "soft_reads S fd \<longleftrightarrow> (\<forall>lens e w. fst (sys_readv S fd lens w) = Inl e \<longrightarrow> e = EAGAIN)"

definition read_turn_post ::
  "'w sys \<Rightarrow> (('w, 'm) conns_scheme \<Rightarrow> byte list) \<Rightarrow> ('w \<Rightarrow> fd \<Rightarrow> byte list) \<Rightarrow> addr \<Rightarrow> fd \<Rightarrow> byte list \<Rightarrow>
   ('w, 'm) conns_scheme \<Rightarrow> bool \<Rightarrow> ('w, 'm) conns_scheme \<Rightarrow> bool" where
  "read_turn_post S taken unread p fd stream s go s' \<longleftrightarrow>
     read_inv taken unread p fd stream s' \<and>
     (if go then length (unread (rt_world s') fd) < length (unread (rt_world s) fd)
      else readv_drained S unread \<and> soft_reads S fd \<longrightarrow> unread (rt_world s') fd = [])"

abbreviation iov_lens :: "buffer \<Rightarrow> nat list" where
  "iov_lens ib \<equiv>
     (if writebytes ib < of_nat IOBUF then [unat (writebytes ib), IOBUF] else [unat (writebytes ib)])"

lemma handle_read_turn_err:
  assumes spec: "readv_spec S unread" and rd: "reader taken unread p run" and p: "p \<noteq> NULL"
    and inv: "read_inv taken unread p fd stream s" and b: "rt_bfevents s p = Some b"
    and rw: "sys_readv S fd (iov_lens (bf_inbuff b)) (rt_world s) = (Inl e, w)"
  shows "\<exists>go s'. handle_read_turn S run p s = Inr (go, s') \<and> read_turn_post S taken unread p fd stream s go s'"
proof -
  let ?rv = "\<lambda>lens. sys_readv S fd lens (rt_world s)" and ?in = "bf_inbuff b"
  have b': "bf_fd b = fd" "buf_inv ?in" using inv b by (auto simp: read_inv_def)
  let ?s = "put_bf p (b\<lparr>bf_inbuff := ?in\<rparr>) (s\<lparr>rt_world := w\<rparr>)"
  have s1: "read_inv taken unread p fd stream ?s" "unread w fd = unread (rt_world s) fd"
    using inv b readv_spec_err [OF spec rw] rd by (auto simp: read_inv_def reader_def)
  obtain s2 where s2: "call_eventcb run p ?s = Inr s2" "reader_step taken unread p ?s s2"
    using reader_calls(2) [OF rd p, of ?s "b\<lparr>bf_inbuff := ?in\<rparr>"] by auto
  note s2' = reader_step_inv [OF s2(2) s1(1)]
  have turn: "handle_read_turn S run p s =
      (if e = EAGAIN \<or> e = EWOULDBLOCK then Inr (False, ?s) else Inr (False, s2))"
    using p b b' readiov_error [OF b'(2), of ?rv e w] rw s2(1) by (simp add: handle_read_turn_def)
  have "0 < sum_list (iov_lens ?in)" by (auto simp: word_less_nat_alt)
  then have dry: "readv_drained S unread \<and> soft_reads S fd \<longrightarrow> unread w fd = []"
    using rw unfolding readv_drained_def soft_reads_def by (metis fst_conv)
  show ?thesis
  proof (cases "e = EAGAIN \<or> e = EWOULDBLOCK")
    case True
    then show ?thesis using turn s1 dry by (intro exI [of _ False] exI [of _ ?s]) (simp add: read_turn_post_def)
  next
    case False
    then show ?thesis using turn s2' dry by (intro exI [of _ False] exI [of _ s2]) (simp add: read_turn_post_def)
  qed
qed

lemma handle_read_turn_data:
  assumes spec: "readv_spec S unread" and rd: "reader taken unread p run" and p: "p \<noteq> NULL"
    and inv: "read_inv taken unread p fd stream s" and b: "rt_bfevents s p = Some b"
    and rw: "sys_readv S fd (iov_lens (bf_inbuff b)) (rt_world s) = (Inr bs, w)"
  shows "\<exists>go s'. handle_read_turn S run p s = Inr (go, s') \<and> read_turn_post S taken unread p fd stream s go s'"
proof -
  let ?rv = "\<lambda>lens. sys_readv S fd lens (rt_world s)" and ?in = "bf_inbuff b"
  have b': "bf_fd b = fd" "buf_inv ?in"
      "length (contents ?in) + length (unread (rt_world s) fd) \<le> VECTOR_MAX"
    using inv b by (auto simp: read_inv_def)
  have bounded: "readv_bounded ?rv" using readv_specD(1) [OF spec] by (auto simp: readv_bounded_def)
  note un = readv_specD(2) [OF spec rw]
  obtain ib where ib: "readiov ?rv ?in = Inr (Inr (length bs), ib, w)" "buf_inv ib"
      "contents ib = contents ?in @ bs"
    using readiov_ok [OF b'(2) bounded, of bs w] rw b'(3) un by auto
  let ?s = "put_bf p (b\<lparr>bf_inbuff := ib\<rparr>) (s\<lparr>rt_world := w\<rparr>)"
  have s1: "read_inv taken unread p fd stream ?s"
    using inv b ib(2,3) un rd by (auto simp: read_inv_def reader_def)
  obtain s2 s3 where s2: "call_readcb run p ?s = Inr s2" "reader_step taken unread p ?s s2"
    and s3: "call_eventcb run p ?s = Inr s3" "reader_step taken unread p ?s s3"
    using reader_calls [OF rd p, of ?s "b\<lparr>bf_inbuff := ib\<rparr>"] by auto
  note s2' = reader_step_inv [OF s2(2) s1] and s3' = reader_step_inv [OF s3(2) s1]
  have turn: "handle_read_turn S run p s = (if bs \<noteq> [] then Inr (True, s2) else Inr (False, s3))"
    using p b b'(1) ib(1) s2(1) s3(1) by (simp add: handle_read_turn_def)
  show ?thesis
  proof (cases "bs = []")
    case True
    have "0 < sum_list (iov_lens ?in)" by (auto simp: word_less_nat_alt)
    then have "readv_drained S unread \<longrightarrow> unread w fd = []"
      using rw True unfolding readv_drained_def by metis
    then show ?thesis using turn True s3' by (intro exI [of _ False] exI [of _ s3]) (simp add: read_turn_post_def)
  next
    case False
    then have "length (unread w fd) < length (unread (rt_world s) fd)" by (simp add: un)
    then show ?thesis using turn False s2' by (intro exI [of _ True] exI [of _ s2]) (simp add: read_turn_post_def)
  qed
qed

lemma handle_read_turn_ok:
  assumes spec: "readv_spec S unread" and rd: "reader taken unread p run" and p: "p \<noteq> NULL"
    and inv: "read_inv taken unread p fd stream s"
  shows "\<exists>go s'. handle_read_turn S run p s = Inr (go, s') \<and> read_inv taken unread p fd stream s' \<and>
           (if go then length (unread (rt_world s') fd) < length (unread (rt_world s) fd)
            else readv_drained S unread \<and> soft_reads S fd \<longrightarrow>
                 unread (rt_world s') fd = [])"
proof -
  obtain b where b: "rt_bfevents s p = Some b" using inv by (auto simp: read_inv_def)
  obtain r w where rw: "sys_readv S fd (iov_lens (bf_inbuff b)) (rt_world s) = (r, w)" by fastforce
  have "\<exists>go s'. handle_read_turn S run p s = Inr (go, s') \<and> read_turn_post S taken unread p fd stream s go s'"
    using handle_read_turn_err [OF spec rd p inv b] handle_read_turn_data [OF spec rd p inv b] rw
    by (cases r) auto
  then show ?thesis unfolding read_turn_post_def .
qed

lemma handle_read_ok:
  assumes "readv_spec S unread" "reader taken unread p run" "p \<noteq> NULL"
    and "read_inv taken unread p fd stream s"
  shows "\<exists>s'. handle_read S run p s = Some (Inr s') \<and> read_inv taken unread p fd stream s' \<and>
           (readv_drained S unread \<and> soft_reads S fd \<longrightarrow>
            unread (rt_world s') fd = [])"
  unfolding handle_read_def
proof (rule repeat_turn_returns [where I = "read_inv taken unread p fd stream"
      and m = "\<lambda>s. length (unread (rt_world s) fd)"])
  show "read_inv taken unread p fd stream s" by (rule assms(4))
  fix s :: "('a, 'b) conns_scheme"
  assume "read_inv taken unread p fd stream s"
  from handle_read_turn_ok [OF assms(1-3) this] show "\<exists>go s'. handle_read_turn S run p s = Inr (go, s') \<and>
      (if go then read_inv taken unread p fd stream s' \<and>
            length (unread (rt_world s') fd) < length (unread (rt_world s) fd)
       else read_inv taken unread p fd stream s' \<and>
            (readv_drained S unread \<and> soft_reads S fd \<longrightarrow>
             unread (rt_world s') fd = []))"
    by (metis (full_types))
qed

section \<open>Sending\<close>

lemma writev_specD:
  assumes "writev_spec S sent" "sys_writev S fd bss w = (Inr n, w')"
  shows "n \<le> length (concat bss)" "sent w' = (sent w)(fd := sent w fd @ take n (concat bss))"
  using assms(1) [unfolded writev_spec_def, rule_format, OF assms(2)] by simp_all

lemma writev_spec_err:
  assumes "writev_spec S sent" "sys_writev S fd bss w = (Inl e, w')"
  shows "sent w' = sent w"
  using assms(1) [unfolded writev_spec_def, rule_format, OF assms(2)] by simp

lemma reset_ok: "buf_inv b \<Longrightarrow> buf_inv (reset b)" "contents (reset b) = []"
  by (simp_all add: reset_def buf_inv_def contents_def)

text \<open>The end of \<^verbatim>\<open>sendout\<close>: what could not be sent is queued, and output is watched.\<close>

definition sendout_queue ::
  "'w sys \<Rightarrow> byte list \<Rightarrow> addr \<Rightarrow> ('w, 'm) conns_scheme \<Rightarrow> ('w, 'm) conns_scheme res" where
  "sendout_queue S rest p s =
     (if rest = [] then Inr s
      else bindR (deref (rt_bfevents s) p) (\<lambda>b.
           bindR (append rest (bf_outbuff b)) (\<lambda>ob.
           let s = put_bf p (b\<lparr>bf_outbuff := ob\<rparr>) s
           in bindR (bf_writeable p s) (\<lambda>wr. if wr then Inr s else on_ev (enable_write S) p s))))"

lemma sendout_eq:
  "sendout S run before data p s =
     bindR (sendout_direct S run data p s) (\<lambda>(r, s).
       case r of
         None \<Rightarrow> Inr s
       | Some (blocked, relen) \<Rightarrow>
           bindR (if relen > 0 then sendout_vec S run before data blocked relen p s
                  else Inr (Some [], s)) (\<lambda>(rest, s).
             case rest of None \<Rightarrow> Inr s | Some rest \<Rightarrow> sendout_queue S rest p s))"
  unfolding sendout_def sendout_queue_def ..

lemma sendout_queue_ok:
  assumes silent: "ctl_silent S sent" and ok: "conn_ok p s" and b: "rt_bfevents s p = Some b"
    and fits: "length (contents (bf_outbuff b)) + length rest \<le> VECTOR_MAX"
  shows "\<exists>s' ob. sendout_queue S rest p s = Inr s' \<and> conn_ok p s' \<and>
           rt_bfevents s' = (rt_bfevents s)(p \<mapsto> b\<lparr>bf_outbuff := ob\<rparr>) \<and>
           contents ob = contents (bf_outbuff b) @ rest \<and>
           sent (rt_world s') = sent (rt_world s) \<and>
           (rest \<noteq> [] \<longrightarrow> writeable (bf_ev b) s' = Inr True)"
proof -
  obtain e L where ok': "p \<noteq> NULL" "buf_inv (bf_inbuff b)" "buf_inv (bf_outbuff b)" "bf_ev b \<noteq> NULL"
      "rt_events s (bf_ev b) = Some e" "ev_loop e \<noteq> NULL" "rt_loops s (ev_loop e) = Some L"
    using ok b by (auto elim: conn_okE)
  show ?thesis
  proof (cases "rest = []")
    case True
    then show ?thesis
      using ok b by (intro exI [of _ s] exI [of _ "bf_outbuff b"]) (auto simp: sendout_queue_def)
  next
    case False
    obtain ob where ob: "append rest (bf_outbuff b) = Inr ob" "buf_inv ob"
        "contents ob = contents (bf_outbuff b) @ rest"
      using append_ok [OF ok'(3) fits] by blast
    let ?s = "put_bf p (b\<lparr>bf_outbuff := ob\<rparr>) s"
    show ?thesis
    proof (cases "ev_events e AND EPOLLOUT \<noteq> 0")
      case True
      have "sendout_queue S rest p s = Inr ?s"
        using False b ok' ob True by (simp add: sendout_queue_def bf_writeable_def writeable_def)
      moreover have "conn_ok p ?s" using ok' ob by (auto simp: conn_ok_def)
      ultimately show ?thesis using ob ok' True by (auto simp: writeable_def)
    next
      case noout: False
      obtain s2 where s2: "bindR (upd_event (bf_ev b) (\<lambda>e. e\<lparr>ev_events := ev_events e OR EPOLLOUT\<rparr>) ?s)
          (update_ep S (bf_ev b)) = Inr s2"
          "rt_events s2 = (rt_events s)(bf_ev b \<mapsto> e\<lparr>ev_events := ev_events e OR EPOLLOUT\<rparr>)"
          "rt_loops s2 = rt_loops s" "rt_bfevents s2 = rt_bfevents ?s"
          "sent (rt_world s2) = sent (rt_world s)"
        using set_events_conn [OF silent ok'(4), of ?s e L "\<lambda>m. m OR EPOLLOUT"] ok' by auto
      have "sendout_queue S rest p s = Inr s2"
        using False b ok' ob noout s2(1)
        by (simp add: sendout_queue_def bf_writeable_def writeable_def enable_write_def enable_events_def)
      moreover have "conn_ok p s2" using s2 ok' ob by (auto simp: conn_ok_def)
      moreover have "(m OR EPOLLOUT) AND EPOLLOUT = EPOLLOUT" for m by (rule bit_eqI) (auto simp: bit_simps)
      then have "writeable (bf_ev b) s2 = Inr True"
        using s2 ok' by (simp add: writeable_def EPOLLOUT_def)
      ultimately show ?thesis using s2 ob by auto
    qed
  qed
qed

text \<open>The gathering write, when nothing has been written directly.\<close>

text \<open>What the gathering write leaves: nothing to queue, or the rest of the data.\<close>

definition sendout_vec_post ::
  "('w \<Rightarrow> fd \<Rightarrow> byte list) \<Rightarrow> addr \<Rightarrow> ('w, 'm) conns_scheme \<Rightarrow> bfevent \<Rightarrow> byte list \<Rightarrow> byte list option \<Rightarrow>
   ('w, 'm) conns_scheme \<Rightarrow> buffer \<Rightarrow> bool" where
  "sendout_vec_post sent p s b data r s' ob \<longleftrightarrow>
     conn_ok p s' \<and> rt_bfevents s' = (rt_bfevents s)(p \<mapsto> b\<lparr>bf_outbuff := ob\<rparr>) \<and>
     length (contents ob) + length data \<le> VECTOR_MAX \<and>
     (case r of
        None \<Rightarrow> contents ob = [] \<and>
          sent (rt_world s') (bf_fd b) = sent (rt_world s) (bf_fd b) @ contents (bf_outbuff b) @ data
      | Some rest \<Rightarrow> length rest \<le> length data \<and> (data \<noteq> [] \<longrightarrow> rest \<noteq> []) \<and>
          sent (rt_world s') (bf_fd b) @ contents ob @ rest =
            sent (rt_world s) (bf_fd b) @ contents (bf_outbuff b) @ data)"

lemma sendout_vec_wrote:
  assumes spec: "writev_spec S sent" and quiet: "quiet sent run"
    and ok: "conn_ok p s" and b: "rt_bfevents s p = Some b"
    and fits: "length (contents (bf_outbuff b)) + length data \<le> VECTOR_MAX"
    and w: "sys_writev S (bf_fd b) [contents (bf_outbuff b), data] (rt_world s) = (Inr n, w)"
  shows "\<exists>r s' ob. sendout_vec S run before data False (length data) p s = Inr (r, s') \<and>
    sendout_vec_post sent p s b data r s' ob"
proof -
  let ?o = "bf_outbuff b" and ?with = "\<lambda>ob. put_bf p (b\<lparr>bf_outbuff := ob\<rparr>) (s\<lparr>rt_world := w\<rparr>)"
  have ok': "p \<noteq> NULL" "buf_inv ?o" using ok b by (auto elim: conn_okE)
  have ok_with: "conn_ok p (?with ob)" if "buf_inv ob" for ob
    using ok b that by (auto simp: conn_ok_def)
  note pk = peek_all [OF ok'(2)] and rb = unat_readbytes [OF ok'(2)] and wv = writev_specD [OF spec w]
  consider (all) "n = length (contents ?o) + length data" | (part) "n < length (contents ?o)"
    | (mid) "length (contents ?o) \<le> n" "n < length (contents ?o) + length data"
    using wv(1) by fastforce
  then show ?thesis
  proof cases
    case all
    let ?s = "?with (reset ?o)"
    obtain s2 where s2: "call_cb run (bf_writecb b) ?s = Inr s2" "rt_bfevents s2 = rt_bfevents ?s"
        "rt_events s2 = rt_events ?s" "rt_loops s2 = rt_loops ?s"
        "sent (rt_world s2) = sent (rt_world ?s)"
      using quiet_call_cb [OF quiet] by blast
    have "sendout_vec S run before data False (length data) p s = Inr (None, s2)"
      using ok' b pk w all s2(1) by (simp add: sendout_vec_def Let_def call_simps rb call_writecb_def)
    moreover have "conn_ok p s2" using ok_with [OF reset_ok(1) [OF ok'(2)]] s2 by (simp add: conn_ok_def)
    ultimately show ?thesis
      using s2 all wv(2) reset_ok(2) [of ?o] fits by (auto simp: sendout_vec_post_def)
  next
    case part
    note ob = retrieve_some [OF ok'(2) less_imp_le [OF part]]
    have "sendout_vec S run before data False (length data) p s = Inr (Some data, ?with (retrieve (of_nat n) ?o))"
      using ok' b pk w part by (simp add: sendout_vec_def Let_def call_simps rb)
    then show ?thesis
      using ok_with [OF ob(1)] ob(2) wv(2) part fits unfolding sendout_vec_post_def
      by (intro exI [of _ "Some data"] exI [of _ "?with (retrieve (of_nat n) ?o)"]
            exI [of _ "retrieve (of_nat n) ?o"]) auto
  next
    case mid
    let ?d = "n - length (contents ?o)"
    have "sendout_vec S run before data False (length data) p s = Inr (Some (drop ?d data), ?with (reset ?o))"
      using ok' b pk w mid by (simp add: sendout_vec_def Let_def call_simps rb)
    then show ?thesis
      using ok_with [OF reset_ok(1) [OF ok'(2)]] reset_ok(2) [of ?o] wv(2) mid fits unfolding sendout_vec_post_def
      by (intro exI [of _ "Some (drop ?d data)"] exI [of _ "?with (reset ?o)"] exI [of _ "reset ?o"]) auto
  qed
qed

lemma sendout_vec_ok:
  assumes spec: "writev_spec S sent" and quiet: "quiet sent run"
    and ok: "conn_ok p s" and b: "rt_bfevents s p = Some b"
    and fits: "length (contents (bf_outbuff b)) + length data \<le> VECTOR_MAX"
    and soft: "\<And>e. fst (sys_writev S (bf_fd b) [contents (bf_outbuff b), data] (rt_world s)) = Inl e \<Longrightarrow> e = EAGAIN"
  shows "\<exists>r s' ob. sendout_vec S run before data False (length data) p s = Inr (r, s') \<and> conn_ok p s' \<and>
           rt_bfevents s' = (rt_bfevents s)(p \<mapsto> b\<lparr>bf_outbuff := ob\<rparr>) \<and>
           length (contents ob) + length data \<le> VECTOR_MAX \<and>
           (case r of
              None \<Rightarrow> contents ob = [] \<and>
                sent (rt_world s') (bf_fd b) = sent (rt_world s) (bf_fd b) @ contents (bf_outbuff b) @ data
            | Some rest \<Rightarrow> length rest \<le> length data \<and> (data \<noteq> [] \<longrightarrow> rest \<noteq> []) \<and>
                sent (rt_world s') (bf_fd b) @ contents ob @ rest =
                  sent (rt_world s) (bf_fd b) @ contents (bf_outbuff b) @ data)"
proof -
  let ?o = "bf_outbuff b"
  have ok': "p \<noteq> NULL" "buf_inv ?o" using ok b by (auto elim: conn_okE)
  obtain r w where w: "sys_writev S (bf_fd b) [contents ?o, data] (rt_world s) = (r, w)" by fastforce
  have "\<exists>r s' ob. sendout_vec S run before data False (length data) p s = Inr (r, s') \<and>
      sendout_vec_post sent p s b data r s' ob"
  proof (cases r)
    case (Inl x)
    then have "x = EAGAIN" using soft w by simp
    then have "sendout_vec S run before data False (length data) p s = Inr (Some data, s\<lparr>rt_world := w\<rparr>)"
      using ok' b peek_all [OF ok'(2)] w Inl by (simp add: sendout_vec_def Let_def call_simps)
    moreover have "conn_ok p (s\<lparr>rt_world := w\<rparr>)" using ok by (auto simp: conn_ok_def)
    ultimately show ?thesis
      using writev_spec_err [OF spec w [unfolded Inl]] b fits unfolding sendout_vec_post_def
      by (intro exI [of _ "Some data"] exI [of _ "s\<lparr>rt_world := w\<rparr>"] exI [of _ ?o]) auto
  next
    case (Inr n)
    then show ?thesis using sendout_vec_wrote [OF spec quiet ok b fits, of n w] w by simp
  qed
  then show ?thesis unfolding sendout_vec_post_def .
qed

text \<open>The pending path of \<^verbatim>\<open>sendout\<close>: output is watched or data are queued already.\<close>

lemma sendout_pending:
  assumes "conn_ok p s" "rt_bfevents s p = Some b"
    and "writeable (bf_ev b) s = Inr True \<or> contents (bf_outbuff b) \<noteq> []"
  shows "sendout_direct S run data p s = Inr (Some (False, length data), s)"
proof -
  obtain e where ok': "p \<noteq> NULL" "buf_inv (bf_outbuff b)" "bf_ev b \<noteq> NULL" "rt_events s (bf_ev b) = Some e"
    using assms(1,2) by (auto elim: conn_okE)
  then show ?thesis
    using assms(2,3) by (auto simp: sendout_direct_def bf_writeable_def writeable_def readbytes_zero)
qed

lemma sendout_rest_ok:
  assumes silent: "ctl_silent S sent" and spec: "writev_spec S sent" and quiet: "quiet sent run"
    and ok: "conn_ok p s" and b: "rt_bfevents s p = Some b"
    and fits: "length (contents (bf_outbuff b)) + length data \<le> VECTOR_MAX"
    and soft: "\<And>e. fst (sys_writev S (bf_fd b) [contents (bf_outbuff b), data] (rt_world s)) = Inl e \<Longrightarrow> e = EAGAIN"
    and direct: "sendout_direct S run data p s = Inr (Some (False, length data), s)"
  shows "\<exists>s' ob. sendout S run before data p s = Inr s' \<and> conn_ok p s' \<and>
           rt_bfevents s' = (rt_bfevents s)(p \<mapsto> b\<lparr>bf_outbuff := ob\<rparr>) \<and>
           sent (rt_world s') (bf_fd b) @ contents ob =
             sent (rt_world s) (bf_fd b) @ contents (bf_outbuff b) @ data \<and>
           (data \<noteq> [] \<and> contents ob \<noteq> [] \<longrightarrow> writeable (bf_ev b) s' = Inr True)"
proof (cases "data = []")
  case True
  then show ?thesis
    using direct ok b
    by (intro exI [of _ s] exI [of _ "bf_outbuff b"]) (auto simp: sendout_eq sendout_queue_def)
next
  case False
  obtain r s1 ob where s1: "sendout_vec S run before data False (length data) p s = Inr (r, s1)"
      "conn_ok p s1" "rt_bfevents s1 = (rt_bfevents s)(p \<mapsto> b\<lparr>bf_outbuff := ob\<rparr>)"
      "length (contents ob) + length data \<le> VECTOR_MAX"
    and r: "case r of
              None \<Rightarrow> contents ob = [] \<and>
                sent (rt_world s1) (bf_fd b) = sent (rt_world s) (bf_fd b) @ contents (bf_outbuff b) @ data
            | Some rest \<Rightarrow> length rest \<le> length data \<and> (data \<noteq> [] \<longrightarrow> rest \<noteq> []) \<and>
                sent (rt_world s1) (bf_fd b) @ contents ob @ rest =
                  sent (rt_world s) (bf_fd b) @ contents (bf_outbuff b) @ data"
    using sendout_vec_ok [OF spec quiet ok b fits soft] by blast
  have eq: "sendout S run before data p s =
      (case r of None \<Rightarrow> Inr s1 | Some rest \<Rightarrow> sendout_queue S rest p s1)"
    using False direct s1(1) by (simp add: sendout_eq)
  show ?thesis
  proof (cases r)
    case None
    then show ?thesis using eq s1 r by auto
  next
    case (Some rest)
    obtain s2 ob2 where s2: "sendout_queue S rest p s1 = Inr s2" "conn_ok p s2"
        "rt_bfevents s2 = (rt_bfevents s1)(p \<mapsto> b\<lparr>bf_outbuff := ob2\<rparr>)"
        "contents ob2 = contents ob @ rest" "sent (rt_world s2) = sent (rt_world s1)"
        "rest \<noteq> [] \<longrightarrow> writeable (bf_ev b) s2 = Inr True"
      using sendout_queue_ok [OF silent s1(2), of "b\<lparr>bf_outbuff := ob\<rparr>" rest] s1(3,4) r Some by auto
    show ?thesis using eq Some s1(3) s2 r False by (intro exI [of _ s2] exI [of _ ob2]) auto
  qed
qed

lemma same_bfevents:
  fixes s s' :: "('w, 'm) conns_scheme"
  shows "reactor.more s' = reactor.more s \<Longrightarrow> rt_bfevents s' = rt_bfevents s"
  by (cases s; cases s') simp

section \<open>The direct write\<close>

text \<open>
  The direct path of \<^verbatim>\<open>sendout\<close>: once \<^verbatim>\<open>write\<close> has taken any number of bytes the function only
  runs the write callback, as \<^verbatim>\<open>relen\<close> is reduced by \<^verbatim>\<open>len\<close>.
\<close>

lemma sendout_direct_write:
  assumes ok: "conn_ok p s" and b: "rt_bfevents s p = Some b"
    and idle: "writeable (bf_ev b) s = Inr False" "contents (bf_outbuff b) = []"
    and w: "sys_write S (bf_fd b) data (rt_world s) = (Inr n, w)"
  shows "sendout S run before data p s = call_cb run (bf_writecb b) (s\<lparr>rt_world := w\<rparr>)"
proof -
  have p: "p \<noteq> NULL" "buf_inv (bf_outbuff b)" using ok b by (auto elim: conn_okE)
  let ?s = "s\<lparr>rt_world := w\<rparr>"
  show ?thesis
  proof (cases "bf_writecb b")
    case None
    then show ?thesis
      using p b idle w
      by (simp add: sendout_eq sendout_direct_def bf_writeable_def readbytes_zero call_simps
          sendout_queue_def call_cb_def)
  next
    case (Some c)
    then show ?thesis
      using p b idle w
      by (cases "run c ?s")
        (simp_all add: sendout_eq sendout_direct_def bf_writeable_def readbytes_zero call_simps call_cb_def)
  qed
qed

lemma sendout_direct_ok:
  assumes spec: "write_spec S sent" and quiet: "quiet sent run"
    and ok: "conn_ok p s" and b: "rt_bfevents s p = Some b"
    and idle: "writeable (bf_ev b) s \<noteq> Inr True" "contents (bf_outbuff b) = []"
    and n: "fst (sys_write S (bf_fd b) data (rt_world s)) = Inr n"
  shows "\<exists>s'. sendout S run before data p s = Inr s' \<and> conn_ok p s' \<and>
           rt_bfevents s' = rt_bfevents s \<and>
           sent (rt_world s') (bf_fd b) = sent (rt_world s) (bf_fd b) @ take n data"
proof -
  obtain w where w: "sys_write S (bf_fd b) data (rt_world s) = (Inr n, w)"
    using n by (metis prod.collapse)
  have "writeable (bf_ev b) s = Inr False"
    using ok b idle(1) by (auto simp: writeable_def elim!: conn_okE)
  note eq = sendout_direct_write [OF ok b this idle(2) w, of run before]
  obtain s' where s': "call_cb run (bf_writecb b) (s\<lparr>rt_world := w\<rparr>) = Inr s'" "rt_bfevents s' = rt_bfevents s"
      "rt_events s' = rt_events s" "rt_loops s' = rt_loops s" "sent (rt_world s') = sent w"
    using quiet_call_cb [OF quiet, of "bf_writecb b" "s\<lparr>rt_world := w\<rparr>"] by auto
  then show ?thesis using eq ok write_specD(3) [OF spec w] by (simp add: conn_ok_def)
qed

lemma sendout_all_direct:
  assumes "write_spec S sent" "quiet sent run" "conn_ok p s" and b: "rt_bfevents s p = Some b"
    and idle: "writeable (bf_ev b) s \<noteq> Inr True" "contents (bf_outbuff b) = []"
    and "fst (sys_write S (bf_fd b) data (rt_world s)) = Inr (length data)"
  shows "\<exists>s' ob. sendout S run before data p s = Inr s' \<and> conn_ok p s' \<and>
           rt_bfevents s' = (rt_bfevents s)(p \<mapsto> b\<lparr>bf_outbuff := ob\<rparr>) \<and>
           sent (rt_world s') (bf_fd b) @ contents ob =
             sent (rt_world s) (bf_fd b) @ contents (bf_outbuff b) @ data \<and>
           (data \<noteq> [] \<and> contents ob \<noteq> [] \<longrightarrow> writeable (bf_ev b) s' = Inr True)"
proof -
  obtain s' where s': "sendout S run before data p s = Inr s'" "conn_ok p s'"
      "rt_bfevents s' = rt_bfevents s"
      "sent (rt_world s') (bf_fd b) = sent (rt_world s) (bf_fd b) @ data"
    using sendout_direct_ok [OF assms] by auto
  then show ?thesis
    using b idle(2) by (intro exI [of _ s'] exI [of _ "bf_outbuff b"]) auto
qed

section \<open>Closing\<close>

text \<open>close(2) drops the descriptor from the interest lists and touches no other entry.\<close>

definition close_spec :: "'w sys \<Rightarrow> 'w interest \<Rightarrow> bool" where
  "close_spec S interest \<longleftrightarrow>
     (\<forall>fd w ep fd'. interest (snd (sys_close S fd w)) ep fd' = (if fd' = fd then None else interest w ep fd'))"

text \<open>A connection that listens on loop \<open>l\<close> and has no callbacks any more.\<close>

definition conn_in ::
  "(fd \<Rightarrow> fd \<Rightarrow> bool) \<Rightarrow> addr \<Rightarrow> addr \<Rightarrow> ('w, 'm) conns_scheme \<Rightarrow> bool" where
  "conn_in valid l p s \<longleftrightarrow>
     p \<noteq> NULL \<and>
     (\<exists>b e. rt_bfevents s p = Some b \<and> bf_readcb b = None \<and> bf_ev b \<noteq> NULL \<and>
        rt_events s (bf_ev b) = Some e \<and> ev_loop e = l \<and> ev_fd e = bf_fd b \<and>
        listens valid l (bf_ev b) s)"

text \<open>Switching the interest in output on or off before leaving the loop.\<close>

lemma conn_in_set_events:
  assumes S: "epoll_ctl_spec S interest" "epoll_ctl_live S interest valid"
    and sync: "synced interest l s" and c: "conn_in valid l p s" and b: "rt_bfevents s p = Some b"
  shows "\<exists>s'. bindR (upd_event (bf_ev b) (\<lambda>e. e\<lparr>ev_events := f (ev_events e)\<rparr>) s)
               (update_ep S (bf_ev b)) = Inr s' \<and> synced interest l s' \<and> conn_in valid l p s' \<and>
             rt_bfevents s' = rt_bfevents s \<and> rt_loops s' = rt_loops s"
proof -
  obtain e where e: "p \<noteq> NULL" "bf_readcb b = None" "bf_ev b \<noteq> NULL" "rt_events s (bf_ev b) = Some e"
      "ev_loop e = l" "ev_fd e = bf_fd b" "listens valid l (bf_ev b) s"
    using c b by (auto simp: conn_in_def)
  obtain s' where s': "bindR (upd_event (bf_ev b) (\<lambda>e. e\<lparr>ev_events := f (ev_events e)\<rparr>) s)
        (update_ep S (bf_ev b)) = Inr s'" "synced interest l s'" "rt_loops s' = rt_loops s"
      "rt_events s' = (rt_events s)(bf_ev b \<mapsto> e\<lparr>ev_events := f (ev_events e)\<rparr>)"
      "reactor.more s' = reactor.more s"
    using sync_set_events [OF S sync e(7), of f] e(4) by auto
  have "conn_in valid l p s'"
    using b e s' same_bfevents [OF s'(5)] by (auto simp: conn_in_def listens_def split: option.splits)
  with s' same_bfevents [OF s'(5)] show ?thesis by blast
qed

text \<open>Up to the removal of the event, \<^verbatim>\<open>del_listen\<close> changes what is watched at most.\<close>

lemma bf_del_listen_mask:
  assumes S: "epoll_ctl_spec S interest" "epoll_ctl_live S interest valid"
    and sync: "synced interest l s" and c: "conn_in valid l p s" and b: "rt_bfevents s p = Some b"
  obtains s1 where "synced interest l s1" "conn_in valid l p s1" "rt_bfevents s1 = rt_bfevents s"
      "rt_loops s1 = rt_loops s"
      "bf_del_listen S run p s =
        bindR (on_ev (del_listen S) p s1) (\<lambda>s. upd_bf p (\<lambda>b. b\<lparr>bf_closed := True\<rparr>) s)"
proof -
  note on = conn_in_set_events [OF S sync c b, of "\<lambda>m. m OR EPOLLOUT"]
    and off = conn_in_set_events [OF S sync c b, of "\<lambda>m. m AND NOT EPOLLOUT"]
  obtain e where e: "rt_events s (bf_ev b) = Some e" and p: "p \<noteq> NULL" "bf_readcb b = None" "bf_ev b \<noteq> NULL"
    using c b by (auto simp: conn_in_def)
  have wr: "on_ev writeable p s = Inr (ev_events e AND EPOLLOUT \<noteq> 0)"
    using p b e by (simp add: writeable_def)
  show ?thesis
  proof (cases "readbytes (bf_outbuff b) = 0")
    case True
    then show ?thesis
      using off p b that
      by (auto simp: bf_del_listen_def call_readcb_def disable_write_def disable_events_def)
  next
    case False
    then have gt: "0 < readbytes (bf_outbuff b)" by (simp add: word_gt_0)
    show ?thesis
    proof (cases "ev_events e AND EPOLLOUT \<noteq> 0")
      case True
      then have "bf_del_listen S run p s =
          bindR (on_ev (del_listen S) p s) (\<lambda>s. upd_bf p (\<lambda>b. b\<lparr>bf_closed := True\<rparr>) s)"
        using gt False p b wr by (auto simp: bf_del_listen_def call_readcb_def)
      then show ?thesis using that [OF sync c] by simp
    next
      case no: False
      obtain s1 where s1: "enable_write S (bf_ev b) s = Inr s1" "synced interest l s1" "conn_in valid l p s1"
          "rt_bfevents s1 = rt_bfevents s" "rt_loops s1 = rt_loops s"
        using on by (auto simp: enable_write_def enable_events_def)
      then have "bf_del_listen S run p s =
          bindR (on_ev (del_listen S) p s1) (\<lambda>s. upd_bf p (\<lambda>b. b\<lparr>bf_closed := True\<rparr>) s)"
        using no gt False p b wr by (auto simp: bf_del_listen_def call_readcb_def)
      then show ?thesis using that [OF s1(2-5)] by simp
    qed
  qed
qed

lemma bf_del_listen_ok:
  assumes S: "epoll_ctl_spec S interest" "epoll_ctl_live S interest valid"
    and sync: "synced interest l s" and c: "conn_in valid l p s" and b: "rt_bfevents s p = Some b"
  shows "\<exists>s'. bf_del_listen S run p s = Inr s' \<and> synced interest l s' \<and>
             rt_bfevents s' = (rt_bfevents s)(p \<mapsto> b\<lparr>bf_closed := True\<rparr>) \<and>
             rt_events s' (bf_ev b) \<noteq> None \<and>
             (\<forall>q \<in> set (el_evlist (the (rt_loops s' l))). ev_fd (the (rt_events s' q)) \<noteq> bf_fd b) \<and>
             el_evlist (the (rt_loops s' l)) = remove1 (bf_ev b) (el_evlist (the (rt_loops s l)))"
proof -
  obtain s1 where s1: "synced interest l s1" "conn_in valid l p s1" "rt_bfevents s1 = rt_bfevents s"
      "rt_loops s1 = rt_loops s"
    and eq: "bf_del_listen S run p s =
      bindR (on_ev (del_listen S) p s1) (\<lambda>s. upd_bf p (\<lambda>b. b\<lparr>bf_closed := True\<rparr>) s)"
    using bf_del_listen_mask [OF S sync c b, of run] .
  have p: "p \<noteq> NULL" "bf_ev b \<noteq> NULL" using c b by (auto simp: conn_in_def)
  have b1: "rt_bfevents s1 p = Some b" using s1 b by simp
  have li: "listens valid l (bf_ev b) s1" using s1(2) b1 by (auto simp: conn_in_def)
  obtain s2 where s2: "del_listen S (bf_ev b) s1 = Inr s2" "synced interest l s2"
      "rt_loops s2 = (rt_loops s1)(l \<mapsto> (the (rt_loops s1 l))
         \<lparr>el_load := el_load (the (rt_loops s1 l)) - 1,
          el_evlist := remove1 (bf_ev b) (el_evlist (the (rt_loops s1 l)))\<rparr>)"
      "rt_events s2 = rt_events s1" "reactor.more s2 = reactor.more s1"
    using sync_del_listen [OF S s1(1) li] by blast
  have b2: "rt_bfevents s2 p = Some b" using same_bfevents [OF s2(5)] b1 by simp
  have "synced interest l (put_bf p (b\<lparr>bf_closed := True\<rparr>) s2)"
    using s2(2) by (simp add: synced_def)
  moreover obtain e1 where e1: "rt_events s1 (bf_ev b) = Some e1" "ev_fd e1 = bf_fd b"
    using s1(2) b1 by (auto simp: conn_in_def)
  moreover have "ev_fd (the (rt_events s2 q)) \<noteq> bf_fd b" if q: "q \<in> set (el_evlist (the (rt_loops s2 l)))" for q
  proof -
    obtain L where L: "rt_loops s1 l = Some L"
      and ls: "loop_sync l L (rt_events s1) (interest (rt_world s1) (el_epfd L))"
      using s1(1) by (rule syncedD)
    have "bf_ev b \<in> set (el_evlist L)" "q \<in> set (el_evlist L)" "q \<noteq> bf_ev b"
      using li L q s2(3) ls by (auto simp: listens_def loop_sync_def dest: notin_set_remove1)
    then show ?thesis using ls e1 s2(4) by (fastforce simp: loop_sync_def inj_on_def)
  qed
  ultimately show ?thesis
    using eq p b1 b2 s2 s1(3,4) same_bfevents [OF s2(5)] by simp
qed

lemma synced_world:
  assumes "synced interest l s" "rt_loops s l = Some L"
    "interest w (el_epfd L) = interest (rt_world s) (el_epfd L)"
  shows "synced interest l (s\<lparr>rt_world := w\<rparr>)"
  using assms by (auto simp: synced_def)

text \<open>An event that no longer listens can be freed.\<close>

lemma synced_free_event:
  assumes "synced interest l s" "q \<notin> set (el_evlist (the (rt_loops s l)))"
  shows "synced interest l (s\<lparr>rt_events := (rt_events s)(q := None)\<rparr>)"
proof -
  obtain L where L: "l \<noteq> NULL" "rt_loops s l = Some L"
    and ls: "loop_sync l L (rt_events s) (interest (rt_world s) (el_epfd L))"
    using assms(1) by (rule syncedD)
  let ?h = "(rt_events s)(q := None)"
  have same: "?h x = rt_events s x" if "x \<in> set (el_evlist L)" for x using that assms(2) L by auto
  have "registered ?h (el_evlist L) = registered (rt_events s) (el_evlist L)"
    using same by (intro registered_cong) (simp add: entry_def)
  moreover have "inj_on (\<lambda>p. ev_fd (the (?h p))) (set (el_evlist L)) \<longleftrightarrow>
      inj_on (\<lambda>p. ev_fd (the (rt_events s p))) (set (el_evlist L))"
    using same by (intro inj_on_cong) simp
  ultimately have "loop_sync l L ?h (interest (rt_world s) (el_epfd L))"
    using ls same unfolding loop_sync_def by (auto simp: live_in_def)
  then show ?thesis using assms(1) L by (auto simp: synced_def)
qed

lemma delete_bfevent_ok:
  assumes S: "epoll_ctl_spec S interest" "epoll_ctl_live S interest valid" and cl: "close_spec S interest"
    and sync: "synced interest l s" and c: "conn_in valid l p s" and b: "rt_bfevents s p = Some b"
    and opened: "\<not> bf_closed b"
  shows "\<exists>s' w. delete_bfevent S run p s = Inr s' \<and> synced interest l s' \<and>
             rt_bfevents s' = (rt_bfevents s)(p := None) \<and> rt_events s' (bf_ev b) = None \<and>
             el_evlist (the (rt_loops s' l)) = remove1 (bf_ev b) (el_evlist (the (rt_loops s l))) \<and>
             rt_world s' = snd (sys_close S (bf_fd b) w)"
proof -
  have p: "p \<noteq> NULL" "bf_ev b \<noteq> NULL" using c b by (auto simp: conn_in_def)
  obtain s1 e where s1: "bf_del_listen S run p s = Inr s1" "synced interest l s1"
      "rt_bfevents s1 = (rt_bfevents s)(p \<mapsto> b\<lparr>bf_closed := True\<rparr>)"
      "rt_events s1 (bf_ev b) = Some e"
      "\<forall>q \<in> set (el_evlist (the (rt_loops s1 l))). ev_fd (the (rt_events s1 q)) \<noteq> bf_fd b"
      "el_evlist (the (rt_loops s1 l)) = remove1 (bf_ev b) (el_evlist (the (rt_loops s l)))"
    using bf_del_listen_ok [OF S sync c b] by blast
  obtain L where L: "l \<noteq> NULL" "rt_loops s1 l = Some L"
    and ls: "loop_sync l L (rt_events s1) (interest (rt_world s1) (el_epfd L))"
    using s1(2) by (rule syncedD)
  let ?w = "snd (sys_close S (bf_fd b) (rt_world s1))"
  have dist: "distinct (el_evlist (the (rt_loops s l)))"
    using sync by (auto simp: synced_def loop_sync_def)
  have notin: "bf_ev b \<notin> set (el_evlist L)" using s1(6) L dist by simp
  have fresh: "\<forall>q \<in> set (el_evlist L). ev_fd (the (rt_events s1 q)) \<noteq> bf_fd b"
    using s1(5) L by simp
  have "interest ?w (el_epfd L) = interest (rt_world s1) (el_epfd L)"
    using ls fresh registered_notin [of "rt_events s1" "el_evlist L" "bf_fd b"] cl
    unfolding close_spec_def loop_sync_def by (auto simp: fun_eq_iff)
  then have s2: "synced interest l (s1\<lparr>rt_world := ?w\<rparr>)" using s1(2) L by (intro synced_world)
  let ?s = "put_bf p (b\<lparr>bf_closed := True\<rparr>) (s1\<lparr>rt_world := ?w\<rparr>)"
  have close: "close_event S run p s = Inr ?s"
    using p b opened s1(1,3) by (simp add: close_event_def call_def split: prod.splits)
  have "synced interest l ?s" using s2 by (simp add: synced_def)
  then have "synced interest l (?s\<lparr>rt_events := (rt_events ?s)(bf_ev b := None)\<rparr>)"
    using notin L by (intro synced_free_event) simp_all
  then have "synced interest l (?s\<lparr>rt_events := (rt_events ?s)(bf_ev b := None),
      rt_bfevents := (rt_bfevents ?s)(p := None)\<rparr>)" by (simp add: synced_def)
  then show ?thesis
    using close p b s1 by (auto simp: delete_bfevent_def delete_event_def)
qed

section \<open>A sample connection\<close>

lemma sample_write_spec: "write_spec sample_sys k_output"
  by (auto simp: write_spec_def sample_sys_def k_write_def Let_def split: if_splits)

lemma sample_writev_spec: "writev_spec sample_sys k_output"
  by (auto simp: writev_spec_def sample_sys_def k_write_def Let_def split: if_splits)

lemma sample_readv_spec: "readv_spec sample_sys k_input"
  by (auto simp: readv_spec_def sample_sys_def k_read_def split: if_splits)

lemma sample_readv_drained: "readv_drained sample_sys k_input"
  by (auto simp: readv_drained_def sample_sys_def k_read_def split: if_splits)
    (metis not_gr_zero sum_list_eq_0_iff)

lemma sample_ctl_silent: "ctl_silent sample_sys k_output"
  by (auto simp: ctl_silent_def sample_sys_def k_ctl_def)

lemma quiet_skip: "quiet sent (\<lambda>c. Inr)"
  by (simp add: quiet_def)

lemma reader_skip: "reader (\<lambda>_. []) unread p (\<lambda>c. Inr)"
  using reader_step_refl by (auto simp: reader_def)

definition sample_bfevent :: "buffer \<Rightarrow> bfevent" where
  "sample_bfevent ob = \<lparr>bf_loop = 1, bf_fd = 9, bf_ev = 4, bf_inbuff = new_buffer, bf_outbuff = ob,
     bf_readcb = None, bf_writecb = None, bf_eventcb = None, bf_closed = False\<rparr>"

text \<open>Output buffers with two bytes in them.\<close>

definition sample_out :: buffer where
  "sample_out = \<lparr>bf_data = [1, 2, 0], bf_reader = 0, bf_writer = 2\<rparr>"

definition sample_conn :: "kernel \<Rightarrow> buffer \<Rightarrow> kernel conns" where
  "sample_conn k ob =
     \<lparr>rt_events = [4 \<mapsto> \<lparr>ev_loop = 1, ev_fd = 9, ev_events = EPOLLIN, ev_revents = None,
        ev_readcb = Some (Bf_handle_read 3), ev_writecb = Some (Bf_handle_write 3),
        ev_eventcb = Some (Bf_handle_event 3)\<rparr>],
      rt_loops = [1 \<mapsto> sample_eventloop\<lparr>el_evlist := [4]\<rparr>],
      rt_world = k\<lparr>k_interest := set_interest 3 9 (Some (EPOLLIN, 4)) (\<lambda>_ _. None)\<rparr>,
      rt_next = 5, rt_bfevents = [3 \<mapsto> sample_bfevent ob]\<rparr>"

lemma sample_out_ok: "buf_inv sample_out" "contents sample_out = [1, 2]"
  by (simp_all add: buf_inv_def sample_out_def contents_def VECTOR_MAX_def)

lemma sample_conn_fields:
  "rt_bfevents (sample_conn k ob) 3 = Some (sample_bfevent ob)"
  "bf_fd (sample_bfevent ob) = 9" "bf_ev (sample_bfevent ob) = 4" "bf_outbuff (sample_bfevent ob) = ob"
  "bf_inbuff (sample_bfevent ob) = new_buffer" "bf_readcb (sample_bfevent ob) = None"
  "\<not> bf_closed (sample_bfevent ob)"
  "k_input (rt_world (sample_conn k ob)) = k_input k" "k_output (rt_world (sample_conn k ob)) = k_output k"
  by (simp_all add: sample_conn_def sample_bfevent_def)

lemma sample_conn_ok: "buf_inv ob \<Longrightarrow> conn_ok 3 (sample_conn k ob)"
  by (simp add: conn_ok_def sample_conn_def sample_bfevent_def new_buffer_ok sample_eventloop_def)

lemma sample_conn_synced: "synced k_interest 1 (sample_conn k ob)"
  by (auto simp: synced_def sample_conn_def loop_sync_def live_in_def registered_def entry_def
      sample_eventloop_def set_interest_def)

section \<open>Properties\<close>

text \<open>
  C9. Flushing: \<^verbatim>\<open>handle_write\<close> returns, the bytes the peer has been sent followed by those still
  queued are the same stream as before, in order, nothing else of the connection changes, and
  when the queue is empty the event no longer watches for output.
\<close>

theorem handle_write_flushes:
  assumes "write_spec S sent" and "ctl_silent S sent" and "quiet sent run"
    and "conn_ok p s" and "rt_bfevents s p = Some b"
  shows "\<exists>s' ob. handle_write S run p s = Some (Inr s') \<and> conn_ok p s' \<and>
           rt_bfevents s' = (rt_bfevents s)(p \<mapsto> b\<lparr>bf_outbuff := ob\<rparr>) \<and>
           sent (rt_world s') (bf_fd b) @ contents ob =
             sent (rt_world s) (bf_fd b) @ contents (bf_outbuff b) \<and>
           (contents ob = [] \<longrightarrow> writeable (bf_ev b) s' = Inr False)"
  using assms by (rule handle_write_ok)

theorem handle_write_flushes_witness:
  "\<exists>s' ob. handle_write sample_sys (\<lambda>c. Inr) 3 (sample_conn kernel0 sample_out) = Some (Inr s') \<and>
     k_output (rt_world s') 9 @ contents ob = [1, 2]"
  using handle_write_flushes [OF sample_write_spec sample_ctl_silent quiet_skip
      sample_conn_ok [OF sample_out_ok(1), of kernel0] sample_conn_fields(1)]
  by (auto simp: sample_conn_fields sample_out_ok kernel0_def)

text \<open>
  C8. Draining: \<^verbatim>\<open>handle_read\<close> returns, and what the application has taken, what is buffered and
  what is unread remain one stream, with no byte lost, repeated or reordered, whatever the
  callbacks take and whatever sizes \<^verbatim>\<open>readv\<close> delivers. When the descriptor reports no error but
  "would block", everything it had is read: the edge-triggered event misses nothing.
\<close>

theorem handle_read_delivers:
  assumes "readv_spec S unread" and "reader taken unread p run" and "p \<noteq> NULL"
    and "rt_bfevents s p = Some b" and "buf_inv (bf_inbuff b)"
    and "length (contents (bf_inbuff b)) + length (unread (rt_world s) (bf_fd b)) \<le> VECTOR_MAX"
  shows "\<exists>s' b'. handle_read S run p s = Some (Inr s') \<and> rt_bfevents s' p = Some b' \<and>
           buf_inv (bf_inbuff b') \<and> bf_fd b' = bf_fd b \<and>
           taken s' @ contents (bf_inbuff b') @ unread (rt_world s') (bf_fd b) =
             taken s @ contents (bf_inbuff b) @ unread (rt_world s) (bf_fd b) \<and>
           (readv_drained S unread \<and> soft_reads S (bf_fd b) \<longrightarrow> unread (rt_world s') (bf_fd b) = [])"
proof -
  let ?stream = "taken s @ contents (bf_inbuff b) @ unread (rt_world s) (bf_fd b)"
  have "read_inv taken unread p (bf_fd b) ?stream s"
    using assms(4-6) by (simp add: read_inv_def)
  from handle_read_ok [OF assms(1-3) this] show ?thesis by (auto simp: read_inv_def)
qed

theorem handle_read_delivers_witness:
  "\<exists>s' b'. handle_read sample_sys (\<lambda>c. Inr) 3
       (sample_conn (kernel0\<lparr>k_input := (\<lambda>_. [])(9 := [5, 6, 7])\<rparr>) new_buffer) = Some (Inr s') \<and>
     rt_bfevents s' 3 = Some b' \<and> contents (bf_inbuff b') = [5, 6, 7]"
proof -
  let ?k = "kernel0\<lparr>k_input := (\<lambda>_. [])(9 := [5, 6, 7])\<rparr>"
  have "soft_reads sample_sys 9"
    by (auto simp: soft_reads_def sample_sys_def k_read_def split: if_splits)
  then show ?thesis
    using handle_read_delivers [OF sample_readv_spec reader_skip, of 3 "sample_conn ?k new_buffer"
        "sample_bfevent new_buffer"] sample_readv_drained
    by (auto simp: sample_conn_fields new_buffer_ok VECTOR_MAX_def)
qed

text \<open>
  C10. Sending behind queued data, or while output is watched: \<^verbatim>\<open>sendout\<close> sends and queues so that
  the peer's bytes followed by the queue are what they were, followed by the new data; what
  stays queued is watched for output. The same holds when the direct write takes everything.
  The kernel may take any number of bytes in the gathering write, or none.
\<close>

theorem sendout_keeps_order:
  assumes "ctl_silent S sent" and "write_spec S sent" and "writev_spec S sent" and "quiet sent run"
    and "conn_ok p s" and "rt_bfevents s p = Some b"
    and "length (contents (bf_outbuff b)) + length data \<le> VECTOR_MAX"
    and "\<And>e. fst (sys_writev S (bf_fd b) [contents (bf_outbuff b), data] (rt_world s)) = Inl e \<Longrightarrow> e = EAGAIN"
    and "writeable (bf_ev b) s = Inr True \<or> contents (bf_outbuff b) \<noteq> [] \<or>
         fst (sys_write S (bf_fd b) data (rt_world s)) = Inr (length data)"
  shows "\<exists>s' ob. sendout S run before data p s = Inr s' \<and> conn_ok p s' \<and>
           rt_bfevents s' = (rt_bfevents s)(p \<mapsto> b\<lparr>bf_outbuff := ob\<rparr>) \<and>
           sent (rt_world s') (bf_fd b) @ contents ob =
             sent (rt_world s) (bf_fd b) @ contents (bf_outbuff b) @ data \<and>
           (data \<noteq> [] \<and> contents ob \<noteq> [] \<longrightarrow> writeable (bf_ev b) s' = Inr True)"
proof (cases "writeable (bf_ev b) s = Inr True \<or> contents (bf_outbuff b) \<noteq> []")
  case True
  show ?thesis
    by (rule sendout_rest_ok [OF assms(1,3-8) sendout_pending [OF assms(5,6) True]])
next
  case False
  then show ?thesis
    using sendout_all_direct [OF assms(2,4-6)] assms(9) by auto
qed

theorem sendout_keeps_order_witness:
  "\<exists>s' ob. sendout sample_sys (\<lambda>c. Inr) None [3, 4, 5] 3 (sample_conn kernel0 sample_out) = Inr s' \<and>
     k_output (rt_world s') 9 @ contents ob = [1, 2, 3, 4, 5]"
proof -
  have "fst (sys_writev sample_sys fd bss w) = Inl e \<Longrightarrow> e = EAGAIN" for fd bss w e
    by (auto simp: sample_sys_def k_write_def Let_def split: if_splits)
  then show ?thesis
    using sendout_keeps_order [OF sample_ctl_silent sample_write_spec sample_writev_spec quiet_skip
        sample_conn_ok [OF sample_out_ok(1), of kernel0] sample_conn_fields(1), of "[3, 4, 5]" None]
    by (auto simp: sample_conn_fields sample_out_ok VECTOR_MAX_def kernel0_def)
qed

text \<open>
  C32. The direct write drops data: when nothing is queued and \<^verbatim>\<open>write\<close> takes only the first \<open>n\<close>
  bytes, \<^verbatim>\<open>sendout\<close> returns as if it had sent everything, and the rest is neither sent nor
  queued (\<^verbatim>\<open>relen -= len\<close> where \<^verbatim>\<open>n\<close> was meant).
\<close>

theorem sendout_partial_write_drops:
  assumes "write_spec S sent" and "quiet sent run"
    and "conn_ok p s" and "rt_bfevents s p = Some b"
    and "writeable (bf_ev b) s \<noteq> Inr True" and "contents (bf_outbuff b) = []"
    and "fst (sys_write S (bf_fd b) data (rt_world s)) = Inr n" and "n < length data"
  shows "\<exists>s'. sendout S run before data p s = Inr s' \<and> rt_bfevents s' p = Some b \<and>
           sent (rt_world s') (bf_fd b) @ contents (bf_outbuff b) =
             sent (rt_world s) (bf_fd b) @ take n data \<and>
           take n data \<noteq> data"
proof -
  have "take n data \<noteq> data" using assms(8) by (metis length_take min.absorb4 nat_neq_iff)
  then show ?thesis using sendout_direct_ok [OF assms(1-7), of before] assms(4,6) by auto
qed

theorem sendout_partial_write_drops_witness:
  "\<exists>s'. sendout sample_sys (\<lambda>c. Inr) None [1, 2, 3, 4, 5, 6] 3 (sample_conn kernel0 new_buffer) = Inr s' \<and>
        rt_bfevents s' 3 = Some (sample_bfevent new_buffer) \<and> k_output (rt_world s') 9 = [1, 2, 3, 4]"
proof -
  have "writeable 4 (sample_conn kernel0 new_buffer) \<noteq> Inr True"
    by (simp add: writeable_def sample_conn_def EPOLLIN_def EPOLLOUT_def)
  moreover have "fst (sys_write sample_sys 9 [1, 2, 3, 4, 5, 6] (rt_world (sample_conn kernel0 new_buffer))) = Inr 4"
    by (simp add: sample_sys_def k_write_def sample_conn_def kernel0_def)
  ultimately show ?thesis
    using sendout_partial_write_drops [OF sample_write_spec quiet_skip
        sample_conn_ok [OF new_buffer_ok(1), of kernel0] sample_conn_fields(1), of "[1, 2, 3, 4, 5, 6]" 4 None]
    by (auto simp: sample_conn_fields new_buffer_ok kernel0_def)
qed

text \<open>
  Destruction: deleting an open connection whose callbacks have been disabled leaves no
  trace of it: it stops listening, its descriptor is closed, both objects are freed, and the
  loop and the interest list of epoll agree again, so that epoll holds no pointer to the
  freed event.
\<close>

theorem delete_bfevent_clean:
  assumes "epoll_ctl_spec S interest" and "epoll_ctl_live S interest valid" and "close_spec S interest"
    and "synced interest l s" and "conn_in valid l p s" and "rt_bfevents s p = Some b"
    and "\<not> bf_closed b"
  shows "\<exists>s' L w. delete_bfevent S run p s = Inr s' \<and> rt_bfevents s' p = None \<and>
           rt_events s' (bf_ev b) = None \<and> rt_world s' = snd (sys_close S (bf_fd b) w) \<and>
           rt_loops s' l = Some L \<and>
           el_evlist L = remove1 (bf_ev b) (el_evlist (the (rt_loops s l))) \<and>
           interest (rt_world s') (el_epfd L) = registered (rt_events s') (el_evlist L)"
proof -
  obtain s' w where s': "delete_bfevent S run p s = Inr s'" "synced interest l s'"
      "rt_bfevents s' = (rt_bfevents s)(p := None)" "rt_events s' (bf_ev b) = None"
      "el_evlist (the (rt_loops s' l)) = remove1 (bf_ev b) (el_evlist (the (rt_loops s l)))"
      "rt_world s' = snd (sys_close S (bf_fd b) w)"
    using delete_bfevent_ok [OF assms] by blast
  with synced_interest [OF s'(2)] show ?thesis by auto
qed

text \<open>The sample kernel with a \<^verbatim>\<open>close\<close> that also leaves the interest lists.\<close>

definition closing_sys :: "kernel sys" where
  "closing_sys = sample_sys\<lparr>sys_close := \<lambda>fd k.
     (Inr (), k\<lparr>k_interest := \<lambda>ep fd'. if fd' = fd then None else k_interest k ep fd'\<rparr>)\<rparr>"

theorem delete_bfevent_clean_witness:
  "\<exists>s' L w. delete_bfevent closing_sys (\<lambda>c. Inr) 3 (sample_conn kernel0 new_buffer) = Inr s' \<and>
     rt_bfevents s' 3 = None \<and> rt_events s' 4 = None \<and> rt_world s' = snd (sys_close closing_sys 9 w) \<and>
     rt_loops s' 1 = Some L \<and> el_evlist L = []"
proof -
  have "epoll_ctl_spec closing_sys k_interest" "epoll_ctl_live closing_sys k_interest (\<lambda>_ _. True)"
    using sample_ctl_spec sample_ctl_live
    by (simp_all add: epoll_ctl_spec_def epoll_ctl_live_def closing_sys_def)
  moreover have "close_spec closing_sys k_interest" by (simp add: close_spec_def closing_sys_def)
  moreover have "conn_in (\<lambda>_ _. True) 1 3 (sample_conn kernel0 new_buffer)"
    by (simp add: conn_in_def sample_conn_def sample_bfevent_def listens_def)
  moreover have "el_evlist (the (rt_loops (sample_conn kernel0 new_buffer) 1)) = [4]"
    by (simp add: sample_conn_def)
  ultimately show ?thesis
    using delete_bfevent_clean [of closing_sys k_interest "\<lambda>_ _. True" 1 "sample_conn kernel0 new_buffer" 3
        "sample_bfevent new_buffer" "\<lambda>c. Inr"] sample_conn_synced
    by (auto simp: sample_conn_fields)
qed

section \<open>Two defects\<close>

lemma call_ctl_silent:
  "ctl_silent S f \<Longrightarrow> f (rt_world (snd (call (sys_epoll_ctl S ep op fd e) s))) = f (rt_world s)"
  unfolding ctl_silent_def call_def
  by (cases "sys_epoll_ctl S ep op fd e (rt_world s)") (metis prod.case snd_conv reactor.select_convs(3) reactor.surjective reactor.update_convs(3))

lemma upd_world [simp]:
  "upd_event p f s = Inr s' \<Longrightarrow> rt_world s' = rt_world s"
  "upd_loop l g s = Inr s' \<Longrightarrow> rt_world s' = rt_world s"
  by (auto simp: upd_event_def upd_loop_def bindR_eq_Inr)

lemma event_ops_silent:
  assumes "ctl_silent S f"
  shows "update_ep S p s = Inr s' \<Longrightarrow> f (rt_world s') = f (rt_world s)"
    and "enable_events S p m s = Inr s' \<Longrightarrow> f (rt_world s') = f (rt_world s)"
    and "disable_events S p m s = Inr s' \<Longrightarrow> f (rt_world s') = f (rt_world s)"
    and "del_listen S p s = Inr s' \<Longrightarrow> f (rt_world s') = f (rt_world s)"
proof -
  show *: "update_ep S p s = Inr s' \<Longrightarrow> f (rt_world s') = f (rt_world s)" for s
    using call_ctl_silent [OF assms] by (auto simp: update_ep_def mod_event_def bindR_eq_Inr)
  show "enable_events S p m s = Inr s' \<Longrightarrow> f (rt_world s') = f (rt_world s)"
    by (auto simp: enable_events_def bindR_eq_Inr dest: *)
  show "disable_events S p m s = Inr s' \<Longrightarrow> f (rt_world s') = f (rt_world s)"
    by (auto simp: disable_events_def bindR_eq_Inr dest: *)
  show "del_listen S p s = Inr s' \<Longrightarrow> f (rt_world s') = f (rt_world s)"
    using call_ctl_silent [OF assms]
    by (auto simp: del_listen_def del_event_def bindR_eq_Inr)
qed

text \<open>What the operations on the event keep, leaving the loop keeps too.\<close>

lemma bf_del_listen_keeps:
  assumes ops: "\<And>ev m s s'. enable_events S ev m s = Inr s' \<Longrightarrow> F s' = F s"
      "\<And>ev m s s'. disable_events S ev m s = Inr s' \<Longrightarrow> F s' = F s"
      "\<And>ev s s'. del_listen S ev s = Inr s' \<Longrightarrow> F s' = F s"
      "\<And>s s' g. upd_bf p g s = Inr s' \<Longrightarrow> F s' = F s"
    and b: "rt_bfevents s p = Some b" "bf_readcb b = None"
    and d: "bf_del_listen S run p s = Inr s'"
  shows "F s' = F s"
proof -
  have p: "p \<noteq> NULL" using d by (auto simp: bf_del_listen_def bindR_eq_Inr deref_eq_Inr)
  have r: "(if readbytes (bf_inbuff b) > 0 then call_readcb run p s else Inr s) = Inr s"
    using p b by (simp add: call_readcb_def)
  obtain s1 b1 where s1: "(if readbytes (bf_outbuff b) > 0
        then bindR (on_ev writeable p s) (\<lambda>wr. if wr then Inr s else on_ev (enable_write S) p s)
        else Inr s) = Inr s1" "deref (rt_bfevents s1) p = Inr b1"
    and rest: "bindR (if readbytes (bf_outbuff b1) = 0 then on_ev (disable_write S) p s1 else Inr s1) (\<lambda>s.
        bindR (on_ev (del_listen S) p s) (\<lambda>s. upd_bf p (\<lambda>b. b\<lparr>bf_closed := True\<rparr>) s)) = Inr s'"
    using d p b r by (auto simp: bf_del_listen_def bindR_eq_Inr simp del: on_ev_live)
  obtain s2 s3 where s2: "(if readbytes (bf_outbuff b1) = 0 then on_ev (disable_write S) p s1 else Inr s1) = Inr s2"
      "on_ev (del_listen S) p s2 = Inr s3" "upd_bf p (\<lambda>b. b\<lparr>bf_closed := True\<rparr>) s3 = Inr s'"
    using rest by (auto simp: bindR_eq_Inr simp del: on_ev_live)
  have "F s1 = F s"
    using s1(1) ops(1)
    by (auto simp: on_ev_def bindR_eq_Inr enable_write_def split: if_splits)
  moreover have "F s2 = F s1"
    using s2(1) ops(2)
    by (auto simp: on_ev_def bindR_eq_Inr disable_write_def split: if_splits)
  moreover have "F s3 = F s2"
    using s2(2) ops(3) by (auto simp: on_ev_def bindR_eq_Inr)
  moreover have "F s' = F s3" using s2(3) by (rule ops(4))
  ultimately show ?thesis by simp
qed

lemma bf_del_listen_silent:
  assumes "ctl_silent S f" "rt_bfevents s p = Some b" "bf_readcb b = None" "bf_del_listen S run p s = Inr s'"
  shows "f (rt_world s') = f (rt_world s)"
  using assms(2-)
  by (rule bf_del_listen_keeps [where F = "\<lambda>s. f (rt_world s)", rotated 4])
    (auto simp: upd_bf_def bindR_eq_Inr dest: event_ops_silent [OF assms(1)])

text \<open>The deletions that wait are not touched.\<close>

lemma loops_call: "rt_loops (snd (call f s)) = rt_loops s"
  by (simp add: call_def split: prod.splits)

lemma event_ops_loops:
  "upd_event p g s = Inr s' \<Longrightarrow> rt_loops s' = rt_loops s"
  "update_ep S p s = Inr s' \<Longrightarrow> rt_loops s' = rt_loops s"
  by (auto simp: upd_event_def put_event_def update_ep_def mod_event_def bindR_eq_Inr loops_call)

lemma event_ops_delque:
  "enable_events S p m s = Inr s' \<Longrightarrow> map_option el_delque (rt_loops s' l) = map_option el_delque (rt_loops s l)"
  "disable_events S p m s = Inr s' \<Longrightarrow> map_option el_delque (rt_loops s' l) = map_option el_delque (rt_loops s l)"
  by (auto simp: enable_events_def disable_events_def bindR_eq_Inr dest!: event_ops_loops)

lemma del_listen_delque:
  assumes "del_listen S p s = Inr s'"
  shows "map_option el_delque (rt_loops s' l) = map_option el_delque (rt_loops s l)"
  using assms
  by (auto simp: del_listen_def del_event_def upd_loop_def put_loop_def bindR_eq_Inr deref_eq_Inr loops_call)

lemma bf_del_listen_delque:
  assumes "rt_bfevents s p = Some b" "bf_readcb b = None" "bf_del_listen S run p s = Inr s'"
  shows "map_option el_delque (rt_loops s' l) = map_option el_delque (rt_loops s l)"
  using assms
  by (rule bf_del_listen_keeps [where F = "\<lambda>s. map_option el_delque (rt_loops s l)", rotated 4])
    (auto simp: upd_bf_def put_bf_def bindR_eq_Inr dest: event_ops_delque del_listen_delque)

lemma close_event_keeps:
  assumes del: "\<And>s'. bf_del_listen S run p s = Inr s' \<Longrightarrow> F s' = F s"
    and ops: "\<And>s s' g. upd_bf p g s = Inr s' \<Longrightarrow> F s' = F s" "\<And>s fd. F (snd (call (sys_close S fd) s)) = F s"
    and d: "close_event S run p s = Inr s'"
  shows "F s' = F s"
proof -
  obtain b where b: "deref (rt_bfevents s) p = Inr b" using d by (auto simp: close_event_def bindR_eq_Inr)
  show ?thesis
  proof (cases "bf_closed b")
    case True
    then show ?thesis using d b by (simp add: close_event_def)
  next
    case False
    then obtain s1 and b1 :: bfevent where "bf_del_listen S run p s = Inr s1"
        "upd_bf p (\<lambda>b. b\<lparr>bf_closed := True\<rparr>) (snd (call (sys_close S (bf_fd b1)) s1)) = Inr s'"
      using d b by (auto simp: close_event_def bindR_eq_Inr)
    then show ?thesis using del ops by metis
  qed
qed

lemma delete_bfevent_keeps:
  assumes "\<And>s'. bf_del_listen S run p s = Inr s' \<Longrightarrow> F s' = F s"
    and "\<And>s s' g. upd_bf p g s = Inr s' \<Longrightarrow> F s' = F s" "\<And>s fd. F (snd (call (sys_close S fd) s)) = F s"
    and ops: "\<And>s h. F (s\<lparr>rt_events := h\<rparr>) = F s" "\<And>s h. F (s\<lparr>rt_bfevents := h\<rparr>) = F s"
    and d: "delete_bfevent S run p s = Inr s'"
  shows "F s' = F s"
proof -
  obtain s1 s2 and b :: bfevent where s1: "close_event S run p s = Inr s1" "delete_event (bf_ev b) s1 = Inr s2"
      "s' = s2\<lparr>rt_bfevents := (rt_bfevents s2)(p := None)\<rparr>"
    using d by (auto simp: delete_bfevent_def bindR_eq_Inr)
  have "F s2 = F s1" using s1(2) by (auto simp: delete_event_def bindR_eq_Inr ops(1) split: if_splits)
  then show ?thesis using close_event_keeps [where F = F, OF assms(1-3) s1(1)] s1(3) ops(2) by simp
qed

lemma delete_bfevent_delque:
  assumes "rt_bfevents s p = Some b" "bf_readcb b = None" "delete_bfevent S run p s = Inr s'"
  shows "map_option el_delque (rt_loops s' l) = map_option el_delque (rt_loops s l)"
  by (rule delete_bfevent_keeps [where F = "\<lambda>s. map_option el_delque (rt_loops s l)", OF _ _ _ _ _ assms(3)])
    (auto simp: upd_bf_def put_bf_def bindR_eq_Inr loops_call bf_del_listen_delque [OF assms(1,2)])

text \<open>
  C34. A connection that is removed from its loop first, as \<^verbatim>\<open>server::delev\<close> does, and deleted
  later keeps its descriptor open for ever: \<^verbatim>\<open>del_listen\<close> sets \<^verbatim>\<open>closed_\<close>, and the destructor
  closes only what is not marked as closed.
\<close>

theorem delete_after_del_listen_leaks:
  assumes "epoll_ctl_spec S interest" and "epoll_ctl_live S interest valid"
    and "synced interest l s" and "conn_in valid l p s" and "rt_bfevents s p = Some b"
    and "ctl_silent S open_fds"
  shows "\<exists>s'. bindR (bf_del_listen S run p s) (delete_bfevent S run p) = Inr s' \<and>
              rt_bfevents s' p = None \<and> open_fds (rt_world s') = open_fds (rt_world s)"
proof -
  have p: "p \<noteq> NULL" "bf_ev b \<noteq> NULL" "bf_readcb b = None" using assms(4,5) by (auto simp: conn_in_def)
  obtain s1 where s1: "bf_del_listen S run p s = Inr s1"
      "rt_bfevents s1 = (rt_bfevents s)(p \<mapsto> b\<lparr>bf_closed := True\<rparr>)" "rt_events s1 (bf_ev b) \<noteq> None"
    using bf_del_listen_ok [OF assms(1-5)] by blast
  have "open_fds (rt_world s1) = open_fds (rt_world s)"
    using bf_del_listen_silent [OF assms(6,5) p(3) s1(1)] .
  then show ?thesis
    using p s1 by (auto simp: delete_bfevent_def close_event_def delete_event_def)
qed

theorem delete_after_del_listen_leaks_witness:
  "\<exists>s'. bindR (bf_del_listen sample_sys (\<lambda>c. Inr) 3 (sample_conn (kernel0\<lparr>k_fds := [9]\<rparr>) new_buffer))
          (delete_bfevent sample_sys (\<lambda>c. Inr) 3) = Inr s' \<and>
        rt_bfevents s' 3 = None \<and> k_fds (rt_world s') = [9]"
proof -
  let ?s = "sample_conn (kernel0\<lparr>k_fds := [9]\<rparr>) new_buffer"
  have "conn_in (\<lambda>_ _. True) 1 3 ?s"
    by (simp add: conn_in_def sample_conn_def sample_bfevent_def listens_def)
  moreover have "ctl_silent sample_sys k_fds" by (simp add: ctl_silent_def sample_sys_def k_ctl_def)
  moreover have "k_fds (rt_world ?s) = [9]" by (simp add: sample_conn_def)
  ultimately show ?thesis
    using delete_after_del_listen_leaks [OF sample_ctl_spec sample_ctl_live sample_conn_synced, of 3
        "kernel0\<lparr>k_fds := [9]\<rparr>" new_buffer "sample_bfevent new_buffer" k_fds "\<lambda>c. Inr"]
    by (simp add: sample_conn_fields)
qed

lemma sendout_after_block_underruns:
  assumes "conn_ok p s" and "rt_bfevents s p = Some b"
    and "writeable (bf_ev b) s = Inr False" and "contents (bf_outbuff b) = []" and "data \<noteq> []"
    and "sys_write S (bf_fd b) data (rt_world s) = (Inl EAGAIN, w)"
  shows "sendout S run None data p s = Inl Underrun"
proof -
  have "p \<noteq> NULL" "readbytes (bf_outbuff b) = 0" using assms(1,2,4) by (auto elim: conn_okE simp: readbytes_zero)
  then have "sendout_direct S run data p s = Inr (Some (True, length data), s\<lparr>rt_world := w\<rparr>)"
    using assms(2,3,6) by (simp add: sendout_direct_def bf_writeable_def call_simps)
  then show ?thesis using assms(5) by (simp add: sendout_eq sendout_vec_def)
qed

text \<open>
  C33. The write after a blocked write starts one byte too early: when the direct \<^verbatim>\<open>write\<close>
  would have blocked and the gathering write then succeeds, the peer gets the byte in memory
  in front of the data, then the data without its last byte, and \<^verbatim>\<open>sendout\<close> reports success
  (\<^verbatim>\<open>data+n\<close> with \<^verbatim>\<open>n\<close> still -1). Here the data stand behind another byte of the same array; if
  they are the start of one, the read is out of its bounds (\<open>sendout_after_block_underruns\<close>).
\<close>

theorem sendout_after_block_shifts:
  assumes "writev_spec S sent" and "quiet sent run"
    and "conn_ok p s" and "rt_bfevents s p = Some b"
    and "writeable (bf_ev b) s = Inr False" and "contents (bf_outbuff b) = []" and "data \<noteq> []"
    and "sys_write S (bf_fd b) data (rt_world s) = (Inl EAGAIN, w1)" and "sent w1 = sent (rt_world s)"
    and "sys_writev S (bf_fd b) [[], before # butlast data] w1 = (Inr (length data), w2)"
  shows "\<exists>s' b'. sendout S run (Some before) data p s = Inr s' \<and> rt_bfevents s' p = Some b' \<and>
           contents (bf_outbuff b') = [] \<and>
           sent (rt_world s') (bf_fd b) = sent (rt_world s) (bf_fd b) @ before # butlast data"
proof -
  have p: "p \<noteq> NULL" "buf_inv (bf_outbuff b)" using assms(3,4) by (auto elim: conn_okE)
  have rb: "readbytes (bf_outbuff b) = 0" using p(2) assms(6) by (simp add: readbytes_zero)
  have pk: "peek 0 (bf_outbuff b) = Inr []" using peek_ok [OF p(2), of 0] by simp
  have len: "take (length data) (before # data) = before # butlast data"
    using assms(7) by (simp add: butlast_conv_take take_Cons')
  let ?s = "put_bf p (b\<lparr>bf_outbuff := reset (bf_outbuff b)\<rparr>) (s\<lparr>rt_world := w2\<rparr>)"
  obtain s' where s': "call_cb run (bf_writecb b) ?s = Inr s'" "rt_bfevents s' = rt_bfevents ?s"
      "sent (rt_world s') = sent w2"
    using quiet_call_cb [OF assms(2), of "bf_writecb b" ?s] by auto
  have d: "sendout_direct S run data p s = Inr (Some (True, length data), s\<lparr>rt_world := w1\<rparr>)"
    using p assms(4,5,8) rb by (simp add: sendout_direct_def bf_writeable_def call_simps)
  have "sendout_vec S run (Some before) data True (length data) p (s\<lparr>rt_world := w1\<rparr>) = Inr (None, s')"
    using p assms(4,10) rb pk len s'(1)
    by (simp add: sendout_vec_def Let_def call_simps call_writecb_def)
  then have "sendout S run (Some before) data p s = Inr s'"
    using d assms(7) by (simp add: sendout_eq)
  moreover have "sent w2 (bf_fd b) = sent w1 (bf_fd b) @ before # butlast data"
    using writev_specD(2) [OF assms(1,10)] assms(7) by simp
  ultimately show ?thesis using s' assms(9) by (simp add: reset_ok)
qed

theorem sendout_after_block_shifts_witness:
  "\<exists>s' b'. sendout (sample_sys\<lparr>sys_write := \<lambda>_ _ k. (Inl EAGAIN, k)\<rparr>) (\<lambda>c. Inr) (Some 99) [1, 2, 3] 3
       (sample_conn kernel0 new_buffer) = Inr s' \<and> rt_bfevents s' 3 = Some b' \<and>
     contents (bf_outbuff b') = [] \<and> k_output (rt_world s') 9 = [99, 1, 2]"
proof -
  let ?S = "sample_sys\<lparr>sys_write := \<lambda>_ _ k. (Inl EAGAIN, k)\<rparr>" and ?s = "sample_conn kernel0 new_buffer"
  let ?w = "rt_world ?s"
  have "writev_spec ?S k_output" using sample_writev_spec by (simp add: writev_spec_def)
  moreover have "writeable 4 ?s = Inr False"
    by (simp add: writeable_def sample_conn_def EPOLLIN_def EPOLLOUT_def)
  moreover have "sys_writev ?S 9 [[], 99 # butlast [1, 2, 3]] ?w =
      (Inr (length [1, 2, 3 :: byte]), ?w\<lparr>k_output := (k_output ?w)(9 := [99, 1, 2])\<rparr>)"
    by (simp add: sample_sys_def k_write_def sample_conn_def kernel0_def)
  ultimately show ?thesis
    using sendout_after_block_shifts [OF _ quiet_skip sample_conn_ok [OF new_buffer_ok(1), of kernel0]
        sample_conn_fields(1), of ?S k_output "[1, 2, 3]" ?w 99
        "?w\<lparr>k_output := (k_output ?w)(9 := [99, 1, 2])\<rparr>"]
    by (simp add: sample_conn_fields new_buffer_ok) (simp add: kernel0_def)
qed

end
