(* ===== verification/Server_Laws.thy ===== *)
theory Server_Laws
  imports Server Bfevent_Laws
begin

text \<open>
  The laws of the server: how a connection comes to be, and how it is closed and deleted without
  a dangling pointer.
\<close>

section \<open>Closing a connection\<close>

text \<open>An open connection of the server that listens on loop \<open>l\<close>, where no deletion waits.\<close>

definition served ::
  "'w interest \<Rightarrow> (fd \<Rightarrow> fd \<Rightarrow> bool) \<Rightarrow> addr \<Rightarrow> addr \<Rightarrow> bfevent \<Rightarrow> ('w, 'm) servers_scheme \<Rightarrow> bool" where
  "served interest valid l p b s \<longleftrightarrow>
     synced interest l s \<and> p \<noteq> NULL \<and> rt_events s p = None \<and> rt_bfevents s p = Some b \<and>
     bf_loop b = l \<and> \<not> bf_closed b \<and> bf_ev b \<noteq> NULL \<and>
     (\<exists>e. rt_events s (bf_ev b) = Some e \<and> ev_loop e = l \<and> ev_fd e = bf_fd b) \<and>
     listens valid l (bf_ev b) s \<and> el_delque (the (rt_loops s l)) = []"

lemma synced_delque:
  assumes "synced interest l s" "rt_loops s l = Some L" "rt_events s' = rt_events s" "rt_next s' = rt_next s"
    "rt_world s' = rt_world s" "rt_loops s' l = Some (L\<lparr>el_delque := q\<rparr>)"
  shows "synced interest l s'"
  using assms by (simp add: synced_def loop_sync_def)

lemma handle_close_ok:
  assumes "served interest valid l p b s"
  shows "\<exists>s'. handle_close p s = Inr s' \<and> synced interest l s' \<and> conn_in valid l p s' \<and>
    rt_events s' = rt_events s \<and>
    rt_bfevents s' p = Some (b\<lparr>bf_readcb := None, bf_writecb := None, bf_eventcb := None\<rparr>) \<and>
    sv_events (rt_server s') = removeAll p (sv_events (rt_server s)) \<and>
    rt_loops s' = (rt_loops s)(l \<mapsto> (the (rt_loops s l))\<lparr>el_delque := [p]\<rparr>)"
proof -
  have sv: "synced interest l s" "p \<noteq> NULL" "rt_events s p = None" "rt_bfevents s p = Some b" "bf_loop b = l"
      "bf_ev b \<noteq> NULL" "listens valid l (bf_ev b) s" "el_delque (the (rt_loops s l)) = []"
    using assms by (auto simp: served_def)
  obtain e where e: "rt_events s (bf_ev b) = Some e" "ev_loop e = l" "ev_fd e = bf_fd b"
    using assms by (auto simp: served_def)
  obtain L where L: "l \<noteq> NULL" "rt_loops s l = Some L" using sv(1) by (rule syncedD)
  let ?b = "b\<lparr>bf_readcb := None, bf_writecb := None, bf_eventcb := None\<rparr>"
  let ?s1 = "put_bf p ?b (upd_server (\<lambda>v. v\<lparr>sv_events := removeAll p (sv_events v)\<rparr>) s)"
  let ?s2 = "put_loop l (L\<lparr>el_delque := [p]\<rparr>) ?s1"
  have dis: "be_disable_cb p (upd_server (\<lambda>v. v\<lparr>sv_events := removeAll p (sv_events v)\<rparr>) s) = Inr ?s1"
    using sv by (simp add: be_disable_cb_def class_of_def upd_server_def bf_disable_cb_def upd_bf_def)
  have loop: "be_getloop p ?s1 = Inr l"
    using sv by (simp add: be_getloop_def class_of_def upd_server_def put_bf_def)
  have "add_pending_del l p ?s1 = Inr ?s2"
    using sv(8) L by (simp add: add_pending_del_def upd_loop_def put_bf_def upd_server_def)
  then have hc: "handle_close p s = Inr ?s2" using dis loop by (simp add: handle_close_def)
  have "synced interest l ?s2"
    by (rule synced_delque [OF sv(1) L(2), of _ "[p]"])
      (simp_all add: put_loop_def put_bf_def upd_server_def)
  moreover have "conn_in valid l p ?s2"
    using sv e L by (simp add: conn_in_def listens_def put_loop_def put_bf_def upd_server_def)
  ultimately show ?thesis using hc L by (simp add: put_loop_def put_bf_def upd_server_def)
qed

lemma flush_one:
  assumes S: "epoll_ctl_spec S interest" "epoll_ctl_live S interest valid" "close_spec S interest"
    and sync: "synced interest l s" and c: "conn_in valid l p s" and b: "rt_bfevents s p = Some b"
    and opened: "\<not> bf_closed b" and ev: "rt_events s p = None"
    and L: "rt_loops s l = Some L" "el_delque L = [p]"
  shows "\<exists>s' w. flush_delque (sv_del S user) l s = Inr s' \<and> synced interest l s' \<and>
    rt_bfevents s' p = None \<and> rt_events s' (bf_ev b) = None \<and>
    el_evlist (the (rt_loops s' l)) = remove1 (bf_ev b) (el_evlist L) \<and>
    el_delque (the (rt_loops s' l)) = [] \<and> rt_world s' = snd (sys_close S (bf_fd b) w)"
proof -
  let ?run = "run_user S user"
  obtain s1 w where s1: "delete_bfevent S ?run p s = Inr s1" "synced interest l s1"
      "rt_bfevents s1 = (rt_bfevents s)(p := None)" "rt_events s1 (bf_ev b) = None"
      "el_evlist (the (rt_loops s1 l)) = remove1 (bf_ev b) (el_evlist L)"
      "rt_world s1 = snd (sys_close S (bf_fd b) w)"
    using delete_bfevent_ok [OF S sync c b opened, of ?run] L by auto
  have p: "p \<noteq> NULL" "bf_readcb b = None" using c b by (auto simp: conn_in_def)
  have l: "l \<noteq> NULL" using sync by (simp add: synced_def)
  obtain L1 where L1: "rt_loops s1 l = Some L1" using s1(2) by (auto simp: synced_def)
  have q: "el_delque L1 = [p]"
    using delete_bfevent_delque [OF b p(2) s1(1), of l] L L1 by simp
  have "be_delete S ?run p s = Inr s1" using p(1) ev b s1(1) by (simp add: be_delete_def class_of_def)
  then have "delete_all (del_pending (sv_del S user) l) [p] s = Inr s1"
    using l L L1 q by (simp add: del_pending_def)
  then have fl: "flush_delque (sv_del S user) l s = Inr (put_loop l (L1\<lparr>el_delque := []\<rparr>) s1)"
    using l L L1 by (simp add: flush_delque_def upd_loop_def)
  have "synced interest l (put_loop l (L1\<lparr>el_delque := []\<rparr>) s1)"
    by (rule synced_delque [OF s1(2) L1, of _ "[]"]) (simp_all add: put_loop_def)
  with fl s1 L1 show ?thesis by (auto simp: put_loop_def)
qed

section \<open>Accepting a connection\<close>

lemma put_event_same: "rt_events s p = Some e \<Longrightarrow> put_event p e s = s"
  by (cases s) (simp add: put_event_def fun_upd_idem)

lemma same_conns: "reactor.more s' = reactor.more s \<Longrightarrow> rt_bfevents s' = rt_bfevents s \<and> conns.more s' = conns.more s"
  by (cases s, cases s') simp

text \<open>A new connection on a descriptor that the loop does not watch yet.\<close>

lemma new_bfevent_ok:
  assumes S: "epoll_ctl_spec S interest" "epoll_ctl_live S interest valid" and sync: "synced interest l s"
    and L: "rt_loops s l = Some L" "\<forall>q \<in> set (el_evlist L). ev_fd (the (rt_events s q)) \<noteq> fd" "valid (el_epfd L) fd"
    and p: "p = rt_next s"
  shows "\<exists>s'. new_bfevent S l fd m s = Inr (p, s') \<and> synced interest l s' \<and>
    rt_bfevents s' = (rt_bfevents s)(p \<mapsto> \<lparr>bf_loop = l, bf_fd = fd, bf_ev = Suc p, bf_inbuff = new_buffer,
      bf_outbuff = new_buffer, bf_readcb = None, bf_writecb = None, bf_eventcb = None, bf_closed = False\<rparr>) \<and>
    rt_events s' = (rt_events s)(Suc p \<mapsto> \<lparr>ev_loop = l, ev_fd = fd, ev_events = m, ev_revents = None,
      ev_readcb = Some (Bf_handle_read p), ev_writecb = Some (Bf_handle_write p),
      ev_eventcb = Some (Bf_handle_event p)\<rparr>) \<and>
    rt_loops s' = (rt_loops s)(l \<mapsto> L\<lparr>el_load := el_load L + 1, el_evlist := el_evlist L @ [Suc p]\<rparr>) \<and>
    conns.more s' = conns.more s"
proof -
  let ?bare = "\<lparr>ev_loop = l, ev_fd = fd, ev_events = m, ev_revents = None,
      ev_readcb = None, ev_writecb = None, ev_eventcb = None\<rparr>"
  let ?e = "?bare\<lparr>ev_readcb := Some (Bf_handle_read p), ev_writecb := Some (Bf_handle_write p),
      ev_eventcb := Some (Bf_handle_event p)\<rparr>"
  let ?b = "\<lparr>bf_loop = l, bf_fd = fd, bf_ev = Suc p, bf_inbuff = new_buffer,
      bf_outbuff = new_buffer, bf_readcb = None, bf_writecb = None, bf_eventcb = None, bf_closed = False\<rparr>"
  let ?s1 = "s\<lparr>rt_next := Suc p\<rparr>"
  let ?s2 = "put_bf p ?b (put_event (Suc p) ?bare (?s1\<lparr>rt_next := Suc (Suc p)\<rparr>))"
  let ?s3 = "put_event (Suc p) ?e ?s2"
  have new: "new_event l fd m ?s1 = (Suc p, put_event (Suc p) ?bare (?s1\<lparr>rt_next := Suc (Suc p)\<rparr>))"
    by (simp add: new_event_def)
  have "synced interest l ?s1" using sync by (simp add: synced_def p)
  from sync_new_event [OF this, of l fd m] have s2: "synced interest l ?s2"
    unfolding new by (simp add: synced_def put_bf_def)
  have live: "live_in l (rt_events ?s2) (Suc p)" by (simp add: live_in_def)
  have set: "setcb (Suc p) (Some (Bf_handle_read p)) (Some (Bf_handle_write p)) (Some (Bf_handle_event p)) ?s2
      = Inr ?s3"
    by (simp add: setcb_def upd_event_def put_bf_def put_event_def)
  have s3: "synced interest l ?s3"
    using sync_setcb [OF s2 live, of "Some (Bf_handle_read p)" "Some (Bf_handle_write p)"
        "Some (Bf_handle_event p)"] unfolding set by blast
  have fresh: "Suc p \<notin> set (el_evlist L)"
    using sync L(1) by (auto simp: synced_def loop_sync_def live_in_def p)
  have heaps: "rt_events ?s3 = (rt_events s)(Suc p \<mapsto> ?e)" "rt_loops ?s3 = rt_loops s"
      "rt_bfevents ?s3 = (rt_bfevents s)(p \<mapsto> ?b)" "conns.more ?s3 = conns.more s"
    by (simp_all add: put_bf_def put_event_def)
  have "ev_legal valid l (Op_enable_listen (Suc p)) ?s3"
    using L fresh unfolding ev_legal.simps heaps by (auto simp: live_in_def)
  from sync_enable_listen [OF S s3 this] obtain s4 where s4: "enable_listen S (Suc p) ?s3 = Inr s4"
      "synced interest l s4" "rt_events s4 = rt_events ?s3" "reactor.more s4 = reactor.more ?s3"
      "rt_loops s4 = (rt_loops s)(l \<mapsto> L\<lparr>el_load := el_load L + 1, el_evlist := el_evlist L @ [Suc p]\<rparr>)"
    unfolding heaps L(1) option.sel by blast
  have "new_bfevent S l fd m s = Inr (p, s4)"
    using new set s4(1) by (simp add: new_bfevent_def Let_def p [symmetric])
  then show ?thesis using s4 same_conns [OF s4(4)] heaps by simp
qed

text \<open>The event of a connection runs the handlers of the connection.\<close>

definition wired :: "addr \<Rightarrow> bfevent \<Rightarrow> ('w, 'm) servers_scheme \<Rightarrow> bool" where
  "wired p b s \<longleftrightarrow>
     (\<exists>e. rt_events s (bf_ev b) = Some e \<and> ev_readcb e = Some (Bf_handle_read p) \<and>
        ev_writecb e = Some (Bf_handle_write p) \<and> ev_eventcb e = Some (Bf_handle_event p))"

lemma acceptcb_ok:
  assumes "epoll_ctl_spec S interest" and "epoll_ctl_live S interest valid"
    and "ev_dispatch (sv_pool (rt_server s)) s = Inr (l, lp)" and "synced interest l s"
    and "rt_loops s l = Some L" and "el_delque L = []" and "valid (el_epfd L) fd"
    and "\<forall>q \<in> set (el_evlist L). ev_fd (the (rt_events s q)) \<noteq> fd"
  shows "\<exists>s' b. acceptcb S fd s = Inr s' \<and> served interest valid l (rt_next s) b s' \<and>
    wired (rt_next s) b s' \<and> bf_fd b = fd \<and> bf_inbuff b = new_buffer \<and> bf_outbuff b = new_buffer \<and>
    bf_readcb b = sv_readcb (rt_server s) \<and> bf_writecb b = sv_writecb (rt_server s) \<and>
    bf_eventcb b = Some (Server_tcp_eventcb (rt_next s)) \<and>
    sv_events (rt_server s') = sv_events (rt_server s) @ [rt_next s] \<and> sv_pool (rt_server s') = lp \<and>
    rt_loops s' l = Some (L\<lparr>el_load := el_load L + 1, el_evlist := el_evlist L @ [bf_ev b]\<rparr>)"
proof -
  let ?p = "rt_next s" and ?v = "(rt_server s)\<lparr>sv_pool := lp\<rparr>"
  let ?s0 = "s\<lparr>rt_server := ?v\<rparr>"
  have dis: "dispatch s = Inr (l, ?s0)" using assms(3) by (simp add: dispatch_def upd_server_def)
  have "synced interest l ?s0" "rt_loops ?s0 l = Some L"
      "\<forall>q \<in> set (el_evlist L). ev_fd (the (rt_events ?s0 q)) \<noteq> fd" "?p = rt_next ?s0"
    using assms(4,5,8) by (simp_all add: synced_def)
  from new_bfevent_ok [OF assms(1,2) this(1-3) assms(7) this(4), of "EPOLLIN OR EPOLLET"] obtain s1 e b where
    s1: "new_bfevent S l fd (EPOLLIN OR EPOLLET) ?s0 = Inr (?p, s1)" "synced interest l s1"
      "rt_bfevents s1 = (rt_bfevents s)(?p \<mapsto> b)" "rt_events s1 = (rt_events s)(Suc ?p \<mapsto> e)"
      "rt_loops s1 = (rt_loops s)(l \<mapsto> L\<lparr>el_load := el_load L + 1, el_evlist := el_evlist L @ [Suc ?p]\<rparr>)"
      "conns.more s1 = conns.more ?s0"
    and b: "bf_loop b = l" "bf_fd b = fd" "bf_ev b = Suc ?p" "bf_inbuff b = new_buffer"
      "bf_outbuff b = new_buffer" "\<not> bf_closed b"
    and e: "ev_loop e = l" "ev_fd e = fd"
    and cbs: "ev_readcb e = Some (Bf_handle_read ?p)" "ev_writecb e = Some (Bf_handle_write ?p)"
      "ev_eventcb e = Some (Bf_handle_event ?p)"
    by auto
  have li: "listens valid l (Suc ?p) s1" using s1(4,5) e assms(7) by (simp add: listens_def)
  have srv: "rt_server s1 = ?v"
    using s1(6) by (cases s, cases s1) simp
  let ?b = "b\<lparr>bf_readcb := sv_readcb ?v, bf_writecb := sv_writecb ?v, bf_eventcb := Some (Server_tcp_eventcb ?p)\<rparr>"
  let ?t = "put_bf ?p ?b s1"
  have p: "?p \<noteq> NULL" "rt_events s ?p = None" using assms(4) by (auto simp: synced_def)
  have t: "synced interest l ?t" "listens valid l (Suc ?p) ?t" "rt_events ?t (Suc ?p) = Some e"
      "rt_server ?t = ?v"
    using s1(2,4) li srv by (auto simp: synced_def listens_def put_bf_def split: option.splits)
  have up: "bindR (upd_event (Suc ?p) (\<lambda>e. e\<lparr>ev_events := id (ev_events e)\<rparr>) ?t) (update_ep S (Suc ?p)) =
      update_ep S (Suc ?p) ?t"
    using t(3) put_event_same [OF t(3)] by (simp del: put_bf_simps)
  obtain s2 where s2: "update_ep S (Suc ?p) ?t = Inr s2" "synced interest l s2" "rt_loops s2 = rt_loops ?t"
      "rt_events s2 = rt_events ?t" "reactor.more s2 = reactor.more ?t"
    using sync_set_events [OF assms(1,2) t(1,2), of id] t(3) unfolding up by (auto simp: fun_upd_idem)
  have bf: "rt_bfevents s2 = (rt_bfevents s)(?p \<mapsto> ?b)" "rt_server s2 = ?v"
    using same_conns [OF s2(5)] s1(3) t(4) by (auto simp: put_bf_def) (cases s2, cases s1, simp)
  have "bf_setcb S ?p (sv_readcb ?v) (sv_writecb ?v) (Some (Server_tcp_eventcb ?p)) s1 = Inr s2"
    using s1(3) b p s2(1) by (simp add: bf_setcb_def upd_bf_def bf_update_ep_def put_bf_def)
  then have acc: "acceptcb S fd s = Inr (remember ?p s2)"
    using dis s1(1) srv by (simp add: acceptcb_def)
  have "served interest valid l ?p ?b (remember ?p s2)"
    using s2 bf s1(4,5) t p b e assms(6)
    by (auto simp: served_def remember_def upd_server_def synced_def listens_def put_bf_def)
  moreover have "wired ?p ?b (remember ?p s2)"
    using s2(4) t(3) b cbs by (simp add: wired_def remember_def upd_server_def)
  ultimately show ?thesis using acc bf b
    by (intro exI [of _ "remember ?p s2"] exI [of _ ?b])
      (simp add: remember_def upd_server_def s2(3) s1(5) put_bf_def)
qed

section \<open>Properties\<close>

text \<open>
  C6. Closing a connection is safe: when its event callback runs, the server forgets the
  connection and disables its callbacks but keeps the object, which the handlers of the loop
  may still be using; the loop deletes it at the end of its turn. Then its descriptor is
  closed, the connection and its event are freed, and the loop's list and the interest list
  of epoll agree and hold no pointer to either.
\<close>

theorem server_closes_connection:
  assumes "epoll_ctl_spec S interest" and "epoll_ctl_live S interest valid" and "close_spec S interest"
    and "call_cb user (sv_eventcb (rt_server s)) s = Inr s0" and "served interest valid l p b s0"
  shows "\<exists>s1 s2 L w. run_user S user (Server_tcp_eventcb p) s = Inr s1 \<and>
    p \<notin> set (sv_events (rt_server s1)) \<and> rt_bfevents s1 p \<noteq> None \<and> rt_events s1 (bf_ev b) \<noteq> None \<and>
    flush_delque (sv_del S user) l s1 = Inr s2 \<and> rt_bfevents s2 p = None \<and> rt_events s2 (bf_ev b) = None \<and>
    rt_world s2 = snd (sys_close S (bf_fd b) w) \<and> rt_loops s2 l = Some L \<and> el_delque L = [] \<and>
    bf_ev b \<notin> set (el_evlist L) \<and>
    interest (rt_world s2) (el_epfd L) = registered (rt_events s2) (el_evlist L)"
proof -
  obtain s1 where s1: "handle_close p s0 = Inr s1" "synced interest l s1" "conn_in valid l p s1"
      "rt_events s1 = rt_events s0"
      "rt_bfevents s1 p = Some (b\<lparr>bf_readcb := None, bf_writecb := None, bf_eventcb := None\<rparr>)"
      "sv_events (rt_server s1) = removeAll p (sv_events (rt_server s0))"
      "rt_loops s1 = (rt_loops s0)(l \<mapsto> (the (rt_loops s0 l))\<lparr>el_delque := [p]\<rparr>)"
    using handle_close_ok [OF assms(5)] by blast
  have run: "run_user S user (Server_tcp_eventcb p) s = Inr s1"
    using assms(4) s1(1) by (simp add: run_user_def tcp_eventcb_def)
  have sv: "\<not> bf_closed b" "rt_events s0 p = None" "rt_events s0 (bf_ev b) \<noteq> None"
    using assms(5) by (auto simp: served_def)
  obtain s2 w where s2: "flush_delque (sv_del S user) l s1 = Inr s2" "synced interest l s2"
      "rt_bfevents s2 p = None" "rt_events s2 (bf_ev b) = None"
      "el_evlist (the (rt_loops s2 l)) = remove1 (bf_ev b) (el_evlist (the (rt_loops s0 l)))"
      "el_delque (the (rt_loops s2 l)) = []" "rt_world s2 = snd (sys_close S (bf_fd b) w)"
    using flush_one [OF assms(1-3) s1(2,3,5), of "(the (rt_loops s0 l))\<lparr>el_delque := [p]\<rparr>" user] sv s1(4,7)
    by auto
  have "distinct (el_evlist (the (rt_loops s0 l)))"
    using assms(5) by (auto simp: served_def synced_def loop_sync_def)
  with run s1 s2 sv synced_interest [OF s2(2)] show ?thesis by auto
qed

text \<open>
  C12. An accepted connection is set up completely: \<^verbatim>\<open>acceptcb_\<close> puts a new connection for the
  descriptor on the loop that the pool chose, watched for input there and in step with
  epoll, with an event that runs its handlers, with empty buffers, the callbacks of the server and its own closing callback, and
  the server records it.
\<close>

theorem server_accepts_connection:
  assumes "epoll_ctl_spec S interest" and "epoll_ctl_live S interest valid"
    and "ev_dispatch (sv_pool (rt_server s)) s = Inr (l, lp)" and "synced interest l s"
    and "rt_loops s l = Some L" and "el_delque L = []" and "valid (el_epfd L) fd"
    and "\<forall>q \<in> set (el_evlist L). ev_fd (the (rt_events s q)) \<noteq> fd"
  shows "\<exists>s' b. acceptcb S fd s = Inr s' \<and> served interest valid l (rt_next s) b s' \<and>
    wired (rt_next s) b s' \<and> bf_fd b = fd \<and> contents (bf_inbuff b) = [] \<and> contents (bf_outbuff b) = [] \<and>
    bf_readcb b = sv_readcb (rt_server s) \<and> bf_writecb b = sv_writecb (rt_server s) \<and>
    bf_eventcb b = Some (Server_tcp_eventcb (rt_next s)) \<and>
    sv_events (rt_server s') = sv_events (rt_server s) @ [rt_next s] \<and> sv_pool (rt_server s') = lp"
  using acceptcb_ok [OF assms] new_buffer_ok(2) by metis

section \<open>A sample server\<close>

definition server_sample :: "kernel servers" where
  "server_sample =
     \<lparr>rt_events = Map.empty, rt_loops = [1 \<mapsto> sample_eventloop\<lparr>el_load := 0, el_evlist := []\<rparr>], rt_world = kernel0,
      rt_next = 5, rt_bfevents = Map.empty, rt_timerevents = Map.empty, rt_signalevents = Map.empty,
      rt_sigev = NULL, rt_udpevents = Map.empty, rt_acceptors = Map.empty, rt_loopthreads = Map.empty,
      rt_server = \<lparr>sv_base = 1,
        sv_pool = \<lparr>lo_baseloop = 1, lo_manager = False, lo_loadvec = [], lo_next = 0, lo_tnum = 0,
          lo_timeout = -1, lo_max_tnum = 0, lo_min_tnum = 0, lo_dispath = False, lo_coolsec = 30,
          lo_timesec = 5, lo_scale_max = 80, lo_scale_min = 20\<rparr>,
        sv_acceptor = 4, sv_port = 80, sv_tcp_enable = True, sv_events = [], sv_readcb = Some 7,
        sv_writecb = None, sv_eventcb = None\<rparr>\<rparr>"

lemma closing_ctl_spec: "epoll_ctl_spec closing_sys k_interest"
  using sample_ctl_spec by (simp add: epoll_ctl_spec_def closing_sys_def)

lemma closing_ctl_live: "epoll_ctl_live closing_sys k_interest (\<lambda>_ _. True)"
  using sample_ctl_live by (simp add: epoll_ctl_live_def closing_sys_def)

lemma closing_close_spec: "close_spec closing_sys k_interest"
  by (simp add: close_spec_def closing_sys_def)

lemma server_sample_ok:
  "ev_dispatch (sv_pool (rt_server server_sample)) server_sample = Inr (1, sv_pool (rt_server server_sample))"
  "synced k_interest 1 server_sample"
  "rt_loops server_sample 1 = Some (sample_eventloop\<lparr>el_load := 0, el_evlist := []\<rparr>)"
  "rt_next server_sample = 5" "sv_events (rt_server server_sample) = []"
  "sv_readcb (rt_server server_sample) = Some 7" "sv_eventcb (rt_server server_sample) = None"
  by (simp_all add: server_sample_def ev_dispatch_def synced_def loop_sync_def registered_def kernel0_def)

theorem server_accepts_connection_witness:
  "\<exists>s b. acceptcb closing_sys 9 server_sample = Inr s \<and> served k_interest (\<lambda>_ _. True) 1 5 b s \<and>
     bf_fd b = 9 \<and> bf_readcb b = Some 7 \<and> sv_events (rt_server s) = [5]"
proof -
  have "el_delque (sample_eventloop\<lparr>el_load := 0, el_evlist := []\<rparr>) = []" by (simp add: sample_eventloop_def)
  from server_accepts_connection [OF closing_ctl_spec closing_ctl_live server_sample_ok(1-3) this, of 9]
  show ?thesis using server_sample_ok(4-6) by auto
qed

theorem server_closes_connection_witness:
  "\<exists>s b s1 s2. acceptcb closing_sys 9 server_sample = Inr s \<and> rt_bfevents s 5 = Some b \<and>
     run_user closing_sys (\<lambda>_. Inr) (Server_tcp_eventcb 5) s = Inr s1 \<and> 5 \<notin> set (sv_events (rt_server s1)) \<and>
     flush_delque (sv_del closing_sys (\<lambda>_. Inr)) 1 s1 = Inr s2 \<and> rt_bfevents s2 5 = None \<and>
     rt_events s2 (bf_ev b) = None"
proof -
  have "el_delque (sample_eventloop\<lparr>el_load := 0, el_evlist := []\<rparr>) = []" by (simp add: sample_eventloop_def)
  from acceptcb_ok [OF closing_ctl_spec closing_ctl_live server_sample_ok(1-3) this, of 9]
  obtain s b where s: "acceptcb closing_sys 9 server_sample = Inr s" "served k_interest (\<lambda>_ _. True) 1 5 b s"
    using server_sample_ok(4) by auto
  have "\<exists>s0. call_cb (\<lambda>_. Inr) (sv_eventcb (rt_server s)) s = Inr s0 \<and> s0 = s"
    by (cases "sv_eventcb (rt_server s)") (simp_all add: call_cb_def)
  then have "call_cb (\<lambda>_. Inr) (sv_eventcb (rt_server s)) s = Inr s" by simp
  from server_closes_connection [OF closing_ctl_spec closing_ctl_live closing_close_spec this s(2)] s
  show ?thesis by (auto simp: served_def)
qed

end
