(* ===== verification/Server_Turn.thy ===== *)
theory Server_Turn
  imports Server_Laws
begin

text \<open>
  A whole turn of a loop of the server, from the report of epoll to the deferred deletions: the
  event's handlers, the connection, the server's closing callback and the loop's list of
  pending deletions together.
\<close>

section \<open>What the handlers keep\<close>

text \<open>Only the descriptor, the mask and the loop of an event matter for its registration.\<close>

definition same_watch :: "event \<Rightarrow> event \<Rightarrow> bool" where
  "same_watch e e' \<longleftrightarrow> ev_loop e' = ev_loop e \<and> ev_fd e' = ev_fd e \<and> ev_events e' = ev_events e"

lemma synced_watch:
  assumes sync: "synced interest l s" and e: "rt_events s q = Some e" "same_watch e e'"
    and s': "rt_events s' = (rt_events s)(q \<mapsto> e')" "rt_loops s' = rt_loops s" "rt_next s' = rt_next s"
      "interest (rt_world s') = interest (rt_world s)"
  shows "synced interest l s'"
proof -
  have fd: "ev_fd (the (rt_events s' r)) = ev_fd (the (rt_events s r))"
    and entry: "entry (rt_events s') r = entry (rt_events s) r"
    and live: "live_in l (rt_events s') r = live_in l (rt_events s) r" for r
    using e s'(1) by (auto simp: entry_def live_in_def same_watch_def)
  have reg: "registered (rt_events s') = registered (rt_events s)"
    by (rule ext) (simp add: registered_def entry [abs_def])
  have "rt_next s \<le> r \<Longrightarrow> rt_events s' r = None" for r
    using sync e(1) s'(1) by (auto simp: synced_def)
  then show ?thesis using sync by (auto simp: synced_def loop_sync_def s'(2-4) fd live reg)
qed

lemma served_kept:
  assumes sv: "served interest valid l p b s" and e: "rt_events s (bf_ev b) = Some e" "same_watch e e'"
    and s': "rt_events s' = (rt_events s)(bf_ev b \<mapsto> e')" "rt_loops s' = rt_loops s" "rt_next s' = rt_next s"
      "interest (rt_world s') = interest (rt_world s)"
      "rt_bfevents s' p = Some (b\<lparr>bf_inbuff := ib\<rparr>)"
  shows "served interest valid l p (b\<lparr>bf_inbuff := ib\<rparr>) s'"
proof -
  have "synced interest l s'"
    by (rule synced_watch [OF _ e s'(1-4)]) (use sv in \<open>simp add: served_def\<close>)
  moreover have "p \<noteq> bf_ev b" using sv e(1) by (auto simp: served_def)
  ultimately show ?thesis
    using sv e s' by (auto simp: served_def listens_def same_watch_def split: option.splits)
qed

section \<open>A connection whose peer is gone\<close>

text \<open>\<^verbatim>\<open>readv\<close> reports the end of the stream, or an error that is not the lack of data.\<close>

definition hung_up :: "'w sys \<Rightarrow> 'w interest \<Rightarrow> fd \<Rightarrow> 'w \<Rightarrow> bool" where
  "hung_up S interest fd w \<longleftrightarrow>
     (\<forall>lens. 0 < sum_list lens \<longrightarrow>
        (\<exists>r w'. sys_readv S fd lens w = (r, w') \<and> interest w' = interest w \<and>
           (r = Inr [] \<or> (\<exists>e. r = Inl e \<and> e \<noteq> EAGAIN))))"

text \<open>The event callback of the user returns and leaves the connection for the server to close.\<close>

definition leaves_closing ::
  "'w interest \<Rightarrow> (fd \<Rightarrow> fd \<Rightarrow> bool) \<Rightarrow> (callback \<Rightarrow> ('w, 'm) servers_scheme \<Rightarrow> ('w, 'm) servers_scheme res) \<Rightarrow>
   addr \<Rightarrow> addr \<Rightarrow> bool" where
  "leaves_closing interest valid user l p \<longleftrightarrow>
     (\<forall>s b. served interest valid l p b s \<longrightarrow>
        (\<exists>s'. call_cb user (sv_eventcb (rt_server s)) s = Inr s' \<and> served interest valid l p b s' \<and>
           rt_events s' (bf_ev b) = rt_events s (bf_ev b)))"

lemma readiov_eof:
  assumes "buf_inv b"
    and "rv (if writebytes b < of_nat IOBUF then [unat (writebytes b), IOBUF]
             else [unat (writebytes b)]) = (Inr [], w)"
  shows "\<exists>b'. readiov rv b = Inr (Inr 0, b', w)"
  using assms buf_invD [OF assms(1)] by (simp add: readiov_def Let_def)

lemma read_hung_up:
  assumes sv: "served interest valid l p b s" and e: "rt_events s (bf_ev b) = Some e"
    and hu: "hung_up S interest (bf_fd b) (rt_world s)" and inv: "buf_inv (bf_inbuff b)"
    and cb: "bf_eventcb b = Some (Server_tcp_eventcb p)" and user: "leaves_closing interest valid user l p"
  shows "\<exists>s' ib. handle_read S (run_user S user) p s = Some (handle_close p s') \<and>
    served interest valid l p (b\<lparr>bf_inbuff := ib\<rparr>) s' \<and> rt_events s' (bf_ev b) = Some e"
proof -
  let ?rv = "\<lambda>lens. sys_readv S (bf_fd b) lens (rt_world s)" and ?in = "bf_inbuff b"
  let ?lens = "if writebytes ?in < of_nat IOBUF then [unat (writebytes ?in), IOBUF] else [unat (writebytes ?in)]"
  have p: "p \<noteq> NULL" "rt_bfevents s p = Some b" using sv by (auto simp: served_def)
  have pos: "0 < sum_list ?lens" by (auto simp: word_less_nat_alt)
  obtain r w where rw: "?rv ?lens = (r, w)" "interest w = interest (rt_world s)"
      "r = Inr [] \<or> (\<exists>e. r = Inl e \<and> e \<noteq> EAGAIN)"
    using hu pos unfolding hung_up_def by meson
  obtain n ib where io: "readiov ?rv ?in = Inr (n, ib, w)" "n = Inr 0 \<or> (\<exists>e. n = Inl e \<and> e \<noteq> EAGAIN)"
    using rw(1,3) readiov_eof [OF inv, of ?rv w] readiov_error [OF inv, of ?rv _ w] by fastforce
  let ?s = "put_bf p (b\<lparr>bf_inbuff := ib\<rparr>) (s\<lparr>rt_world := w\<rparr>)"
  have "served interest valid l p (b\<lparr>bf_inbuff := ib\<rparr>) ?s"
    by (rule served_kept [OF sv e, of e]) (use e rw(2) in \<open>auto simp: same_watch_def put_bf_def\<close>)
  then obtain s' where s': "call_cb user (sv_eventcb (rt_server ?s)) ?s = Inr s'"
      "served interest valid l p (b\<lparr>bf_inbuff := ib\<rparr>) s'" "rt_events s' (bf_ev b) = rt_events ?s (bf_ev b)"
    using user unfolding leaves_closing_def by fastforce
  have cl: "call_eventcb (run_user S user) p ?s = handle_close p s'"
    using p(1) cb s'(1) by (simp add: call_eventcb_def put_bf_def call_cb_def run_user_def tcp_eventcb_def)
  obtain s1 where s1: "handle_close p s' = Inr s1" using handle_close_ok [OF s'(2)] by blast
  have "handle_read_turn S (run_user S user) p s = Inr (False, s1)"
    using p io cl s1 by (auto simp: handle_read_turn_def EWOULDBLOCK_def)
  then have "handle_read S (run_user S user) p s = Some (handle_close p s')"
    unfolding handle_read_def s1 by (rule repeat_turn_done)
  with s' e show ?thesis by (auto simp: put_bf_def)
qed

section \<open>The deferred deletion leaves the server alone\<close>

lemma server_call: "rt_server (snd (call f s)) = rt_server s"
  by (simp add: call_def split: prod.splits)

lemma server_ops:
  "upd_event q g s = Inr s' \<Longrightarrow> rt_server s' = rt_server s"
  "update_ep S q s = Inr s' \<Longrightarrow> rt_server s' = rt_server s"
  "del_listen S q s = Inr s' \<Longrightarrow> rt_server s' = rt_server s"
  "upd_bf p h s = Inr s' \<Longrightarrow> rt_server s' = rt_server s"
  by (auto simp: upd_event_def put_event_def update_ep_def mod_event_def del_listen_def del_event_def
      upd_loop_def put_loop_def upd_bf_def put_bf_def bindR_eq_Inr server_call)

lemma server_set_events:
  "enable_events S q m s = Inr s' \<Longrightarrow> rt_server s' = rt_server s"
  "disable_events S q m s = Inr s' \<Longrightarrow> rt_server s' = rt_server s"
  by (auto simp: enable_events_def disable_events_def bindR_eq_Inr dest!: server_ops)

lemma delete_bfevent_server:
  assumes b: "rt_bfevents s p = Some b" "bf_readcb b = None" and d: "delete_bfevent S run p s = Inr s'"
  shows "rt_server s' = rt_server s"
proof (rule delete_bfevent_keeps [where F = rt_server, OF _ _ _ _ _ d])
  fix s' assume l: "bf_del_listen S run p s = Inr s'"
  show "rt_server s' = rt_server s"
    by (rule bf_del_listen_keeps [where F = rt_server, OF _ _ _ _ b l]) (auto dest: server_set_events server_ops)
qed (simp_all add: server_ops server_call)

lemma flush_server:
  assumes "rt_loops s l = Some L" "el_delque L = [p]" "p \<noteq> NULL" "rt_events s p = None"
    and b: "rt_bfevents s p = Some b" "bf_readcb b = None" and f: "flush_delque (sv_del S user) l s = Inr s'"
  shows "rt_server s' = rt_server s"
proof -
  obtain s1 where s1: "be_delete S (run_user S user) p s = Inr s1" "rt_server s' = rt_server s1"
    using assms(1,2) f
    by (auto simp: flush_delque_def del_pending_def upd_loop_def put_loop_def bindR_eq_Inr deref_eq_Inr split: if_splits)
  then show ?thesis using assms(3,4) delete_bfevent_server [OF b] by (simp add: be_delete_def class_of_def b)
qed

section \<open>The turn\<close>

lemma handle_cb_hung_up:
  assumes sv: "served interest valid l p b s" and e: "rt_events s (bf_ev b) = Some e"
    and ev: "ev_revents e = Some m" "read_mask m" "\<not> write_mask m"
      "ev_readcb e = Some (Bf_handle_read p)" "ev_eventcb e = Some (Bf_handle_event p)"
    and hu: "hung_up S interest (bf_fd b) (rt_world s)" and inv: "buf_inv (bf_inbuff b)"
    and cb: "bf_eventcb b = Some (Server_tcp_eventcb p)" and user: "leaves_closing interest valid user l p"
  shows "\<exists>s' s1 ib. handle_cb (run_event S user) (bf_ev b) s = Inr s1 \<and> handle_close p s' = Inr s1 \<and>
    served interest valid l p (b\<lparr>bf_inbuff := ib\<rparr>) s'"
proof -
  have q: "bf_ev b \<noteq> NULL" "p \<noteq> NULL" using sv by (auto simp: served_def)
  obtain s' ib where s': "handle_read S (run_user S user) p s = Some (handle_close p s')"
      "served interest valid l p (b\<lparr>bf_inbuff := ib\<rparr>) s'" "rt_events s' (bf_ev b) = Some e"
    using read_hung_up [OF sv e hu inv cb user] by blast
  obtain s1 where s1: "handle_close p s' = Inr s1" "rt_events s1 = rt_events s'"
      "rt_bfevents s1 p = Some (b\<lparr>bf_inbuff := ib, bf_readcb := None, bf_writecb := None, bf_eventcb := None\<rparr>)"
    using handle_close_ok [OF s'(2)] by auto
  have "call_if (run_event S user) read_mask ev_readcb (bf_ev b) s = Inr s1"
    using q e ev s'(1) s1(1) by (simp add: call_if_def call_cb_def run_event_def)
  moreover have "call_if (run_event S user) write_mask ev_writecb (bf_ev b) s1 = Inr s1"
    using q s'(3) s1(2) ev by (simp add: call_if_def)
  moreover have "call_if (run_event S user) error_mask ev_eventcb (bf_ev b) s1 = Inr s1"
    using q s'(3) s1(2,3) ev
    by (simp add: call_if_def call_cb_def run_event_def handle_event_def call_eventcb_def)
  ultimately show ?thesis using s1(1) s'(2) by (auto simp: handle_cb_def)
qed

text \<open>The end of a turn in which the server has closed one connection.\<close>

lemma close_and_flush:
  assumes S: "epoll_ctl_spec S interest" "epoll_ctl_live S interest valid" "close_spec S interest"
    and sv: "served interest valid l p b s" and cl: "handle_close p s = Inr s1"
  shows "\<exists>s' L' w'. bindR (resize_events l n s1) (flush_delque (sv_del S user) l) = Inr s' \<and>
    rt_world s' = snd (sys_close S (bf_fd b) w') \<and> rt_bfevents s' p = None \<and> rt_events s' (bf_ev b) = None \<and>
    p \<notin> set (sv_events (rt_server s')) \<and> rt_loops s' l = Some L' \<and> el_delque L' = [] \<and>
    bf_ev b \<notin> set (el_evlist L') \<and>
    interest (rt_world s') (el_epfd L') = registered (rt_events s') (el_evlist L')"
proof -
  have p: "\<not> bf_closed b" "rt_events s p = None" "p \<noteq> NULL" "l \<noteq> NULL"
    using sv by (auto simp: served_def synced_def)
  let ?b = "b\<lparr>bf_readcb := None, bf_writecb := None, bf_eventcb := None\<rparr>"
  obtain L where L: "rt_loops s1 l = Some L" "el_delque L = [p]" "synced interest l s1" "conn_in valid l p s1"
      "rt_events s1 = rt_events s" "rt_bfevents s1 p = Some ?b" "p \<notin> set (sv_events (rt_server s1))"
    using handle_close_ok [OF sv] cl by auto
  let ?L = "if n = el_nevents L then L\<lparr>el_nevents := el_nevents L * 2\<rparr> else L"
  let ?s2 = "put_loop l ?L s1"
  have resize: "resize_events l n s1 = Inr ?s2"
    using p(4) L(1) by (simp add: resize_events_def upd_loop_def)
  have s2: "synced interest l ?s2" "conn_in valid l p ?s2" "el_delque ?L = [p]"
    using L by (auto simp: synced_def loop_sync_def conn_in_def listens_def put_loop_def)
  obtain s3 w where s3: "flush_delque (sv_del S user) l ?s2 = Inr s3" "synced interest l s3"
      "rt_bfevents s3 p = None" "rt_events s3 (bf_ev b) = None"
      "el_evlist (the (rt_loops s3 l)) = remove1 (bf_ev b) (el_evlist ?L)"
      "el_delque (the (rt_loops s3 l)) = []" "rt_world s3 = snd (sys_close S (bf_fd b) w)"
    using flush_one [OF S s2(1,2), of ?b ?L user] s2(3) L p by (auto simp: put_loop_def)
  have "rt_server s3 = rt_server s1"
    using flush_server [OF _ s2(3) p(3) _ _ _ s3(1), of ?b] L p(2) by (simp add: put_loop_def)
  moreover have "distinct (el_evlist ?L)" using s2(1) by (auto simp: synced_def loop_sync_def put_loop_def)
  ultimately show ?thesis using resize s3 L(7) synced_interest [OF s3(2)] by auto
qed

section \<open>Properties\<close>

text \<open>
  C16. A connection whose peer is gone is taken down within one turn of its loop: epoll reports
  the connection's event, with any error bits, the handler reads the end of the stream or an
  error, the server's closing callback runs, and the handlers that come after it in the same
  turn still find the objects alive. At the end of the turn the descriptor is closed, the
  connection and its event are freed, no list holds a pointer to them, the loop is in step
  with epoll, and it goes on.
\<close>

theorem loop_turn_closes_hung_up:
  assumes "epoll_ctl_spec S interest" and "epoll_ctl_live S interest valid" and "close_spec S interest"
    and "epoll_wait_spec S interest" and "served interest valid l p b s" and "wired p b s"
    and "bf_eventcb b = Some (Server_tcp_eventcb p)" and "buf_inv (bf_inbuff b)"
    and "rt_loops s l = Some L" and "\<not> el_shutdown L" and "0 < el_nevents L"
    and "sys_epoll_wait S (el_epfd L) MAX_EVENTS (el_timeout L) (rt_world s) = (Inr [(m, bf_ev b)], w)"
    and "read_mask m" and "\<not> write_mask m" and "hung_up S interest (bf_fd b) w"
    and "leaves_closing interest valid user l p"
  shows "\<exists>s' L' w'. loop_turn S (run_event S user) (sv_del S user) l s = Inr (True, s') \<and>
    rt_world s' = snd (sys_close S (bf_fd b) w') \<and> rt_bfevents s' p = None \<and> rt_events s' (bf_ev b) = None \<and>
    p \<notin> set (sv_events (rt_server s')) \<and> rt_loops s' l = Some L' \<and> el_delque L' = [] \<and>
    bf_ev b \<notin> set (el_evlist L') \<and>
    interest (rt_world s') (el_epfd L') = registered (rt_events s') (el_evlist L')"
proof -
  obtain e where e: "rt_events s (bf_ev b) = Some e" "ev_readcb e = Some (Bf_handle_read p)"
      "ev_eventcb e = Some (Bf_handle_event p)"
    using assms(6) by (auto simp: wired_def)
  have q: "bf_ev b \<noteq> NULL" "p \<noteq> NULL" "l \<noteq> NULL" "rt_bfevents s p = Some b"
    using assms(5) by (auto simp: served_def synced_def)
  let ?e = "e\<lparr>ev_revents := Some m\<rparr>"
  let ?s1 = "put_event (bf_ev b) ?e (s\<lparr>rt_world := w\<rparr>)"
  have "interest w = interest (rt_world s)" using assms(4,12) unfolding epoll_wait_spec_def by blast
  then have sv1: "served interest valid l p (b\<lparr>bf_inbuff := bf_inbuff b\<rparr>) ?s1"
    by (intro served_kept [OF assms(5) e(1), of ?e]) (use q in \<open>simp_all add: same_watch_def put_event_def\<close>)
  obtain s2 s3 ib where s3: "handle_cb (run_event S user) (bf_ev b) ?s1 = Inr s3" "handle_close p s2 = Inr s3"
      "served interest valid l p (b\<lparr>bf_inbuff := ib\<rparr>) s2"
    using handle_cb_hung_up [OF sv1, of ?e m S user] e assms(7,8,13-16) by (auto simp: put_event_def)
  have "setrevents (bf_ev b) m (s\<lparr>rt_world := w\<rparr>) = Inr ?s1"
    using q(1) e(1) by (simp add: setrevents_def upd_event_def)
  then have "loop_turn S (run_event S user) (sv_del S user) l s =
      bindR (bindR (resize_events l 1 s3) (flush_delque (sv_del S user) l)) (\<lambda>s. Inr (True, s))"
    using q(3) assms(9-12) s3(1) by (simp add: loop_turn_def call_def bindR_assoc)
  with close_and_flush [OF assms(1-3) s3(3,2), of 1 user] show ?thesis by auto
qed

section \<open>A sample turn\<close>

text \<open>The peer of descriptor 9 has gone: epoll reports it and a read finds the end of the stream.\<close>

definition hup_sys :: "kernel sys" where
  "hup_sys = closing_sys\<lparr>
     sys_epoll_wait := \<lambda>ep n t k.
       (Inr (take n (case k_interest k ep 9 of None \<Rightarrow> [] | Some (m, q) \<Rightarrow> [(EPOLLIN OR EPOLLRDHUP, q)])), k),
     sys_readv := \<lambda>fd lens k. (Inr [], k)\<rparr>"

lemma hup_ctl: "epoll_ctl_spec hup_sys k_interest" "epoll_ctl_live hup_sys k_interest (\<lambda>_ _. True)"
  using closing_ctl_spec closing_ctl_live by (auto simp: epoll_ctl_spec_def epoll_ctl_live_def hup_sys_def)

lemma hup_others: "close_spec hup_sys k_interest" "hung_up hup_sys k_interest fd w"
  using closing_close_spec by (auto simp: close_spec_def hung_up_def hup_sys_def)

lemma hup_wait: "epoll_wait_spec hup_sys k_interest"
  by (force simp: epoll_wait_spec_def hup_sys_def split: option.splits dest!: in_set_takeD)

lemma hup_masks: "read_mask (EPOLLIN OR EPOLLRDHUP)" "\<not> write_mask (EPOLLIN OR EPOLLRDHUP)"
  by (simp_all add: read_mask_def write_mask_def epoll_defs)

lemma leaves_closing_nothing: "leaves_closing interest valid (\<lambda>_. Inr) l p"
  by (auto simp: leaves_closing_def call_cb_def split: option.splits)

theorem loop_turn_closes_hung_up_witness:
  "\<exists>s b s'. acceptcb hup_sys 9 server_sample = Inr s \<and> rt_bfevents s 5 = Some b \<and>
     loop_turn hup_sys (run_event hup_sys (\<lambda>_. Inr)) (sv_del hup_sys (\<lambda>_. Inr)) 1 s = Inr (True, s') \<and>
     rt_bfevents s' 5 = None \<and> rt_events s' (bf_ev b) = None \<and> 5 \<notin> set (sv_events (rt_server s'))"
proof -
  let ?L = "sample_eventloop\<lparr>el_load := 0, el_evlist := []\<rparr>" and ?m = "EPOLLIN OR EPOLLRDHUP"
  have L: "el_delque ?L = []" "\<not> el_shutdown ?L" "0 < el_nevents ?L" by (simp_all add: sample_eventloop_def)
  from acceptcb_ok [OF hup_ctl server_sample_ok(1-3) L(1), of 9]
  obtain s b where s: "acceptcb hup_sys 9 server_sample = Inr s" "served k_interest (\<lambda>_ _. True) 1 5 b s"
      "wired 5 b s" "bf_fd b = 9" "bf_inbuff b = new_buffer" "bf_eventcb b = Some (Server_tcp_eventcb 5)"
      "rt_loops s 1 = Some (?L\<lparr>el_load := 1, el_evlist := [bf_ev b]\<rparr>)"
    using server_sample_ok(4) by auto
  obtain e where e: "rt_events s (bf_ev b) = Some e" "ev_fd e = 9" using s(2,4) by (auto simp: served_def)
  have "k_interest (rt_world s) (el_epfd ?L) 9 = Some (ev_events e, bf_ev b)"
    using s(2,7) e by (simp add: served_def synced_def loop_sync_def registered_def entry_def)
  then have wait: "sys_epoll_wait hup_sys (el_epfd ?L) MAX_EVENTS (el_timeout ?L) (rt_world s) =
      (Inr [(?m, bf_ev b)], rt_world s)"
    by (simp add: hup_sys_def)
  have "buf_inv (bf_inbuff b)" using s(5) by (simp add: new_buffer_ok)
  from loop_turn_closes_hung_up [OF hup_ctl hup_others(1) hup_wait s(2,3,6) this s(7) _ _ _ hup_masks
      hup_others(2) leaves_closing_nothing] L wait
  obtain s' where "loop_turn hup_sys (run_event hup_sys (\<lambda>_. Inr)) (sv_del hup_sys (\<lambda>_. Inr)) 1 s = Inr (True, s')"
      "rt_bfevents s' 5 = None" "rt_events s' (bf_ev b) = None" "5 \<notin> set (sv_events (rt_server s'))"
    by auto
  then show ?thesis using s(1,2) by (auto simp: served_def)
qed

end
