(* ===== verification/Safe_Calls.thy ===== *)
theory Safe_Calls
  imports Moon_Prelude
begin

text \<open>
  A small calculus for memory safety: a call is safe for a postcondition if it returns a state
  that meets it or ends in one of two orderly ways that the sources provide for, the \<^verbatim>\<open>exit(1)\<close>
  after a system call that must succeed and the exception of a vector that cannot grow. Null,
  dangling and uninitialised pointers, accesses out of bounds, and loops that do not return
  are not among them. A set of faults can be allowed in addition, for code that raises no others.
\<close>

definition orderly :: "fault \<Rightarrow> bool" where
  "orderly e \<longleftrightarrow> e = Exit 1 \<or> e = Length_error"

definition safe_for :: "fault set \<Rightarrow> ('a \<Rightarrow> bool) \<Rightarrow> 'a res \<Rightarrow> bool" where
  "safe_for F Q r \<longleftrightarrow> (case r of Inl e \<Rightarrow> orderly e \<or> e \<in> F | Inr x \<Rightarrow> Q x)"

abbreviation safe :: "('a \<Rightarrow> bool) \<Rightarrow> 'a res \<Rightarrow> bool" where
  "safe \<equiv> safe_for {}"

lemma safe_Inr [simp]: "safe_for F Q (Inr x) \<longleftrightarrow> Q x"
  by (simp add: safe_for_def)

lemma safe_Inl [simp]: "safe_for F Q (Inl e) \<longleftrightarrow> orderly e \<or> e \<in> F"
  by (simp add: safe_for_def)

lemma safe_widen: "safe Q r \<Longrightarrow> safe_for F Q r"
  by (cases r) auto

lemma orderly_simps [simp]:
  "orderly (Exit 1)" "orderly Length_error" "\<not> orderly Null_pointer" "\<not> orderly Dangling_pointer"
  "\<not> orderly Uninitialised" "\<not> orderly Out_of_bounds" "\<not> orderly Underrun" "\<not> orderly Diverges" "\<not> orderly Bad_function_call"
  "\<not> orderly Terminate" "\<not> orderly Division_by_zero"
  by (simp_all add: orderly_def)

lemma safe_bind [intro?]:
  "safe_for F P r \<Longrightarrow> (\<And>x. P x \<Longrightarrow> safe_for F Q (f x)) \<Longrightarrow> safe_for F Q (bindR r f)"
  by (cases r) auto

lemma safe_mono: "safe_for F P r \<Longrightarrow> (\<And>x. P x \<Longrightarrow> Q x) \<Longrightarrow> safe_for F Q r"
  by (cases r) auto

lemma safe_bindD: "safe_for F (\<lambda>x. safe_for F Q (f x)) r \<Longrightarrow> safe_for F Q (bindR r f)"
  by (cases r) auto

text \<open>
  A loop whose turns keep an invariant and decrease a measure, or end in a fault of a known kind,
  returns or ends in such a fault.
\<close>

lemma repeat_turn_result:
  fixes m :: "'s \<Rightarrow> nat"
  assumes "I s" and turn: "\<And>s. I s \<Longrightarrow> case turn s of Inl e \<Rightarrow> E e
      | Inr (go, s') \<Rightarrow> if go then I s' \<and> m s' < m s else Q s'"
  shows "\<exists>r. repeat_turn turn s = Some r \<and> (case r of Inl e \<Rightarrow> E e | Inr s' \<Rightarrow> Q s')"
  using assms(1)
proof (induction "m s" arbitrary: s rule: less_induct)
  case less
  note t = turn [OF less.prems]
  show ?case
  proof (cases "turn s")
    case (Inl e)
    then show ?thesis using t by (subst repeat_turn.simps) simp
  next
    case (Inr x)
    then obtain go s' where x: "turn s = Inr (go, s')" by (cases x) auto
    then show ?thesis
      using t less.hyps [of s'] by (cases go) (auto simp: repeat_turn_done repeat_turn_again)
  qed
qed

lemma safe_repeat:
  fixes m :: "'s \<Rightarrow> nat"
  assumes "I s" and turn: "\<And>s. I s \<Longrightarrow> safe_for F (\<lambda>(go, s'). if go then I s' \<and> m s' < m s else Q s') (turn s)"
  shows "\<exists>r. repeat_turn turn s = Some r \<and> safe_for F Q r"
  using repeat_turn_result [where I = I and m = m and E = "\<lambda>e. orderly e \<or> e \<in> F" and Q = Q] assms
  by (simp add: safe_for_def split_beta)

lemma safe_returned: "\<exists>r. x = Some r \<and> safe_for F Q r \<Longrightarrow> safe_for F Q (returned x)"
  by auto

end
