(* ===== verification/Server_Typing.thy ===== *)
theory Server_Typing
  imports Server_Laws Looptpool_Laws Safe_Calls
begin

text \<open>
  The typing of the server's heaps: every pointer that the loops, the interest lists of epoll,
  the pending deletions and the server hold refers to a live object of the right class, and
  every callback to the object it was bound to. It does not depend on whether epoll does what
  it is asked to, so it holds however the system calls fail.
\<close>

lemma upd_server_simps [simp]:
  "rt_events (upd_server f s) = rt_events s" "rt_loops (upd_server f s) = rt_loops s"
  "rt_bfevents (upd_server f s) = rt_bfevents s" "rt_world (upd_server f s) = rt_world s"
  "rt_next (upd_server f s) = rt_next s" "rt_acceptors (upd_server f s) = rt_acceptors s"
  "rt_server (upd_server f s) = f (rt_server s)"
  by (simp_all add: upd_server_def)

section \<open>What a server's heaps look like\<close>

text \<open>A callback of the user without arguments, if any.\<close>

definition plain :: "callback option \<Rightarrow> bool" where
  "plain c \<longleftrightarrow> c = None \<or> (\<exists>n. c = Some (User n))"

definition pool_typed :: "addr set \<Rightarrow> looptpool \<Rightarrow> bool" where
  "pool_typed ls lp \<longleftrightarrow>
     lo_tnum lp = int (length (lo_loadvec lp)) \<and> length (lo_loadvec lp) < 2 ^ 31 \<and> 0 \<le> lo_next lp \<and>
     lo_baseloop lp \<in> ls \<and> set (lo_loadvec lp) \<subseteq> ls"

definition server_typed :: "addr set \<Rightarrow> ('w, 'm) servers_scheme \<Rightarrow> bool" where
  "server_typed ls s \<longleftrightarrow>
     pool_typed ls (sv_pool (rt_server s)) \<and> plain (sv_writecb (rt_server s)) \<and> plain (sv_eventcb (rt_server s)) \<and>
     sv_acceptor (rt_server s) \<noteq> NULL"

text \<open>The acceptor, once an event refers to it.\<close>

definition acceptor_typed :: "addr \<Rightarrow> ('w, 'm) servers_scheme \<Rightarrow> bool" where
  "acceptor_typed a s \<longleftrightarrow>
     a \<noteq> NULL \<and> (\<exists>A lfd. rt_acceptors s a = Some A \<and> ac_lfd A = Some lfd \<and> ac_cb A = Some Server_acceptcb)"

text \<open>An event that a loop watches is its wake-up, the acceptor's or that of a connection.\<close>

definition ev_role :: "addr \<Rightarrow> addr \<Rightarrow> event \<Rightarrow> ('w, 'm) servers_scheme \<Rightarrow> bool" where
  "ev_role l q e s \<longleftrightarrow>
     (ev_writecb e = None \<and> ev_eventcb e = None \<and>
        (ev_readcb e = Some (Read_eventfd l) \<or>
         (\<exists>a. ev_readcb e = Some (Acceptor_handle_accept a) \<and> acceptor_typed a s))) \<or>
     (\<exists>p b. ev_readcb e = Some (Bf_handle_read p) \<and> ev_writecb e = Some (Bf_handle_write p) \<and>
        ev_eventcb e = Some (Bf_handle_event p) \<and> rt_bfevents s p = Some b \<and> bf_ev b = q \<and> bf_loop b = l)"

lemma ev_roleE [consumes 1, case_names other conn]:
  assumes "ev_role l q e s"
  obtains "ev_writecb e = None" "ev_eventcb e = None" "ev_readcb e = Some (Read_eventfd l) \<or>
         (\<exists>a. ev_readcb e = Some (Acceptor_handle_accept a) \<and> acceptor_typed a s)"
    | p b where "ev_readcb e = Some (Bf_handle_read p)" "ev_writecb e = Some (Bf_handle_write p)"
        "ev_eventcb e = Some (Bf_handle_event p)" "rt_bfevents s p = Some b" "bf_ev b = q" "bf_loop b = l"
  using assms unfolding ev_role_def by (elim disjE exE conjE) blast+

definition ev_typed :: "addr \<Rightarrow> addr \<Rightarrow> ('w, 'm) servers_scheme \<Rightarrow> bool" where
  "ev_typed l q s \<longleftrightarrow> q \<noteq> NULL \<and> (\<exists>e. rt_events s q = Some e \<and> ev_loop e = l \<and> ev_role l q e s)"

definition loop_typed :: "addr \<Rightarrow> ('w, 'm) servers_scheme \<Rightarrow> bool" where
  "loop_typed l s \<longleftrightarrow>
     l \<noteq> NULL \<and> (\<exists>L. rt_loops s l = Some L \<and> MAX_EVENTS \<le> el_nevents L \<and> distinct (el_evlist L) \<and>
        (\<forall>q \<in> set (el_evlist L). ev_typed l q s))"

abbreviation evs :: "addr \<Rightarrow> ('w, 'm) reactor_scheme \<Rightarrow> addr set" where
  "evs l s \<equiv> set (el_evlist (the (rt_loops s l)))"

text \<open>A connection; those in \<open>D\<close> wait for their deletion and have no callbacks any more.\<close>

definition conn_typed :: "addr set \<Rightarrow> addr set \<Rightarrow> addr \<Rightarrow> bfevent \<Rightarrow> ('w, 'm) servers_scheme \<Rightarrow> bool" where
  "conn_typed ls D p b s \<longleftrightarrow>
     p \<noteq> NULL \<and> rt_events s p = None \<and> bf_loop b \<in> ls \<and> \<not> bf_closed b \<and>
     buf_inv (bf_inbuff b) \<and> buf_inv (bf_outbuff b) \<and>
     bf_ev b \<in> evs (bf_loop b) s \<and> wired p b s \<and> ev_fd (the (rt_events s (bf_ev b))) = bf_fd b \<and>
     plain (bf_writecb b) \<and>
     (if p \<in> D then bf_readcb b = None \<and> bf_eventcb b = None else bf_eventcb b = Some (Server_tcp_eventcb p))"

text \<open>Epoll reports only events that the loop holds, under the descriptors they have.\<close>

definition watched :: "'w interest \<Rightarrow> addr \<Rightarrow> ('w, 'm) reactor_scheme \<Rightarrow> bool" where
  "watched interest l s \<longleftrightarrow>
     (\<forall>fd m q. interest (rt_world s) (el_epfd (the (rt_loops s l))) fd = Some (m, q) \<longrightarrow>
        q \<in> evs l s \<and> ev_fd (the (rt_events s q)) = fd)"

definition heap_typed :: "'w interest \<Rightarrow> addr set \<Rightarrow> addr set \<Rightarrow> ('w, 'm) servers_scheme \<Rightarrow> bool" where
  "heap_typed interest ls D s \<longleftrightarrow>
     NULL < rt_next s \<and> (\<forall>q \<ge> rt_next s. rt_events s q = None \<and> rt_bfevents s q = None) \<and>
     (\<forall>l \<in> ls. loop_typed l s \<and> watched interest l s) \<and>
     inj_on (\<lambda>l. el_epfd (the (rt_loops s l))) ls \<and>
     (\<forall>p b. rt_bfevents s p = Some b \<longrightarrow> conn_typed ls D p b s) \<and>
     D \<subseteq> dom (rt_bfevents s) \<and> distinct (sv_events (rt_server s)) \<and>
     set (sv_events (rt_server s)) = dom (rt_bfevents s) - D \<and>
     server_typed ls s"

text \<open>Between the turns and in a turn, \<open>D\<close> is what the loops' lists of pending deletions hold.\<close>

definition closing :: "addr set \<Rightarrow> ('w, 'm) reactor_scheme \<Rightarrow> addr set" where
  "closing ls s = (\<Union>l \<in> ls. set (el_delque (the (rt_loops s l))))"

definition typed :: "'w interest \<Rightarrow> addr set \<Rightarrow> ('w, 'm) servers_scheme \<Rightarrow> bool" where
  "typed interest ls s \<longleftrightarrow>
     heap_typed interest ls (closing ls s) s \<and>
     (\<forall>l \<in> ls. distinct (el_delque (the (rt_loops s l))) \<and>
        (\<forall>p \<in> set (el_delque (the (rt_loops s l))). bf_loop (the (rt_bfevents s p)) = l))"

section \<open>Steps that keep the shape\<close>

text \<open>
  Most steps change only what the typing does not look at: masks and reported masks of events,
  loads, flags and sizes of loops, the contents of buffers, the world outside the interest lists.
\<close>

definition ev_core :: "event \<Rightarrow> event" where
  "ev_core e = e\<lparr>ev_events := 0, ev_revents := None\<rparr>"

definition el_core :: "eventloop \<Rightarrow> eventloop" where
  "el_core L = L\<lparr>el_load := 0, el_shutdown := False, el_nevents := 0\<rparr>"

definition bf_core :: "bfevent \<Rightarrow> bfevent" where
  "bf_core b = b\<lparr>bf_inbuff := new_buffer, bf_outbuff := new_buffer\<rparr>"

definition same_shape :: "('w, 'm) servers_scheme \<Rightarrow> ('w, 'm) servers_scheme \<Rightarrow> bool" where
  "same_shape s s' \<longleftrightarrow>
     (\<forall>q. map_option ev_core (rt_events s' q) = map_option ev_core (rt_events s q)) \<and>
     (\<forall>l. map_option el_core (rt_loops s' l) = map_option el_core (rt_loops s l)) \<and>
     (\<forall>p. map_option bf_core (rt_bfevents s' p) = map_option bf_core (rt_bfevents s p)) \<and>
     rt_next s' = rt_next s \<and> rt_acceptors s' = rt_acceptors s \<and> rt_server s' = rt_server s"

text \<open>What the steps must still show of the parts they change.\<close>

definition parts_ok :: "addr set \<Rightarrow> ('w, 'm) servers_scheme \<Rightarrow> bool" where
  "parts_ok ls s \<longleftrightarrow>
     (\<forall>l \<in> ls. MAX_EVENTS \<le> el_nevents (the (rt_loops s l))) \<and>
     (\<forall>p b. rt_bfevents s p = Some b \<longrightarrow> buf_inv (bf_inbuff b) \<and> buf_inv (bf_outbuff b))"

lemma ev_coreD: "ev_core e' = ev_core e \<Longrightarrow>
   ev_loop e' = ev_loop e \<and> ev_fd e' = ev_fd e \<and> ev_readcb e' = ev_readcb e \<and> ev_writecb e' = ev_writecb e \<and>
   ev_eventcb e' = ev_eventcb e"
  by (cases e, cases e') (simp add: ev_core_def)

lemma el_coreD: "el_core L' = el_core L \<Longrightarrow>
   el_epfd L' = el_epfd L \<and> el_evlist L' = el_evlist L \<and> el_delque L' = el_delque L \<and>
   el_eventfd L' = el_eventfd L \<and> el_timeout L' = el_timeout L"
  by (cases L, cases L') (simp add: el_core_def)

lemma bf_coreD: "bf_core b' = bf_core b \<Longrightarrow>
   bf_loop b' = bf_loop b \<and> bf_fd b' = bf_fd b \<and> bf_ev b' = bf_ev b \<and> bf_readcb b' = bf_readcb b \<and>
   bf_writecb b' = bf_writecb b \<and> bf_eventcb b' = bf_eventcb b \<and> bf_closed b' = bf_closed b"
  by (cases b, cases b') (simp add: bf_core_def)

lemma same_shapeD:
  assumes "same_shape s s'"
  shows "rt_events s q = Some e \<Longrightarrow> \<exists>e'. rt_events s' q = Some e' \<and> ev_core e' = ev_core e"
    and "rt_loops s l = Some L \<Longrightarrow> \<exists>L'. rt_loops s' l = Some L' \<and> el_core L' = el_core L"
    and "rt_bfevents s p = Some b \<Longrightarrow> \<exists>b'. rt_bfevents s' p = Some b' \<and> bf_core b' = bf_core b"
    and "rt_events s q = None \<Longrightarrow> rt_events s' q = None"
    and "rt_bfevents s p = None \<Longrightarrow> rt_bfevents s' p = None"
proof -
  have m: "map_option ev_core (rt_events s' q) = map_option ev_core (rt_events s q)"
      "map_option el_core (rt_loops s' l) = map_option el_core (rt_loops s l)"
      "map_option bf_core (rt_bfevents s' p) = map_option bf_core (rt_bfevents s p)"
    using assms by (simp_all add: same_shape_def)
  show "rt_events s q = Some e \<Longrightarrow> \<exists>e'. rt_events s' q = Some e' \<and> ev_core e' = ev_core e"
    using m(1) by (cases "rt_events s' q") auto
  show "rt_loops s l = Some L \<Longrightarrow> \<exists>L'. rt_loops s' l = Some L' \<and> el_core L' = el_core L"
    using m(2) by (cases "rt_loops s' l") auto
  show "rt_bfevents s p = Some b \<Longrightarrow> \<exists>b'. rt_bfevents s' p = Some b' \<and> bf_core b' = bf_core b"
    using m(3) by (cases "rt_bfevents s' p") auto
  show "rt_events s q = None \<Longrightarrow> rt_events s' q = None" using m(1) by simp
  show "rt_bfevents s p = None \<Longrightarrow> rt_bfevents s' p = None" using m(3) by simp
qed

lemma same_shape_sym: "same_shape s s' \<Longrightarrow> same_shape s' s"
  by (auto simp: same_shape_def)

lemma same_shape_dom: "same_shape s s' \<Longrightarrow> dom (rt_bfevents s') = dom (rt_bfevents s)"
proof -
  assume a: "same_shape s s'"
  have "rt_bfevents s' p = None \<longleftrightarrow> rt_bfevents s p = None" for p
    using same_shapeD(5) [OF a] same_shapeD(5) [OF same_shape_sym [OF a]] by blast
  then show ?thesis by (simp add: set_eq_iff domIff)
qed

lemma same_shape_ev:
  assumes "same_shape s s'" "ev_typed l q s"
  shows "ev_typed l q s'"
proof -
  obtain e where e: "q \<noteq> NULL" "rt_events s q = Some e" "ev_loop e = l" "ev_role l q e s"
    using assms(2) by (auto simp: ev_typed_def)
  obtain e' where e': "rt_events s' q = Some e'" "ev_core e' = ev_core e"
    using same_shapeD(1) [OF assms(1) e(2)] by blast
  note c = ev_coreD [OF e'(2)]
  have acc: "acceptor_typed a s' = acceptor_typed a s" for a
    using assms(1) by (simp add: acceptor_typed_def same_shape_def)
  have bf: "rt_bfevents s p = Some b \<Longrightarrow> \<exists>b'. rt_bfevents s' p = Some b' \<and> bf_ev b' = bf_ev b \<and> bf_loop b' = bf_loop b"
    for p b using same_shapeD(3) [OF assms(1), of p b] bf_coreD by blast
  have "ev_role l q e' s'"
    using e(4)
  proof (cases rule: ev_roleE)
    case other
    then show ?thesis by (simp add: ev_role_def acc c)
  next
    case (conn p b)
    then show ?thesis using bf [OF conn(4)] by (auto simp: ev_role_def c)
  qed
  then show ?thesis using e e' c by (auto simp: ev_typed_def)
qed

lemma same_shape_evs:
  assumes "same_shape s s'"
  shows "rt_loops s l = Some L \<Longrightarrow> evs l s' = evs l s \<and> el_epfd (the (rt_loops s' l)) = el_epfd (the (rt_loops s l)) \<and>
    el_delque (the (rt_loops s' l)) = el_delque (the (rt_loops s l))"
  using same_shapeD(2) [OF assms, of l L] by (auto dest!: el_coreD)

lemma same_shape_conn:
  assumes "same_shape s s'" "conn_typed ls D p b s" "rt_loops s (bf_loop b) \<noteq> None"
    and "rt_bfevents s' p = Some b'" "bf_core b' = bf_core b" "buf_inv (bf_inbuff b')" "buf_inv (bf_outbuff b')"
  shows "conn_typed ls D p b' s'"
proof -
  note c = bf_coreD [OF assms(5)]
  obtain e where e: "rt_events s (bf_ev b) = Some e" using assms(2) by (auto simp: conn_typed_def wired_def)
  obtain e' where e': "rt_events s' (bf_ev b) = Some e'" "ev_core e' = ev_core e"
    using same_shapeD(1) [OF assms(1) e] by blast
  have "evs (bf_loop b) s' = evs (bf_loop b) s" using same_shape_evs [OF assms(1)] assms(3) by auto
  moreover have "rt_events s' p = None"
    using same_shapeD(4) [OF assms(1)] assms(2) by (auto simp: conn_typed_def)
  ultimately show ?thesis
    using assms(2,6,7) c e e' ev_coreD [OF e'(2)] by (auto simp: conn_typed_def wired_def)
qed

lemma same_shape_watched:
  assumes "same_shape s s'" "watched interest l s" "loop_typed l s"
    and "interest (rt_world s') = interest (rt_world s)"
  shows "watched interest l s'"
proof -
  obtain L where L: "rt_loops s l = Some L" "\<forall>q \<in> set (el_evlist L). ev_typed l q s"
    using assms(3) by (auto simp: loop_typed_def)
  note ev = same_shape_evs [OF assms(1) L(1)]
  have "ev_fd (the (rt_events s' q)) = ev_fd (the (rt_events s q))" if q: "q \<in> evs l s" for q
  proof -
    obtain e where e: "rt_events s q = Some e" using q L unfolding ev_typed_def by auto
    then show ?thesis using same_shapeD(1) [OF assms(1) e] by (auto dest!: ev_coreD)
  qed
  then show ?thesis using assms(2,4) ev by (auto simp: watched_def)
qed

text \<open>A step of this kind keeps the typing.\<close>

lemma heap_typed_loop: "heap_typed interest ls D s \<Longrightarrow> l \<in> ls \<Longrightarrow> loop_typed l s"
  by (simp add: heap_typed_def)

lemma heap_typed_loopE:
  assumes "heap_typed interest ls D s" "l \<in> ls"
  obtains L where "l \<noteq> NULL" "rt_loops s l = Some L"
  using heap_typed_loop [OF assms] by (auto simp: loop_typed_def)

lemma heap_typed_ev: "heap_typed interest ls D s \<Longrightarrow> l \<in> ls \<Longrightarrow> q \<in> evs l s \<Longrightarrow> ev_typed l q s"
  using heap_typed_loop [of interest ls D s l] by (auto simp: loop_typed_def)

lemma heap_typed_connE:
  assumes "heap_typed interest ls D s" "rt_bfevents s p = Some b"
  obtains e L where "p \<noteq> NULL" "rt_events s p = None" "bf_loop b \<in> ls" "\<not> bf_closed b" "buf_inv (bf_inbuff b)"
    "buf_inv (bf_outbuff b)" "bf_ev b \<noteq> NULL" "rt_events s (bf_ev b) = Some e" "ev_loop e = bf_loop b"
    "ev_fd e = bf_fd b" "bf_loop b \<noteq> NULL" "rt_loops s (bf_loop b) = Some L" "bf_ev b \<in> set (el_evlist L)"
    "plain (bf_writecb b)"
proof -
  have c: "conn_typed ls D p b s" using assms by (simp add: heap_typed_def)
  then have l: "bf_loop b \<in> ls" by (simp add: conn_typed_def)
  obtain L where L: "bf_loop b \<noteq> NULL" "rt_loops s (bf_loop b) = Some L" "\<forall>q \<in> set (el_evlist L). ev_typed (bf_loop b) q s"
    using heap_typed_loop [OF assms(1) l] by (auto simp: loop_typed_def)
  then have "ev_typed (bf_loop b) (bf_ev b) s" using c by (simp add: conn_typed_def)
  then show thesis using that c l L by (auto simp: conn_typed_def ev_typed_def)
qed

lemma heap_typed_shape:
  assumes "heap_typed interest ls D s" "same_shape s s'" "parts_ok ls s'"
    and watch: "\<And>l. l \<in> ls \<Longrightarrow> watched interest l s'"
  shows "heap_typed interest ls D s'"
proof -
  note sh = same_shapeD [OF assms(2)] and sh' = same_shapeD [OF same_shape_sym [OF assms(2)]]
  have "loop_typed l s'" if l: "l \<in> ls" for l
  proof -
    obtain L where L: "l \<noteq> NULL" "rt_loops s l = Some L" "distinct (el_evlist L)" "\<forall>q \<in> set (el_evlist L). ev_typed l q s"
      using heap_typed_loop [OF assms(1) l] by (auto simp: loop_typed_def)
    obtain L' where L': "rt_loops s' l = Some L'" "el_core L' = el_core L" using sh(2) [OF L(2)] by blast
    have "MAX_EVENTS \<le> el_nevents L'" using assms(3) l L'(1) by (auto simp: parts_ok_def)
    then show ?thesis
      using L L' el_coreD [OF L'(2)] same_shape_ev [OF assms(2)] by (auto simp: loop_typed_def)
  qed
  moreover have "conn_typed ls D p b' s'" if b': "rt_bfevents s' p = Some b'" for p b'
  proof -
    obtain b where b: "rt_bfevents s p = Some b" "bf_core b' = bf_core b" using sh'(3) [OF b'] by auto
    have "rt_loops s (bf_loop b) \<noteq> None" using heap_typed_connE [OF assms(1) b(1)] by blast
    then show ?thesis
      using same_shape_conn [OF assms(2) _ _ b' b(2)] assms(1,3) b(1) b' by (auto simp: heap_typed_def parts_ok_def)
  qed
  moreover have "inj_on (\<lambda>l. el_epfd (the (rt_loops s' l))) ls"
  proof -
    have "el_epfd (the (rt_loops s' l)) = el_epfd (the (rt_loops s l))" if "l \<in> ls" for l
      using heap_typed_loopE [OF assms(1) that] same_shape_evs [OF assms(2)] by metis
    then show ?thesis using assms(1) by (simp add: heap_typed_def inj_on_def)
  qed
  moreover have "server_typed ls s' = server_typed ls s" using assms(2) by (simp add: same_shape_def server_typed_def)
  ultimately show ?thesis
    using assms(1,2) watch same_shape_dom [OF assms(2)] sh(4,5)
    by (simp add: heap_typed_def same_shape_def)
qed

lemma typed_parts: "heap_typed interest ls D s \<Longrightarrow> parts_ok ls s"
  by (fastforce simp: heap_typed_def parts_ok_def loop_typed_def conn_typed_def)

lemma heap_typed_watched: "heap_typed interest ls D s \<Longrightarrow> l \<in> ls \<Longrightarrow> watched interest l s"
  by (simp add: heap_typed_def)

lemma typed_heap: "typed interest ls s \<Longrightarrow> heap_typed interest ls (closing ls s) s"
  by (simp add: typed_def)

lemmas typed_loopE = heap_typed_loopE [OF typed_heap]
  and typed_connE = heap_typed_connE [OF typed_heap]

lemma typed_loop_live: "typed interest ls s \<Longrightarrow> l \<in> ls \<Longrightarrow> rt_loops s l \<noteq> None"
  by (auto elim: typed_loopE)

lemma typed_shape:
  assumes "typed interest ls s" "same_shape s s'" "parts_ok ls s'"
    and "\<And>l. l \<in> ls \<Longrightarrow> watched interest l s'"
  shows "typed interest ls s'"
proof -
  have dq: "el_delque (the (rt_loops s' l)) = el_delque (the (rt_loops s l))" if "l \<in> ls" for l
    using typed_loopE [OF assms(1) that] same_shape_evs [OF assms(2)] by metis
  then have "closing ls s' = closing ls s" by (simp add: closing_def)
  moreover have "bf_loop (the (rt_bfevents s' p)) = bf_loop (the (rt_bfevents s p))"
    if l: "l \<in> ls" and p: "p \<in> set (el_delque (the (rt_loops s l)))" for l p
  proof -
    have "p \<in> dom (rt_bfevents s)"
      using typed_heap [OF assms(1)] l p by (auto simp: heap_typed_def closing_def)
    then show ?thesis using same_shapeD(3) [OF assms(2)] by (force dest!: bf_coreD)
  qed
  ultimately show ?thesis
    using assms(1) heap_typed_shape [OF typed_heap [OF assms(1)] assms(2-4)] dq by (simp add: typed_def)
qed

section \<open>What the handlers of a turn may assume of each other\<close>

text \<open>
  Nothing that a handler or a callback does takes an event or a connection away: deletions wait
  until the end of the turn. Nor does it change the read callback of an event or take back the
  shutdown of a loop.
\<close>

definition grows :: "addr set \<Rightarrow> ('w, 'm) servers_scheme \<Rightarrow> ('w, 'm) servers_scheme \<Rightarrow> bool" where
  "grows ls s s' \<longleftrightarrow>
     (\<forall>l \<in> ls. evs l s \<subseteq> evs l s') \<and>
     (\<forall>p b. rt_bfevents s p = Some b \<longrightarrow>
        (\<exists>b'. rt_bfevents s' p = Some b' \<and> bf_fd b' = bf_fd b \<and> bf_ev b' = bf_ev b \<and> bf_loop b' = bf_loop b))"

definition kept :: "addr set \<Rightarrow> ('w, 'm) servers_scheme \<Rightarrow> ('w, 'm) servers_scheme \<Rightarrow> bool" where
  "kept ls s s' \<longleftrightarrow> grows ls s s' \<and>
     (\<forall>q e. rt_events s q = Some e \<longrightarrow> (\<exists>e'. rt_events s' q = Some e' \<and> ev_revents e' = ev_revents e \<and>
        ev_readcb e' = ev_readcb e)) \<and>
     (\<forall>l. stopped l s \<longrightarrow> stopped l s')"

text \<open>\<open>data\<close> is an observation of the outside world, such as the numbers of unread bytes.\<close>

definition good ::
  "'w interest \<Rightarrow> ('w \<Rightarrow> fd \<Rightarrow> nat) \<Rightarrow> addr set \<Rightarrow> ('w, 'm) servers_scheme \<Rightarrow> ('w, 'm) servers_scheme \<Rightarrow> bool" where
  "good interest data ls s s' \<longleftrightarrow> typed interest ls s' \<and> kept ls s s' \<and> data (rt_world s') = data (rt_world s)"

lemma grows_trans: "grows ls s s1 \<Longrightarrow> grows ls s1 s2 \<Longrightarrow> grows ls s s2"
  unfolding grows_def by (elim conjE, intro conjI) (blast, force)

lemma kept_trans:
  assumes "kept ls s s1" "kept ls s1 s2"
  shows "kept ls s s2"
proof -
  have "\<exists>e'. rt_events s2 q = Some e' \<and> ev_revents e' = ev_revents e \<and> ev_readcb e' = ev_readcb e"
    if e: "rt_events s q = Some e" for q e
  proof -
    obtain e1 where "rt_events s1 q = Some e1" "ev_revents e1 = ev_revents e" "ev_readcb e1 = ev_readcb e"
      using assms(1) e unfolding kept_def by blast
    then show ?thesis using assms(2) unfolding kept_def by fastforce
  qed
  then show ?thesis using assms grows_trans [of ls s s1 s2] by (simp add: kept_def)
qed

lemma kept_refl [simp]: "kept ls s s"
  by (auto simp: kept_def grows_def)

lemma good_refl: "typed interest ls s \<Longrightarrow> good interest data ls s s"
  by (simp add: good_def)

lemma good_trans: "good interest data ls s s1 \<Longrightarrow> good interest data ls s1 s2 \<Longrightarrow> good interest data ls s s2"
  unfolding good_def using kept_trans by metis

lemma good_weaken: "good interest data ls s s' \<Longrightarrow> good interest (\<lambda>_ _. 0) ls s s'"
  by (simp add: good_def)

lemma good_conn:
  assumes "good interest data ls s s'" "rt_bfevents s p = Some b"
  shows "\<exists>b'. rt_bfevents s' p = Some b' \<and> bf_fd b' = bf_fd b \<and> bf_ev b' = bf_ev b \<and> bf_loop b' = bf_loop b"
  using assms unfolding good_def kept_def grows_def by blast

lemma good_bind:
  "safe_for F (good interest data ls s) r \<Longrightarrow> (\<And>s1. good interest data ls s s1 \<Longrightarrow> safe_for F (good interest data ls s1) (f s1)) \<Longrightarrow>
   safe_for F (good interest data ls s) (bindR r f)"
  by (rule safe_bind, assumption) (blast intro: safe_mono good_trans)

lemma same_shape_grows:
  assumes "same_shape s s'" "\<And>l. l \<in> ls \<Longrightarrow> rt_loops s l \<noteq> None"
  shows "grows ls s s'"
  unfolding grows_def
proof (intro conjI ballI allI impI)
  show "evs l s \<subseteq> evs l s'" if "l \<in> ls" for l using assms(2) [OF that] same_shape_evs [OF assms(1)] by auto
  show "\<exists>b'. rt_bfevents s' p = Some b' \<and> bf_fd b' = bf_fd b \<and> bf_ev b' = bf_ev b \<and> bf_loop b' = bf_loop b"
    if "rt_bfevents s p = Some b" for p b
    using same_shapeD(3) [OF assms(1) that] by (auto dest!: bf_coreD)
qed

lemma good_shape:
  assumes "typed interest ls s" "same_shape s s'" "parts_ok ls s'" "\<And>l. l \<in> ls \<Longrightarrow> watched interest l s'"
    and "\<And>q e. rt_events s q = Some e \<Longrightarrow> ev_revents (the (rt_events s' q)) = ev_revents e"
    and "data (rt_world s') = data (rt_world s)" and "\<And>l. stopped l s \<Longrightarrow> stopped l s'"
  shows "good interest data ls s s'"
proof -
  have "grows ls s s'"
    by (rule same_shape_grows [OF assms(2)]) (simp add: typed_loop_live [OF assms(1)])
  moreover have "\<exists>e'. rt_events s' q = Some e' \<and> ev_revents e' = ev_revents e \<and> ev_readcb e' = ev_readcb e"
    if e: "rt_events s q = Some e" for q e
    using same_shapeD(1) [OF assms(2) e] assms(5) [OF e] by (auto dest!: ev_coreD)
  ultimately show ?thesis
    using typed_shape [OF assms(1-4)] assms(6,7) by (simp add: good_def kept_def)
qed

section \<open>Elementary steps\<close>

text \<open>A system call that leaves the interest lists alone.\<close>

lemma good_world:
  assumes "typed interest ls s" "interest w = interest (rt_world s)" "data w = data (rt_world s)"
  shows "good interest data ls s (s\<lparr>rt_world := w\<rparr>)"
proof (rule good_shape [OF assms(1)])
  show "parts_ok ls (s\<lparr>rt_world := w\<rparr>)"
    using typed_parts [OF typed_heap [OF assms(1)]] by (simp add: parts_ok_def)
  show "watched interest l (s\<lparr>rt_world := w\<rparr>)" if "l \<in> ls" for l
    using heap_typed_watched [OF typed_heap [OF assms(1)] that] assms(2) by (simp add: watched_def)
qed (simp_all add: same_shape_def assms(3) stopped_def)

text \<open>New contents for the buffers of a connection.\<close>

lemma good_buffers:
  assumes "typed interest ls s" "rt_bfevents s p = Some b" "buf_inv ib" "buf_inv ob"
  shows "good interest data ls s (put_bf p (b\<lparr>bf_inbuff := ib, bf_outbuff := ob\<rparr>) s)"
proof (rule good_shape [OF assms(1)])
  let ?s = "put_bf p (b\<lparr>bf_inbuff := ib, bf_outbuff := ob\<rparr>) s"
  show "same_shape s ?s" using assms(2) by (simp add: same_shape_def bf_core_def put_bf_def)
  show "parts_ok ls ?s"
    using typed_parts [OF typed_heap [OF assms(1)]] assms(2-4) by (simp add: parts_ok_def put_bf_def)
  show "watched interest l ?s" if "l \<in> ls" for l
    using heap_typed_watched [OF typed_heap [OF assms(1)] that] by (simp add: watched_def put_bf_def)
qed (simp_all add: put_bf_def stopped_def)

text \<open>A change of flags, sizes or loads of a loop.\<close>

lemma good_loop:
  assumes "typed interest ls s" "rt_loops s l = Some L" "el_core L' = el_core L" "MAX_EVENTS \<le> el_nevents L'"
    and "el_shutdown L \<Longrightarrow> el_shutdown L'"
  shows "good interest data ls s (put_loop l L' s)"
proof (rule good_shape [OF assms(1)])
  let ?s = "put_loop l L' s"
  show sh: "same_shape s ?s" using assms(2,3) by (simp add: same_shape_def put_loop_def)
  show "parts_ok ls ?s"
    using typed_parts [OF typed_heap [OF assms(1)]] assms(4) by (simp add: parts_ok_def put_loop_def)
  show "watched interest k ?s" if k: "k \<in> ls" for k
    using same_shape_watched [OF sh heap_typed_watched heap_typed_loop] typed_heap [OF assms(1)] k
    by (simp add: put_loop_def)
qed (use assms(2,5) in \<open>auto simp: put_loop_def stopped_def\<close>)

text \<open>A new mask for an event that its loop holds, and the report to epoll.\<close>

lemma watched_ctl:
  assumes S: "epoll_ctl_spec S interest" and ls: "inj_on (\<lambda>l. el_epfd (the (rt_loops s l))) ls" "k \<in> ls" "l \<in> ls"
    and ctl: "sys_epoll_ctl S (el_epfd (the (rt_loops s l))) op fd c (rt_world s) = (r, w)" "op \<noteq> EPOLL_CTL_DEL"
    and c: "c = Some (m, q)" "q \<in> evs l s'" "ev_fd (the (rt_events s' q)) = fd"
    and k: "watched interest k s" "evs k s \<subseteq> evs k s'" "\<And>q. q \<in> evs k s \<Longrightarrow> ev_fd (the (rt_events s' q)) = ev_fd (the (rt_events s q))"
      "el_epfd (the (rt_loops s' k)) = el_epfd (the (rt_loops s k))" "rt_world s' = w"
  shows "watched interest k s'"
proof -
  let ?ep = "\<lambda>l. el_epfd (the (rt_loops s l))"
  have w: "interest w = interest (rt_world s) \<or> interest w = set_interest (?ep l) fd c (interest (rt_world s))"
    using S ctl unfolding epoll_ctl_spec_def by (cases r) (fastforce split: if_splits)+
  have "q' \<in> evs k s' \<and> ev_fd (the (rt_events s' q')) = f" if i: "interest w (?ep k) f = Some (m', q')" for f m' q'
  proof (cases "interest (rt_world s) (?ep k) f = Some (m', q')")
    case True
    then show ?thesis using k by (auto simp: watched_def)
  next
    case False
    then have "interest w = set_interest (?ep l) fd c (interest (rt_world s))" using w i by auto
    then have "?ep k = ?ep l" "f = fd" "q' = q"
      using i False c(1) by (auto simp: set_interest_def split: if_splits)
    then show ?thesis using c ls by (auto dest: inj_onD)
  qed
  then show ?thesis using k(4,5) by (simp add: watched_def)
qed

lemma mask_step:
  assumes S: "epoll_ctl_spec S interest" "ctl_silent S data"
    and h: "heap_typed interest ls D s" and l: "l \<in> ls" and q: "q \<in> evs l s" "rt_events s q = Some e"
  shows "\<exists>s'. bindR (upd_event q (\<lambda>e. e\<lparr>ev_events := f (ev_events e)\<rparr>) s) (update_ep S q) = Inr s' \<and>
    same_shape s s' \<and> parts_ok ls s' \<and> (\<forall>k \<in> ls. watched interest k s') \<and> rt_bfevents s' = rt_bfevents s \<and>
    rt_events s' = (rt_events s)(q \<mapsto> e\<lparr>ev_events := f (ev_events e)\<rparr>) \<and> rt_loops s' = rt_loops s \<and>
    data (rt_world s') = data (rt_world s)"
proof -
  obtain L where L: "l \<noteq> NULL" "rt_loops s l = Some L" using heap_typed_loopE [OF h l] by blast
  have e: "q \<noteq> NULL" "ev_loop e = l" using heap_typed_ev [OF h l q(1)] q(2) by (auto simp: ev_typed_def)
  let ?e = "e\<lparr>ev_events := f (ev_events e)\<rparr>"
  obtain r w where w: "sys_epoll_ctl S (el_epfd L) EPOLL_CTL_MOD (ev_fd e) (Some (ev_events ?e, q)) (rt_world s) = (r, w)"
    by fastforce
  let ?s = "(put_event q ?e s)\<lparr>rt_world := w\<rparr>"
  have "bindR (upd_event q (\<lambda>e. e\<lparr>ev_events := f (ev_events e)\<rparr>) s) (update_ep S q) = Inr ?s"
    using e q(2) L w by (simp add: upd_event_def update_ep_def mod_event_def call_def put_event_def)
  moreover have "same_shape s ?s" using q(2) by (simp add: same_shape_def ev_core_def put_event_def)
  moreover have "parts_ok ls ?s" using typed_parts [OF h] by (simp add: parts_ok_def put_event_def)
  moreover have "watched interest k ?s" if k: "k \<in> ls" for k
    by (rule watched_ctl [OF S(1) _ k l, of s EPOLL_CTL_MOD "ev_fd e" "Some (ev_events ?e, q)" r w "ev_events ?e" q])
      (use h heap_typed_watched [OF h k] w L(2) q in \<open>auto simp: heap_typed_def put_event_def\<close>)
  moreover have "data (rt_world ?s) = data (rt_world s)"
    using S(2) [unfolded ctl_silent_def, rule_format, of "el_epfd L" EPOLL_CTL_MOD "ev_fd e" "Some (ev_events ?e, q)" "rt_world s"]
      w by simp
  ultimately show ?thesis by (intro exI [of _ ?s]) (simp add: put_event_def)
qed

lemma good_mask:
  assumes S: "epoll_ctl_spec S interest" "ctl_silent S data"
    and ty: "typed interest ls s" and l: "l \<in> ls" and q: "q \<in> evs l s" "rt_events s q = Some e"
  shows "safe (good interest data ls s) (bindR (upd_event q (\<lambda>e. e\<lparr>ev_events := f (ev_events e)\<rparr>) s) (update_ep S q))"
proof -
  obtain s' where s': "bindR (upd_event q (\<lambda>e. e\<lparr>ev_events := f (ev_events e)\<rparr>) s) (update_ep S q) = Inr s'"
      "same_shape s s'" "parts_ok ls s'" "\<forall>k \<in> ls. watched interest k s'"
      "rt_events s' = (rt_events s)(q \<mapsto> e\<lparr>ev_events := f (ev_events e)\<rparr>)" "data (rt_world s') = data (rt_world s)"
      "rt_loops s' = rt_loops s"
    using mask_step [OF S typed_heap [OF ty] l q, of f] by blast
  have "good interest data ls s s'"
    by (rule good_shape [OF ty s'(2,3)]) (use s'(4-7) q(2) in \<open>auto simp: stopped_def\<close>)
  then show ?thesis by (simp add: s'(1))
qed

text \<open>The mask that epoll reported.\<close>

lemma setrevents_typed:
  assumes ty: "typed interest ls s" and l: "l \<in> ls" and q: "q \<in> evs l s"
  shows "\<exists>s' e. setrevents q m s = Inr s' \<and> typed interest ls s' \<and> grows ls s s' \<and>
    rt_events s' q = Some e \<and> ev_revents e = Some m \<and> rt_world s' = rt_world s \<and> rt_loops s' = rt_loops s \<and>
    map_option ev_readcb \<circ> rt_events s' = map_option ev_readcb \<circ> rt_events s"
proof -
  obtain L where L: "rt_loops s l = Some L" "\<forall>q \<in> set (el_evlist L). ev_typed l q s"
    using heap_typed_loop [OF typed_heap [OF ty] l] by (auto simp: loop_typed_def)
  then obtain e where e: "q \<noteq> NULL" "rt_events s q = Some e" using q by (auto simp: ev_typed_def)
  let ?s = "put_event q (e\<lparr>ev_revents := Some m\<rparr>) s"
  have sh: "same_shape s ?s" using e by (simp add: same_shape_def ev_core_def put_event_def)
  have "typed interest ls ?s"
  proof (rule typed_shape [OF ty sh])
    show "parts_ok ls ?s" using typed_parts [OF typed_heap [OF ty]] by (simp add: parts_ok_def put_event_def)
    show "watched interest k ?s" if "k \<in> ls" for k
      using same_shape_watched [OF sh heap_typed_watched heap_typed_loop] typed_heap [OF ty] that
      by (simp add: put_event_def)
  qed
  moreover have "grows ls s ?s"
    by (rule same_shape_grows [OF sh]) (simp add: typed_loop_live [OF ty])
  moreover have "setrevents q m s = Inr ?s" using e by (simp add: setrevents_def upd_event_def)
  ultimately show ?thesis using e(2) by (auto simp: put_event_def)
qed

end
