(* ===== verification/Server_Teardown.thy ===== *)
theory Server_Teardown
  imports Server_Typing
begin

text \<open>
  The end of a server: its destructor (\<^verbatim>\<open>src/server.cpp\<close>) after the loops have ended. It stops the
  pool, takes the acceptor off its loop, closes and deletes the connections, and destroys the
  acceptor, the threads of the pool with their loops, and the base loop. Everything is freed
  once, whatever the system calls return.
\<close>

section \<open>Loops that have ended\<close>

text \<open>A loop that has left \<^verbatim>\<open>loop\<close>, holding each of its events once.\<close>

definition loop_ended :: "addr \<Rightarrow> ('w, 'm) reactor_scheme \<Rightarrow> bool" where
  "loop_ended l s \<longleftrightarrow> l \<noteq> NULL \<and>
     (\<exists>L. rt_loops s l = Some L \<and> el_shutdown L \<and> el_delque L = [] \<and> distinct (el_evlist L) \<and>
        (\<forall>q \<in> set (el_evlist L). q \<noteq> NULL \<and> (\<exists>e. rt_events s q = Some e \<and> ev_loop e = l)))"

text \<open>A loop of the pool and the thread object it belongs to.\<close>

definition threaded :: "addr \<Rightarrow> ('w, 'm) pools_scheme \<Rightarrow> bool" where
  "threaded l s \<longleftrightarrow>
     (\<exists>L. rt_loops s l = Some L \<and> el_baseloop L \<noteq> NULL \<and>
        map_option lh_loop (rt_loopthreads s (el_baseloop L)) = Some l)"

abbreviation thread_of :: "('w, 'm) reactor_scheme \<Rightarrow> addr \<Rightarrow> addr" where
  "thread_of s l \<equiv> el_baseloop (the (rt_loops s l))"

lemma threadedE:
  assumes "threaded l s"
  obtains L T where "rt_loops s l = Some L" "el_baseloop L \<noteq> NULL" "rt_loopthreads s (el_baseloop L) = Some T" "lh_loop T = l"
  using assms by (auto simp: threaded_def)

lemma loop_endedE:
  assumes "loop_ended l s"
  obtains L where "l \<noteq> NULL" "rt_loops s l = Some L" "el_shutdown L" "el_delque L = []" "distinct (el_evlist L)"
    "\<forall>q \<in> set (el_evlist L). q \<noteq> NULL \<and> rt_events s q \<noteq> None"
proof -
  obtain L where L: "l \<noteq> NULL" "rt_loops s l = Some L" "el_shutdown L" "el_delque L = []" "distinct (el_evlist L)"
      "\<forall>q \<in> set (el_evlist L). q \<noteq> NULL \<and> (\<exists>e. rt_events s q = Some e \<and> ev_loop e = l)"
    using assms unfolding loop_ended_def by (elim conjE exE) blast
  then have "\<forall>q \<in> set (el_evlist L). q \<noteq> NULL \<and> rt_events s q \<noteq> None" by auto
  then show thesis by (rule that [OF L(1-5)])
qed

lemma loop_ended_cong: "rt_loops s' = rt_loops s \<Longrightarrow> rt_events s' = rt_events s \<Longrightarrow> loop_ended l s' = loop_ended l s"
  by (simp add: loop_ended_def)

lemma threaded_cong:
  assumes "rt_loops s' = rt_loops s" "\<forall>t. map_option lh_loop (rt_loopthreads s' t) = map_option lh_loop (rt_loopthreads s t)"
  shows "threaded l s' = threaded l s"
  using assms(2) by (simp add: threaded_def assms(1))

lemma loop_ended_stopped: "loop_ended l s \<Longrightarrow> stopped l s"
  by (auto simp: loop_ended_def stopped_def)

lemma loopbreak_ended: "loop_ended l s \<Longrightarrow> loopbreak S l s = Inr s"
  by (auto simp: loop_ended_def loopbreak_def)

lemma lh_join_ended:
  assumes "t \<noteq> NULL" "rt_loopthreads s t = Some T" "loop_ended (lh_loop T) s"
  shows "lh_join S run del t s = Inr (s\<lparr>rt_loopthreads := (rt_loopthreads s)(t \<mapsto> T\<lparr>lh_joinable := False\<rparr>)\<rparr>)"
proof (cases "lh_joinable T")
  case True
  then show ?thesis
    using assms loop_stopped [OF loop_ended_stopped [OF assms(3)], of S run del]
    by (simp add: lh_join_def upd_loopthread_def)
next
  case False
  then have "T\<lparr>lh_joinable := False\<rparr> = T" by (cases T) simp
  then show ?thesis using assms False by (simp add: lh_join_def fun_upd_idem)
qed

lemma stop_loops_ended:
  assumes "\<forall>l \<in> set ls. loop_ended l s \<and> threaded l s"
  shows "\<exists>th. stop_loops S run del ls s = Inr (s\<lparr>rt_loopthreads := th\<rparr>) \<and>
    (\<forall>t. map_option lh_loop (th t) = map_option lh_loop (rt_loopthreads s t))"
  using assms
proof (induction ls arbitrary: s)
  case Nil
  then show ?case by (intro exI [of _ "rt_loopthreads s"]) simp
next
  case (Cons l ls)
  obtain L T where L: "rt_loops s l = Some L" "el_baseloop L \<noteq> NULL" "rt_loopthreads s (el_baseloop L) = Some T" "lh_loop T = l"
    using Cons.prems by (auto elim: threadedE)
  let ?th = "(rt_loopthreads s)(el_baseloop L \<mapsto> T\<lparr>lh_joinable := False\<rparr>)"
  let ?s = "s\<lparr>rt_loopthreads := ?th\<rparr>"
  have "l \<noteq> NULL" "loopbreak S l s = Inr s" using Cons.prems loopbreak_ended by (auto simp: loop_ended_def)
  moreover have "lh_join S run del (el_baseloop L) s = Inr ?s"
    using lh_join_ended [OF L(2,3)] L(4) Cons.prems by simp
  moreover have "threaded k ?s = threaded k s" for k by (rule threaded_cong) (use L(3) in auto)
  then have "\<forall>k \<in> set ls. loop_ended k ?s \<and> threaded k ?s"
    using Cons.prems loop_ended_cong [of ?s s] by simp
  then obtain th where "stop_loops S run del ls ?s = Inr (?s\<lparr>rt_loopthreads := th\<rparr>)"
      "\<forall>t. map_option lh_loop (th t) = map_option lh_loop (?th t)"
    using Cons.IH [of ?s] by auto
  ultimately show ?case using L by (intro exI [of _ th]) auto
qed

section \<open>Deleting a loop\<close>

lemma delete_events:
  assumes "distinct qs" "\<forall>q \<in> set qs. q \<noteq> NULL \<and> rt_events s q \<noteq> None"
  shows "delete_all delete_event qs s = Inr (s\<lparr>rt_events := rt_events s |` (- set qs)\<rparr>)"
  using assms
proof (induction qs arbitrary: s)
  case Nil
  then show ?case by (simp add: restrict_map_def)
next
  case (Cons q qs)
  let ?s = "s\<lparr>rt_events := (rt_events s)(q := None)\<rparr>"
  have "delete_event q s = Inr ?s" using Cons.prems(2) by (auto simp: delete_event_def)
  moreover have "delete_all delete_event qs ?s = Inr (?s\<lparr>rt_events := rt_events ?s |` (- set qs)\<rparr>)"
    using Cons.prems by (intro Cons.IH) auto
  moreover have "((rt_events s)(q := None)) |` (- set qs) = rt_events s |` (- set (q # qs))"
    by (auto simp: restrict_map_def)
  ultimately show ?case by simp
qed

lemma delete_eventloop_ended:
  assumes "loop_ended l s"
  shows "\<exists>w. delete_eventloop S del l s =
    Inr (s\<lparr>rt_events := rt_events s |` (- evs l s), rt_loops := (rt_loops s)(l := None), rt_world := w\<rparr>)"
proof -
  obtain L where L: "l \<noteq> NULL" "rt_loops s l = Some L" "el_shutdown L" "el_delque L = []" "distinct (el_evlist L)"
      "\<forall>q \<in> set (el_evlist L). q \<noteq> NULL \<and> rt_events s q \<noteq> None"
    using assms by (rule loop_endedE)
  obtain r1 w1 r2 w2 where "sys_close S (el_epfd L) (rt_world s) = (r1, w1)" "sys_close S (el_eventfd L) w1 = (r2, w2)"
    by fastforce
  then show ?thesis
    using L delete_events [OF L(5,6)] loopbreak_ended [OF assms, of S]
    by (intro exI [of _ w2]) (simp add: delete_eventloop_def call_def Let_def)
qed

lemma delete_loopthread_ended:
  assumes l: "loop_ended l s" and t: "threaded l s"
  shows "\<exists>w. delete_loopthread S run del (thread_of s l) s =
    Inr (s\<lparr>rt_events := rt_events s |` (- evs l s), rt_loops := (rt_loops s)(l := None), rt_world := w,
           rt_loopthreads := (rt_loopthreads s)(thread_of s l := None)\<rparr>)"
proof -
  obtain L T where L: "rt_loops s l = Some L" "el_baseloop L \<noteq> NULL" "rt_loopthreads s (el_baseloop L) = Some T" "lh_loop T = l"
    using t by (rule threadedE)
  let ?s = "s\<lparr>rt_loopthreads := (rt_loopthreads s)(el_baseloop L \<mapsto> T\<lparr>lh_joinable := False\<rparr>)\<rparr>"
  have j: "lh_join S run del (el_baseloop L) s = Inr ?s" using lh_join_ended [OF L(2,3)] L(4) l by simp
  have "loop_ended l ?s" using l by (simp add: loop_ended_def)
  from delete_eventloop_ended [OF this, of S del] obtain w where
    "delete_eventloop S del l ?s =
      Inr (?s\<lparr>rt_events := rt_events s |` (- evs l s), rt_loops := (rt_loops s)(l := None), rt_world := w\<rparr>)"
    by auto
  moreover have "l \<noteq> NULL" using l by (simp add: loop_ended_def)
  ultimately show ?thesis
    using L j loopbreak_ended [OF l, of S] by (auto simp: delete_loopthread_def)
qed

section \<open>Deleting a connection\<close>

text \<open>An idle connection that its loop holds: its input has been taken, so that closing calls nothing.\<close>

definition conn_idle :: "addr \<Rightarrow> bfevent \<Rightarrow> event \<Rightarrow> eventloop \<Rightarrow> ('w, 'm) conns_scheme \<Rightarrow> bool" where
  "conn_idle p b e L s \<longleftrightarrow>
     p \<noteq> NULL \<and> rt_events s p = None \<and> rt_bfevents s p = Some b \<and> \<not> bf_closed b \<and>
     (0 < readbytes (bf_inbuff b) \<longrightarrow> bf_readcb b = None) \<and>
     bf_ev b \<noteq> NULL \<and> rt_events s (bf_ev b) = Some e \<and> ev_loop e = bf_loop b \<and> bf_loop b \<noteq> NULL \<and>
     rt_loops s (bf_loop b) = Some L"

abbreviation unlist :: "addr \<Rightarrow> eventloop \<Rightarrow> eventloop" where
  "unlist q L \<equiv> L\<lparr>el_load := el_load L - 1, el_evlist := removeAll q (el_evlist L)\<rparr>"

lemma mask_change:
  assumes c: "conn_idle p b e L s"
  shows "\<exists>w e'. enable_write S (bf_ev b) s = Inr (s\<lparr>rt_events := (rt_events s)(bf_ev b \<mapsto> e'), rt_world := w\<rparr>) \<and>
      ev_loop e' = ev_loop e"
    "\<exists>w e'. disable_write S (bf_ev b) s = Inr (s\<lparr>rt_events := (rt_events s)(bf_ev b \<mapsto> e'), rt_world := w\<rparr>) \<and>
      ev_loop e' = ev_loop e"
proof -
  have "\<exists>w e'. bindR (upd_event (bf_ev b) (\<lambda>e. e\<lparr>ev_events := f (ev_events e)\<rparr>) s) (update_ep S (bf_ev b)) =
      Inr (s\<lparr>rt_events := (rt_events s)(bf_ev b \<mapsto> e'), rt_world := w\<rparr>) \<and> ev_loop e' = ev_loop e" for f
  proof -
    obtain r w where "sys_epoll_ctl S (el_epfd L) EPOLL_CTL_MOD (ev_fd e) (Some (f (ev_events e), bf_ev b)) (rt_world s) = (r, w)"
      by fastforce
    then show ?thesis
      using c by (intro exI [of _ w] exI [of _ "e\<lparr>ev_events := f (ev_events e)\<rparr>"])
        (simp add: conn_idle_def upd_event_def put_event_def update_ep_def mod_event_def call_def)
  qed
  then show "\<exists>w e'. enable_write S (bf_ev b) s = Inr (s\<lparr>rt_events := (rt_events s)(bf_ev b \<mapsto> e'), rt_world := w\<rparr>) \<and>
      ev_loop e' = ev_loop e"
    "\<exists>w e'. disable_write S (bf_ev b) s = Inr (s\<lparr>rt_events := (rt_events s)(bf_ev b \<mapsto> e'), rt_world := w\<rparr>) \<and>
      ev_loop e' = ev_loop e"
    by (simp_all add: enable_write_def enable_events_def disable_write_def disable_events_def)
qed

lemma bf_del_listen_idle:
  assumes c: "conn_idle p b e L s"
  shows "\<exists>w e'. bf_del_listen S run p s =
    Inr (s\<lparr>rt_events := (rt_events s)(bf_ev b \<mapsto> e'), rt_world := w,
           rt_loops := (rt_loops s)(bf_loop b \<mapsto> unlist (bf_ev b) L),
           rt_bfevents := (rt_bfevents s)(p \<mapsto> b\<lparr>bf_closed := True\<rparr>)\<rparr>)"
proof -
  have c': "p \<noteq> NULL" "rt_bfevents s p = Some b" "bf_ev b \<noteq> NULL" "rt_events s (bf_ev b) = Some e"
      "ev_loop e = bf_loop b" "bf_loop b \<noteq> NULL" "rt_loops s (bf_loop b) = Some L"
    using c by (simp_all add: conn_idle_def)
  have rd: "(if 0 < readbytes (bf_inbuff b) then call_readcb run p s else Inr s) = Inr s"
    using c by (simp add: conn_idle_def call_readcb_def)
  have wr: "on_ev writeable p s = Inr (ev_events e AND EPOLLOUT \<noteq> 0)"
    using c' by (simp add: on_ev_def writeable_def)
  obtain w e' where m: "ev_loop e' = bf_loop b" "bf_del_listen S run p s =
      bindR (on_ev (del_listen S) p (s\<lparr>rt_events := (rt_events s)(bf_ev b \<mapsto> e'), rt_world := w\<rparr>))
        (upd_bf p (\<lambda>b. b\<lparr>bf_closed := True\<rparr>))"
  proof (cases "readbytes (bf_outbuff b) = 0")
    case True
    then show ?thesis
      using mask_change(2) [OF c, of S] c' rd that by (auto simp: bf_del_listen_def on_ev_def)
  next
    case False
    then have gt: "0 < readbytes (bf_outbuff b)" by (simp add: word_gt_0)
    show ?thesis
    proof (cases "ev_events e AND EPOLLOUT = 0")
      case True
      then show ?thesis
        using mask_change(1) [OF c, of S] c' rd wr gt False that by (auto simp: bf_del_listen_def on_ev_def)
    next
      case no: False
      then show ?thesis
        using c' rd wr gt False that [of e "rt_world s"] by (auto simp: bf_del_listen_def on_ev_def fun_upd_idem)
    qed
  qed
  then show ?thesis
    using c' by (auto simp: on_ev_def del_listen_def del_event_def upd_loop_def put_loop_def call_def upd_bf_def put_bf_def
        split: prod.split)
qed

lemma close_delete_idle:
  assumes c: "conn_idle p b e L s"
  shows "\<exists>w. close_delete S user p s =
    Inr (s\<lparr>rt_events := (rt_events s)(bf_ev b := None), rt_world := w,
           rt_loops := (rt_loops s)(bf_loop b \<mapsto> unlist (bf_ev b) L),
           rt_bfevents := (rt_bfevents s)(p := None)\<rparr>)"
proof -
  let ?run = "run_user S user"
  have c': "p \<noteq> NULL" "rt_events s p = None" "rt_bfevents s p = Some b" "\<not> bf_closed b" "bf_ev b \<noteq> NULL"
      "rt_events s (bf_ev b) = Some e"
    using c by (simp_all add: conn_idle_def)
  obtain w e' where d: "bf_del_listen S ?run p s =
      Inr (s\<lparr>rt_events := (rt_events s)(bf_ev b \<mapsto> e'), rt_world := w,
             rt_loops := (rt_loops s)(bf_loop b \<mapsto> unlist (bf_ev b) L),
             rt_bfevents := (rt_bfevents s)(p \<mapsto> b\<lparr>bf_closed := True\<rparr>)\<rparr>)"
    using bf_del_listen_idle [OF c] by blast
  obtain r w1 where "sys_close S (bf_fd b) w = (r, w1)" by fastforce
  moreover have "bf_ev b \<noteq> p" using c' by auto
  ultimately show ?thesis
    using c' d
    by (intro exI [of _ w1]) (simp add: close_delete_def be_close_def be_delete_def class_of_def close_event_def
        delete_bfevent_def delete_event_def call_def upd_bf_def put_bf_def)
qed

section \<open>Taking an event off its loop\<close>

lemma ended_ev:
  assumes "loop_ended k s" "q \<in> evs k s"
  shows "q \<noteq> NULL" "\<exists>e. rt_events s q = Some e \<and> ev_loop e = k"
  using assms by (auto simp: loop_ended_def)

lemma unlisted:
  assumes q: "rt_events s q = Some e" "rt_loops s (ev_loop e) = Some L"
    and s': "rt_loops s' = (rt_loops s)(ev_loop e \<mapsto> unlist q L)" "\<And>x. x \<noteq> q \<Longrightarrow> rt_events s' x = rt_events s x"
    and k: "loop_ended k s"
  shows "loop_ended k s'" "evs k s' = evs k s - {q}"
proof -
  obtain M where M: "rt_loops s k = Some M" using k by (rule loop_endedE)
  have nq: "q \<notin> evs k s" if "k \<noteq> ev_loop e" using ended_ev(2) [OF k, of q] q that by auto
  show e: "evs k s' = evs k s - {q}" using M q s'(1) nq by (auto simp: fun_upd_def)
  have "\<forall>x \<in> evs k s'. x \<noteq> NULL \<and> (\<exists>e. rt_events s' x = Some e \<and> ev_loop e = k)"
    unfolding e using ended_ev [OF k] s'(2) by auto
  then show "loop_ended k s'"
    using k M q s'(1) by (cases "k = ev_loop e") (auto simp: loop_ended_def distinct_removeAll)
qed

text \<open>What a step must keep for the loops to stay with their threads.\<close>

definition same_threads :: "('w, 'm) reactor_scheme \<Rightarrow> ('w, 'm) reactor_scheme \<Rightarrow> bool" where
  "same_threads s s' \<longleftrightarrow> (\<forall>k. map_option el_baseloop (rt_loops s' k) = map_option el_baseloop (rt_loops s k))"

lemma same_threads_trans: "same_threads s s1 \<Longrightarrow> same_threads s1 s2 \<Longrightarrow> same_threads s s2"
  by (simp add: same_threads_def)

lemma same_threads_unlist:
  "rt_loops s l = Some L \<Longrightarrow> rt_loops s' = (rt_loops s)(l \<mapsto> unlist q L) \<Longrightarrow> same_threads s s'"
  by (simp add: same_threads_def)

lemma threaded_same:
  assumes "threaded l s" "same_threads s s'" "rt_loopthreads s' = rt_loopthreads s"
  shows "threaded l s'" "thread_of s' l = thread_of s l"
proof -
  obtain L where L: "rt_loops s l = Some L" using assms(1) by (rule threadedE)
  then have "map_option el_baseloop (rt_loops s' l) = Some (el_baseloop L)" using assms(2) by (simp add: same_threads_def)
  then obtain L' where "rt_loops s' l = Some L'" "el_baseloop L' = el_baseloop L" by auto
  then show "threaded l s'" "thread_of s' l = thread_of s l" using assms(1,3) L by (auto simp: threaded_def)
qed

section \<open>Deleting all connections and all loops\<close>

abbreviation conn_evs :: "addr list \<Rightarrow> ('w, 'm) conns_scheme \<Rightarrow> addr set" where
  "conn_evs ps s \<equiv> (\<lambda>p. bf_ev (the (rt_bfevents s p))) ` set ps"

lemma delete_conns:
  assumes "\<forall>p \<in> set ps. \<exists>b e L. conn_idle p b e L s" "distinct ps"
    "inj_on (\<lambda>p. bf_ev (the (rt_bfevents s p))) (set ps)"
  shows "\<exists>s'. delete_all (close_delete S user) ps s = Inr s' \<and>
    (\<forall>k. loop_ended k s \<longrightarrow> loop_ended k s' \<and> evs k s' = evs k s - conn_evs ps s) \<and> same_threads s s' \<and>
    rt_events s' = rt_events s |` (- conn_evs ps s) \<and> rt_bfevents s' = rt_bfevents s |` (- set ps) \<and>
    rt_loopthreads s' = rt_loopthreads s \<and> rt_acceptors s' = rt_acceptors s \<and> rt_server s' = rt_server s"
  using assms
proof (induction ps arbitrary: s)
  case Nil
  then show ?case by (simp add: restrict_map_def same_threads_def)
next
  case (Cons p ps)
  obtain b e L where c: "conn_idle p b e L s" using Cons.prems(1) by auto
  then have b: "rt_bfevents s p = Some b" "rt_events s (bf_ev b) = Some e" "ev_loop e = bf_loop b"
      "rt_loops s (bf_loop b) = Some L"
    by (simp_all add: conn_idle_def)
  obtain s1 where s1: "close_delete S user p s = Inr s1" "rt_events s1 = (rt_events s)(bf_ev b := None)"
      "rt_loops s1 = (rt_loops s)(ev_loop e \<mapsto> unlist (bf_ev b) L)" "rt_bfevents s1 = (rt_bfevents s)(p := None)"
      "rt_loopthreads s1 = rt_loopthreads s" "rt_acceptors s1 = rt_acceptors s" "rt_server s1 = rt_server s"
    using close_delete_idle [OF c, of S user] b(3) by auto
  have bf1: "rt_bfevents s1 p' = rt_bfevents s p'" if "p' \<in> set ps" for p'
    using Cons.prems(2) that s1(4) by auto
  have "\<exists>b e L. conn_idle p' b e L s1" if p': "p' \<in> set ps" for p'
  proof -
    obtain b' e' L' where c': "conn_idle p' b' e' L' s" using Cons.prems(1) p' by auto
    have "bf_ev b' \<noteq> bf_ev b" "p' \<noteq> bf_ev b"
      using Cons.prems(2,3) p' b(1,2) c' by (auto simp: conn_idle_def inj_on_def)
    then show ?thesis
      using c' bf1 [OF p'] s1(2,3) b(4) by (cases "bf_loop b' = ev_loop e") (auto simp: conn_idle_def)
  qed
  moreover have "conn_evs ps s1 = conn_evs ps s" "inj_on (\<lambda>p. bf_ev (the (rt_bfevents s1 p))) (set ps)"
    using Cons.prems(3) bf1 by (auto simp: inj_on_def)
  ultimately obtain s2 where s2: "delete_all (close_delete S user) ps s1 = Inr s2"
      "\<forall>k. loop_ended k s1 \<longrightarrow> loop_ended k s2 \<and> evs k s2 = evs k s1 - conn_evs ps s" "same_threads s1 s2"
      "rt_events s2 = rt_events s1 |` (- conn_evs ps s)" "rt_bfevents s2 = rt_bfevents s1 |` (- set ps)"
      "rt_loopthreads s2 = rt_loopthreads s1" "rt_acceptors s2 = rt_acceptors s1" "rt_server s2 = rt_server s1"
    using Cons.IH [of s1] Cons.prems(2) by auto
  have "loop_ended k s2 \<and> evs k s2 = evs k s - conn_evs (p # ps) s" if k: "loop_ended k s" for k
  proof -
    note u = unlisted [OF b(2) _ s1(3) _ k]
    have "loop_ended k s1" "evs k s1 = evs k s - {bf_ev b}" using u b(3,4) s1(2) by auto
    then show ?thesis using s2(2) b(1) by auto
  qed
  moreover have "same_threads s s2"
    using same_threads_trans [OF same_threads_unlist [OF _ s1(3)] s2(3)] b(3,4) by simp
  moreover have "rt_events s2 = rt_events s |` (- conn_evs (p # ps) s)" "rt_bfevents s2 = rt_bfevents s |` (- set (p # ps))"
    unfolding s2(4,5) s1(2,4) using b(1) by (auto simp: restrict_map_def)
  ultimately show ?case using s1 s2 by (intro exI [of _ s2]) simp
qed

lemma ended_apart:
  assumes "loop_ended k s" "loop_ended l s" "k \<noteq> l"
  shows "evs k s \<inter> evs l s = {}"
  using ended_ev(2) [OF assms(1)] ended_ev(2) [OF assms(2)] assms(3) by fastforce

lemma delete_loops_ended:
  assumes "distinct ls" "\<forall>l \<in> set ls. loop_ended l s \<and> threaded l s"
  shows "\<exists>s'. delete_loops S run del ls s = Inr s' \<and>
    (\<forall>k. k \<notin> set ls \<longrightarrow> loop_ended k s \<longrightarrow> loop_ended k s' \<and> evs k s' = evs k s) \<and>
    rt_events s' = rt_events s |` (- (\<Union>l \<in> set ls. evs l s)) \<and> rt_loops s' = rt_loops s |` (- set ls) \<and>
    rt_loopthreads s' = rt_loopthreads s |` (- (thread_of s ` set ls)) \<and>
    rt_bfevents s' = rt_bfevents s \<and> rt_acceptors s' = rt_acceptors s \<and> pools.more s' = pools.more s"
  using assms
proof (induction ls arbitrary: s)
  case Nil
  then show ?case by (simp add: restrict_map_def)
next
  case (Cons l ls)
  have l: "loop_ended l s" "threaded l s" using Cons.prems(2) by auto
  obtain L where L: "l \<noteq> NULL" "rt_loops s l = Some L" using l(1) by (rule loop_endedE)
  obtain s1 where s1: "delete_loopthread S run del (el_baseloop L) s = Inr s1"
      "rt_events s1 = rt_events s |` (- evs l s)" "rt_loops s1 = (rt_loops s)(l := None)"
      "rt_loopthreads s1 = (rt_loopthreads s)(el_baseloop L := None)"
      "rt_bfevents s1 = rt_bfevents s" "rt_acceptors s1 = rt_acceptors s" "pools.more s1 = pools.more s"
    using delete_loopthread_ended [OF l, of S run del] L(2) by auto
  have keep: "loop_ended k s1 \<and> evs k s1 = evs k s" if k: "loop_ended k s" "k \<noteq> l" for k
    using k ended_apart [OF k(1) l(1) k(2)] s1(2,3) by (auto simp: loop_ended_def restrict_map_def)
  have thr: "threaded k s1 \<and> thread_of s1 k = thread_of s k" if k: "k \<in> set ls" for k
  proof -
    have t: "threaded k s" "k \<noteq> l" using Cons.prems k by auto
    obtain M T where M: "rt_loops s k = Some M" "el_baseloop M \<noteq> NULL" "rt_loopthreads s (el_baseloop M) = Some T" "lh_loop T = k"
      using t(1) by (rule threadedE)
    have "el_baseloop M \<noteq> el_baseloop L" using M(3,4) t(2) l(2) L(2) by (auto simp: threaded_def)
    then show ?thesis using M t(2) s1(3,4) by (simp add: threaded_def)
  qed
  have "\<forall>k \<in> set ls. loop_ended k s1 \<and> threaded k s1" using Cons.prems keep thr by auto
  then obtain s2 where s2: "delete_loops S run del ls s1 = Inr s2"
      "\<forall>k. k \<notin> set ls \<longrightarrow> loop_ended k s1 \<longrightarrow> loop_ended k s2 \<and> evs k s2 = evs k s1"
      "rt_events s2 = rt_events s1 |` (- (\<Union>l \<in> set ls. evs l s1))" "rt_loops s2 = rt_loops s1 |` (- set ls)"
      "rt_loopthreads s2 = rt_loopthreads s1 |` (- (thread_of s1 ` set ls))"
      "rt_bfevents s2 = rt_bfevents s1" "rt_acceptors s2 = rt_acceptors s1" "pools.more s2 = pools.more s1"
    using Cons.IH [of s1] Cons.prems(1) by auto
  have "(\<Union>l \<in> set ls. evs l s1) = (\<Union>l \<in> set ls. evs l s)" "thread_of s1 ` set ls = thread_of s ` set ls"
    using keep thr Cons.prems by (auto cong: SUP_cong image_cong)
  then have "rt_events s2 = rt_events s |` (- (\<Union>l \<in> set (l # ls). evs l s))"
      "rt_loops s2 = rt_loops s |` (- set (l # ls))"
      "rt_loopthreads s2 = rt_loopthreads s |` (- (thread_of s ` set (l # ls)))"
    unfolding s2(3-5) s1(2-4) using L(2) by (auto simp: restrict_map_def)
  moreover have "delete_loops S run del (l # ls) s = Inr s2" using L s1(1) s2(1) by simp
  ultimately show ?case using s1 s2 keep by (intro exI [of _ s2]) simp
qed

section \<open>The parts of the destructor\<close>

lemma lo_stop_ended:
  assumes "\<forall>l \<in> set (lo_loadvec lp). loop_ended l s \<and> threaded l s"
  shows "\<exists>lp' th. lo_stop S run del lp s = Inr (lp', s\<lparr>rt_loopthreads := th\<rparr>) \<and> lo_loadvec lp' = lo_loadvec lp \<and>
    (\<forall>t. map_option lh_loop (th t) = map_option lh_loop (rt_loopthreads s t))"
  using stop_loops_ended [OF assms, of S run del] by (auto simp: lo_stop_def stop_adjust_def)

lemma same_lh_loop_dom:
  assumes "\<forall>t. map_option lh_loop (th t) = map_option lh_loop (th' t)"
  shows "dom th = dom th'"
proof -
  have "th t = None \<longleftrightarrow> th' t = None" for t using assms [rule_format, of t] by (metis option.map_disc_iff)
  then show ?thesis by (auto simp: dom_def)
qed

lemma delete_looptpool_ended:
  assumes d: "distinct (lo_loadvec lp)" and ls: "\<forall>l \<in> set (lo_loadvec lp). loop_ended l s \<and> threaded l s"
  shows "\<exists>lp' s'. delete_looptpool S run del lp s = Inr (lp', s') \<and>
    (\<forall>k. k \<notin> set (lo_loadvec lp) \<longrightarrow> loop_ended k s \<longrightarrow> loop_ended k s' \<and> evs k s' = evs k s) \<and>
    rt_events s' = rt_events s |` (- (\<Union>l \<in> set (lo_loadvec lp). evs l s)) \<and>
    rt_loops s' = rt_loops s |` (- set (lo_loadvec lp)) \<and>
    dom (rt_loopthreads s') = dom (rt_loopthreads s) - thread_of s ` set (lo_loadvec lp) \<and>
    rt_bfevents s' = rt_bfevents s \<and> rt_acceptors s' = rt_acceptors s \<and> pools.more s' = pools.more s"
proof -
  obtain lp1 th where s1: "lo_stop S run del lp s = Inr (lp1, s\<lparr>rt_loopthreads := th\<rparr>)" "lo_loadvec lp1 = lo_loadvec lp"
      "\<forall>t. map_option lh_loop (th t) = map_option lh_loop (rt_loopthreads s t)"
    using lo_stop_ended [OF ls] by blast
  let ?s = "s\<lparr>rt_loopthreads := th\<rparr>"
  have e: "loop_ended k ?s = loop_ended k s" for k by (rule loop_ended_cong) simp_all
  have "threaded k ?s = threaded k s" for k by (rule threaded_cong) (use s1(3) in simp_all)
  then have "\<forall>l \<in> set (lo_loadvec lp). loop_ended l ?s \<and> threaded l ?s" using ls e by simp
  from delete_loops_ended [OF d this, of S run del] obtain s' where
    s': "delete_loops S run del (lo_loadvec lp) ?s = Inr s'"
      "\<forall>k. k \<notin> set (lo_loadvec lp) \<longrightarrow> loop_ended k s \<longrightarrow> loop_ended k s' \<and> evs k s' = evs k s"
      "rt_events s' = rt_events s |` (- (\<Union>l \<in> set (lo_loadvec lp). evs l s))"
      "rt_loops s' = rt_loops s |` (- set (lo_loadvec lp))"
      "rt_loopthreads s' = th |` (- (thread_of s ` set (lo_loadvec lp)))"
      "rt_bfevents s' = rt_bfevents s" "rt_acceptors s' = rt_acceptors s" "pools.more s' = pools.more s"
    unfolding e by auto
  have "dom (rt_loopthreads s') = dom (rt_loopthreads s) - thread_of s ` set (lo_loadvec lp)"
    using same_lh_loop_dom [OF s1(3)] unfolding s'(5) by auto
  then show ?thesis using s1 s' by (auto simp: delete_looptpool_def)
qed

lemma ac_stop_listed:
  assumes a: "a \<noteq> NULL" "rt_acceptors s a = Some A" "\<not> ac_shutdown A" "ac_ev A = Some q"
    and l: "loop_ended l s" "q \<in> evs l s"
  shows "\<exists>w. ac_stop S a s = Inr (s\<lparr>rt_world := w, rt_loops := (rt_loops s)(l \<mapsto> unlist q (the (rt_loops s l))),
    rt_acceptors := (rt_acceptors s)(a \<mapsto> A\<lparr>ac_shutdown := True\<rparr>)\<rparr>)"
proof -
  obtain L where L: "l \<noteq> NULL" "rt_loops s l = Some L" using l(1) by (rule loop_endedE)
  obtain e where e: "q \<noteq> NULL" "rt_events s q = Some e" "ev_loop e = l" using ended_ev [OF l] by blast
  obtain r w where "sys_epoll_ctl S (el_epfd L) EPOLL_CTL_DEL (ev_fd e) None (rt_world s) = (r, w)" by fastforce
  then show ?thesis
    using a L e by (intro exI [of _ w]) (simp add: ac_stop_def member_def del_listen_def del_event_def upd_loop_def put_loop_def
        call_def upd_acceptor_def)
qed

lemma delete_acceptor_stopped:
  assumes "a \<noteq> NULL" "rt_acceptors s a = Some A" "ac_shutdown A" "ac_ev A = Some q" "ac_lfd A = Some lfd"
    "q \<noteq> NULL" "rt_events s q \<noteq> None"
  shows "\<exists>w. delete_acceptor S a s = Inr (s\<lparr>rt_events := (rt_events s)(q := None), rt_world := w,
    rt_acceptors := (rt_acceptors s)(a := None)\<rparr>)"
proof -
  obtain r w where "sys_close S lfd (rt_world s) = (r, w)" by fastforce
  then show ?thesis
    using assms by (intro exI [of _ w]) (auto simp: delete_acceptor_def ac_stop_def member_def delete_event_def call_def)
qed

section \<open>A server whose loops have ended\<close>

lemma upd_server_threads [simp]: "rt_loopthreads (upd_server f s) = rt_loopthreads s"
  by (simp add: upd_server_def)

lemma same_server: "pools.more s' = pools.more s \<Longrightarrow> rt_server s' = rt_server s"
  by (cases s; cases s') simp

abbreviation pool_loops :: "('w, 'm) servers_scheme \<Rightarrow> addr list" where
  "pool_loops s \<equiv> lo_loadvec (sv_pool (rt_server s))"

abbreviation all_loops :: "('w, 'm) servers_scheme \<Rightarrow> addr list" where
  "all_loops s \<equiv> sv_base (rt_server s) # pool_loops s"

definition server_ended :: "('w, 'm) servers_scheme \<Rightarrow> bool" where
  "server_ended s \<longleftrightarrow>
     distinct (all_loops s) \<and> (\<forall>l \<in> set (all_loops s). loop_ended l s) \<and> (\<forall>l \<in> set (pool_loops s). threaded l s) \<and>
     sv_tcp_enable (rt_server s) \<and> sv_acceptor (rt_server s) \<noteq> NULL \<and>
     (\<exists>A q lfd. rt_acceptors s (sv_acceptor (rt_server s)) = Some A \<and> \<not> ac_shutdown A \<and> ac_lfd A = Some lfd \<and>
        ac_ev A = Some q \<and> q \<in> evs (sv_base (rt_server s)) s \<and> q \<notin> conn_evs (sv_events (rt_server s)) s) \<and>
     distinct (sv_events (rt_server s)) \<and>
     inj_on (\<lambda>p. bf_ev (the (rt_bfevents s p))) (set (sv_events (rt_server s))) \<and>
     (\<forall>p \<in> set (sv_events (rt_server s)). \<exists>b e L. conn_idle p b e L s \<and> bf_loop b \<in> set (all_loops s) \<and>
        bf_ev b \<in> evs (bf_loop b) s)"

text \<open>
  The typing that the turns of the loops keep gives most of it: when the loops of a typed server
  have ended with no deletion pending and no input unread, what is left to ask is that its loops
  are different, that those of the pool have their threads, and that the acceptor listens.
\<close>

lemma typed_server_ended:
  fixes s :: "('w, 'm) servers_scheme"
  assumes ty: "typed interest (set (all_loops s)) s"
    and ended: "\<forall>l \<in> set (all_loops s). el_shutdown (the (rt_loops s l)) \<and> el_delque (the (rt_loops s l)) = []"
    and idle: "\<And>p b. rt_bfevents s p = Some b \<Longrightarrow> 0 < readbytes (bf_inbuff b) \<Longrightarrow> bf_readcb b = None"
    and loops: "distinct (all_loops s)" "\<forall>l \<in> set (pool_loops s). threaded l s"
    and acceptor: "sv_tcp_enable (rt_server s)" "rt_acceptors s (sv_acceptor (rt_server s)) = Some A" "\<not> ac_shutdown A"
      "ac_lfd A = Some lfd" "ac_ev A = Some q" "q \<in> evs (sv_base (rt_server s)) s"
      "ev_readcb (the (rt_events s q)) = Some (Acceptor_handle_accept (sv_acceptor (rt_server s)))"
  shows "server_ended s"
proof -
  let ?ls = "set (all_loops s)" and ?ps = "sv_events (rt_server s)"
  have h: "heap_typed interest ?ls {} s" using ty ended by (simp add: typed_def closing_def)
  then have ps: "distinct ?ps" "set ?ps = dom (rt_bfevents s)" "sv_acceptor (rt_server s) \<noteq> NULL"
    by (simp_all add: heap_typed_def server_typed_def)
  have loop: "loop_ended l s" if l: "l \<in> ?ls" for l
  proof -
    have "el_shutdown (the (rt_loops s l)) \<and> el_delque (the (rt_loops s l)) = []" using ended l by blast
    then show ?thesis
      using heap_typed_loop [OF h l] unfolding loop_ended_def loop_typed_def ev_typed_def by fastforce
  qed
  have conn: "\<exists>e L. conn_idle p b e L s \<and> bf_loop b \<in> ?ls \<and> bf_ev b \<in> evs (bf_loop b) s \<and>
      rt_events s (bf_ev b) = Some e \<and> ev_readcb e = Some (Bf_handle_read p)"
    if b: "rt_bfevents s p = Some b" for p b
  proof -
    have "wired p b s" "bf_ev b \<in> evs (bf_loop b) s" using h b by (simp_all add: heap_typed_def conn_typed_def)
    with h b show ?thesis
      by (elim heap_typed_connE) (use idle [OF b] in \<open>auto simp: conn_idle_def wired_def\<close>)
  qed
  have bf: "p \<in> set ?ps \<Longrightarrow> \<exists>b. rt_bfevents s p = Some b" for p using ps(2) by auto
  have "inj_on (\<lambda>p. bf_ev (the (rt_bfevents s p))) (set ?ps)"
    using bf conn by (intro inj_onI) (metis callback.inject option.inject option.sel)
  moreover have "q \<notin> conn_evs ?ps s"
    using bf conn acceptor(7) by fastforce
  ultimately show ?thesis
    unfolding server_ended_def using loop loops acceptor(1-6) ps(1,3) bf conn by blast
qed

lemma sv_stop_ended:
  assumes "server_ended s"
  shows "\<exists>lp th. sv_stop S user s = Inr (upd_server (\<lambda>v. v\<lparr>sv_pool := lp\<rparr>) (s\<lparr>rt_loopthreads := th\<rparr>)) \<and>
    lo_loadvec lp = pool_loops s \<and> (\<forall>t. map_option lh_loop (th t) = map_option lh_loop (rt_loopthreads s t))"
proof -
  have ls: "\<forall>l \<in> set (pool_loops s). loop_ended l s \<and> threaded l s" and b: "loop_ended (sv_base (rt_server s)) s"
    using assms by (simp_all add: server_ended_def)
  obtain lp th where st: "lo_stop S (run_event S user) (sv_del S user) (sv_pool (rt_server s)) s = Inr (lp, s\<lparr>rt_loopthreads := th\<rparr>)"
      "lo_loadvec lp = pool_loops s" "\<forall>t. map_option lh_loop (th t) = map_option lh_loop (rt_loopthreads s t)"
    using lo_stop_ended [OF ls] by blast
  let ?s = "upd_server (\<lambda>v. v\<lparr>sv_pool := lp\<rparr>) (s\<lparr>rt_loopthreads := th\<rparr>)"
  have "loop_ended (sv_base (rt_server s)) ?s" using b loop_ended_cong [of ?s s] by simp
  then show ?thesis using st loopbreak_ended [of "sv_base (rt_server s)" ?s S] by (auto simp: sv_stop_def on_pool_def)
qed

text \<open>The acceptor has been taken off the base loop.\<close>

lemma ac_stop_ended:
  assumes s: "server_ended s"
  shows "\<exists>A q lfd s'. ac_stop S (sv_acceptor (rt_server s)) s = Inr s' \<and>
    rt_acceptors s' = (rt_acceptors s)(sv_acceptor (rt_server s) \<mapsto> A) \<and> ac_shutdown A \<and> ac_ev A = Some q \<and>
    ac_lfd A = Some lfd \<and> q \<noteq> NULL \<and> q \<in> evs (sv_base (rt_server s)) s \<and> q \<notin> conn_evs (sv_events (rt_server s)) s \<and>
    (\<forall>k \<in> set (all_loops s). loop_ended k s' \<and> evs k s' = evs k s - {q}) \<and> same_threads s s' \<and>
    (\<forall>p b e L. conn_idle p b e L s \<longrightarrow> (\<exists>L'. conn_idle p b e L' s')) \<and>
    rt_events s' = rt_events s \<and> rt_bfevents s' = rt_bfevents s \<and> rt_loopthreads s' = rt_loopthreads s \<and>
    rt_server s' = rt_server s"
proof -
  let ?a = "sv_acceptor (rt_server s)" and ?l = "sv_base (rt_server s)"
  have a: "?a \<noteq> NULL" "loop_ended ?l s" using s by (simp_all add: server_ended_def)
  obtain A q lfd where A: "rt_acceptors s ?a = Some A" "\<not> ac_shutdown A" "ac_lfd A = Some lfd" "ac_ev A = Some q"
      "q \<in> evs ?l s" "q \<notin> conn_evs (sv_events (rt_server s)) s"
    using s unfolding server_ended_def by blast
  obtain L where L: "rt_loops s ?l = Some L" using a(2) by (rule loop_endedE)
  obtain e where e: "q \<noteq> NULL" "rt_events s q = Some e" "ev_loop e = ?l" using ended_ev [OF a(2) A(5)] by blast
  obtain w where st: "ac_stop S ?a s = Inr (s\<lparr>rt_world := w, rt_loops := (rt_loops s)(?l \<mapsto> unlist q L),
      rt_acceptors := (rt_acceptors s)(?a \<mapsto> A\<lparr>ac_shutdown := True\<rparr>)\<rparr>)" (is "_ = Inr ?s")
    using ac_stop_listed [OF a(1) A(1,2,4) a(2) A(5), of S] L by auto
  have "loop_ended k ?s" "evs k ?s = evs k s - {q}" if "k \<in> set (all_loops s)" for k
  proof -
    have k: "loop_ended k s" using s that unfolding server_ended_def by blast
    show "loop_ended k ?s" "evs k ?s = evs k s - {q}"
      using unlisted [of s q e L ?s k] e L k by simp_all
  qed
  moreover have "same_threads s ?s" by (rule same_threads_unlist [OF L]) simp
  moreover have "\<exists>L'. conn_idle p b e L' ?s" if "conn_idle p b e M s" for p b e M
    using that L by (cases "bf_loop b = ?l") (auto simp: conn_idle_def)
  ultimately show ?thesis
    using st A e(1) by (intro exI [of _ "A\<lparr>ac_shutdown := True\<rparr>"] exI [of _ q] exI [of _ lfd] exI [of _ ?s]) simp
qed

lemma server_ended_cong:
  assumes "server_ended s" "rt_events s' = rt_events s" "rt_loops s' = rt_loops s" "rt_bfevents s' = rt_bfevents s"
    "rt_acceptors s' = rt_acceptors s" "\<forall>t. map_option lh_loop (rt_loopthreads s' t) = map_option lh_loop (rt_loopthreads s t)"
    "rt_server s' = (rt_server s)\<lparr>sv_pool := lp\<rparr>" "lo_loadvec lp = pool_loops s"
  shows "server_ended s'"
proof -
  have "loop_ended k s' = loop_ended k s" for k by (rule loop_ended_cong) (use assms in simp_all)
  moreover have "threaded k s' = threaded k s" for k by (rule threaded_cong) (use assms in simp_all)
  moreover have "conn_idle p b e L s' = conn_idle p b e L s" for p b e L using assms by (simp add: conn_idle_def)
  ultimately show ?thesis using assms(1) unfolding server_ended_def assms(3-5,7) by (simp add: assms(8))
qed

text \<open>What is freed, from a state in which the pool has been stopped.\<close>

definition torn_down :: "('w, 'm) servers_scheme \<Rightarrow> ('w, 'm) servers_scheme \<Rightarrow> bool" where
  "torn_down s s' \<longleftrightarrow>
     rt_events s' = rt_events s |` (- (\<Union>l \<in> set (all_loops s). evs l s)) \<and>
     rt_bfevents s' = rt_bfevents s |` (- set (sv_events (rt_server s))) \<and>
     dom (rt_loops s') = dom (rt_loops s) - set (all_loops s) \<and>
     dom (rt_loopthreads s') = dom (rt_loopthreads s) - thread_of s ` set (pool_loops s) \<and>
     rt_acceptors s' = (rt_acceptors s)(sv_acceptor (rt_server s) := None)"

text \<open>The loops, from a state in which connections and acceptor are gone.\<close>

lemma delete_all_loops:
  assumes d: "distinct (all_loops s)" and ls: "\<forall>l \<in> set (all_loops s). loop_ended l s" "\<forall>l \<in> set (pool_loops s). threaded l s"
  shows "\<exists>s'. bindR (on_pool (delete_looptpool S run del) s) (\<lambda>s. delete_eventloop S del (sv_base (rt_server s)) s) = Inr s' \<and>
    rt_events s' = rt_events s |` (- (\<Union>l \<in> set (all_loops s). evs l s)) \<and> rt_bfevents s' = rt_bfevents s \<and>
    dom (rt_loops s') = dom (rt_loops s) - set (all_loops s) \<and>
    dom (rt_loopthreads s') = dom (rt_loopthreads s) - thread_of s ` set (pool_loops s) \<and> rt_acceptors s' = rt_acceptors s"
proof -
  let ?b = "sv_base (rt_server s)"
  have p: "distinct (pool_loops s)" "\<forall>l \<in> set (pool_loops s). loop_ended l s \<and> threaded l s" "?b \<notin> set (pool_loops s)"
      "loop_ended ?b s"
    using d ls by simp_all
  obtain lp s1 where s1: "delete_looptpool S run del (sv_pool (rt_server s)) s = Inr (lp, s1)"
      "loop_ended ?b s1" "evs ?b s1 = evs ?b s" "rt_events s1 = rt_events s |` (- (\<Union>l \<in> set (pool_loops s). evs l s))"
      "rt_loops s1 = rt_loops s |` (- set (pool_loops s))"
      "dom (rt_loopthreads s1) = dom (rt_loopthreads s) - thread_of s ` set (pool_loops s)"
      "rt_bfevents s1 = rt_bfevents s" "rt_acceptors s1 = rt_acceptors s" "pools.more s1 = pools.more s"
    using delete_looptpool_ended [OF p(1,2), of S run del] p(3,4) by auto
  note sv = same_server [OF s1(9)]
  let ?s = "upd_server (\<lambda>v. v\<lparr>sv_pool := lp\<rparr>) s1"
  have "loop_ended ?b ?s" using s1(2) loop_ended_cong [of ?s s1] by simp
  from delete_eventloop_ended [OF this, of S del] obtain w where
    "delete_eventloop S del ?b ?s = Inr (?s\<lparr>rt_events := rt_events ?s |` (- evs ?b ?s), rt_loops := (rt_loops ?s)(?b := None), rt_world := w\<rparr>)"
    (is "_ = Inr ?s'") by blast
  moreover have "rt_events ?s' = rt_events s |` (- (\<Union>l \<in> set (all_loops s). evs l s))"
    using s1(3,4) by (auto simp: restrict_map_def)
  moreover have "dom (rt_loops ?s') = dom (rt_loops s) - set (all_loops s)" using s1(5) by auto
  ultimately show ?thesis using s1 sv by (intro exI [of _ ?s']) (simp add: on_pool_def)
qed

lemma restrict_rest:
  assumes "C \<subseteq> E" "q \<in> E"
  shows "(m |` (- C))(q := None) |` (- (E - insert q C)) = m |` (- E)"
  using assms by (intro ext) (auto simp: restrict_map_def)

lemma dom_same_threads: "same_threads s s' \<Longrightarrow> dom (rt_loops s') = dom (rt_loops s)"
proof -
  assume "same_threads s s'"
  then have "rt_loops s' k = None \<longleftrightarrow> rt_loops s k = None" for k
    unfolding same_threads_def by (metis option.map_disc_iff)
  then show ?thesis by (auto simp: dom_def)
qed

text \<open>The state after the connections and the acceptor, whose event is \<open>q\<close>, have been destroyed.\<close>

definition conns_gone :: "addr \<Rightarrow> ('w, 'm) servers_scheme \<Rightarrow> ('w, 'm) servers_scheme \<Rightarrow> bool" where
  "conns_gone q s s' \<longleftrightarrow>
     (let C = conn_evs (sv_events (rt_server s)) s
      in q \<in> evs (sv_base (rt_server s)) s \<and> rt_events s' = (rt_events s |` (- C))(q := None) \<and>
         rt_bfevents s' = rt_bfevents s |` (- set (sv_events (rt_server s))) \<and> rt_loopthreads s' = rt_loopthreads s \<and>
         rt_acceptors s' = (rt_acceptors s)(sv_acceptor (rt_server s) := None) \<and>
         rt_server s' = (rt_server s)\<lparr>sv_events := []\<rparr> \<and> same_threads s s' \<and>
         (\<forall>k \<in> set (all_loops s). loop_ended k s' \<and> evs k s' = evs k s - insert q C))"

lemma conn_evs_watched:
  assumes s: "server_ended s"
  shows "conn_evs (sv_events (rt_server s)) s \<subseteq> (\<Union>l \<in> set (all_loops s). evs l s)"
proof
  fix x
  assume "x \<in> conn_evs (sv_events (rt_server s)) s"
  then obtain p where p: "p \<in> set (sv_events (rt_server s))" "x = bf_ev (the (rt_bfevents s p))" by blast
  then obtain b e L where b: "conn_idle p b e L s" "bf_loop b \<in> set (all_loops s)" "bf_ev b \<in> evs (bf_loop b) s"
    using s unfolding server_ended_def by blast
  then have "x = bf_ev b" using p(2) by (simp add: conn_idle_def)
  then show "x \<in> (\<Union>l \<in> set (all_loops s). evs l s)" using b(2,3) by blast
qed

lemma delete_conns_acceptor:
  assumes s: "server_ended s"
  shows "\<exists>q s'. bindR (ac_stop S (sv_acceptor (rt_server s)) s) (\<lambda>s.
     bindR (delete_all (close_delete S user) (sv_events (rt_server s)) s) (\<lambda>s.
     let s = upd_server (\<lambda>v. v\<lparr>sv_events := []\<rparr>) s
     in delete_acceptor S (sv_acceptor (rt_server s)) s)) = Inr s' \<and> conns_gone q s s'"
proof -
  let ?v = "rt_server s" and ?ps = "sv_events (rt_server s)" and ?C = "conn_evs (sv_events (rt_server s)) s"
  have d: "distinct (all_loops s)" "distinct ?ps" "inj_on (\<lambda>p. bf_ev (the (rt_bfevents s p))) (set ?ps)"
      "sv_acceptor ?v \<noteq> NULL" "\<forall>l \<in> set (pool_loops s). threaded l s"
    using s by (simp_all add: server_ended_def)
  obtain A q lfd s2 where s2: "ac_stop S (sv_acceptor ?v) s = Inr s2"
      "rt_acceptors s2 = (rt_acceptors s)(sv_acceptor ?v \<mapsto> A)" "ac_shutdown A" "ac_ev A = Some q" "ac_lfd A = Some lfd"
      "q \<noteq> NULL" "q \<in> evs (sv_base ?v) s" "q \<notin> ?C"
      "\<forall>k \<in> set (all_loops s). loop_ended k s2 \<and> evs k s2 = evs k s - {q}" "same_threads s s2"
      "\<forall>p b e L. conn_idle p b e L s \<longrightarrow> (\<exists>L'. conn_idle p b e L' s2)"
      "rt_events s2 = rt_events s" "rt_bfevents s2 = rt_bfevents s" "rt_loopthreads s2 = rt_loopthreads s" "rt_server s2 = ?v"
    using ac_stop_ended [OF s, of S] by blast
  have "\<forall>p \<in> set ?ps. \<exists>b e L. conn_idle p b e L s2" using s s2(11) unfolding server_ended_def by blast
  from delete_conns [OF this d(2), of S user] d(3) s2(12,13) obtain s3 where
    s3: "delete_all (close_delete S user) ?ps s2 = Inr s3"
      "\<forall>k. loop_ended k s2 \<longrightarrow> loop_ended k s3 \<and> evs k s3 = evs k s2 - ?C" "same_threads s2 s3"
      "rt_events s3 = rt_events s |` (- ?C)" "rt_bfevents s3 = rt_bfevents s |` (- set ?ps)"
      "rt_loopthreads s3 = rt_loopthreads s" "rt_acceptors s3 = rt_acceptors s2" "rt_server s3 = ?v"
    using s2(14,15) by auto
  let ?s4 = "upd_server (\<lambda>v. v\<lparr>sv_events := []\<rparr>) s3"
  have q: "rt_events ?s4 q \<noteq> None"
    using ended_ev(2) [of "sv_base ?v" s q] s s2(7,8) s3(4) by (auto simp: server_ended_def)
  obtain s5 where s5: "delete_acceptor S (sv_acceptor ?v) ?s4 = Inr s5" "rt_events s5 = (rt_events s3)(q := None)"
      "rt_loops s5 = rt_loops s3" "rt_bfevents s5 = rt_bfevents s3" "rt_loopthreads s5 = rt_loopthreads s"
      "rt_acceptors s5 = (rt_acceptors s)(sv_acceptor ?v := None)" "rt_server s5 = ?v\<lparr>sv_events := []\<rparr>"
    using delete_acceptor_stopped [OF d(4), of ?s4 A q lfd S] s2(2-6) s3(6-8) q by auto
  have evs5: "loop_ended k s5" "evs k s5 = evs k s - insert q ?C" if k: "k \<in> set (all_loops s)" for k
  proof -
    have "loop_ended k s3" "evs k s3 = evs k s - insert q ?C" using s2(9) s3(2) k by auto
    then show "loop_ended k s5" "evs k s5 = evs k s - insert q ?C" using s5(2,3) by (auto simp: loop_ended_def)
  qed
  have st5: "same_threads s s5" using same_threads_trans [OF s2(10) s3(3)] s5(3) by (simp add: same_threads_def)
  have "conns_gone q s s5" using s2(7) s5(2,4-7) s3(4,5) st5 evs5 by (simp add: conns_gone_def Let_def)
  then show ?thesis using s2(1,15) s3(1,8) s5(1) by (intro exI [of _ q] exI [of _ s5]) simp
qed

lemma delete_loops_after_conns:
  assumes s: "server_ended s" and g: "conns_gone q s s5"
  shows "\<exists>s'. bindR (on_pool (delete_looptpool S run del) s5) (\<lambda>s. delete_eventloop S del (sv_base (rt_server s)) s) = Inr s' \<and>
    torn_down s s'"
proof -
  let ?C = "conn_evs (sv_events (rt_server s)) s"
  note g = g [unfolded conns_gone_def Let_def]
  have d: "distinct (all_loops s)" "\<forall>l \<in> set (pool_loops s). threaded l s" using s by (simp_all add: server_ended_def)
  have s5: "rt_events s5 = (rt_events s |` (- ?C))(q := None)" "same_threads s s5" "rt_loopthreads s5 = rt_loopthreads s"
    and evs5: "\<And>k. k \<in> set (all_loops s) \<Longrightarrow> loop_ended k s5" "\<And>k. k \<in> set (all_loops s) \<Longrightarrow> evs k s5 = evs k s - insert q ?C"
    and q: "q \<in> (\<Union>l \<in> set (all_loops s). evs l s)"
    and l5: "sv_base (rt_server s5) = sv_base (rt_server s)" "pool_loops s5 = pool_loops s"
    using g by auto
  have th5: "threaded k s5" "thread_of s5 k = thread_of s k" if "k \<in> set (pool_loops s)" for k
    using threaded_same [OF _ s5(2), of k] d(2) that s5(3) by simp_all
  have ended5: "\<forall>k \<in> set (all_loops s5). loop_ended k s5" "\<forall>k \<in> set (pool_loops s5). threaded k s5" "distinct (all_loops s5)"
    unfolding l5 using evs5(1) th5(1) d(1) by blast+
  obtain s6 where s6: "bindR (on_pool (delete_looptpool S run del) s5) (\<lambda>s. delete_eventloop S del (sv_base (rt_server s)) s) = Inr s6"
      "rt_events s6 = rt_events s5 |` (- (\<Union>l \<in> set (all_loops s). evs l s5))" "rt_bfevents s6 = rt_bfevents s5"
      "dom (rt_loops s6) = dom (rt_loops s5) - set (all_loops s)"
      "dom (rt_loopthreads s6) = dom (rt_loopthreads s5) - thread_of s5 ` set (pool_loops s)"
      "rt_acceptors s6 = rt_acceptors s5"
    using delete_all_loops [OF ended5(3,1,2), of S run del] unfolding l5 by blast
  have U: "(\<Union>l \<in> set (all_loops s). evs l s5) = (\<Union>l \<in> set (all_loops s). evs l s) - insert q ?C"
    using evs5(2) by blast
  have "rt_events s6 = rt_events s |` (- (\<Union>l \<in> set (all_loops s). evs l s))"
    unfolding s6(2) U s5(1) by (rule restrict_rest [OF conn_evs_watched [OF s] q])
  moreover have "dom (rt_loops s6) = dom (rt_loops s) - set (all_loops s)"
    unfolding s6(4) dom_same_threads [OF s5(2)] ..
  moreover have "thread_of s5 ` set (pool_loops s) = thread_of s ` set (pool_loops s)" using th5(2) by (rule image_cong [OF refl])
  ultimately have "torn_down s s6" using s6(3,5,6) s5(3) g by (simp add: torn_down_def)
  then show ?thesis using s6(1) by blast
qed

lemma teardown_after_stop:
  assumes s: "server_ended s"
  shows "\<exists>s'. bindR (ac_stop S (sv_acceptor (rt_server s)) s) (\<lambda>s.
     bindR (delete_all (close_delete S user) (sv_events (rt_server s)) s) (\<lambda>s.
     let s = upd_server (\<lambda>v. v\<lparr>sv_events := []\<rparr>) s
     in bindR (delete_acceptor S (sv_acceptor (rt_server s)) s) (\<lambda>s.
        bindR (on_pool (delete_looptpool S (run_event S user) (sv_del S user)) s) (\<lambda>s.
          delete_eventloop S (sv_del S user) (sv_base (rt_server s)) s)))) = Inr s' \<and> torn_down s s'"
proof -
  obtain q s5 where s5: "bindR (ac_stop S (sv_acceptor (rt_server s)) s) (\<lambda>s.
     bindR (delete_all (close_delete S user) (sv_events (rt_server s)) s) (\<lambda>s.
     let s = upd_server (\<lambda>v. v\<lparr>sv_events := []\<rparr>) s
     in delete_acceptor S (sv_acceptor (rt_server s)) s)) = Inr s5" "conns_gone q s s5"
    using delete_conns_acceptor [OF s] by blast
  then obtain s2 s3 where "ac_stop S (sv_acceptor (rt_server s)) s = Inr s2"
      "delete_all (close_delete S user) (sv_events (rt_server s2)) s2 = Inr s3"
      "delete_acceptor S (sv_acceptor (rt_server s3)) (upd_server (\<lambda>v. v\<lparr>sv_events := []\<rparr>) s3) = Inr s5"
    by (auto simp: bindR_eq_Inr Let_def)
  then show ?thesis
    using delete_loops_after_conns [OF s s5(2), of S "run_event S user" "sv_del S user"] by simp
qed

lemma delete_acceptor_unlistened:
  assumes "a \<noteq> NULL" "rt_acceptors s a = Some A" "ac_shutdown A" "ac_ev A = None"
  shows "delete_acceptor S a s = Inl Uninitialised"
  using assms by (simp add: delete_acceptor_def ac_stop_def member_def)

section \<open>Properties\<close>

text \<open>
  C7. The destructor of a listening TCP server that has nothing left to do (\<open>server_ended\<close>) frees
  everything the server owns, each object once: all connections with their events, the
  acceptor with its event, every loop with its wake-up event, and the threads of the pool; no
  other object is touched, and no freed or null pointer is followed. It does not depend on what
  the system calls return. Nothing left to do means: TCP is enabled and the acceptor listens on
  the base loop, all loops have been shut down and have no deletions pending, the loops of the pool
  belong to their threads, and all the events that the server owns are open TCP connections
  without received data that a read callback still waits for. So servers that own signal, timer or
  UDP events are not covered, nor those that never listened, where the destructor of the acceptor reads
  a member that was not set (\<open>delete_acceptor_unlistened\<close>).
\<close>

theorem server_teardown_frees:
  assumes "server_ended s"
  shows "\<exists>s'. delete_server S user s = Inr s' \<and>
    rt_events s' = rt_events s |` (- (\<Union>l \<in> set (all_loops s). evs l s)) \<and>
    rt_bfevents s' = rt_bfevents s |` (- set (sv_events (rt_server s))) \<and>
    dom (rt_loops s') = dom (rt_loops s) - set (all_loops s) \<and>
    dom (rt_loopthreads s') = dom (rt_loopthreads s) - thread_of s ` set (pool_loops s) \<and>
    rt_acceptors s' = (rt_acceptors s)(sv_acceptor (rt_server s) := None)"
proof -
  obtain lp th where st: "sv_stop S user s = Inr (upd_server (\<lambda>v. v\<lparr>sv_pool := lp\<rparr>) (s\<lparr>rt_loopthreads := th\<rparr>))"
      "lo_loadvec lp = pool_loops s" "\<forall>t. map_option lh_loop (th t) = map_option lh_loop (rt_loopthreads s t)"
    using sv_stop_ended [OF assms] by blast
  let ?s1 = "upd_server (\<lambda>v. v\<lparr>sv_pool := lp\<rparr>) (s\<lparr>rt_loopthreads := th\<rparr>)"
  have s1: "server_ended ?s1" by (rule server_ended_cong [OF assms, where lp = lp]) (use st in \<open>simp_all add: upd_server_def\<close>)
  then have "sv_tcp_enable (rt_server ?s1)" by (simp add: server_ended_def)
  moreover obtain s' where "torn_down ?s1 s'" "delete_server S user s = Inr s'"
    using teardown_after_stop [OF s1, of S user] st(1) calculation by (auto simp: delete_server_def)
  ultimately show ?thesis
    using st(2) same_lh_loop_dom [OF st(3)] by (intro exI [of _ s']) (simp add: torn_down_def)
qed

text \<open>
  A server with one loop in its pool: the wake-up events of the loops 1 and 4 are 2 and 5, the
  acceptor 9 has event 3, the connection 8, on the second loop, event 7.
\<close>

definition ended_sample :: "kernel servers" where
  "ended_sample =
     (let ev = \<lambda>l fd. \<lparr>ev_loop = l, ev_fd = fd, ev_events = EPOLLIN, ev_revents = None, ev_readcb = None,
                 ev_writecb = None, ev_eventcb = None\<rparr>
      in server_sample\<lparr>
        rt_events := [2 \<mapsto> ev 1 12, 3 \<mapsto> ev 1 13, 5 \<mapsto> ev 4 15, 7 \<mapsto> ev 4 17],
        rt_loops := [1 \<mapsto> sample_eventloop\<lparr>el_shutdown := True, el_evlist := [2, 3]\<rparr>,
                     4 \<mapsto> sample_eventloop\<lparr>el_shutdown := True, el_evlist := [5, 7], el_baseloop := 6\<rparr>],
        rt_bfevents := [8 \<mapsto> \<lparr>bf_loop = 4, bf_fd = 17, bf_ev = 7, bf_inbuff = new_buffer, bf_outbuff = new_buffer,
                     bf_readcb = Some 0, bf_writecb = None, bf_eventcb = None, bf_closed = False\<rparr>],
        rt_loopthreads := [6 \<mapsto> \<lparr>lh_loop = 4, lh_timeout = -1, lh_joinable = True\<rparr>],
        rt_acceptors := [9 \<mapsto> \<lparr>ac_lfd = Some 13, ac_loop = 1, ac_ev = Some 3, ac_cb = None, ac_shutdown = False\<rparr>],
        rt_server := (rt_server server_sample)\<lparr>
          sv_pool := (sv_pool (rt_server server_sample))\<lparr>lo_loadvec := [4], lo_tnum := 1\<rparr>,
          sv_acceptor := 9, sv_events := [8]\<rparr>\<rparr>)"

lemma ended_sample_ended: "server_ended ended_sample"
  by (simp add: server_ended_def ended_sample_def server_sample_def loop_ended_def threaded_def conn_idle_def
      sample_eventloop_def readbytes_def new_buffer_def Let_def)

theorem server_teardown_frees_witness:
  "\<exists>s'. delete_server sample_sys (\<lambda>_. Inr) ended_sample = Inr s' \<and> dom (rt_events s') = {} \<and> rt_bfevents s' 8 = None \<and>
     dom (rt_loops s') = {} \<and> dom (rt_loopthreads s') = {} \<and> rt_acceptors s' 9 = None"
proof -
  from server_teardown_frees [OF ended_sample_ended, of sample_sys "\<lambda>_. Inr"] obtain s' where
    s': "delete_server sample_sys (\<lambda>_. Inr) ended_sample = Inr s'"
      "rt_events s' = rt_events ended_sample |` (- (\<Union>l \<in> set (all_loops ended_sample). evs l ended_sample))"
      "rt_bfevents s' = rt_bfevents ended_sample |` (- set (sv_events (rt_server ended_sample)))"
      "dom (rt_loops s') = dom (rt_loops ended_sample) - set (all_loops ended_sample)"
      "dom (rt_loopthreads s') = dom (rt_loopthreads ended_sample) - thread_of ended_sample ` set (pool_loops ended_sample)"
      "rt_acceptors s' = (rt_acceptors ended_sample)(sv_acceptor (rt_server ended_sample) := None)"
    by blast
  have "dom (rt_events s') = {}" unfolding s'(2)
    by (auto simp: ended_sample_def server_sample_def Let_def restrict_map_def split: if_splits)
  moreover have "dom (rt_loops s') = {}" "dom (rt_loopthreads s') = {}" unfolding s'(4,5)
    by (auto simp: ended_sample_def server_sample_def Let_def split: if_splits)
  ultimately show ?thesis
    using s'(1,3,6) by (simp add: ended_sample_def server_sample_def Let_def restrict_map_def)
qed

end
