(* ===== verification/Server_Steps.thy ===== *)
theory Server_Steps
  imports Server_Typing
begin

text \<open>
  The steps of the server that change the shape of its heaps keep the typing: closing a
  connection, accepting one, and deleting those that wait for it.
\<close>

section \<open>Closing a connection\<close>

text \<open>Objects outside the heaps that a step changes keep their types.\<close>

lemma ev_typed_mono:
  assumes "ev_typed l q s" "rt_events s' q = rt_events s q" "\<And>a. acceptor_typed a s \<Longrightarrow> acceptor_typed a s'"
    and "\<And>p b. rt_bfevents s p = Some b \<Longrightarrow> \<exists>b'. rt_bfevents s' p = Some b' \<and> bf_ev b' = bf_ev b \<and> bf_loop b' = bf_loop b"
  shows "ev_typed l q s'"
proof -
  obtain e where e: "q \<noteq> NULL" "rt_events s q = Some e" "ev_loop e = l" "ev_role l q e s"
    using assms(1) by (auto simp: ev_typed_def)
  from e(4) have "ev_role l q e s'"
  proof (cases rule: ev_roleE)
    case (conn p b)
    then show ?thesis using assms(4) [OF conn(4)] by (auto simp: ev_role_def)
  qed (use assms(3) in \<open>auto simp: ev_role_def\<close>)
  then show ?thesis using e assms(2) by (auto simp: ev_typed_def)
qed

lemma ev_typed_cong:
  assumes "ev_typed l q s" "rt_events s' q = rt_events s q" "rt_acceptors s' = rt_acceptors s"
    and "\<And>p b. rt_bfevents s p = Some b \<Longrightarrow> \<exists>b'. rt_bfevents s' p = Some b' \<and> bf_ev b' = bf_ev b \<and> bf_loop b' = bf_loop b"
  shows "ev_typed l q s'"
  by (rule ev_typed_mono [OF assms(1,2) _ assms(4)]) (use assms(3) in \<open>simp_all add: acceptor_typed_def\<close>)

lemma handle_close_eq:
  assumes "rt_bfevents s p = Some b" "p \<noteq> NULL" "rt_events s p = None" "bf_loop b \<noteq> NULL" "rt_loops s (bf_loop b) = Some L"
  shows "handle_close p s = Inr (put_loop (bf_loop b) (L\<lparr>el_delque := el_delque L @ [p]\<rparr>)
    (put_bf p (b\<lparr>bf_readcb := None, bf_writecb := None, bf_eventcb := None\<rparr>)
      (upd_server (\<lambda>v. v\<lparr>sv_events := removeAll p (sv_events v)\<rparr>) s)))"
  using assms by (simp add: handle_close_def be_disable_cb_def be_getloop_def class_of_def bf_disable_cb_def
      upd_server_def put_bf_def add_pending_del_def upd_loop_def put_loop_def upd_bf_def)

lemma handle_close_good:
  assumes ty: "typed interest ls s" and b: "rt_bfevents s p = Some b" and p: "p \<notin> closing ls s"
  shows "safe (good interest data ls s) (handle_close p s)"
proof -
  let ?l = "bf_loop b" and ?b = "b\<lparr>bf_readcb := None, bf_writecb := None, bf_eventcb := None\<rparr>"
  obtain L where c: "p \<noteq> NULL" "rt_events s p = None" "?l \<in> ls" "?l \<noteq> NULL" "rt_loops s ?l = Some L"
    using typed_connE [OF ty b] by metis
  let ?L = "L\<lparr>el_delque := el_delque L @ [p]\<rparr>"
  let ?s = "put_loop ?l ?L (put_bf p ?b (upd_server (\<lambda>v. v\<lparr>sv_events := removeAll p (sv_events v)\<rparr>) s))"
  have eq: "handle_close p s = Inr ?s" by (rule handle_close_eq [OF b c(1,2,4,5)])
  have h: "heap_typed interest ls (closing ls s) s" by (rule typed_heap [OF ty])
  have loops: "rt_loops ?s k = (if k = ?l then Some ?L else rt_loops s k)" for k
    by (simp add: put_loop_def put_bf_def upd_server_def)
  have rest: "rt_events ?s = rt_events s" "rt_world ?s = rt_world s" "rt_acceptors ?s = rt_acceptors s"
      "rt_next ?s = rt_next s" "rt_bfevents ?s = (rt_bfevents s)(p \<mapsto> ?b)"
      "rt_server ?s = (rt_server s)\<lparr>sv_events := removeAll p (sv_events (rt_server s))\<rparr>"
    by (simp_all add: put_loop_def put_bf_def upd_server_def)
  have evs: "evs k ?s = evs k s" "el_epfd (the (rt_loops ?s k)) = el_epfd (the (rt_loops s k))" for k
    using c(5) by (simp_all add: loops)
  have cl: "closing ls ?s = insert p (closing ls s)"
  proof -
    have "set (el_delque (the (rt_loops ?s k))) = set (el_delque (the (rt_loops s k))) \<union> (if k = ?l then {p} else {})"
      for k using c(5) by (simp add: loops)
    then show ?thesis using c(3) by (auto simp: closing_def split: if_splits)
  qed
  have ev: "ev_typed k q ?s" if "ev_typed k q s" for k q
    by (rule ev_typed_cong [OF that]) (use b in \<open>auto simp: rest\<close>)
  have loop: "loop_typed k ?s" if "k \<in> ls" for k
    using heap_typed_loop [OF h that] ev c(5) unfolding loop_typed_def loops by auto
  have conn: "conn_typed ls (insert p (closing ls s)) q b' ?s" if q: "rt_bfevents ?s q = Some b'" for q b'
  proof (cases "q = p")
    case True
    then have "b' = ?b" using q by (simp add: rest)
    moreover have "conn_typed ls (closing ls s) p b s" using h b by (simp add: heap_typed_def)
    ultimately show ?thesis
      using True c(5) by (simp add: conn_typed_def evs rest wired_def plain_def)
  next
    case False
    then have "rt_bfevents s q = Some b'" using q by (simp add: rest)
    then have "conn_typed ls (closing ls s) q b' s" using h by (simp add: heap_typed_def)
    then show ?thesis using False unfolding conn_typed_def evs rest wired_def by simp
  qed
  have "heap_typed interest ls (closing ls ?s) ?s"
    using h conn loop b unfolding heap_typed_def cl watched_def evs rest server_typed_def
    by (auto simp: distinct_removeAll)
  moreover have "distinct (el_delque (the (rt_loops ?s k))) \<and>
      (\<forall>q \<in> set (el_delque (the (rt_loops ?s k))). bf_loop (the (rt_bfevents ?s q)) = k)" if k: "k \<in> ls" for k
  proof -
    have "p \<notin> set (el_delque (the (rt_loops s k)))" using p k by (auto simp: closing_def)
    then show ?thesis using ty k c(5) by (auto simp: typed_def loops rest)
  qed
  moreover have "kept ls s ?s" using b c(5) by (auto simp: kept_def grows_def stopped_def evs rest loops)
  ultimately show ?thesis unfolding eq by (simp add: good_def typed_def rest)
qed

section \<open>Accepting a connection\<close>

lemma dispatch_typed:
  assumes ty: "heap_typed interest ls D s"
  shows "\<exists>l lp. dispatch s = Inr (l, upd_server (\<lambda>v. v\<lparr>sv_pool := lp\<rparr>) s) \<and> l \<in> ls \<and> pool_typed ls lp"
proof -
  let ?lp = "sv_pool (rt_server s)"
  have pt: "pool_typed ls ?lp" using ty by (simp add: heap_typed_def server_typed_def)
  have "l \<noteq> NULL \<and> rt_loops s l \<noteq> None" if "l \<in> ls" for l using heap_typed_loopE [OF ty that] by auto
  then have "loops_ok ?lp s" using pt by (auto simp: loops_ok_def pool_typed_def)
  from ev_dispatch_ok [OF this] obtain l lp' where d: "ev_dispatch ?lp s = Inr (l, lp')" "loops_ok lp' s"
      "lo_loadvec lp' = lo_loadvec ?lp"
      "l = lo_baseloop ?lp \<or> l \<in> set (lo_loadvec ?lp)"
    by (auto split: if_splits)
  have "lo_baseloop lp' = lo_baseloop ?lp"
    using d(1) by (auto simp: ev_dispatch_def Let_def bindR_eq_Inr split: if_splits)
  with d pt have "l \<in> ls" "pool_typed ls lp'" by (auto simp: pool_typed_def loops_ok_def)
  with d(1) show ?thesis by (auto simp: dispatch_def)
qed

text \<open>What \<^verbatim>\<open>acceptcb_\<close> leaves behind, whatever epoll answers.\<close>

lemma acceptcb_result:
  assumes d: "dispatch s = Inr (l, upd_server (\<lambda>v. v\<lparr>sv_pool := lp\<rparr>) s)" and l: "l \<noteq> NULL" "rt_loops s l = Some L"
    and n: "0 < rt_next s"
  shows "\<exists>s' b e r1 w1 r2. acceptcb S fd s = Inr s' \<and>
    rt_next s' = Suc (Suc (rt_next s)) \<and> rt_acceptors s' = rt_acceptors s \<and>
    rt_bfevents s' = (rt_bfevents s)(rt_next s \<mapsto> b) \<and> rt_events s' = (rt_events s)(Suc (rt_next s) \<mapsto> e) \<and>
    rt_loops s' = (rt_loops s)(l \<mapsto> L\<lparr>el_load := el_load L + 1, el_evlist := el_evlist L @ [Suc (rt_next s)]\<rparr>) \<and>
    rt_server s' = (rt_server s)\<lparr>sv_pool := lp, sv_events := sv_events (rt_server s) @ [rt_next s]\<rparr> \<and>
    sys_epoll_ctl S (el_epfd L) EPOLL_CTL_ADD fd (Some (ev_events e, Suc (rt_next s))) (rt_world s) = (r1, w1) \<and>
    sys_epoll_ctl S (el_epfd L) EPOLL_CTL_MOD fd (Some (ev_events e, Suc (rt_next s))) w1 = (r2, rt_world s') \<and>
    bf_loop b = l \<and> bf_fd b = fd \<and> bf_ev b = Suc (rt_next s) \<and> bf_inbuff b = new_buffer \<and> bf_outbuff b = new_buffer \<and>
    \<not> bf_closed b \<and> bf_readcb b = sv_readcb (rt_server s) \<and> bf_writecb b = sv_writecb (rt_server s) \<and> bf_eventcb b = Some (Server_tcp_eventcb (rt_next s)) \<and>
    ev_loop e = l \<and> ev_fd e = fd \<and> ev_events e = EPOLLIN OR EPOLLET \<and> ev_readcb e = Some (Bf_handle_read (rt_next s)) \<and>
    ev_writecb e = Some (Bf_handle_write (rt_next s)) \<and> ev_eventcb e = Some (Bf_handle_event (rt_next s))"
proof -
  let ?p = "rt_next s" and ?m = "EPOLLIN OR EPOLLET"
  obtain r1 w1 where w1: "sys_epoll_ctl S (el_epfd L) EPOLL_CTL_ADD fd (Some (?m, Suc ?p)) (rt_world s) = (r1, w1)"
    by fastforce
  obtain r2 w2 where w2: "sys_epoll_ctl S (el_epfd L) EPOLL_CTL_MOD fd (Some (?m, Suc ?p)) w1 = (r2, w2)" by fastforce
  let ?e = "\<lparr>ev_loop = l, ev_fd = fd, ev_events = ?m, ev_revents = None,
      ev_readcb = Some (Bf_handle_read ?p), ev_writecb = Some (Bf_handle_write ?p), ev_eventcb = Some (Bf_handle_event ?p)\<rparr>"
  let ?b = "\<lparr>bf_loop = l, bf_fd = fd, bf_ev = Suc ?p, bf_inbuff = new_buffer,
      bf_outbuff = new_buffer, bf_readcb = sv_readcb (rt_server s), bf_writecb = sv_writecb (rt_server s),
      bf_eventcb = Some (Server_tcp_eventcb ?p), bf_closed = False\<rparr>"
  let ?L = "L\<lparr>el_load := el_load L + 1, el_evlist := el_evlist L @ [Suc ?p]\<rparr>"
  let ?s = "s\<lparr>rt_next := Suc (Suc ?p), rt_bfevents := (rt_bfevents s)(?p \<mapsto> ?b), rt_events := (rt_events s)(Suc ?p \<mapsto> ?e),
      rt_loops := (rt_loops s)(l \<mapsto> ?L), rt_world := w2,
      rt_server := (rt_server s)\<lparr>sv_pool := lp, sv_events := sv_events (rt_server s) @ [?p]\<rparr>\<rparr>"
  have "acceptcb S fd s = Inr ?s"
    using d l n w1 w2
    by (simp add: acceptcb_def new_bfevent_def new_event_def Let_def put_event_def put_bf_def setcb_def upd_event_def
        enable_listen_def add_event_def upd_loop_def put_loop_def call_def bf_setcb_def upd_bf_def bf_update_ep_def
        update_ep_def mod_event_def remember_def upd_server_def)
  then show ?thesis
    by (intro exI [of _ ?s] exI [of _ ?b] exI [of _ ?e] exI [of _ r1] exI [of _ w1] exI [of _ r2])
      (simp add: w1 w2)
qed

text \<open>The new event is the only one that epoll may have come to watch.\<close>

lemma accept_watched:
  assumes S: "epoll_ctl_spec S interest" and h: "heap_typed interest ls D s" and l: "l \<in> ls" and k: "k \<in> ls"
    and q: "rt_events s q = None" "rt_events s' = (rt_events s)(q \<mapsto> e)" "ev_fd e = fd" "ev_events e = m"
    and L: "rt_loops s l = Some L"
      "rt_loops s' = (rt_loops s)(l \<mapsto> L\<lparr>el_load := n, el_evlist := el_evlist L @ [q]\<rparr>)"
    and ctl: "sys_epoll_ctl S (el_epfd L) EPOLL_CTL_ADD fd (Some (m, q)) (rt_world s) = (r1, w1)"
      "sys_epoll_ctl S (el_epfd L) EPOLL_CTL_MOD fd (Some (m, q)) w1 = (r2, rt_world s')"
  shows "watched interest k s'"
proof -
  have inj: "inj_on (\<lambda>l. el_epfd (the (rt_loops s l))) ls" using h by (simp add: heap_typed_def)
  have evs: "evs k s' = (if k = l then insert q (evs k s) else evs k s)"
      "el_epfd (the (rt_loops s' k)) = el_epfd (the (rt_loops s k))" for k
    using L by simp_all
  have old: "r \<noteq> q" if "r \<in> evs k s" for r
    using heap_typed_ev [OF h k that] q(1) by (auto simp: ev_typed_def)
  let ?s1 = "s'\<lparr>rt_world := w1\<rparr>"
  have "watched interest k ?s1"
    by (rule watched_ctl [OF S inj k l, of EPOLL_CTL_ADD fd "Some (m, q)" r1 w1 m q])
      (use ctl(1) L(1) heap_typed_watched [OF h k] old q in \<open>auto simp: evs\<close>)
  then show ?thesis
    by (rule watched_ctl [OF S _ k l, of ?s1 EPOLL_CTL_MOD fd "Some (m, q)" r2 "rt_world s'" m q, rotated 6])
      (use ctl(2) L(1) inj q in \<open>simp_all add: evs\<close>)
qed

text \<open>A new connection on loop \<open>l\<close>.\<close>

lemma add_conn_typed:
  assumes h: "heap_typed interest ls D s" and l: "l \<in> ls" "rt_loops s l = Some L" and lp: "pool_typed ls lp"
    and s': "rt_next s' = Suc (Suc (rt_next s))" "rt_acceptors s' = rt_acceptors s"
      "rt_bfevents s' = (rt_bfevents s)(rt_next s \<mapsto> b)" "rt_events s' = (rt_events s)(Suc (rt_next s) \<mapsto> e)"
      "rt_loops s' = (rt_loops s)(l \<mapsto> L\<lparr>el_load := n, el_evlist := el_evlist L @ [Suc (rt_next s)]\<rparr>)"
      "rt_server s' = (rt_server s)\<lparr>sv_pool := lp, sv_events := sv_events (rt_server s) @ [rt_next s]\<rparr>"
    and b: "bf_loop b = l" "bf_ev b = Suc (rt_next s)" "bf_inbuff b = new_buffer" "bf_outbuff b = new_buffer"
      "\<not> bf_closed b" "bf_writecb b = sv_writecb (rt_server s)" "bf_eventcb b = Some (Server_tcp_eventcb (rt_next s))"
    and e: "ev_loop e = l" "ev_fd e = bf_fd b" "ev_readcb e = Some (Bf_handle_read (rt_next s))"
      "ev_writecb e = Some (Bf_handle_write (rt_next s))" "ev_eventcb e = Some (Bf_handle_event (rt_next s))"
    and watch: "\<And>k. k \<in> ls \<Longrightarrow> watched interest k s'"
  shows "heap_typed interest ls D s'"
proof -
  let ?p = "rt_next s" and ?q = "Suc (rt_next s)"
  have fresh: "0 < ?p" "rt_events s ?p = None" "rt_events s ?q = None" "rt_bfevents s ?p = None" "rt_bfevents s ?q = None"
    using h by (auto simp: heap_typed_def)
  have evs': "evs k s' = (if k = l then insert ?q (evs k s) else evs k s)"
      "el_epfd (the (rt_loops s' k)) = el_epfd (the (rt_loops s k))" for k
    using l(2) by (simp_all add: s'(5))
  have ev: "ev_typed k q s'" if "ev_typed k q s" for k q
  proof (rule ev_typed_cong [OF that])
    show "rt_events s' q = rt_events s q" using that fresh(3) by (auto simp: s'(4) ev_typed_def)
    show "\<exists>b'. rt_bfevents s' p = Some b' \<and> bf_ev b' = bf_ev c \<and> bf_loop b' = bf_loop c"
      if "rt_bfevents s p = Some c" for p c
      using that fresh(4) by (cases "p = ?p") (simp_all add: s'(3))
  qed (simp add: s'(2))
  have new: "ev_typed l ?q s'" using e b by (simp add: ev_typed_def ev_role_def s'(3,4))
  have "?q \<notin> set (el_evlist L)"
    using heap_typed_ev [OF h l(1), of ?q] l(2) fresh(3) by (auto simp: ev_typed_def)
  then have loop: "loop_typed k s'" if "k \<in> ls" for k
    using heap_typed_loop [OF h that] ev new l(2) by (auto simp: loop_typed_def s'(5))
  have conn: "conn_typed ls D p c s'" if c: "rt_bfevents s' p = Some c" for p c
  proof (cases "p = ?p")
    case True
    have "?p \<notin> D" using h fresh(4) by (auto simp: heap_typed_def)
    then show ?thesis
      using True c b e fresh l(1) h
      by (simp add: s'(3,4) conn_typed_def wired_def evs' new_buffer_ok heap_typed_def server_typed_def)
  next
    case False
    then have c1: "rt_bfevents s p = Some c" using c by (simp add: s'(3))
    then have ct: "conn_typed ls D p c s" using h by (simp add: heap_typed_def)
    have "p \<noteq> ?q" "bf_ev c \<noteq> ?q" using c1 fresh(5,3) ct by (auto simp: conn_typed_def wired_def)
    then show ?thesis using ct by (auto simp: conn_typed_def wired_def s'(4) evs')
  qed
  show ?thesis
    using h lp loop watch conn fresh unfolding heap_typed_def
    by (auto simp: s'(1,3,4,6) evs' server_typed_def inj_on_def)
qed

lemma acceptcb_good:
  assumes S: "epoll_ctl_spec S interest" "ctl_silent S data" and ty: "typed interest ls s"
  shows "safe (\<lambda>s'. good interest data ls s s' \<and> rt_acceptors s' = rt_acceptors s) (acceptcb S fd s)"
proof -
  let ?p = "rt_next s" and ?q = "Suc (rt_next s)"
  have h: "heap_typed interest ls (closing ls s) s" by (rule typed_heap [OF ty])
  obtain l lp where d: "dispatch s = Inr (l, upd_server (\<lambda>v. v\<lparr>sv_pool := lp\<rparr>) s)" "l \<in> ls" "pool_typed ls lp"
    using dispatch_typed [OF h] by blast
  obtain L where L: "l \<noteq> NULL" "rt_loops s l = Some L" using heap_typed_loopE [OF h d(2)] by blast
  have fresh: "0 < ?p" "rt_events s ?q = None" "rt_bfevents s ?p = None" using h by (auto simp: heap_typed_def)
  obtain s' b e r1 w1 r2 where eq: "acceptcb S fd s = Inr s'"
    and s': "rt_next s' = Suc ?q" "rt_acceptors s' = rt_acceptors s"
      "rt_bfevents s' = (rt_bfevents s)(?p \<mapsto> b)" "rt_events s' = (rt_events s)(?q \<mapsto> e)"
      "rt_loops s' = (rt_loops s)(l \<mapsto> L\<lparr>el_load := el_load L + 1, el_evlist := el_evlist L @ [?q]\<rparr>)"
      "rt_server s' = (rt_server s)\<lparr>sv_pool := lp, sv_events := sv_events (rt_server s) @ [?p]\<rparr>"
    and ctl: "sys_epoll_ctl S (el_epfd L) EPOLL_CTL_ADD fd (Some (ev_events e, ?q)) (rt_world s) = (r1, w1)"
      "sys_epoll_ctl S (el_epfd L) EPOLL_CTL_MOD fd (Some (ev_events e, ?q)) w1 = (r2, rt_world s')"
    and b: "bf_loop b = l" "bf_ev b = ?q" "bf_inbuff b = new_buffer" "bf_outbuff b = new_buffer"
      "\<not> bf_closed b" "bf_writecb b = sv_writecb (rt_server s)" "bf_eventcb b = Some (Server_tcp_eventcb ?p)"
    and e: "ev_loop e = l" "ev_fd e = bf_fd b" "ev_readcb e = Some (Bf_handle_read ?p)"
      "ev_writecb e = Some (Bf_handle_write ?p)" "ev_eventcb e = Some (Bf_handle_event ?p)" "ev_fd e = fd"
    using acceptcb_result [OF d(1) L fresh(1), of S fd] by auto
  have "watched interest k s'" if "k \<in> ls" for k
    by (rule accept_watched [OF S(1) h d(2) that fresh(2) s'(4) e(6) refl L(2) s'(5) ctl])
  then have "heap_typed interest ls (closing ls s) s'" by (rule add_conn_typed [OF h d(2) L(2) d(3) s' b e(1-5)])
  moreover have dq: "el_delque (the (rt_loops s' k)) = el_delque (the (rt_loops s k))" for k
    using L(2) by (simp add: s'(5))
  moreover have "closing ls s' = closing ls s" by (simp add: closing_def dq)
  ultimately have "typed interest ls s'"
    using ty h unfolding typed_def by (auto simp: s'(3) heap_typed_def closing_def fresh(3))
  moreover have "kept ls s s'" using fresh L(2) by (auto simp: kept_def grows_def stopped_def s'(3-5))
  moreover have "data (rt_world s') = data (rt_world s)"
    using S(2) [unfolded ctl_silent_def] ctl by (metis snd_conv)
  ultimately show ?thesis by (simp add: eq good_def s'(2))
qed

section \<open>Deleting the connections that wait\<close>

text \<open>The interest in output is switched before the event leaves the loop.\<close>

lemma closing_masks:
  assumes S: "epoll_ctl_spec S interest" and h: "heap_typed interest ls D s" and b: "rt_bfevents s p = Some b" "p \<in> D"
  shows "\<exists>s1. heap_typed interest ls D s1 \<and> rt_bfevents s1 = rt_bfevents s \<and> rt_loops s1 = rt_loops s \<and>
    rt_server s1 = rt_server s \<and>
    bf_del_listen S run p s = bindR (on_ev (del_listen S) p s1) (\<lambda>s. upd_bf p (\<lambda>b. b\<lparr>bf_closed := True\<rparr>) s)"
proof -
  obtain e L where c: "p \<noteq> NULL" "bf_loop b \<in> ls" "bf_ev b \<noteq> NULL" "rt_events s (bf_ev b) = Some e"
      "rt_loops s (bf_loop b) = Some L" "bf_ev b \<in> set (el_evlist L)" "buf_inv (bf_outbuff b)"
    using heap_typed_connE [OF h b(1)] by metis
  have none: "bf_readcb b = None" using h b by (auto simp: heap_typed_def conn_typed_def)
  have silent: "ctl_silent S (\<lambda>_ _. 0 :: nat)" by (simp add: ctl_silent_def)
  have q: "bf_ev b \<in> evs (bf_loop b) s" using c by simp
  have m: "\<exists>s1. bindR (upd_event (bf_ev b) (\<lambda>e. e\<lparr>ev_events := f (ev_events e)\<rparr>) s) (update_ep S (bf_ev b)) = Inr s1 \<and>
      heap_typed interest ls D s1 \<and> rt_bfevents s1 = rt_bfevents s \<and> rt_loops s1 = rt_loops s \<and> rt_server s1 = rt_server s" for f
    using mask_step [OF S silent h c(2) q c(4), of f] heap_typed_shape [OF h] by (fastforce simp: same_shape_def)
  have wr: "on_ev writeable p s = Inr (ev_events e AND EPOLLOUT \<noteq> 0)" using c b by (simp add: writeable_def)
  show ?thesis
  proof (cases "readbytes (bf_outbuff b) = 0")
    case True
    obtain s1 where "disable_write S (bf_ev b) s = Inr s1" "heap_typed interest ls D s1" "rt_bfevents s1 = rt_bfevents s"
        "rt_loops s1 = rt_loops s" "rt_server s1 = rt_server s"
      using m [of "\<lambda>x. x AND NOT EPOLLOUT"] by (auto simp: disable_write_def disable_events_def)
    then show ?thesis
      using c b none True by (intro exI [of _ s1]) (simp add: bf_del_listen_def call_readcb_def)
  next
    case False
    obtain s1 where "enable_write S (bf_ev b) s = Inr s1" "heap_typed interest ls D s1" "rt_bfevents s1 = rt_bfevents s"
        "rt_loops s1 = rt_loops s" "rt_server s1 = rt_server s"
      using m [of "\<lambda>x. x OR EPOLLOUT"] by (auto simp: enable_write_def enable_events_def)
    note s1 = this
    have pos: "0 < readbytes (bf_outbuff b)" using False by (simp add: word_gt_0)
    show ?thesis
    proof (cases "ev_events e AND EPOLLOUT \<noteq> 0")
      case True
      then show ?thesis
        using c b none False pos wr h by (intro exI [of _ s]) (simp add: bf_del_listen_def call_readcb_def)
    next
      case no: False
      then show ?thesis
        using c b none False pos wr s1 by (intro exI [of _ s1]) (simp add: bf_del_listen_def call_readcb_def)
    qed
  qed
qed

text \<open>The end of the destructor: the event leaves its loop, the descriptor is closed, both objects are freed.\<close>

lemma unwatch:
  assumes S: "epoll_ctl_spec S interest" "close_spec S interest"
    and w: "sys_epoll_ctl S ep EPOLL_CTL_DEL fd None w0 = (r, w1)" "w2 = snd (sys_close S fd w1)"
  shows "interest w2 k f = (if f = fd then None else interest w0 k f)"
proof -
  have "interest w1 = interest w0 \<or> interest w1 = set_interest ep fd None (interest w0)"
    using S(1) w(1) unfolding epoll_ctl_spec_def by (cases r) fastforce+
  moreover have "interest w2 k f = (if f = fd then None else interest w1 k f)"
    using S(2) w(2) by (simp add: close_spec_def)
  ultimately show ?thesis by (auto simp: set_interest_def)
qed

text \<open>A connection and its event are gone from the heaps, from their loop and from epoll.\<close>

definition conn_dropped ::
  "'w interest \<Rightarrow> addr \<Rightarrow> bfevent \<Rightarrow> eventloop \<Rightarrow> u32 \<Rightarrow> ('w, 'm) servers_scheme \<Rightarrow> ('w, 'm) servers_scheme \<Rightarrow> bool" where
  "conn_dropped interest p b L n s s' \<longleftrightarrow>
     rt_bfevents s' = (rt_bfevents s)(p := None) \<and> rt_events s' = (rt_events s)(bf_ev b := None) \<and>
     rt_loops s' = (rt_loops s)(bf_loop b \<mapsto> L\<lparr>el_load := n, el_evlist := removeAll (bf_ev b) (el_evlist L)\<rparr>) \<and>
     rt_acceptors s' = rt_acceptors s \<and>
     (\<forall>k f. interest (rt_world s') k f = (if f = bf_fd b then None else interest (rt_world s) k f))"

lemma conn_dropped_evs:
  assumes "conn_dropped interest p b L n s s'" "rt_loops s (bf_loop b) = Some L"
  shows "evs k s' = evs k s - (if k = bf_loop b then {bf_ev b} else {})"
    "el_epfd (the (rt_loops s' k)) = el_epfd (the (rt_loops s k))"
  using assms by (auto simp: conn_dropped_def)

lemma conn_dropped_other:
  assumes h: "heap_typed interest ls D s" and b: "rt_bfevents s p = Some b" and L: "rt_loops s (bf_loop b) = Some L"
    and d: "conn_dropped interest p b L n s s'" and k: "k \<in> ls" "q \<in> evs k s'"
  shows "q \<noteq> bf_ev b"
proof
  obtain e where e: "rt_events s (bf_ev b) = Some e" "ev_loop e = bf_loop b"
    using heap_typed_connE [OF h b] by metis
  assume "q = bf_ev b"
  then have "k \<noteq> bf_loop b" "bf_ev b \<in> evs k s"
    using k(2) unfolding conn_dropped_evs [OF d L] by (auto split: if_splits)
  then show False using heap_typed_ev [OF h k(1), of "bf_ev b"] e by (auto simp: ev_typed_def)
qed

lemma conn_dropped_ev:
  assumes h: "heap_typed interest ls D s" and b: "rt_bfevents s p = Some b" and L: "rt_loops s (bf_loop b) = Some L"
    and d: "conn_dropped interest p b L n s s'" and k: "k \<in> ls" "q \<in> evs k s'"
  shows "ev_typed k q s'"
proof -
  note nq = conn_dropped_other [OF h b L d k]
  have "ev_typed k q s" using heap_typed_ev [OF h k(1)] k(2) unfolding conn_dropped_evs [OF d L] by blast
  then obtain x where x: "q \<noteq> NULL" "rt_events s q = Some x" "ev_loop x = k" "ev_role k q x s"
    by (auto simp: ev_typed_def)
  have acc: "acceptor_typed a s' = acceptor_typed a s" for a
    using d by (simp add: acceptor_typed_def conn_dropped_def)
  from x(4) have "ev_role k q x s'"
  proof (cases rule: ev_roleE)
    case (conn c bc)
    then have "c \<noteq> p" using b nq by auto
    then show ?thesis using conn d by (simp add: ev_role_def conn_dropped_def)
  qed (simp add: ev_role_def acc)
  then show ?thesis using x nq d by (simp add: ev_typed_def conn_dropped_def)
qed

lemma conn_dropped_watched:
  assumes h: "heap_typed interest ls D s" and b: "rt_bfevents s p = Some b" and L: "rt_loops s (bf_loop b) = Some L"
    and d: "conn_dropped interest p b L n s s'" and k: "k \<in> ls"
  shows "watched interest k s'"
proof -
  obtain e where e: "rt_events s (bf_ev b) = Some e" "ev_fd e = bf_fd b"
    using heap_typed_connE [OF h b] by metis
  have d': "rt_events s' = (rt_events s)(bf_ev b := None)"
      "interest (rt_world s') k f = (if f = bf_fd b then None else interest (rt_world s) k f)" for k f
    using d by (simp_all add: conn_dropped_def)
  have "q \<in> evs k s' \<and> ev_fd (the (rt_events s' q)) = f"
    if i: "f \<noteq> bf_fd b" "interest (rt_world s) (el_epfd (the (rt_loops s k))) f = Some (m, q)" for f m q
  proof -
    have "q \<in> evs k s" "ev_fd (the (rt_events s q)) = f"
      using heap_typed_watched [OF h k] i(2) by (auto simp: watched_def)
    moreover from this have "q \<noteq> bf_ev b" using i(1) e by auto
    ultimately show ?thesis unfolding conn_dropped_evs [OF d L] by (simp add: d'(1))
  qed
  then show ?thesis unfolding watched_def conn_dropped_evs(2) [OF d L] d'(2) by (auto split: if_splits)
qed

lemma drop_conn_typed:
  fixes s s' :: "('w, 'm) servers_scheme"
  assumes h: "heap_typed interest ls D s" and b: "rt_bfevents s p = Some b" "p \<in> D"
    and L: "rt_loops s (bf_loop b) = Some L"
    and s': "rt_bfevents s' = (rt_bfevents s)(p := None)" "rt_events s' = (rt_events s)(bf_ev b := None)"
      "rt_loops s' = (rt_loops s)(bf_loop b \<mapsto> L\<lparr>el_load := n, el_evlist := removeAll (bf_ev b) (el_evlist L)\<rparr>)"
      "rt_next s' = rt_next s" "rt_acceptors s' = rt_acceptors s" "rt_server s' = rt_server s"
      "\<And>k f. interest (rt_world s') k f = (if f = bf_fd b then None else interest (rt_world s) k f)"
  shows "heap_typed interest ls (D - {p}) s'"
proof -
  have d: "conn_dropped interest p b L n s s'" using s' by (simp add: conn_dropped_def)
  note evs' = conn_dropped_evs [OF d L] and ev = conn_dropped_ev [OF h b(1) L d]
    and watch = conn_dropped_watched [OF h b(1) L d]
  have ct: "conn_typed ls D c bc s" if "rt_bfevents s c = Some bc" for c bc using h that by (simp add: heap_typed_def)
  obtain e where e: "rt_events s (bf_ev b) = Some e" "ev_readcb e = Some (Bf_handle_read p)"
    using ct [OF b(1)] by (auto simp: conn_typed_def wired_def)
  have loop: "loop_typed k s'" if k: "k \<in> ls" for k
  proof -
    have "k \<noteq> NULL" "\<exists>M. rt_loops s' k = Some M \<and> MAX_EVENTS \<le> el_nevents M \<and> distinct (el_evlist M)"
      using heap_typed_loop [OF h k] L by (auto simp: s'(3) loop_typed_def distinct_removeAll)
    then show ?thesis using ev [OF k] by (auto simp: loop_typed_def)
  qed
  have conn: "conn_typed ls (D - {p}) c bc s'" if c: "rt_bfevents s' c = Some bc" for c bc
  proof -
    have c1: "c \<noteq> p" "rt_bfevents s c = Some bc" using c by (auto simp: s'(1) split: if_splits)
    have "bf_ev bc \<noteq> bf_ev b" using ct [OF c1(2)] c1(1) e by (auto simp: conn_typed_def wired_def)
    then show ?thesis using ct [OF c1(2)] c1(1) unfolding conn_typed_def evs' wired_def s'(2) by auto
  qed
  have "inj_on (\<lambda>l. el_epfd (the (rt_loops s' l))) ls" using h unfolding evs' by (simp add: heap_typed_def)
  then show ?thesis
    using h loop watch conn b unfolding heap_typed_def
    by (auto simp: s'(1,2,4,6) server_typed_def)
qed

text \<open>The parts of a loop that the deletion of a connection leaves alone.\<close>

abbreviation el_flags :: "eventloop \<Rightarrow> addr list \<times> bool" where
  "el_flags L \<equiv> (el_delque L, el_shutdown L)"

lemma be_delete_typed:
  assumes S: "epoll_ctl_spec S interest" "close_spec S interest"
    and h: "heap_typed interest ls D s" and b: "rt_bfevents s p = Some b" "p \<in> D"
  shows "\<exists>s'. be_delete S run p s = Inr s' \<and> heap_typed interest ls (D - {p}) s' \<and>
    rt_bfevents s' = (rt_bfevents s)(p := None) \<and> (\<forall>l. map_option el_flags (rt_loops s' l) = map_option el_flags (rt_loops s l))"
proof -
  obtain s1 where s1: "heap_typed interest ls D s1" "rt_bfevents s1 = rt_bfevents s" "rt_loops s1 = rt_loops s"
      "bf_del_listen S run p s = bindR (on_ev (del_listen S) p s1) (\<lambda>s. upd_bf p (\<lambda>b. b\<lparr>bf_closed := True\<rparr>) s)"
    using closing_masks [OF S(1) h b] by blast
  have b1: "rt_bfevents s1 p = Some b" using b(1) s1(2) by simp
  obtain e L where c: "p \<noteq> NULL" "rt_events s1 p = None" "\<not> bf_closed b" "bf_ev b \<noteq> NULL" "rt_events s1 (bf_ev b) = Some e"
      "ev_loop e = bf_loop b" "ev_fd e = bf_fd b" "bf_loop b \<noteq> NULL" "rt_loops s1 (bf_loop b) = Some L"
    using heap_typed_connE [OF s1(1) b1] by metis
  have "rt_events s p = None" using heap_typed_connE [OF h b(1)] by blast
  then have del: "be_delete S run p s = delete_bfevent S run p s" using c(1) b by (simp add: be_delete_def class_of_def)
  obtain r w1 where w1: "sys_epoll_ctl S (el_epfd L) EPOLL_CTL_DEL (bf_fd b) None (rt_world s1) = (r, w1)" by fastforce
  obtain r2 w2 where w2: "sys_close S (bf_fd b) w1 = (r2, w2)" by fastforce
  let ?L = "L\<lparr>el_load := el_load L - 1, el_evlist := removeAll (bf_ev b) (el_evlist L)\<rparr>"
  let ?s = "s1\<lparr>rt_world := w2, rt_loops := (rt_loops s1)(bf_loop b \<mapsto> ?L), rt_events := (rt_events s1)(bf_ev b := None),
      rt_bfevents := (rt_bfevents s1)(p := None)\<rparr>"
  have "delete_bfevent S run p s = Inr ?s"
    using b c b1 w1 w2
    by (simp add: delete_bfevent_def close_event_def s1(4) del_listen_def del_event_def upd_loop_def put_loop_def call_def
        upd_bf_def put_bf_def delete_event_def)
  moreover have "heap_typed interest ls (D - {p}) ?s"
    by (rule drop_conn_typed [OF s1(1) b1 b(2) c(9)]) (use unwatch [OF S w1, of w2] w2 in simp_all)
  ultimately show ?thesis using del s1(2,3) c(9) by (intro exI [of _ ?s]) simp
qed

text \<open>The loop over the list of pending deletions, and the list's reset.\<close>

lemma delete_pending_typed:
  assumes S: "epoll_ctl_spec S interest" "close_spec S interest"
    and "heap_typed interest ls D s" "distinct ps" "set ps \<subseteq> D" "l \<in> ls"
  shows "\<exists>s'. delete_all (del_pending (be_delete S run) l) ps s = Inr s' \<and> heap_typed interest ls (D - set ps) s' \<and>
    rt_bfevents s' = rt_bfevents s |` (- set ps) \<and>
    (\<forall>k. map_option el_flags (rt_loops s' k) = map_option el_flags (rt_loops s k))"
  using assms(3-5)
proof (induction ps arbitrary: D s)
  case Nil
  then show ?case by simp
next
  case (Cons p ps)
  obtain b where b: "rt_bfevents s p = Some b" "p \<in> D" using Cons.prems by (auto simp: heap_typed_def)
  obtain s1 where s1: "be_delete S run p s = Inr s1" "heap_typed interest ls (D - {p}) s1"
      "rt_bfevents s1 = (rt_bfevents s)(p := None)"
      "\<forall>k. map_option el_flags (rt_loops s1 k) = map_option el_flags (rt_loops s k)"
    using be_delete_typed [OF S Cons.prems(1) b, of run] by blast
  obtain L where L: "l \<noteq> NULL" "rt_loops s l = Some L" using heap_typed_loopE [OF Cons.prems(1) assms(6)] by blast
  obtain L1 where L1: "rt_loops s1 l = Some L1" "el_delque L1 = el_delque L"
    using s1(4) [rule_format, of l] L(2) by auto
  have pend: "del_pending (be_delete S run) l p s = Inr s1" using L s1(1) L1 by (simp add: del_pending_def)
  have "distinct ps" "set ps \<subseteq> D - {p}" using Cons.prems(2,3) by auto
  from Cons.IH [OF s1(2) this] obtain s2 where s2: "delete_all (del_pending (be_delete S run) l) ps s1 = Inr s2"
      "heap_typed interest ls (D - {p} - set ps) s2" "rt_bfevents s2 = rt_bfevents s1 |` (- set ps)"
      "\<forall>k. map_option el_flags (rt_loops s2 k) = map_option el_flags (rt_loops s1 k)"
    by blast
  have "D - set (p # ps) = D - {p} - set ps" by auto
  moreover have "rt_bfevents s2 = rt_bfevents s |` (- set (p # ps))"
    unfolding s2(3) s1(3) by (auto simp: restrict_map_def)
  ultimately show ?case using pend s2 s1(4) by simp
qed

lemma heap_typed_delque:
  assumes h: "heap_typed interest ls D s" and L: "rt_loops s l = Some L"
  shows "heap_typed interest ls D (put_loop l (L\<lparr>el_delque := d\<rparr>) s)" (is "heap_typed _ _ _ ?s")
proof -
  have loops: "rt_loops ?s k = (if k = l then Some (L\<lparr>el_delque := d\<rparr>) else rt_loops s k)" for k
    by (simp add: put_loop_def)
  have rest: "rt_events ?s = rt_events s" "rt_world ?s = rt_world s" "rt_acceptors ?s = rt_acceptors s"
      "rt_next ?s = rt_next s" "rt_bfevents ?s = rt_bfevents s" "rt_server ?s = rt_server s"
    by (simp_all add: put_loop_def)
  have evs: "evs k ?s = evs k s" "el_epfd (the (rt_loops ?s k)) = el_epfd (the (rt_loops s k))" for k
    using L by (simp_all add: loops)
  have ev: "ev_typed k q ?s" if "ev_typed k q s" for k q
    by (rule ev_typed_cong [OF that]) (simp_all add: rest)
  have loop: "loop_typed k ?s" if "k \<in> ls" for k
    using heap_typed_loop [OF h that] ev L unfolding loop_typed_def loops by auto
  then show ?thesis
    using h unfolding heap_typed_def watched_def conn_typed_def evs rest server_typed_def wired_def by simp
qed

lemma flush_delque_typed:
  assumes S: "epoll_ctl_spec S interest" "close_spec S interest" and ty: "typed interest ls s" and l: "l \<in> ls"
  shows "\<exists>s' L'. flush_delque (be_delete S run) l s = Inr s' \<and> typed interest ls s' \<and>
    rt_loops s' l = Some L' \<and> el_delque L' = [] \<and> (stopped l s \<longrightarrow> stopped l s')"
proof -
  obtain L where L: "l \<noteq> NULL" "rt_loops s l = Some L" using typed_loopE [OF ty l] by blast
  show ?thesis
  proof (cases "el_delque L = []")
    case True
    then show ?thesis using L ty by (simp add: flush_delque_def)
  next
    case False
    let ?ps = "el_delque L" and ?D = "closing ls s"
    have d: "distinct ?ps" "set ?ps \<subseteq> ?D" using ty l L(2) by (auto simp: typed_def closing_def)
    obtain s1 where s1: "delete_all (del_pending (be_delete S run) l) ?ps s = Inr s1"
        "heap_typed interest ls (?D - set ?ps) s1" "rt_bfevents s1 = rt_bfevents s |` (- set ?ps)"
        "\<forall>k. map_option el_flags (rt_loops s1 k) = map_option el_flags (rt_loops s k)"
      using delete_pending_typed [OF S typed_heap [OF ty] d l] by blast
    obtain L1 where L1: "rt_loops s1 l = Some L1" "el_delque L1 = ?ps" "el_shutdown L1 = el_shutdown L" using s1(4) [rule_format, of l] L(2) by auto
    let ?s = "put_loop l (L1\<lparr>el_delque := []\<rparr>) s1"
    have dq: "el_delque (the (rt_loops ?s k)) = (if k = l then [] else el_delque (the (rt_loops s k)))" if "k \<in> ls" for k
      using s1(4) [rule_format, of k] typed_loop_live [OF ty that] by (auto simp: put_loop_def)
    have apart: "p \<notin> set ?ps" if "k \<in> ls" "k \<noteq> l" "p \<in> set (el_delque (the (rt_loops s k)))" for k p
    proof
      assume "p \<in> set ?ps"
      then have "p \<in> set (el_delque (the (rt_loops s l)))" using L(2) by simp
      then have "bf_loop (the (rt_bfevents s p)) = l" using ty l unfolding typed_def by blast
      moreover have "bf_loop (the (rt_bfevents s p)) = k" using ty that(1,3) unfolding typed_def by blast
      ultimately show False using that(2) by simp
    qed
    have cl: "closing ls ?s = ?D - set ?ps"
    proof -
      have "closing ls ?s = (\<Union>k \<in> ls - {l}. set (el_delque (the (rt_loops s k))))"
        unfolding closing_def using dq by (auto split: if_splits)
      moreover have "?D = set ?ps \<union> (\<Union>k \<in> ls - {l}. set (el_delque (the (rt_loops s k))))"
        unfolding closing_def using l L(2) by auto
      ultimately show ?thesis using apart by blast
    qed
    have "heap_typed interest ls (closing ls ?s) ?s"
      unfolding cl by (rule heap_typed_delque [OF s1(2) L1(1)])
    moreover have "rt_bfevents ?s = rt_bfevents s |` (- set ?ps)" using s1(3) by (simp add: put_loop_def)
    moreover have "distinct (el_delque (the (rt_loops ?s k))) \<and>
        (\<forall>p \<in> set (el_delque (the (rt_loops ?s k))). bf_loop (the ((rt_bfevents s |` (- set ?ps)) p)) = k)"
      if k: "k \<in> ls" for k
      unfolding dq [OF k] using ty k apart [OF k] by (auto simp: typed_def restrict_map_def)
    ultimately have "typed interest ls ?s" unfolding typed_def by simp
    moreover have "flush_delque (be_delete S run) l s = Inr ?s"
      using L False s1(1) L1 by (simp add: flush_delque_def upd_loop_def)
    ultimately show ?thesis using L(2) L1 by (simp add: put_loop_def stopped_def)
  qed
qed

end
