(* ===== verification/Server_Safety.thy ===== *)
theory Server_Safety
  imports Server_Steps
begin

text \<open>
  Memory safety of the server: whatever epoll reports and however the system calls fail, a turn of
  a loop follows no pointer that is null, dangling or unset, returns, and leaves the heaps
  well typed. The contract between the library and an application is the locale \<open>tcp_app\<close>.
\<close>

section \<open>What is asked of the kernel\<close>

definition keeps :: "('w \<Rightarrow> 'd) \<Rightarrow> ('w, 'a) syscall \<Rightarrow> bool" where
  "keeps data f \<longleftrightarrow> (\<forall>w. data (snd (f w)) = data w)"

lemma keepsD: "keeps data f \<Longrightarrow> f w = (r, w') \<Longrightarrow> data w' = data w"
  by (metis keeps_def snd_conv)

text \<open>Sending does not make unread input or pending connections.\<close>

definition output_silent :: "'w sys \<Rightarrow> ('w \<Rightarrow> 'd) \<Rightarrow> bool" where
  "output_silent S data \<longleftrightarrow>
     ctl_silent S data \<and> (\<forall>fd bs. keeps data (sys_write S fd bs)) \<and> (\<forall>fd bss. keeps data (sys_writev S fd bss))"

text \<open>Only \<^verbatim>\<open>epoll_ctl\<close> and \<^verbatim>\<open>close\<close> change interest lists.\<close>

definition interest_kept :: "'w sys \<Rightarrow> 'w interest \<Rightarrow> bool" where
  "interest_kept S interest \<longleftrightarrow>
     (\<forall>fd n. keeps interest (sys_read S fd n)) \<and> (\<forall>fd ns. keeps interest (sys_readv S fd ns)) \<and>
     (\<forall>fd bs. keeps interest (sys_write S fd bs)) \<and> (\<forall>fd bss. keeps interest (sys_writev S fd bss)) \<and>
     (\<forall>fd. keeps interest (sys_accept S fd)) \<and> (\<forall>fd opt. keeps interest (sys_setsockopt S fd opt)) \<and>
     (\<forall>fd. keeps interest (sys_fcntl_getfl S fd)) \<and> (\<forall>fd fl. keeps interest (sys_fcntl_setfl S fd fl))"

text \<open>A write takes a prefix, a non-empty one if there are data.\<close>

definition write_bounds :: "'w sys \<Rightarrow> bool" where
  "write_bounds S \<longleftrightarrow>
     (\<forall>fd bs w n w'. sys_write S fd bs w = (Inr n, w') \<longrightarrow> n \<le> length bs \<and> (bs \<noteq> [] \<longrightarrow> 0 < n)) \<and>
     (\<forall>fd bss w n w'. sys_writev S fd bss w = (Inr n, w') \<longrightarrow> n \<le> length (concat bss))"

text \<open>\<open>pending w fd\<close> counts the connections that wait: accepting takes one away.\<close>

definition accept_counts :: "'w sys \<Rightarrow> ('w \<Rightarrow> fd \<Rightarrow> nat) \<Rightarrow> bool" where
  "accept_counts S pending \<longleftrightarrow>
     (\<forall>fd w c w'. sys_accept S fd w = (Inr c, w') \<longrightarrow> pending w' fd < pending w fd) \<and>
     ctl_silent S pending \<and> (\<forall>fd opt. keeps pending (sys_setsockopt S fd opt)) \<and>
     (\<forall>fd. keeps pending (sys_fcntl_getfl S fd)) \<and> (\<forall>fd fl. keeps pending (sys_fcntl_setfl S fd fl))"

abbreviation unread_len :: "('w \<Rightarrow> fd \<Rightarrow> byte list) \<Rightarrow> 'w \<Rightarrow> fd \<Rightarrow> nat" where
  "unread_len unread \<equiv> \<lambda>w fd. length (unread w fd)"

definition kernel_ok ::
  "'w sys \<Rightarrow> 'w interest \<Rightarrow> ('w \<Rightarrow> fd \<Rightarrow> byte list) \<Rightarrow> ('w \<Rightarrow> fd \<Rightarrow> nat) \<Rightarrow> bool" where
  "kernel_ok S interest unread pending \<longleftrightarrow>
     epoll_ctl_spec S interest \<and> epoll_wait_spec S interest \<and> close_spec S interest \<and> interest_kept S interest \<and>
     write_bounds S \<and> readv_spec S unread \<and> output_silent S (unread_len unread) \<and> accept_counts S pending"

section \<open>Buffers\<close>

lemma append_safe:
  assumes "buf_inv b" "length d \<le> VECTOR_MAX"
  shows "safe buf_inv (append d b)"
proof (cases "length (contents b) + length d \<le> VECTOR_MAX")
  case True
  then show ?thesis using append_ok [OF assms(1), of d] by auto
next
  case False
  then show ?thesis using append_too_long [OF assms] by simp
qed

text \<open>What \<^verbatim>\<open>readiov\<close> does with the answer of \<^verbatim>\<open>readv\<close>.\<close>

lemma readiov_outcome:
  assumes "buf_inv b" "readv_bounded rv"
  obtains lens r w where "0 < sum_list lens" "rv lens = (r, w)"
    "\<And>e. r = Inl e \<Longrightarrow> readiov rv b = Inr (Inl e, b, w)"
    "\<And>bs. r = Inr bs \<Longrightarrow> length (contents b) + length bs \<le> VECTOR_MAX \<Longrightarrow>
       \<exists>b'. readiov rv b = Inr (Inr (length bs), b', w) \<and> buf_inv b' \<and> contents b' = contents b @ bs"
    "\<And>bs. r = Inr bs \<Longrightarrow> VECTOR_MAX < length (contents b) + length bs \<Longrightarrow> readiov rv b = Inl Length_error"
proof -
  let ?lens = "if writebytes b < of_nat IOBUF then [unat (writebytes b), IOBUF] else [unat (writebytes b)]"
  obtain r w where rw: "rv ?lens = (r, w)" by fastforce
  show thesis
  proof (rule that)
    show "0 < sum_list ?lens" by (auto simp: word_less_nat_alt)
    show "rv ?lens = (r, w)" by (rule rw)
    show "readiov rv b = Inr (Inl e, b, w)" if "r = Inl e" for e
      using readiov_error [OF assms(1), of rv e w] rw that by simp
    show "\<exists>b'. readiov rv b = Inr (Inr (length bs), b', w) \<and> buf_inv b' \<and> contents b' = contents b @ bs"
      if "r = Inr bs" "length (contents b) + length bs \<le> VECTOR_MAX" for bs
      using readiov_ok [OF assms _ that(2)] rw that(1) by simp
    show "readiov rv b = Inl Length_error" if "r = Inr bs" "VECTOR_MAX < length (contents b) + length bs" for bs
      using readiov_too_long [OF assms, of bs w] rw that by simp
  qed
qed

lemma readiov_safe:
  assumes "buf_inv b" "readv_bounded rv"
  shows "\<exists>lens r w. 0 < sum_list lens \<and> rv lens = (r, w) \<and>
    safe (\<lambda>(n, b', w'). w' = w \<and> buf_inv b' \<and> n = map_sum id length r) (readiov rv b)"
proof (rule readiov_outcome [OF assms])
  fix lens r w
  assume r: "0 < sum_list lens" "rv lens = (r, w)" "\<And>e. r = Inl e \<Longrightarrow> readiov rv b = Inr (Inl e, b, w)"
    "\<And>bs. r = Inr bs \<Longrightarrow> length (contents b) + length bs \<le> VECTOR_MAX \<Longrightarrow>
       \<exists>b'. readiov rv b = Inr (Inr (length bs), b', w) \<and> buf_inv b' \<and> contents b' = contents b @ bs"
    "\<And>bs. r = Inr bs \<Longrightarrow> VECTOR_MAX < length (contents b) + length bs \<Longrightarrow> readiov rv b = Inl Length_error"
  have "safe (\<lambda>(n, b', w'). w' = w \<and> buf_inv b' \<and> n = map_sum id length r) (readiov rv b)"
  proof (cases r)
    case (Inr bs)
    then show ?thesis using r(4,5) by (cases "length (contents b) + length bs \<le> VECTOR_MAX") auto
  qed (use r(3) assms(1) in simp)
  with r(1,2) show ?thesis by blast
qed

section \<open>Elementary steps\<close>

lemma readv_step:
  assumes K: "kernel_ok S interest unread pending" and ty: "typed interest ls s" and b: "rt_bfevents s p = Some b"
    and rw: "sys_readv S fd lens (rt_world s) = (r, w)" and ib: "buf_inv ib"
  shows "good interest (\<lambda>_ _. 0) ls s (put_bf p (b\<lparr>bf_inbuff := ib\<rparr>) (s\<lparr>rt_world := w\<rparr>))"
proof -
  have w: "interest w = interest (rt_world s)"
    using K keepsD [of interest "sys_readv S fd lens"] rw by (auto simp: kernel_ok_def interest_kept_def)
  have g: "good interest (\<lambda>_ _. 0) ls s (s\<lparr>rt_world := w\<rparr>)" by (rule good_world [OF ty w]) simp
  have ob: "buf_inv (bf_outbuff b)" using typed_connE [OF ty b] by blast
  have "good interest (\<lambda>_ _. 0) ls (s\<lparr>rt_world := w\<rparr>)
      (put_bf p (b\<lparr>bf_inbuff := ib, bf_outbuff := bf_outbuff b\<rparr>) (s\<lparr>rt_world := w\<rparr>))"
    by (rule good_buffers) (use g b ib ob in \<open>simp_all add: good_def\<close>)
  then show ?thesis using good_trans [OF g] by simp
qed

lemma kernel_write:
  assumes K: "kernel_ok S interest unread pending" "output_silent S data" and ty: "typed interest ls s"
  shows "sys_write S fd bs (rt_world s) = (r, w) \<Longrightarrow> good interest data ls s (s\<lparr>rt_world := w\<rparr>)"
    and "sys_writev S fd bss (rt_world s) = (r, w) \<Longrightarrow> good interest data ls s (s\<lparr>rt_world := w\<rparr>)"
    and "sys_write S fd bs v = (Inr n, w) \<Longrightarrow> n \<le> length bs \<and> (bs \<noteq> [] \<longrightarrow> 0 < n)"
proof -
  have k: "keeps interest (sys_write S fd bs)" "keeps data (sys_write S fd bs)"
      "keeps interest (sys_writev S fd bss)" "keeps data (sys_writev S fd bss)"
    using K by (simp_all add: kernel_ok_def interest_kept_def output_silent_def)
  show "sys_write S fd bs (rt_world s) = (r, w) \<Longrightarrow> good interest data ls s (s\<lparr>rt_world := w\<rparr>)"
    and "sys_writev S fd bss (rt_world s) = (r, w) \<Longrightarrow> good interest data ls s (s\<lparr>rt_world := w\<rparr>)"
    using k [THEN keepsD] by (blast intro: good_world [OF ty])+
  show "sys_write S fd bs v = (Inr n, w) \<Longrightarrow> n \<le> length bs \<and> (bs \<noteq> [] \<longrightarrow> 0 < n)"
    using K unfolding kernel_ok_def write_bounds_def by blast
qed

lemma mask_safe:
  assumes K: "epoll_ctl_spec S interest" "ctl_silent S data" and ty: "typed interest ls s" and b: "rt_bfevents s p = Some b"
  shows "safe (good interest data ls s) (on_ev (disable_write S) p s)"
    and "safe (good interest data ls s) (on_ev (enable_write S) p s)"
proof -
  obtain e L where c: "p \<noteq> NULL" "bf_loop b \<in> ls" "rt_events s (bf_ev b) = Some e"
      "rt_loops s (bf_loop b) = Some L" "bf_ev b \<in> set (el_evlist L)"
    using typed_connE [OF ty b] by metis
  then have "bf_ev b \<in> evs (bf_loop b) s" by simp
  note m = good_mask [OF K ty c(2) this c(3)]
  show "safe (good interest data ls s) (on_ev (disable_write S) p s)"
    using m [of "\<lambda>x. x AND NOT EPOLLOUT"] c(1) b by (simp add: disable_write_def disable_events_def)
  show "safe (good interest data ls s) (on_ev (enable_write S) p s)"
    using m [of "\<lambda>x. x OR EPOLLOUT"] c(1) b by (simp add: enable_write_def enable_events_def)
qed

text \<open>The wrappers that set options of a socket.\<close>

lemma keeps_setnonblock:
  assumes "\<And>fd. keeps data (sys_fcntl_getfl S fd)" "\<And>fd fl. keeps data (sys_fcntl_setfl S fd fl)"
  shows "data (setnonblock S fd w) = data w"
  using assms by (auto simp: setnonblock_def keeps_def split: prod.splits) (metis snd_conv)

lemma keeps_nodelay:
  assumes "\<And>fd opt. keeps data (sys_setsockopt S fd opt)"
  shows "safe (\<lambda>w'. data w' = data w) (settcpnodelay S fd w)"
  using assms [THEN keepsD] by (auto simp: settcpnodelay_def perr_exit_def split: prod.splits sum.splits)

section \<open>The contract of an application\<close>

text \<open>
  The application's callbacks work on well-typed heaps and may end in an orderly way, or in one of
  the \<open>faults\<close> that the application admits for the system it runs on. The read
  callback, which gets the connection, may send, receive and close it; callbacks without
  arguments leave connections and loops alone. \<open>data\<close> is anything that output does not change.
\<close>

locale tcp_app =
  fixes user :: "'w sys \<Rightarrow> callback \<Rightarrow> ('w, 'm) servers_scheme \<Rightarrow> ('w, 'm) servers_scheme res"
    and faults :: "'w sys \<Rightarrow> fault set"
  assumes message: "kernel_ok S interest unread pending \<Longrightarrow> output_silent S data \<Longrightarrow> typed interest ls s \<Longrightarrow>
      rt_bfevents s p = Some b \<Longrightarrow> p \<notin> closing ls s \<Longrightarrow>
      safe_for (faults S) (good interest data ls s) (user S (User_obj f p) s)"
    and notice: "kernel_ok S interest unread pending \<Longrightarrow> output_silent S data \<Longrightarrow> typed interest ls s \<Longrightarrow>
      safe_for (faults S) (\<lambda>s'. good interest data ls s s' \<and> rt_bfevents s' = rt_bfevents s \<and> rt_loops s' = rt_loops s)
        (user S (User n) s)"
begin

abbreviation run where
  "run S \<equiv> run_user S (user S)"

lemma notice_safe:
  assumes "kernel_ok S interest unread pending" "output_silent S data" "typed interest ls s" "plain c"
  shows "safe_for (faults S) (\<lambda>s'. good interest data ls s s' \<and> rt_bfevents s' = rt_bfevents s \<and> rt_loops s' = rt_loops s)
    (call_cb (user S) c s)"
    and "safe_for (faults S) (\<lambda>s'. good interest data ls s s' \<and> rt_bfevents s' = rt_bfevents s \<and> rt_loops s' = rt_loops s)
    (call_cb (run S) c s)"
  using assms notice [OF assms(1-3)] by (auto simp: plain_def call_cb_def run_user_def good_refl)

text \<open>The event callback of a connection closes it, once.\<close>

lemma call_eventcb_safe:
  assumes K: "kernel_ok S interest unread pending" "output_silent S data" and ty: "typed interest ls s"
    and b: "rt_bfevents s p = Some b"
  shows "safe_for (faults S) (good interest data ls s) (call_eventcb (run S) p s)"
proof -
  have c: "p \<noteq> NULL" "conn_typed ls (closing ls s) p b s"
    using typed_heap [OF ty] b by (auto simp: heap_typed_def conn_typed_def)
  show ?thesis
  proof (cases "p \<in> closing ls s")
    case True
    then have "bf_eventcb b = None" using c by (simp add: conn_typed_def)
    then show ?thesis using c(1) b good_refl [OF ty] by (simp add: call_eventcb_def call_cb_def)
  next
    case False
    then have "bf_eventcb b = Some (Server_tcp_eventcb p)" using c by (simp add: conn_typed_def)
    then have eq: "call_eventcb (run S) p s = bindR (call_cb (user S) (sv_eventcb (rt_server s)) s) (handle_close p)"
      using c(1) b by (simp add: call_eventcb_def call_cb_def run_user_def tcp_eventcb_def)
    have "plain (sv_eventcb (rt_server s))" using typed_heap [OF ty] by (simp add: heap_typed_def server_typed_def)
    from notice_safe(1) [OF K ty this] show ?thesis
      unfolding eq
    proof (rule safe_bind)
      fix s1
      assume s1: "good interest data ls s s1 \<and> rt_bfevents s1 = rt_bfevents s \<and> rt_loops s1 = rt_loops s"
      then have "p \<notin> closing ls s1" using False by (simp add: closing_def)
      then have "safe (good interest data ls s1) (handle_close p s1)"
        using handle_close_good [of interest ls s1 p b] s1 b by (simp add: good_def)
      then show "safe_for (faults S) (good interest data ls s) (handle_close p s1)"
        using s1 by (blast intro: safe_widen safe_mono good_trans)
    qed
  qed
qed

text \<open>The read callback of a connection, if any.\<close>

lemma call_readcb_safe:
  assumes K: "kernel_ok S interest unread pending" "output_silent S data" and ty: "typed interest ls s"
    and b: "rt_bfevents s p = Some b"
  shows "safe_for (faults S) (good interest data ls s) (call_readcb (run S) p s)"
proof -
  have c: "p \<noteq> NULL" "p \<in> closing ls s \<Longrightarrow> bf_readcb b = None"
    using typed_heap [OF ty] b by (auto simp: heap_typed_def conn_typed_def)
  show ?thesis
  proof (cases "bf_readcb b")
    case None
    then show ?thesis using c(1) b good_refl [OF ty] by (simp add: call_readcb_def)
  next
    case (Some f)
    then have "p \<notin> closing ls s" using c(2) by auto
    then show ?thesis using c(1) b Some message [OF K ty b, of f] by (simp add: call_readcb_def run_user_def)
  qed
qed

lemma handle_read_turn_safe:
  assumes K: "kernel_ok S interest unread pending" and ty: "typed interest ls s" and b: "rt_bfevents s p = Some b"
  shows "safe_for (faults S) (\<lambda>(go, s'). good interest (\<lambda>_ _. 0) ls s s' \<and>
      (go \<longrightarrow> length (unread (rt_world s') (bf_fd b)) < length (unread (rt_world s) (bf_fd b))))
    (handle_read_turn S (run S) p s)" (is "safe_for _ ?Q _")
proof -
  let ?fd = "bf_fd b" and ?rv = "\<lambda>lens. sys_readv S (bf_fd b) lens (rt_world s)"
  have c: "p \<noteq> NULL" "buf_inv (bf_inbuff b)" using typed_connE [OF ty b] by blast+
  have spec: "readv_spec S unread" and out: "output_silent S (unread_len unread)"
    using K by (simp_all add: kernel_ok_def)
  have "readv_bounded ?rv" using readv_specD(1) [OF spec] by (auto simp: readv_bounded_def)
  from readiov_safe [OF c(2) this] obtain lens r w where rw: "?rv lens = (r, w)"
    and io: "safe (\<lambda>(n, ib, w'). w' = w \<and> buf_inv ib \<and> n = map_sum id length r) (readiov ?rv (bf_inbuff b))" by blast
  let ?s = "\<lambda>ib. put_bf p (b\<lparr>bf_inbuff := ib\<rparr>) (s\<lparr>rt_world := w\<rparr>)"
  have g: "good interest (\<lambda>_ _. 0) ls s (?s ib)" if "buf_inv ib" for ib by (rule readv_step [OF K ty b rw that])
  have ty1: "typed interest ls (?s ib)" if "buf_inv ib" for ib using g [OF that] by (simp add: good_def)
  have ev: "safe_for (faults S) ?Q (bindR (call_eventcb (run S) p (?s ib)) (\<lambda>s. Inr (False, s)))" if ib: "buf_inv ib" for ib
    by (rule safe_bind [OF call_eventcb_safe [OF K out ty1 [OF ib]]])
      (use good_trans [OF g [OF ib] good_weaken] in auto)
  have rd: "safe_for (faults S) ?Q (bindR (call_readcb (run S) p (?s ib)) (\<lambda>s. Inr (True, s)))"
    if ib: "buf_inv ib" and n: "map_sum id length r = Inr n" "0 < n" for ib n
  proof (rule safe_bind [OF call_readcb_safe [OF K out ty1 [OF ib]]])
    fix s2
    assume s2: "good interest (unread_len unread) ls (?s ib) s2"
    obtain bs where r: "r = Inr bs" "bs \<noteq> []" using n by (cases r) auto
    then have "unread (rt_world s) ?fd = bs @ unread w ?fd" using readv_specD(2) [OF spec] rw by auto
    moreover have "unread_len unread (rt_world s2) = unread_len unread w" using s2 by (simp add: good_def)
    then have "length (unread (rt_world s2) ?fd) = length (unread w ?fd)" by (rule fun_cong)
    ultimately show "safe_for (faults S) ?Q (Inr (True, s2))"
      using r(2) good_trans [OF g [OF ib] good_weaken [OF s2]] by simp
  qed simp
  show ?thesis
    using c(1) b unfolding handle_read_turn_def
    by (auto simp: split_beta Let_def intro!: safe_bind [OF safe_widen [OF io]] ev rd g split: sum.splits)
qed

lemma handle_read_safe:
  assumes K: "kernel_ok S interest unread pending" and ty: "typed interest ls s" and b: "rt_bfevents s p = Some b"
  shows "safe_for (faults S) (good interest (\<lambda>_ _. 0) ls s) (returned (handle_read S (run S) p s))"
  unfolding handle_read_def
proof (rule safe_returned, rule safe_repeat [where I = "good interest (\<lambda>_ _. 0) ls s"
      and m = "\<lambda>s. length (unread (rt_world s) (bf_fd b))"])
  show "good interest (\<lambda>_ _. 0) ls s s" by (rule good_refl [OF ty])
  fix s1
  assume s1: "good interest (\<lambda>_ _. 0) ls s s1"
  then obtain b1 where "rt_bfevents s1 p = Some b1" "bf_fd b1 = bf_fd b"
    using good_conn [OF s1 b] by blast
  with handle_read_turn_safe [OF K, of ls s1 p b1] s1
  show "safe_for (faults S) (\<lambda>(go, s'). if go then good interest (\<lambda>_ _. 0) ls s s' \<and>
        length (unread (rt_world s') (bf_fd b)) < length (unread (rt_world s1) (bf_fd b))
      else good interest (\<lambda>_ _. 0) ls s s') (handle_read_turn S (run S) p s1)"
    by (auto simp: good_def elim!: safe_mono intro: kept_trans)
qed

text \<open>Flushing: every turn that goes on has sent something.\<close>

abbreviation outlen :: "addr \<Rightarrow> ('w, 'm) servers_scheme \<Rightarrow> nat" where
  "outlen p s \<equiv> length (contents (bf_outbuff (the (rt_bfevents s p))))"

lemma handle_write_turn_safe:
  assumes K: "kernel_ok S interest unread pending" and ty: "typed interest ls s" and b: "rt_bfevents s p = Some b"
  shows "safe_for (faults S) (\<lambda>(go, s'). good interest (unread_len unread) ls s s' \<and> (go \<longrightarrow> outlen p s' < outlen p s))
    (handle_write_turn S (run S) p s)" (is "safe_for _ ?Q _")
proof -
  let ?ob = "bf_outbuff b"
  have c: "p \<noteq> NULL" "buf_inv (bf_inbuff b)" "buf_inv ?ob" "plain (bf_writecb b)"
    using typed_connE [OF ty b] by blast+
  have out: "output_silent S (unread_len unread)" using K by (simp add: kernel_ok_def)
  show ?thesis
  proof (cases "contents ?ob = []")
    case True
    then show ?thesis using c b good_refl [OF ty] by (simp add: handle_write_turn_def readbytes_zero)
  next
    case False
    have pk: "peek (readbytes ?ob) ?ob = Inr (contents ?ob)"
      using peek_ok [OF c(3), of "readbytes ?ob"] by (simp add: unat_readbytes [OF c(3)])
    obtain r w where w: "sys_write S (bf_fd b) (contents ?ob) (rt_world s) = (r, w)" by fastforce
    note wr = kernel_write(1) [OF K out ty w]
    let ?s = "s\<lparr>rt_world := w\<rparr>"
    have ty1: "typed interest ls ?s" using wr by (simp add: good_def)
    show ?thesis
    proof (cases r)
      case (Inl e)
      have "safe_for (faults S) ?Q (bindR (call_eventcb (run S) p ?s) (\<lambda>s. Inr (False, s)))"
        by (rule safe_bind [OF call_eventcb_safe [OF K out ty1, of p b]]) (use b good_trans [OF wr] in auto)
      then show ?thesis
        using c b pk w Inl False wr by (simp add: handle_write_turn_def readbytes_zero call_def)
    next
      case (Inr n)
      have n: "0 < n" "n \<le> length (contents ?ob)" using kernel_write(3) [OF K out ty w [unfolded Inr]] False by auto
      have len: "unat (of_nat n :: size_t) = n"
        using n contents_at_most [OF c(3)] by (intro unat_of_nat_size_t) (simp add: VECTOR_MAX_def)
      let ?o2 = "retrieve (of_nat n) ?ob"
      have o2: "buf_inv ?o2" "contents ?o2 = drop n (contents ?ob)"
        using retrieve_ok [OF c(3), of "of_nat n"] len by simp_all
      let ?s2 = "put_bf p (b\<lparr>bf_outbuff := ?o2\<rparr>) ?s"
      have "good interest (unread_len unread) ls ?s (put_bf p (b\<lparr>bf_inbuff := bf_inbuff b, bf_outbuff := ?o2\<rparr>) ?s)"
        by (rule good_buffers [OF ty1]) (use b c o2 in simp_all)
      then have g: "good interest (unread_len unread) ls s ?s2" using good_trans [OF wr] by simp
      have ty2: "typed interest ls ?s2" using g by (simp add: good_def)
      have "safe_for (faults S) ?Q (bindR (call_cb (run S) (bf_writecb b) ?s2) (\<lambda>s. Inr (True, s)))"
      proof (rule safe_bind [OF notice_safe(2) [OF K out ty2 c(4)]])
        fix s3
        assume "good interest (unread_len unread) ls ?s2 s3 \<and> rt_bfevents s3 = rt_bfevents ?s2 \<and> rt_loops s3 = rt_loops ?s2"
        then show "safe_for (faults S) ?Q (Inr (True, s3))" using good_trans [OF g] b o2(2) n by simp
      qed
      then show ?thesis
        using c b pk w Inr False n by (simp add: handle_write_turn_def readbytes_zero call_def call_writecb_def)
    qed
  qed
qed

lemma handle_write_safe:
  assumes K: "kernel_ok S interest unread pending" and ty: "typed interest ls s" and b: "rt_bfevents s p = Some b"
  shows "safe_for (faults S) (good interest (unread_len unread) ls s) (returned (handle_write S (run S) p s))"
proof -
  let ?G = "good interest (unread_len unread) ls s"
  have "\<exists>r. repeat_turn (handle_write_turn S (run S) p) s = Some r \<and> safe_for (faults S) ?G r"
  proof (rule safe_repeat [where I = ?G and m = "outlen p"])
    show "?G s" by (rule good_refl [OF ty])
    fix s1
    assume s1: "?G s1"
    then obtain b1 where "rt_bfevents s1 p = Some b1" using good_conn [OF s1 b] by blast
    with handle_write_turn_safe [OF K, of ls s1 p b1] s1
    show "safe_for (faults S) (\<lambda>(go, s'). if go then ?G s' \<and> outlen p s' < outlen p s1 else ?G s') (handle_write_turn S (run S) p s1)"
      by (auto simp: good_def elim!: safe_mono intro: kept_trans)
  qed
  then obtain r where r: "repeat_turn (handle_write_turn S (run S) p) s = Some r" "safe_for (faults S) ?G r" by blast
  have "safe_for (faults S) ?G (bindR r (\<lambda>s. bindR (deref (rt_bfevents s) p) (\<lambda>b.
            if readbytes (bf_outbuff b) = 0 then on_ev (disable_write S) p s else Inr s)))"
  proof (rule safe_bind [OF r(2)])
    fix s1
    assume s1: "?G s1"
    then obtain b1 where b1: "rt_bfevents s1 p = Some b1" using good_conn [OF s1 b] by blast
    have ty1: "typed interest ls s1" using s1 by (simp add: good_def)
    have "p \<noteq> NULL" using typed_connE [OF ty1 b1] by blast
    moreover have "safe_for (faults S) ?G (on_ev (disable_write S) p s1)"
      by (rule safe_mono [OF safe_widen [OF mask_safe(1) [OF _ _ ty1 b1]]])
        (use K good_trans [OF s1] in \<open>auto simp: kernel_ok_def output_silent_def\<close>)
    ultimately show "safe_for (faults S) ?G (bindR (deref (rt_bfevents s1) p) (\<lambda>b.
            if readbytes (bf_outbuff b) = 0 then on_ev (disable_write S) p s1 else Inr s1))"
      using b1 s1 by simp
  qed
  then show ?thesis using r(1) by (simp add: handle_write_def)
qed

end

end
