(* ===== verification/Server_Loop.thy ===== *)
theory Server_Loop
  imports Server_Safety
begin

text \<open>
  The turns of a loop of the server are memory safe: the handlers of every event that epoll may
  report, one after the other, and the deletions at the end of the turn.
\<close>

context tcp_app
begin

section \<open>The other handlers\<close>

lemma read_eventfd_safe:
  assumes K: "kernel_ok S interest unread pending" and ty: "typed interest ls s" and l: "l \<in> ls"
  shows "safe_for (faults S) (good interest (\<lambda>_ _. 0) ls s) (read_eventfd S l s)"
proof -
  obtain L where L: "l \<noteq> NULL" "rt_loops s l = Some L" using typed_loopE [OF ty l] by blast
  have n: "MAX_EVENTS \<le> el_nevents L" using typed_parts [OF typed_heap [OF ty]] l L(2) by (auto simp: parts_ok_def)
  obtain r w where w: "sys_read S (el_eventfd L) 8 (rt_world s) = (r, w)" by fastforce
  let ?s = "s\<lparr>rt_world := w\<rparr>"
  have "interest w = interest (rt_world s)"
    using K keepsD [of interest "sys_read S (el_eventfd L) 8"] w by (auto simp: kernel_ok_def interest_kept_def)
  then have g: "good interest (\<lambda>_ _. 0) ls s ?s" by (intro good_world [OF ty]) simp_all
  have "good interest (\<lambda>_ _. 0) ls ?s (put_loop l (L\<lparr>el_shutdown := True\<rparr>) ?s)"
    by (rule good_loop [of _ _ _ _ L]) (use g L n in \<open>simp_all add: good_def el_core_def\<close>)
  from good_trans [OF g this] show ?thesis
    using L w by (auto simp: read_eventfd_def call_def upd_loop_def split: sum.splits)
qed

text \<open>Accepting: every turn that goes on has taken a connection from the queue.\<close>

lemma handle_accept_turn_safe:
  assumes K: "kernel_ok S interest unread pending" and ty: "typed interest ls s"
    and a: "a \<noteq> NULL" "rt_acceptors s a = Some A" "ac_lfd A = Some lfd" "ac_cb A = Some Server_acceptcb"
  shows "safe_for (faults S) (\<lambda>(go, s'). good interest (\<lambda>_ _. 0) ls s s' \<and> rt_acceptors s' = rt_acceptors s \<and>
      (go \<longrightarrow> pending (rt_world s') lfd < pending (rt_world s) lfd)) (handle_accept_turn S (run S) a s)" (is "safe_for _ ?Q _")
proof -
  have S: "epoll_ctl_spec S interest" "ctl_silent S pending" using K by (simp_all add: kernel_ok_def accept_counts_def)
  have ki: "keeps interest (sys_accept S fd)" "keeps interest (sys_setsockopt S fd opt)"
      "keeps interest (sys_fcntl_getfl S fd)" "keeps interest (sys_fcntl_setfl S fd fl)" for fd opt fl
    using K by (simp_all add: kernel_ok_def interest_kept_def)
  have kp: "keeps pending (sys_setsockopt S fd opt)"
      "keeps pending (sys_fcntl_getfl S fd)" "keeps pending (sys_fcntl_setfl S fd fl)" for fd opt fl
    using K by (simp_all add: kernel_ok_def accept_counts_def)
  obtain r w where w: "sys_accept S lfd (rt_world s) = (r, w)" by fastforce
  have iw: "interest w = interest (rt_world s)" by (rule keepsD [OF ki(1) w])
  show ?thesis
  proof (cases r)
    case (Inl e)
    have "good interest (\<lambda>_ _. 0) ls s (s\<lparr>rt_world := w\<rparr>)" by (rule good_world [OF ty iw]) simp
    then show ?thesis using a w Inl by (simp add: handle_accept_turn_def member_def call_def)
  next
    case (Inr cfd)
    let ?w = "setnonblock S cfd w"
    have less: "pending w lfd < pending (rt_world s) lfd"
      using K w Inr unfolding kernel_ok_def accept_counts_def by blast
    have "safe_for (faults S) ?Q (bindR (settcpnodelay S cfd ?w) (\<lambda>w'. bindR (acceptcb S cfd (s\<lparr>rt_world := w'\<rparr>)) (\<lambda>s. Inr (True, s))))"
    proof (rule safe_bind)
      show "safe_for (faults S) (\<lambda>w'. (interest w', pending w') = (interest ?w, pending ?w)) (settcpnodelay S cfd ?w)"
        by (rule safe_widen [OF keeps_nodelay]) (use ki(2) kp(1) in \<open>simp add: keeps_def\<close>)
      fix w'
      assume w': "(interest w', pending w') = (interest ?w, pending ?w)"
      have "interest ?w = interest w" "pending ?w = pending w"
        using keeps_setnonblock [of interest S] keeps_setnonblock [of pending S] ki kp by simp_all
      then have w2: "interest w' = interest (rt_world s)" "pending w' = pending w" using w' iw by simp_all
      let ?s = "s\<lparr>rt_world := w'\<rparr>"
      have g: "good interest (\<lambda>_ _. 0) ls s ?s" by (rule good_world [OF ty w2(1)]) simp
      then have "typed interest ls ?s" by (simp add: good_def)
      from safe_widen [OF acceptcb_good [OF S this]] show "safe_for (faults S) ?Q (bindR (acceptcb S cfd ?s) (\<lambda>s. Inr (True, s)))"
      proof (rule safe_bind)
        fix s1
        assume s1: "good interest pending ls ?s s1 \<and> rt_acceptors s1 = rt_acceptors ?s"
        then have "pending (rt_world s1) = pending w" using w2(2) by (simp add: good_def)
        then show "safe_for (faults S) ?Q (Inr (True, s1))" using s1 less good_trans [OF g good_weaken [OF conjunct1 [OF s1]]] by simp
      qed
    qed
    then show ?thesis
      using a w Inr by (simp add: handle_accept_turn_def member_def call_def via_world_def bindR_assoc run_user_def)
  qed
qed

lemma handle_accept_safe:
  assumes K: "kernel_ok S interest unread pending" and ty: "typed interest ls s" and a: "acceptor_typed a s"
  shows "safe_for (faults S) (good interest (\<lambda>_ _. 0) ls s) (returned (handle_accept S (run S) a s))"
proof -
  obtain A lfd where A: "a \<noteq> NULL" "rt_acceptors s a = Some A" "ac_lfd A = Some lfd" "ac_cb A = Some Server_acceptcb"
    using a by (auto simp: acceptor_typed_def)
  let ?I = "\<lambda>s'. good interest (\<lambda>_ _. 0) ls s s' \<and> rt_acceptors s' = rt_acceptors s"
  show ?thesis
    unfolding handle_accept_def
  proof (rule safe_returned, rule safe_repeat [where I = ?I and m = "\<lambda>s. pending (rt_world s) lfd"])
    show "?I s" using good_refl [OF ty] by simp
    fix s1
    assume s1: "?I s1"
    then have "typed interest ls s1" by (simp add: good_def)
    from handle_accept_turn_safe [OF K this A(1) _ A(3,4)] s1 A(2)
    show "safe_for (faults S) (\<lambda>(go, s'). if go then ?I s' \<and> pending (rt_world s') lfd < pending (rt_world s1) lfd
        else good interest (\<lambda>_ _. 0) ls s s') (handle_accept_turn S (run S) a s1)"
      by (auto elim!: safe_mono intro: good_trans)
  qed
qed

section \<open>A turn\<close>

abbreviation step where
  "step S \<equiv> run_event S (user S)"

lemma callback_safe:
  assumes K: "kernel_ok S interest unread pending" and ty: "typed interest ls s" and l: "l \<in> ls"
    and q: "q \<in> evs l s" "rt_events s q = Some e" and c: "c = ev_readcb e \<or> c = ev_writecb e \<or> c = ev_eventcb e"
  shows "safe_for (faults S) (good interest (\<lambda>_ _. 0) ls s) (call_cb (step S) c s)"
proof -
  have out: "output_silent S (unread_len unread)" using K by (simp add: kernel_ok_def)
  have "ev_role l q e s" using heap_typed_ev [OF typed_heap [OF ty] l q(1)] q(2) by (auto simp: ev_typed_def)
  then show ?thesis
  proof (cases rule: ev_roleE)
    case other
    then show ?thesis
      using c good_refl [OF ty] read_eventfd_safe [OF K ty l] handle_accept_safe [OF K ty]
      by (auto simp: call_cb_def run_event_def)
  next
    case (conn p b)
    have "safe_for (faults S) (good interest (\<lambda>_ _. 0) ls s) (call_eventcb (run S) p s)"
      by (rule safe_mono [OF call_eventcb_safe [OF K out ty conn(4)] good_weaken])
    moreover have "safe_for (faults S) (good interest (\<lambda>_ _. 0) ls s) (returned (handle_write S (run S) p s))"
      by (rule safe_mono [OF handle_write_safe [OF K ty conn(4)] good_weaken])
    ultimately show ?thesis
      using c conn handle_read_safe [OF K ty conn(4)] by (auto simp: call_cb_def run_event_def handle_event_def)
  qed
qed

text \<open>An event between the handlers of a turn.\<close>

abbreviation reported where
  "reported l q s \<equiv> q \<in> evs l s \<and> (\<exists>e m. rt_events s q = Some e \<and> ev_revents e = Some m)"

lemma good_reported:
  assumes "good interest data ls s s'" "l \<in> ls" "reported l q s"
  shows "reported l q s'"
proof -
  obtain e m where e: "rt_events s q = Some e" "ev_revents e = Some m" using assms(3) by blast
  have "evs l s \<subseteq> evs l s'" using assms(1,2) by (simp add: good_def kept_def grows_def)
  moreover obtain e' where "rt_events s' q = Some e'" "ev_revents e' = ev_revents e"
    using assms(1) e(1) unfolding good_def kept_def by blast
  ultimately show ?thesis using assms(3) e(2) by auto
qed

lemma call_if_safe:
  assumes K: "kernel_ok S interest unread pending" and ty: "typed interest ls s" and l: "l \<in> ls"
    and q: "reported l q s" and cb: "cb = ev_readcb \<or> cb = ev_writecb \<or> cb = ev_eventcb"
  shows "safe_for (faults S) (\<lambda>s'. good interest (\<lambda>_ _. 0) ls s s' \<and> reported l q s') (call_if (step S) test cb q s)"
proof -
  obtain e m where e: "rt_events s q = Some e" "ev_revents e = Some m" using q by blast
  have "q \<noteq> NULL" using heap_typed_ev [OF typed_heap [OF ty] l] q by (auto simp: ev_typed_def)
  moreover have "safe_for (faults S) (good interest (\<lambda>_ _. 0) ls s) (call_cb (step S) (cb e) s)"
    by (rule callback_safe [OF K ty l _ e(1)]) (use q cb in auto)
  then have "safe_for (faults S) (\<lambda>s'. good interest (\<lambda>_ _. 0) ls s s' \<and> reported l q s') (call_cb (step S) (cb e) s)"
    by (rule safe_mono) (use good_reported [OF _ l q] in blast)
  ultimately show ?thesis using e q good_refl [OF ty] by (simp add: call_if_def)
qed

lemma handle_cb_safe:
  assumes K: "kernel_ok S interest unread pending" and ty: "typed interest ls s" and l: "l \<in> ls" and q: "reported l q s"
  shows "safe_for (faults S) (good interest (\<lambda>_ _. 0) ls s) (handle_cb (step S) q s)"
proof -
  let ?P = "\<lambda>s'. good interest (\<lambda>_ _. 0) ls s s' \<and> reported l q s'"
  have after: "safe_for (faults S) ?P (call_if (step S) test cb q s1)"
    if s1: "?P s1" and cb: "cb = ev_readcb \<or> cb = ev_writecb \<or> cb = ev_eventcb" for s1 test cb
  proof -
    have "typed interest ls s1" using s1 by (simp add: good_def)
    then show ?thesis
      by (rule safe_mono [OF call_if_safe [OF K _ l conjunct2 [OF s1] cb]]) (use good_trans s1 in blast)
  qed
  have "safe_for (faults S) ?P (handle_cb (step S) q s)"
    unfolding handle_cb_def by (intro safe_bind [OF after] after) (use q good_refl [OF ty] in auto)
  then show ?thesis by (rule safe_mono) simp
qed

text \<open>All the events of a report. A loop that is shut down stays so.\<close>

lemma handle_events_safe:
  assumes K: "kernel_ok S interest unread pending" and l: "l \<in> ls"
  shows "typed interest ls s \<Longrightarrow> snd ` set es \<subseteq> evs l s \<Longrightarrow>
    safe_for (faults S) (\<lambda>s'. typed interest ls s' \<and> (stopped l s \<longrightarrow> stopped l s')) (handle_events (step S) es s)"
proof (induction es arbitrary: s)
  case (Cons x es)
  obtain m q where x: "x = (m, q)" by fastforce
  obtain s1 e where s1: "setrevents q m s = Inr s1" "typed interest ls s1" "grows ls s s1"
      "rt_events s1 q = Some e" "ev_revents e = Some m" "rt_loops s1 = rt_loops s"
    using setrevents_typed [OF Cons.prems(1) l, of q m] Cons.prems(2) x by auto
  have "evs l s \<subseteq> evs l s1" using s1(3) l by (simp add: grows_def)
  then have q: "reported l q s1" and es: "snd ` set es \<subseteq> evs l s1" using Cons.prems(2) x s1(4,5) by auto
  have st: "stopped l s1 = stopped l s" by (simp add: stopped_def s1(6))
  have "safe_for (faults S) (\<lambda>s'. typed interest ls s' \<and> (stopped l s \<longrightarrow> stopped l s')) (bindR (handle_cb (step S) q s1) (handle_events (step S) es))"
  proof (rule safe_bind [OF handle_cb_safe [OF K s1(2) l q]])
    fix s2
    assume "good interest (\<lambda>_ _. 0) ls s1 s2"
    then have s2: "typed interest ls s2" "evs l s1 \<subseteq> evs l s2" "stopped l s1 \<longrightarrow> stopped l s2"
      using l by (simp_all add: good_def kept_def grows_def)
    have "snd ` set es \<subseteq> evs l s2" using s2(2) es by blast
    from Cons.IH [OF s2(1) this]
    show "safe_for (faults S) (\<lambda>s'. typed interest ls s' \<and> (stopped l s \<longrightarrow> stopped l s')) (handle_events (step S) es s2)"
      by (rule safe_mono) (use s2(3) st in blast)
  qed
  then show ?case using x s1(1) by simp
qed simp

lemma resize_events_safe:
  assumes ty: "typed interest ls s" and l: "l \<in> ls"
  shows "safe_for (faults S) (\<lambda>s'. typed interest ls s' \<and> (stopped l s \<longrightarrow> stopped l s')) (resize_events l n s)"
proof -
  obtain L where L: "l \<noteq> NULL" "rt_loops s l = Some L" using typed_loopE [OF ty l] by blast
  have n: "MAX_EVENTS \<le> el_nevents L" using typed_parts [OF typed_heap [OF ty]] l L(2) by (auto simp: parts_ok_def)
  let ?L = "if n = el_nevents L then L\<lparr>el_nevents := el_nevents L * 2\<rparr> else L"
  have "good interest (\<lambda>_ _. 0) ls s (put_loop l ?L s)"
    by (rule good_loop [OF ty L(2)]) (use n in \<open>auto simp: el_core_def\<close>)
  then show ?thesis using L by (simp add: resize_events_def upd_loop_def good_def kept_def)
qed

lemma loop_turn_safe:
  assumes K: "kernel_ok S interest unread pending" and ty: "typed interest ls s" and l: "l \<in> ls"
  shows "safe_for (faults S) (\<lambda>(_, s'). typed interest ls s') (loop_turn S (step S) (sv_del S (user S)) l s)"
proof -
  obtain L where L: "l \<noteq> NULL" "rt_loops s l = Some L" using typed_loopE [OF ty l] by blast
  have n: "MAX_EVENTS \<le> el_nevents L" using typed_parts [OF typed_heap [OF ty]] l L(2) by (auto simp: parts_ok_def)
  obtain r w where w: "sys_epoll_wait S (el_epfd L) MAX_EVENTS (el_timeout L) (rt_world s) = (r, w)" by fastforce
  have S: "epoll_ctl_spec S interest" "close_spec S interest" "epoll_wait_spec S interest"
    using K by (simp_all add: kernel_ok_def)
  have iw: "interest w = interest (rt_world s)"
    and es: "r = Inr es \<Longrightarrow> length es \<le> MAX_EVENTS \<and> (\<forall>(m, p) \<in> set es. \<exists>fd m'. interest (rt_world s) (el_epfd L) fd = Some (m', p))"
    for es using S(3) w unfolding epoll_wait_spec_def by blast+
  let ?s = "s\<lparr>rt_world := w\<rparr>"
  have "good interest (\<lambda>_ _. 0) ls s ?s" by (rule good_world [OF ty iw]) simp
  then have ty1: "typed interest ls ?s" by (simp add: good_def)
  show ?thesis
  proof (cases r)
    case (Inl e)
    then show ?thesis using L w ty ty1 by (simp add: loop_turn_def call_def)
  next
    case (Inr evl)
    have "q \<in> evs l s" if "(m, q) \<in> set evl" for m q
      using heap_typed_watched [OF typed_heap [OF ty] l] es [OF Inr] that L(2) unfolding watched_def by fastforce
    then have sub: "snd ` set evl \<subseteq> evs l ?s" by auto
    have flush: "safe_for (faults S) (\<lambda>(_, s'). typed interest ls s') (bindR (flush_delque (sv_del S (user S)) l s2) (\<lambda>s. Inr (True, s)))"
      if "typed interest ls s2" for s2
      using flush_delque_typed [OF S(1,2) that l, of "run S"] by auto
    have "safe_for (faults S) (\<lambda>(_, s'). typed interest ls s') (bindR (handle_events (step S) evl ?s) (\<lambda>s.
        bindR (resize_events l (length evl) s) (\<lambda>s. bindR (flush_delque (sv_del S (user S)) l s) (\<lambda>s. Inr (True, s)))))"
      by (rule safe_bind [OF handle_events_safe [OF K l ty1 sub]], rule safe_bind [OF resize_events_safe [OF conjunct1 l]])
        (use flush in auto)
    then show ?thesis using L w ty Inr n es [OF Inr] by (simp add: loop_turn_def call_def)
  qed
qed

end

end
