(* ===== verification/Echo_Server.thy ===== *)
theory Echo_Server
  imports Server_Loop
begin

text \<open>
  The echo servers that come with the library (\<^verbatim>\<open>bench/moonnet_test.cpp\<close>,
  \<^verbatim>\<open>bench/moonnet_dynamic_test.cpp\<close>, \<^verbatim>\<open>example/tcpserver.cpp\<close>) as an application of it.
\<close>

section \<open>The program\<close>

text \<open>
  The read callback: it gets all that has come in as a string and sends that. The write callback,
  where there is one, prints a line, which is not modelled.
\<close>

definition echo_handle_read ::
  "'w sys \<Rightarrow> addr \<Rightarrow> ('w, 'm) conns_scheme \<Rightarrow> ('w, 'm) conns_scheme res" where
  "echo_handle_read S bev s =
     bindR (receive_all bev s) (\<lambda>(str, s). sendout_string S (\<lambda>_. Inr) str bev s)"

definition echo_user ::
  "'w sys \<Rightarrow> callback \<Rightarrow> ('w, 'm) servers_scheme \<Rightarrow> ('w, 'm) servers_scheme res" where
  "echo_user S c s = (case c of User_obj _ p \<Rightarrow> echo_handle_read S p s | _ \<Rightarrow> Inr s)"

section \<open>It keeps the contract\<close>

text \<open>
  No write fails because it would block. On another system \<^verbatim>\<open>sendout\<close> may go on from a pointer in
  front of the string, which is then the one memory fault of the application.
\<close>

definition write_ready :: "'w sys \<Rightarrow> bool" where
  "write_ready S \<longleftrightarrow> (\<forall>fd bs w. fst (sys_write S fd bs w) \<noteq> Inl EAGAIN)"

definition sendout_faults :: "'w sys \<Rightarrow> fault set" where
  "sendout_faults S = (if write_ready S then {} else {Underrun})"

lemma sendout_blocked: "sys_write S fd bs w = (Inl EAGAIN, w') \<Longrightarrow> Underrun \<in> sendout_faults S"
  by (auto simp: sendout_faults_def write_ready_def) (metis fst_conv)

lemma good_outbuff:
  assumes ty: "typed interest ls s" and b: "rt_bfevents s p = Some b" and ob: "buf_inv ob"
  shows "good interest data ls s (put_bf p (b\<lparr>bf_outbuff := ob\<rparr>) s)"
proof -
  have "buf_inv (bf_inbuff b)" using typed_connE [OF ty b] by blast
  from good_buffers [OF ty b this ob] show ?thesis by simp
qed

lemma writeable_typed:
  assumes ty: "typed interest ls s" and b: "rt_bfevents s p = Some b"
  shows "\<exists>wr. bf_writeable p s = Inr wr"
proof -
  obtain e where "p \<noteq> NULL" "bf_ev b \<noteq> NULL" "rt_events s (bf_ev b) = Some e"
    using typed_connE [OF ty b] by metis
  then show ?thesis using b by (simp add: bf_writeable_def writeable_def)
qed

lemma sendout_queue_safe:
  assumes K: "kernel_ok S interest unread pending" "output_silent S data" and ty: "typed interest ls s"
    and b: "rt_bfevents s p = Some b" and r: "length rest \<le> VECTOR_MAX"
  shows "safe (good interest data ls s) (sendout_queue S rest p s)"
proof (cases "rest = []")
  case True
  then show ?thesis using good_refl [OF ty] by (simp add: sendout_queue_def)
next
  case False
  have c: "p \<noteq> NULL" "buf_inv (bf_outbuff b)" using typed_connE [OF ty b] by blast+
  have ctl: "epoll_ctl_spec S interest" "ctl_silent S data"
    using K by (simp_all add: kernel_ok_def output_silent_def)
  have "safe (good interest data ls s) (bindR (append rest (bf_outbuff b)) (\<lambda>ob.
      let s = put_bf p (b\<lparr>bf_outbuff := ob\<rparr>) s
      in bindR (bf_writeable p s) (\<lambda>wr. if wr then Inr s else on_ev (enable_write S) p s)))"
  proof (rule safe_bind [OF append_safe [OF c(2) r]])
    fix ob
    assume ob: "buf_inv ob"
    let ?s = "put_bf p (b\<lparr>bf_outbuff := ob\<rparr>) s"
    have g: "good interest data ls s ?s" by (rule good_outbuff [OF ty b ob])
    then have ty1: "typed interest ls ?s" by (simp add: good_def)
    have b1: "rt_bfevents ?s p = Some (b\<lparr>bf_outbuff := ob\<rparr>)" by (simp add: put_bf_def)
    obtain wr where wr: "bf_writeable p ?s = Inr wr" using writeable_typed [OF ty1 b1] by blast
    have "safe (good interest data ls s) (on_ev (enable_write S) p ?s)"
      by (rule safe_mono [OF mask_safe(2) [OF ctl ty1 b1]]) (rule good_trans [OF g])
    then show "safe (good interest data ls s) (let s = ?s
        in bindR (bf_writeable p s) (\<lambda>wr. if wr then Inr s else on_ev (enable_write S) p s))"
      using g wr by (simp add: Let_def)
  qed
  then show ?thesis using c(1) b False by (simp add: sendout_queue_def)
qed

lemma sendout_direct_safe:
  assumes K: "kernel_ok S interest unread pending" "output_silent S data" and ty: "typed interest ls s"
    and b: "rt_bfevents s p = Some b"
  shows "safe (\<lambda>(r, s'). good interest data ls s s' \<and>
      (\<forall>blocked n. r = Some (blocked, n) \<longrightarrow> n \<le> length d \<and> (blocked \<longrightarrow> Underrun \<in> sendout_faults S)))
    (sendout_direct S (\<lambda>_. Inr) d p s)"
proof -
  have p: "p \<noteq> NULL" using typed_connE [OF ty b] by blast
  obtain wr where wr: "bf_writeable p s = Inr wr" using writeable_typed [OF ty b] by blast
  obtain r w where w: "sys_write S (bf_fd b) d (rt_world s) = (r, w)" by fastforce
  show ?thesis
    using p b wr w good_refl [OF ty] kernel_write(1) [OF K ty w] sendout_blocked
    by (cases r) (auto simp: sendout_direct_def call_def EWOULDBLOCK_def split: option.splits)
qed

lemma sendout_vec_safe:
  assumes K: "kernel_ok S interest unread pending" "output_silent S data" and ty: "typed interest ls s"
    and b: "rt_bfevents s p = Some b" and n: "relen \<le> length d"
    and under: "blocked \<Longrightarrow> Underrun \<in> F"
  shows "safe_for F (\<lambda>(r, s'). good interest data ls s s' \<and> (\<forall>rest. r = Some rest \<longrightarrow> length rest \<le> length d))
    (sendout_vec S (\<lambda>_. Inr) before d blocked relen p s)"
proof -
  let ?ob = "bf_outbuff b"
  have c: "p \<noteq> NULL" "buf_inv ?ob" using typed_connE [OF ty b] by blast+
  have pk: "peek (readbytes ?ob) ?ob = Inr (contents ?ob)"
    using peek_ok [OF c(2), of "readbytes ?ob"] by (simp add: unat_readbytes [OF c(2)])
  let ?src = "if blocked then the before # d else d"
  obtain r w where w: "sys_writev S (bf_fd b) [contents ?ob, take relen ?src] (rt_world s) = (r, w)" by fastforce
  note g = kernel_write(2) [OF K ty w]
  let ?s = "s\<lparr>rt_world := w\<rparr>"
  have ty1: "typed interest ls ?s" using g by (simp add: good_def)
  have put: "good interest data ls s (put_bf p (b\<lparr>bf_outbuff := ob\<rparr>) ?s)" if "buf_inv ob" for ob
    by (rule good_trans [OF g good_outbuff [OF ty1 _ that]]) (simp add: b)
  note bufs = put [OF retrieve_ok(1) [OF c(2)]] put [OF reset_ok(1) [OF c(2)]]
  show ?thesis
    using c b pk w n g bufs under
    by (cases r; cases before; cases blocked) (auto simp: sendout_vec_def Let_def call_def upd_bf_def call_writecb_def call_cb_def put_bf_def
        split: option.splits)
qed

lemma sendout_safe:
  assumes K: "kernel_ok S interest unread pending" "output_silent S data" and ty: "typed interest ls s"
    and b: "rt_bfevents s p = Some b" and d: "length d \<le> VECTOR_MAX"
  shows "safe_for (sendout_faults S) (good interest data ls s) (sendout S (\<lambda>_. Inr) before d p s)"
  unfolding sendout_eq
proof (rule safe_bind [OF safe_widen [OF sendout_direct_safe [OF K ty b, of d]]], clarify)
  fix r :: "(bool \<times> nat) option" and s1
  assume s1: "good interest data ls s s1" "\<forall>blocked n. r = Some (blocked, n) \<longrightarrow>
      n \<le> length d \<and> (blocked \<longrightarrow> Underrun \<in> sendout_faults S)"
  obtain b1 where b1: "rt_bfevents s1 p = Some b1" using good_conn [OF s1(1) b] by blast
  have ty1: "typed interest ls s1" using s1(1) by (simp add: good_def)
  have queue: "safe_for (sendout_faults S) (good interest data ls s) (case rest of None \<Rightarrow> Inr s2 | Some rest \<Rightarrow> sendout_queue S rest p s2)"
    if s2: "good interest data ls s1 s2" "\<forall>x. rest = Some x \<longrightarrow> length x \<le> length d" for rest s2
  proof -
    obtain b2 where b2: "rt_bfevents s2 p = Some b2" using good_conn [OF s2(1) b1] by blast
    have g: "good interest data ls s s2" by (rule good_trans [OF s1(1) s2(1)])
    then have ty2: "typed interest ls s2" by (simp add: good_def)
    show ?thesis
      using g s2(2) d by (cases rest) (auto intro!: safe_mono [OF safe_widen [OF sendout_queue_safe [OF K ty2 b2]]] good_trans [OF g])
  qed
  show "safe_for (sendout_faults S) (good interest data ls s) (case r of None \<Rightarrow> Inr s1
      | Some (blocked, relen) \<Rightarrow> bindR (if relen > 0 then sendout_vec S (\<lambda>_. Inr) before d blocked relen p s1
          else Inr (Some [], s1)) (\<lambda>(rest, s). case rest of None \<Rightarrow> Inr s | Some rest \<Rightarrow> sendout_queue S rest p s))"
  proof (cases r)
    case (Some x)
    then obtain blocked relen where x: "r = Some (blocked, relen)" "relen \<le> length d"
        "blocked \<Longrightarrow> Underrun \<in> sendout_faults S" using s1(2) by (cases x) auto
    have "safe_for (sendout_faults S) (\<lambda>(rest, s'). good interest data ls s1 s' \<and> (\<forall>x. rest = Some x \<longrightarrow> length x \<le> length d))
        (if relen > 0 then sendout_vec S (\<lambda>_. Inr) before d blocked relen p s1 else Inr (Some [], s1))"
      using sendout_vec_safe [OF K ty1 b1 x(2,3)] good_refl [OF ty1] by simp
    then have "safe_for (sendout_faults S) (good interest data ls s) (bindR (if relen > 0 then sendout_vec S (\<lambda>_. Inr) before d blocked relen p s1
          else Inr (Some [], s1)) (\<lambda>(rest, s). case rest of None \<Rightarrow> Inr s | Some rest \<Rightarrow> sendout_queue S rest p s))"
      by (rule safe_bind) (use queue in auto)
    then show ?thesis using x(1) by simp
  qed (simp add: s1(1))
qed

lemma echo_handle_read_safe:
  assumes K: "kernel_ok S interest unread pending" "output_silent S data" and ty: "typed interest ls s"
    and b: "rt_bfevents s p = Some b"
  shows "safe_for (sendout_faults S) (good interest data ls s) (echo_handle_read S p s)"
proof -
  let ?ib = "bf_inbuff b"
  have c: "p \<noteq> NULL" "buf_inv ?ib" "buf_inv (bf_outbuff b)" using typed_connE [OF ty b] by blast+
  obtain ib where ib: "remove (readbytes ?ib) ?ib = Inr (contents ?ib, ib)" "buf_inv ib"
    using remove_ok [OF c(2), of "readbytes ?ib"] by (auto simp: unat_readbytes [OF c(2)])
  let ?s = "put_bf p (b\<lparr>bf_inbuff := ib\<rparr>) s"
  have "good interest data ls s (put_bf p (b\<lparr>bf_inbuff := ib, bf_outbuff := bf_outbuff b\<rparr>) s)"
    by (rule good_buffers [OF ty b ib(2) c(3)])
  then have g: "good interest data ls s ?s" by simp
  then have ty1: "typed interest ls ?s" by (simp add: good_def)
  have "safe_for (sendout_faults S) (good interest data ls s) (sendout S (\<lambda>_. Inr) None (contents ?ib) p ?s)"
    by (rule safe_mono [OF sendout_safe [OF K ty1, of p "b\<lparr>bf_inbuff := ib\<rparr>"]])
      (use contents_at_most [OF c(2)] good_trans [OF g] in \<open>auto simp: put_bf_def\<close>)
  then show ?thesis using c(1) b ib(1) by (simp add: echo_handle_read_def receive_all_def receive_def)
qed

interpretation echo: tcp_app echo_user sendout_faults
  by unfold_locales (auto simp: echo_user_def good_refl intro: echo_handle_read_safe)

end
