(* ===== verification/Echo_Stream.thy ===== *)
theory Echo_Stream
  imports Echo_Server
begin

text \<open>
  What the echo server does with the bytes of a client: while writes take what they are given,
  the client gets back the stream it sent.
\<close>

section \<open>A connection at rest\<close>

text \<open>Nothing is buffered, and output is not watched.\<close>

definition at_rest :: "addr \<Rightarrow> fd \<Rightarrow> ('w, 'm) servers_scheme \<Rightarrow> bool" where
  "at_rest p fd s \<longleftrightarrow>
     (\<exists>b e f. rt_bfevents s p = Some b \<and> bf_fd b = fd \<and> bf_readcb b = Some f \<and> contents (bf_inbuff b) = [] \<and>
        contents (bf_outbuff b) = [] \<and> rt_events s (bf_ev b) = Some e \<and> ev_events e AND EPOLLOUT = 0)"

text \<open>
  What the kernel documents: a write takes a first part of what it is given or fails, reading sends
  nothing, and sending leaves unread input alone.
\<close>

definition echo_wire :: "'w sys \<Rightarrow> ('w \<Rightarrow> fd \<Rightarrow> byte list) \<Rightarrow> ('w \<Rightarrow> fd \<Rightarrow> byte list) \<Rightarrow> bool" where
  "echo_wire S unread sent \<longleftrightarrow>
     write_spec S sent \<and> (\<forall>fd lens. keeps sent (sys_readv S fd lens)) \<and> output_silent S unread"

text \<open>What it does not document: every write takes all it is given.\<close>

definition takes_all :: "'w sys \<Rightarrow> bool" where
  "takes_all S \<longleftrightarrow> (\<forall>fd bs w. fst (sys_write S fd bs w) = Inr (length bs))"

text \<open>\<open>n\<close> bytes of \<open>c\<close> have gone out by one call of \<^verbatim>\<open>write\<close>; none by one that failed.\<close>

definition wrote :: "'w sys \<Rightarrow> fd \<Rightarrow> byte list \<Rightarrow> nat \<Rightarrow> bool" where
  "wrote S fd c n \<longleftrightarrow> (\<exists>w. case fst (sys_write S fd c w) of Inr m \<Rightarrow> n = m | Inl _ \<Rightarrow> n = 0)"

text \<open>The chunks that were read, each with the number of its bytes that were sent.\<close>

definition echoed :: "(byte list \<times> nat) list \<Rightarrow> byte list" where
  "echoed cs = concat (map (\<lambda>(c, n). take n c) cs)"

definition echo_log :: "'w sys \<Rightarrow> fd \<Rightarrow> (byte list \<times> nat) list \<Rightarrow> bool" where
  "echo_log S fd cs \<longleftrightarrow> (\<forall>(c, n) \<in> set cs. c \<noteq> [] \<and> wrote S fd c n)"

lemma echo_log_append [simp]:
  "echo_log S fd (cs @ [(c, n)]) \<longleftrightarrow> echo_log S fd cs \<and> c \<noteq> [] \<and> wrote S fd c n" "echo_log S fd []"
  "echoed (cs @ [(c, n)]) = echoed cs @ take n c" "echoed [] = []"
  by (auto simp: echo_log_def echoed_def)

lemma takes_all_echoed:
  assumes "takes_all S" "echo_log S fd cs"
  shows "echoed cs = concat (map fst cs)"
  using assms(2)
proof (induction cs rule: rev_induct)
  case (snoc x cs)
  obtain c n where x: "x = (c, n)" by fastforce
  then have "n = length c" using snoc.prems assms(1) by (auto simp: takes_all_def wrote_def split: sum.splits)
  then show ?case using snoc x by simp
qed simp

lemma echo_wireD:
  assumes "echo_wire S unread sent"
  shows "\<exists>r w' n. sys_write S fd bs w = (r, w') \<and> sent w' = (sent w)(fd := sent w fd @ take n bs) \<and> unread w' = unread w \<and>
      wrote S fd bs n"
    and "sys_readv S fd lens w = (x, w') \<Longrightarrow> sent w' = sent w"
proof -
  obtain r v where v: "sys_write S fd bs w = (r, v)" by fastforce
  have "keeps unread (sys_write S fd bs)" using assms by (simp add: echo_wire_def output_silent_def)
  then have un: "unread v = unread w" using v by (rule keepsD)
  let ?n = "case r of Inl _ \<Rightarrow> 0 | Inr m \<Rightarrow> m"
  have "write_spec S sent" using assms by (simp add: echo_wire_def)
  then have "sent v = (sent w)(fd := sent w fd @ take ?n bs)"
    using v unfolding write_spec_def by (cases r) fastforce+
  moreover have "wrote S fd bs ?n" using v unfolding wrote_def by (intro exI [of _ w]) (cases r, simp_all)
  ultimately show "\<exists>r w' n. sys_write S fd bs w = (r, w') \<and> sent w' = (sent w)(fd := sent w fd @ take n bs) \<and>
      unread w' = unread w \<and> wrote S fd bs n"
    using v un by blast
  have "keeps sent (sys_readv S fd lens)" using assms by (simp add: echo_wire_def)
  then show "sys_readv S fd lens w = (x, w') \<Longrightarrow> sent w' = sent w" by (rule keepsD)
qed

section \<open>One turn of the reading loop\<close>

lemma typed_conn_ok: "typed interest ls s \<Longrightarrow> rt_bfevents s p = Some b \<Longrightarrow> conn_ok p s"
  by (erule typed_connE, assumption) (auto simp: conn_ok_def)

lemma sendout_direct_fails:
  assumes ok: "conn_ok p s" and b: "rt_bfevents s p = Some b"
    and idle: "writeable (bf_ev b) s = Inr False" "contents (bf_outbuff b) = []"
    and w: "sys_write S (bf_fd b) data (rt_world s) = (Inl e, w)" "e \<noteq> EAGAIN"
  shows "sendout S run before data p s = Inr (s\<lparr>rt_world := w\<rparr>)"
proof -
  have "p \<noteq> NULL" "readbytes (bf_outbuff b) = 0" using ok b idle(2) by (auto elim: conn_okE simp: readbytes_zero)
  then show ?thesis
    using b idle(1) w by (simp add: sendout_eq sendout_direct_def bf_writeable_def call_simps EWOULDBLOCK_def)
qed

text \<open>The read callback takes what has come in and gives back what one write takes of it.\<close>

lemma echo_handle_read_ok:
  assumes W: "echo_wire S unread sent" "write_ready S" and ty: "typed interest ls s"
    and b: "rt_bfevents s p = Some b" "contents (bf_outbuff b) = []"
    and e: "rt_events s (bf_ev b) = Some e" "ev_events e AND EPOLLOUT = 0"
  shows "\<exists>s' ib. echo_handle_read S p s = Inr s' \<and> contents ib = [] \<and>
    rt_bfevents s' = (rt_bfevents s)(p \<mapsto> b\<lparr>bf_inbuff := ib\<rparr>) \<and> rt_events s' = rt_events s \<and>
    (\<exists>n. sent (rt_world s') (bf_fd b) = sent (rt_world s) (bf_fd b) @ take n (contents (bf_inbuff b)) \<and>
       wrote S (bf_fd b) (contents (bf_inbuff b)) n) \<and> unread (rt_world s') = unread (rt_world s)"
proof -
  let ?ib = "bf_inbuff b"
  have c: "p \<noteq> NULL" "buf_inv ?ib" "buf_inv (bf_outbuff b)" "bf_ev b \<noteq> NULL" using typed_connE [OF ty b(1)] by blast+
  obtain ib where ib: "remove (readbytes ?ib) ?ib = Inr (contents ?ib, ib)" "buf_inv ib" "contents ib = []"
    using remove_ok [OF c(2), of "readbytes ?ib"] by (auto simp: unat_readbytes [OF c(2)])
  let ?s = "put_bf p (b\<lparr>bf_inbuff := ib\<rparr>) s"
  obtain r w n where w: "sys_write S (bf_fd b) (contents ?ib) (rt_world s) = (r, w)"
      "sent w = (sent (rt_world s))(bf_fd b := sent (rt_world s) (bf_fd b) @ take n (contents ?ib))"
      "unread w = unread (rt_world s)" "wrote S (bf_fd b) (contents ?ib) n"
    using echo_wireD(1) [OF W(1)] by blast
  have r: "r \<noteq> Inl EAGAIN" using W(2) w(1) unfolding write_ready_def by (metis fst_conv)
  have ok: "conn_ok p ?s" using typed_conn_ok [OF ty b(1)] b(1) ib(2) c(3) by (auto simp: conn_ok_def put_bf_def)
  have wr: "writeable (bf_ev b) ?s = Inr False" using c(4) e by (simp add: writeable_def put_bf_def)
  have "sendout S (\<lambda>_. Inr) None (contents ?ib) p ?s = Inr (?s\<lparr>rt_world := w\<rparr>)"
    using wr sendout_direct_write [OF ok, of "b\<lparr>bf_inbuff := ib\<rparr>" S "contents ?ib" _ w "\<lambda>_. Inr" None] b(2) w(1) r
      sendout_direct_fails [OF ok, of "b\<lparr>bf_inbuff := ib\<rparr>" S "contents ?ib" _ w "\<lambda>_. Inr" None]
    by (cases r) (auto simp: put_bf_def call_cb_def split: option.splits)
  then have "echo_handle_read S p s = Inr (?s\<lparr>rt_world := w\<rparr>)"
    using c(1) b(1) ib(1) by (simp add: echo_handle_read_def receive_all_def receive_def)
  then show ?thesis using ib(3) w(2-4) by (auto simp: put_bf_def)
qed

text \<open>The event callback closes the connection and does nothing to the wire.\<close>

lemma echo_eventcb_ok:
  assumes ty: "typed interest ls s" and b: "rt_bfevents s p = Some b"
  shows "\<exists>s'. call_eventcb (run_user S (echo_user S)) p s = Inr s' \<and> rt_world s' = rt_world s"
proof -
  obtain L where c: "p \<noteq> NULL" "rt_events s p = None" "bf_loop b \<noteq> NULL" "rt_loops s (bf_loop b) = Some L"
    using typed_connE [OF ty b] by metis
  have cb: "bf_eventcb b = None \<or> bf_eventcb b = Some (Server_tcp_eventcb p)" and "plain (sv_eventcb (rt_server s))"
    using typed_heap [OF ty] b by (auto simp: heap_typed_def conn_typed_def server_typed_def split: if_splits)
  then have "call_cb (echo_user S) (sv_eventcb (rt_server s)) s = Inr s"
    by (auto simp: plain_def call_cb_def echo_user_def)
  then show ?thesis
    using c(1) b cb handle_close_eq [OF b c]
    by (auto simp: call_eventcb_def call_cb_def run_user_def tcp_eventcb_def put_loop_def put_bf_def)
qed

text \<open>A turn that has read \<open>bs\<close>: what a write takes of the bytes goes back to the client.\<close>

lemma echo_turn_data:
  assumes W: "echo_wire S unread sent" "write_ready S" and c: "p \<noteq> NULL" "rt_bfevents s p = Some b" "bf_readcb b = Some f" "contents (bf_outbuff b) = []"
    and e: "rt_events s (bf_ev b) = Some e" "ev_events e AND EPOLLOUT = 0"
    and ib: "readiov (\<lambda>lens. sys_readv S (bf_fd b) lens (rt_world s)) (bf_inbuff b) = Inr (Inr (length bs), ib, w)" "contents ib = bs" "bs \<noteq> []"
    and ty: "typed interest ls (put_bf p (b\<lparr>bf_inbuff := ib\<rparr>) (s\<lparr>rt_world := w\<rparr>))" (is "typed _ _ ?s")
  shows "\<exists>s'. handle_read_turn S (run_user S (echo_user S)) p s = Inr (True, s') \<and> at_rest p (bf_fd b) s' \<and>
    (\<exists>n. sent (rt_world s') (bf_fd b) = sent w (bf_fd b) @ take n bs \<and> wrote S (bf_fd b) bs n) \<and> unread (rt_world s') = unread w"
proof -
  have b1: "rt_bfevents ?s p = Some (b\<lparr>bf_inbuff := ib\<rparr>)" "rt_events ?s = rt_events s" "rt_world ?s = w"
    by (simp_all add: put_bf_def)
  from echo_handle_read_ok [OF W ty b1(1), of e] c(4) e ib(2) b1
  obtain s' ib' n where s': "echo_handle_read S p ?s = Inr s'" "contents ib' = []"
      "rt_bfevents s' p = Some (b\<lparr>bf_inbuff := ib'\<rparr>)" "rt_events s' = rt_events s"
      "sent (rt_world s') (bf_fd b) = sent w (bf_fd b) @ take n bs" "unread (rt_world s') = unread w" "wrote S (bf_fd b) bs n"
    by auto
  have "call_readcb (run_user S (echo_user S)) p ?s = Inr s'"
    using c b1(1) s'(1) by (simp add: call_readcb_def run_user_def echo_user_def)
  then have "handle_read_turn S (run_user S (echo_user S)) p s = Inr (True, s')"
    using c ib by (simp add: handle_read_turn_def)
  moreover have "at_rest p (bf_fd b) s'" using c e s' by (simp add: at_rest_def)
  ultimately show ?thesis using s'(5-7) by blast
qed

lemma echo_turn:
  assumes K: "kernel_ok S interest unread pending" and W: "echo_wire S unread sent" "write_ready S" and ty: "typed interest ls s"
    and rest: "at_rest p fd s" and fits: "length (unread (rt_world s) fd) \<le> VECTOR_MAX"
  shows "\<exists>go s'. handle_read_turn S (run_user S (echo_user S)) p s = Inr (go, s') \<and>
    (if go then at_rest p fd s' \<and> (\<exists>c n. unread (rt_world s) fd = c @ unread (rt_world s') fd \<and> c \<noteq> [] \<and>
         sent (rt_world s') fd = sent (rt_world s) fd @ take n c \<and> wrote S fd c n)
     else unread (rt_world s') fd = unread (rt_world s) fd \<and> sent (rt_world s') fd = sent (rt_world s) fd \<and>
       (readv_drained S unread \<and> soft_reads S fd \<longrightarrow> unread (rt_world s') fd = []))"
proof -
  let ?run = "run_user S (echo_user S)" and ?rv = "\<lambda>lens. sys_readv S fd lens (rt_world s)"
  obtain b e f where b: "rt_bfevents s p = Some b" "bf_fd b = fd" "bf_readcb b = Some f" "contents (bf_inbuff b) = []"
      "contents (bf_outbuff b) = []" "rt_events s (bf_ev b) = Some e" "ev_events e AND EPOLLOUT = 0"
    using rest by (auto simp: at_rest_def)
  have c: "p \<noteq> NULL" "buf_inv (bf_inbuff b)" using typed_connE [OF ty b(1)] by blast+
  have spec: "readv_spec S unread" using K by (simp add: kernel_ok_def)
  have bounded: "readv_bounded ?rv" using readv_specD(1) [OF spec] by (auto simp: readv_bounded_def)
  obtain lens r w where rw: "0 < sum_list lens" "?rv lens = (r, w)"
    and err: "\<And>e. r = Inl e \<Longrightarrow> readiov ?rv (bf_inbuff b) = Inr (Inl e, bf_inbuff b, w)"
    and dat: "\<And>bs. r = Inr bs \<Longrightarrow> length bs \<le> VECTOR_MAX \<Longrightarrow>
      \<exists>ib. readiov ?rv (bf_inbuff b) = Inr (Inr (length bs), ib, w) \<and> buf_inv ib \<and> contents ib = bs"
    using readiov_outcome [OF c(2) bounded] b(4) by (metis add_0 append_Nil list.size(3))
  have sent: "sent w = sent (rt_world s)" by (rule echo_wireD(2) [OF W(1) rw(2)])
  let ?s = "\<lambda>ib. put_bf p (b\<lparr>bf_inbuff := ib\<rparr>) (s\<lparr>rt_world := w\<rparr>)"
  have ty1: "typed interest ls (?s ib)" if "buf_inv ib" for ib
    using readv_step [OF K ty b(1) rw(2) that] by (simp add: good_def)
  have stop: "\<exists>s'. call_eventcb ?run p (?s ib) = Inr s' \<and> rt_world s' = w" if "buf_inv ib" for ib
    using echo_eventcb_ok [OF ty1 [OF that], of p] by (simp add: put_bf_def)
  have drained: "r = Inl EAGAIN \<or> r = Inr [] \<Longrightarrow> readv_drained S unread \<Longrightarrow> unread w fd = []"
    using rw unfolding readv_drained_def by blast
  show ?thesis
  proof (cases r)
    case (Inl x)
    have un: "unread w = unread (rt_world s)" by (rule readv_spec_err [OF spec rw(2) [unfolded Inl]])
    have soft: "soft_reads S fd \<Longrightarrow> x = EAGAIN" using rw(2) Inl unfolding soft_reads_def by (metis fst_conv)
    obtain s' where "call_eventcb ?run p (?s (bf_inbuff b)) = Inr s'" "rt_world s' = w" using stop [OF c(2)] by blast
    then show ?thesis
      using c(1) b err [OF Inl] un sent drained soft Inl
      by (cases "x = EAGAIN") (auto simp: handle_read_turn_def put_bf_def EWOULDBLOCK_def)
  next
    case (Inr bs)
    have un: "unread (rt_world s) fd = bs @ unread w fd" by (rule readv_specD(2) [OF spec rw(2) [unfolded Inr]])
    then obtain ib where ib: "readiov ?rv (bf_inbuff b) = Inr (Inr (length bs), ib, w)" "buf_inv ib" "contents ib = bs"
      using dat [OF Inr] fits by auto
    show ?thesis
    proof (cases "bs = []")
      case True
      obtain s' where s': "call_eventcb ?run p (?s ib) = Inr s'" "rt_world s' = w" using stop [OF ib(2)] by blast
      have "handle_read_turn S ?run p s = Inr (False, s')"
        using c(1) b(1,2) ib(1) s'(1) True by (simp add: handle_read_turn_def)
      then show ?thesis using un sent drained s'(2) Inr True by auto
    next
      case False
      from echo_turn_data [OF W c(1) b(1,3,5-7) _ ib(3) False ty1 [OF ib(2)]] b(2) ib(1) sent
      obtain s' n where "handle_read_turn S ?run p s = Inr (True, s')" "at_rest p fd s'"
          "sent (rt_world s') fd = sent (rt_world s) fd @ take n bs" "wrote S fd bs n" "unread (rt_world s') = unread w"
        by auto
      then show ?thesis using un False by (intro exI [of _ True] exI [of _ s']) auto
    qed
  qed
qed

section \<open>The reading loop\<close>

text \<open>
  C3. The echo server echoes. On a connection with nothing buffered, in a well-typed server, on a
  kernel whose writes do not block, the reading handler with the echo callback returns. What it
  has read of the client's stream is a sequence of chunks, in order, and of every chunk it has
  sent back as many bytes as the one \<^verbatim>\<open>write\<close> for that chunk took: all, a first part (the rest of the chunk
  is lost), or none if the call failed. If reading fails only by running dry, nothing is left
  unread; if moreover every write takes all it is given, the client has got back every byte it
  sent, in order.
\<close>

theorem echo_returns_stream:
  assumes "kernel_ok S interest unread pending" and "echo_wire S unread sent" and "write_ready S"
    and "typed interest ls s" and "at_rest p fd s" and "length (unread (rt_world s) fd) \<le> VECTOR_MAX"
  shows "\<exists>s' cs. handle_read S (run_user S (echo_user S)) p s = Some (Inr s') \<and> typed interest ls s' \<and> echo_log S fd cs \<and>
    unread (rt_world s) fd = concat (map fst cs) @ unread (rt_world s') fd \<and>
    sent (rt_world s') fd = sent (rt_world s) fd @ echoed cs \<and>
    (readv_drained S unread \<and> soft_reads S fd \<longrightarrow> unread (rt_world s') fd = []) \<and>
    (readv_drained S unread \<and> soft_reads S fd \<and> takes_all S \<longrightarrow>
       sent (rt_world s') fd = sent (rt_world s) fd @ unread (rt_world s) fd)"
proof -
  let ?u = "unread (rt_world s) fd" and ?m = "\<lambda>s. length (unread (rt_world s) fd)"
  let ?J = "\<lambda>cs s'. typed interest ls s' \<and> echo_log S fd cs \<and> ?u = concat (map fst cs) @ unread (rt_world s') fd \<and>
      sent (rt_world s') fd = sent (rt_world s) fd @ echoed cs"
  let ?I = "\<lambda>s'. (\<exists>cs. ?J cs s') \<and> at_rest p fd s'"
  let ?Q = "\<lambda>s'. (\<exists>cs. ?J cs s') \<and> (readv_drained S unread \<and> soft_reads S fd \<longrightarrow> unread (rt_world s') fd = [])"
  have "\<exists>s'. handle_read S (run_user S (echo_user S)) p s = Some (Inr s') \<and> ?Q s'"
    unfolding handle_read_def
  proof (rule repeat_turn_returns [where I = ?I and m = ?m])
    show "?I s" using assms(4,5) by (auto intro!: exI [of _ "[]"])
    fix s1
    assume s1: "?I s1"
    then obtain cs where J: "?J cs s1" by blast
    then have ty: "typed interest ls s1" and fits: "?m s1 \<le> VECTOR_MAX" using assms(6) by auto
    obtain b1 where b1: "rt_bfevents s1 p = Some b1" "bf_fd b1 = fd" using s1 by (auto simp: at_rest_def)
    obtain go s' where t: "handle_read_turn S (run_user S (echo_user S)) p s1 = Inr (go, s')"
        "if go then at_rest p fd s' \<and> (\<exists>c n. unread (rt_world s1) fd = c @ unread (rt_world s') fd \<and> c \<noteq> [] \<and>
           sent (rt_world s') fd = sent (rt_world s1) fd @ take n c \<and> wrote S fd c n)
         else unread (rt_world s') fd = unread (rt_world s1) fd \<and> sent (rt_world s') fd = sent (rt_world s1) fd \<and>
           (readv_drained S unread \<and> soft_reads S fd \<longrightarrow> unread (rt_world s') fd = [])"
      using echo_turn [OF assms(1-3) ty _ fits, of p] s1 by blast
    have ty': "typed interest ls s'" "go \<longrightarrow> ?m s' < ?m s1"
      using echo.handle_read_turn_safe [OF assms(1) ty b1(1)] t(1) b1(2) by (auto simp: good_def)
    have "if go then ?I s' else ?Q s'"
    proof (cases go)
      case True
      then obtain c n where "unread (rt_world s1) fd = c @ unread (rt_world s') fd" "c \<noteq> []"
          "sent (rt_world s') fd = sent (rt_world s1) fd @ take n c" "wrote S fd c n"
        using t(2) by auto
      then have "?J (cs @ [(c, n)]) s'" using J ty'(1) by simp
      then have "?I s'" using True t(2) by metis
      then show ?thesis using True by simp
    next
      case False
      then have "?J cs s'" using J ty'(1) t(2) by simp
      then have "?Q s'" using False t(2) by metis
      then show ?thesis using False by simp
    qed
    then show "\<exists>go s'. handle_read_turn S (run_user S (echo_user S)) p s1 = Inr (go, s') \<and>
        (if go then ?I s' \<and> ?m s' < ?m s1 else ?Q s')"
      using t(1) ty'(2) by (intro exI [of _ go] exI [of _ s']) (simp only: if_bool_eq_conj simp_thms, blast)
  qed
  then obtain s' cs where s': "handle_read S (run_user S (echo_user S)) p s = Some (Inr s')" "?J cs s'"
      "readv_drained S unread \<and> soft_reads S fd \<longrightarrow> unread (rt_world s') fd = []"
    by blast
  then show ?thesis using takes_all_echoed [of S fd cs] by (intro exI [of _ s'] exI [of _ cs]) auto
qed

text \<open>
  C19. The echo server reads in front of its string when the client does not read: if input is
  waiting and the direct write of it would block, the handler of the connection hands the
  gathering write a pointer in front of the first byte of the string.
\<close>

theorem echo_blocked_underruns:
  assumes "kernel_ok S interest unread pending" and "typed interest ls s" and "at_rest p fd s"
    and "length (unread (rt_world s) fd) \<le> VECTOR_MAX"
    and waiting: "\<And>lens. 0 < sum_list lens \<Longrightarrow> \<exists>bs w. sys_readv S fd lens (rt_world s) = (Inr bs, w) \<and> bs \<noteq> []"
    and blocked: "\<And>bs w. fst (sys_write S fd bs w) = Inl EAGAIN"
  shows "handle_read S (run_user S (echo_user S)) p s = Some (Inl Underrun)"
proof -
  let ?rv = "\<lambda>lens. sys_readv S fd lens (rt_world s)"
  obtain b e f where b: "rt_bfevents s p = Some b" "bf_fd b = fd" "bf_readcb b = Some f" "contents (bf_inbuff b) = []"
      "contents (bf_outbuff b) = []" "rt_events s (bf_ev b) = Some e" "ev_events e AND EPOLLOUT = 0"
    using assms(3) by (auto simp: at_rest_def)
  have c: "p \<noteq> NULL" "buf_inv (bf_inbuff b)" "bf_ev b \<noteq> NULL" "buf_inv (bf_outbuff b)" using typed_connE [OF assms(2) b(1)] by blast+
  have spec: "readv_spec S unread" using assms(1) by (simp add: kernel_ok_def)
  have "readv_bounded ?rv" using readv_specD(1) [OF spec] by (auto simp: readv_bounded_def)
  from readiov_outcome [OF c(2) this] b(4) obtain lens r w where rw: "0 < sum_list lens" "?rv lens = (r, w)"
    and dat: "\<And>bs. r = Inr bs \<Longrightarrow> length bs \<le> VECTOR_MAX \<Longrightarrow>
      \<exists>ib. readiov ?rv (bf_inbuff b) = Inr (Inr (length bs), ib, w) \<and> buf_inv ib \<and> contents ib = bs"
    by (metis add_0 append_Nil list.size(3))
  obtain bs where bs: "r = Inr bs" "bs \<noteq> []" using waiting [OF rw(1)] rw(2) by auto
  then obtain ib where ib: "readiov ?rv (bf_inbuff b) = Inr (Inr (length bs), ib, w)" "buf_inv ib" "contents ib = bs"
    using dat readv_specD(2) [OF spec, of fd lens "rt_world s" bs w] rw(2) assms(4) by auto
  obtain ib2 where ib2: "remove (readbytes ib) ib = Inr (bs, ib2)" "buf_inv ib2"
    using remove_ok [OF ib(2), of "readbytes ib"] ib(3) by (auto simp: unat_readbytes [OF ib(2)])
  let ?s = "put_bf p (b\<lparr>bf_inbuff := ib\<rparr>) (s\<lparr>rt_world := w\<rparr>)" and ?s2 = "put_bf p (b\<lparr>bf_inbuff := ib2\<rparr>) (s\<lparr>rt_world := w\<rparr>)"
  obtain w2 where w2: "sys_write S (bf_fd b) bs w = (Inl EAGAIN, w2)"
    using blocked [of bs w] b(2) by (metis prod.collapse)
  have "conn_ok p ?s2" using typed_conn_ok [OF assms(2) b(1)] b(1) ib2(2) c(4) by (auto simp: conn_ok_def put_bf_def)
  then have "sendout S (\<lambda>_. Inr) None bs p ?s2 = Inl Underrun"
    using b c bs(2) w2 by (intro sendout_after_block_underruns [where b = "b\<lparr>bf_inbuff := ib2\<rparr>" and w = w2]) (auto simp: put_bf_def writeable_def)
  then have "echo_handle_read S p ?s = Inl Underrun"
    using c(1) ib2(1) by (simp add: echo_handle_read_def receive_all_def receive_def put_bf_def)
  then have "handle_read_turn S (run_user S (echo_user S)) p s = Inl Underrun"
    using c(1) b bs(2) ib(1) by (simp add: handle_read_turn_def call_readcb_def run_user_def echo_user_def put_bf_def)
  then show ?thesis by (simp add: handle_read_def repeat_turn.simps)
qed

section \<open>A sample run\<close>

text \<open>The sample kernel; a write takes all it is given, and a new epoll instance watches nothing.\<close>

definition echo_sys :: "kernel sys" where
  "echo_sys = closing_sys\<lparr>
     sys_epoll_create1 := \<lambda>k. k_open (k\<lparr>k_interest := (k_interest k)(k_next k := Map.empty)\<rparr>),
     sys_write := \<lambda>fd bs k. (Inr (length bs), k\<lparr>k_output := (k_output k)(fd := k_output k fd @ bs)\<rparr>)\<rparr>"

lemma echo_kernel_ok: "kernel_ok echo_sys k_interest k_input (\<lambda>k fd. length (k_pending k fd))"
proof -
  have specs: "epoll_ctl_spec echo_sys k_interest" "epoll_wait_spec echo_sys k_interest" "close_spec echo_sys k_interest"
      "readv_spec echo_sys k_input"
    using closing_ctl_spec sample_wait_spec closing_close_spec sample_readv_spec
    by (simp_all add: epoll_ctl_spec_def epoll_wait_spec_def close_spec_def readv_spec_def echo_sys_def closing_sys_def)
  have "interest_kept echo_sys k_interest"
    by (simp add: interest_kept_def keeps_def echo_sys_def closing_sys_def sample_sys_def k_read_def k_write_def
        k_accept_def Let_def split: list.split)
  moreover have "write_bounds echo_sys"
    by (auto simp: write_bounds_def echo_sys_def closing_sys_def sample_sys_def k_write_def Let_def split: if_splits)
  moreover have "output_silent echo_sys (unread_len k_input)"
    by (simp add: output_silent_def ctl_silent_def keeps_def echo_sys_def closing_sys_def sample_sys_def k_write_def k_ctl_def Let_def)
  moreover have "accept_counts echo_sys (\<lambda>k fd. length (k_pending k fd))"
    by (auto simp: accept_counts_def ctl_silent_def keeps_def echo_sys_def closing_sys_def sample_sys_def k_accept_def k_ctl_def
        split: list.splits)
  ultimately show ?thesis using specs by (simp add: kernel_ok_def)
qed

lemma echo_wire_sample: "echo_wire echo_sys k_input k_output"
  by (auto simp: echo_wire_def write_spec_def output_silent_def ctl_silent_def keeps_def echo_sys_def closing_sys_def
      sample_sys_def k_write_def k_read_def k_ctl_def Let_def)

lemma echo_writes: "takes_all echo_sys" "write_ready echo_sys"
  by (simp_all add: takes_all_def write_ready_def echo_sys_def)

lemma echo_reads: "readv_drained echo_sys k_input" "soft_reads echo_sys fd"
proof -
  have "sys_readv echo_sys = sys_readv sample_sys" by (simp add: echo_sys_def closing_sys_def)
  then show "readv_drained echo_sys k_input" using sample_readv_drained by (simp add: readv_drained_def)
  show "soft_reads echo_sys fd"
    by (auto simp: soft_reads_def echo_sys_def closing_sys_def sample_sys_def k_read_def split: if_splits)
qed

lemma server_sample_typed: "typed k_interest {1} (server_sample\<lparr>rt_world := kernel0\<lparr>k_input := inp\<rparr>\<rparr>)"
  by (simp add: typed_def heap_typed_def closing_def server_sample_def loop_typed_def watched_def server_typed_def
      pool_typed_def plain_def sample_eventloop_def kernel0_def)

lemma k_ctl_data: "k_ctl ep op fd e k = (r, k') \<Longrightarrow> k_input k' = k_input k \<and> k_output k' = k_output k"
  by (auto simp: k_ctl_def split: if_splits)

abbreviation echo_start :: "kernel servers" where
  "echo_start \<equiv> server_sample\<lparr>rt_world := kernel0\<lparr>k_input := (\<lambda>_. [])(9 := [5, 6, 7])\<rparr>\<rparr>"

lemma echo_accepted:
  "\<exists>s. acceptcb echo_sys 9 echo_start = Inr s \<and> typed k_interest {1} s \<and> at_rest 5 9 s \<and>
     k_input (rt_world s) 9 = [5, 6, 7] \<and> k_output (rt_world s) 9 = []"
proof -
  have S: "epoll_ctl_spec echo_sys k_interest" using echo_kernel_ok by (simp add: kernel_ok_def)
  have "dispatch echo_start = Inr (1, upd_server (\<lambda>v. v\<lparr>sv_pool := sv_pool (rt_server server_sample)\<rparr>) echo_start)"
    by (simp add: dispatch_def ev_dispatch_def server_sample_def)
  from acceptcb_result [OF this, of "sample_eventloop\<lparr>el_load := 0, el_evlist := []\<rparr>" echo_sys 9]
  obtain s b e r1 w1 r2 where s: "acceptcb echo_sys 9 echo_start = Inr s" "rt_bfevents s 5 = Some b" "rt_events s (bf_ev b) = Some e"
      "ev_events e = EPOLLIN OR EPOLLET" "bf_fd b = 9" "bf_inbuff b = new_buffer" "bf_outbuff b = new_buffer" "bf_readcb b = Some 7"
    and w: "k_ctl 3 EPOLL_CTL_ADD 9 (Some (ev_events e, 6)) (rt_world echo_start) = (r1, w1)"
      "k_ctl 3 EPOLL_CTL_MOD 9 (Some (ev_events e, 6)) w1 = (r2, rt_world s)"
    by (auto simp: server_sample_def sample_eventloop_def echo_sys_def closing_sys_def sample_sys_def)
  have "typed k_interest {1} s"
    using acceptcb_good [OF S _ server_sample_typed, of "\<lambda>_ _. 0" "(\<lambda>_. [])(9 := [5, 6, 7])" 9] s(1) by (simp add: good_def ctl_silent_def)
  moreover have "at_rest 5 9 s" using s by (simp add: at_rest_def new_buffer_ok epoll_defs)
  moreover have "k_input (rt_world s) 9 = [5, 6, 7]" "k_output (rt_world s) 9 = []"
    using k_ctl_data [OF w(1)] k_ctl_data [OF w(2)] by (simp_all add: kernel0_def)
  ultimately show ?thesis using s(1) by blast
qed

theorem echo_returns_stream_witness:
  "\<exists>s s'. acceptcb echo_sys 9 echo_start = Inr s \<and>
     handle_read echo_sys (run_user echo_sys (echo_user echo_sys)) 5 s = Some (Inr s') \<and>
     k_output (rt_world s') 9 = [5, 6, 7]"
proof -
  obtain s where s: "acceptcb echo_sys 9 echo_start = Inr s" "typed k_interest {1} s" "at_rest 5 9 s"
      "k_input (rt_world s) 9 = [5, 6, 7]" "k_output (rt_world s) 9 = []"
    using echo_accepted by blast
  then show ?thesis
    using echo_returns_stream [OF echo_kernel_ok echo_wire_sample echo_writes(2) s(2,3)] echo_reads echo_writes(1)
    by (auto simp: VECTOR_MAX_def)
qed

text \<open>The same kernel with a client whose window is full.\<close>

lemma blocked_kernel_ok:
  "kernel_ok (echo_sys\<lparr>sys_write := \<lambda>_ _ k. (Inl EAGAIN, k)\<rparr>) k_interest k_input (\<lambda>k fd. length (k_pending k fd))"
  using echo_kernel_ok
  by (simp add: kernel_ok_def epoll_ctl_spec_def epoll_wait_spec_def close_spec_def interest_kept_def write_bounds_def
      readv_spec_def output_silent_def ctl_silent_def accept_counts_def keeps_def)

theorem echo_blocked_underruns_witness:
  "\<exists>s. acceptcb echo_sys 9 echo_start = Inr s \<and>
     handle_read (echo_sys\<lparr>sys_write := \<lambda>_ _ k. (Inl EAGAIN, k)\<rparr>)
       (run_user (echo_sys\<lparr>sys_write := \<lambda>_ _ k. (Inl EAGAIN, k)\<rparr>) (echo_user (echo_sys\<lparr>sys_write := \<lambda>_ _ k. (Inl EAGAIN, k)\<rparr>))) 5 s =
     Some (Inl Underrun)"
proof -
  let ?S = "echo_sys\<lparr>sys_write := \<lambda>_ _ k. (Inl EAGAIN, k)\<rparr>"
  obtain s where s: "acceptcb echo_sys 9 echo_start = Inr s" "typed k_interest {1} s" "at_rest 5 9 s"
      "k_input (rt_world s) 9 = [5, 6, 7]"
    using echo_accepted by blast
  have "\<exists>bs w. sys_readv ?S 9 lens (rt_world s) = (Inr bs, w) \<and> bs \<noteq> []" if "0 < sum_list lens" for lens
    using that s(4) by (simp add: echo_sys_def closing_sys_def sample_sys_def k_read_def del: sum_list_eq_0_iff)
  then show ?thesis
    using echo_blocked_underruns [OF blocked_kernel_ok s(2,3)] s(1,4) by (simp add: VECTOR_MAX_def)
qed

end
