(* ===== verification/Server_Accept.thy ===== *)
theory Server_Accept
  imports Echo_Stream
begin

text \<open>
  The accepting loop of the acceptor with the callback of the server: which of the waiting
  connections it takes, and what becomes of them.
\<close>

section \<open>The listening socket\<close>

text \<open>Among the calls of the loop only \<^verbatim>\<open>accept\<close> touches the connections that wait.\<close>

definition accept_wire :: "'w sys \<Rightarrow> ('w \<Rightarrow> fd \<Rightarrow> fd list) \<Rightarrow> bool" where
  "accept_wire S pending \<longleftrightarrow>
     accept_spec S pending \<and> ctl_silent S pending \<and> (\<forall>fd opt. keeps pending (sys_setsockopt S fd opt)) \<and>
     (\<forall>fd. keeps pending (sys_fcntl_getfl S fd)) \<and> (\<forall>fd fl. keeps pending (sys_fcntl_setfl S fd fl))"

text \<open>The file status flags: \<^verbatim>\<open>accept\<close> sets those of the new descriptor only, epoll none.\<close>

definition flags_wire :: "'w sys \<Rightarrow> ('w \<Rightarrow> fd \<Rightarrow> u32) \<Rightarrow> bool" where
  "flags_wire S flags \<longleftrightarrow>
     flags_spec S flags \<and> ctl_silent S flags \<and>
     (\<forall>fd w r w' c. sys_accept S fd w = (r, w') \<and> r \<noteq> Inr c \<longrightarrow> flags w' c = flags w c)"

definition nonblocking :: "('w \<Rightarrow> fd \<Rightarrow> u32) \<Rightarrow> 'w \<Rightarrow> fd \<Rightarrow> bool" where
  "nonblocking flags w fd \<longleftrightarrow> flags w fd AND O_NONBLOCK \<noteq> 0"

definition nodelay_ok :: "'w sys \<Rightarrow> bool" where
  "nodelay_ok S \<longleftrightarrow> (\<forall>fd w. \<exists>w'. sys_setsockopt S fd TCP_NODELAY w = (Inr (), w'))"

lemma setnonblock_flags:
  assumes "flags_spec S flags"
  shows "flags (setnonblock S fd w) = (flags w)(fd := flags w fd OR O_NONBLOCK)"
proof -
  obtain w1 where w1: "sys_fcntl_getfl S fd w = (Inr (flags w fd), w1)" "flags w1 = flags w"
    using assms unfolding flags_spec_def by blast
  obtain w2 where w2: "sys_fcntl_setfl S fd (flags w fd OR O_NONBLOCK) w1 = (Inr (), w2)"
      "flags w2 = (flags w1)(fd := flags w fd OR O_NONBLOCK)"
    using assms unfolding flags_spec_def by blast
  then show ?thesis using w1 by (simp add: setnonblock_def)
qed

lemma or_nonblock: "(f OR O_NONBLOCK) AND O_NONBLOCK \<noteq> 0"
proof -
  have "(f OR O_NONBLOCK) AND O_NONBLOCK = O_NONBLOCK" by (rule bit_eqI) (auto simp: bit_simps)
  then show ?thesis by (simp add: O_NONBLOCK_def)
qed

section \<open>The callback of the server\<close>

text \<open>A connection as \<^verbatim>\<open>acceptcb_\<close> makes it for descriptor \<open>c\<close>.\<close>

definition accepted :: "addr set \<Rightarrow> ('w, 'm) servers_scheme \<Rightarrow> fd \<Rightarrow> bfevent \<Rightarrow> bool" where
  "accepted ls s c b \<longleftrightarrow> bf_fd b = c \<and> bf_loop b \<in> ls \<and> bf_readcb b = sv_readcb (rt_server s) \<and>
     bf_writecb b = sv_writecb (rt_server s) \<and> contents (bf_inbuff b) = [] \<and> contents (bf_outbuff b) = []"

definition adds_conn :: "addr set \<Rightarrow> fd \<Rightarrow> ('w, 'm) servers_scheme \<Rightarrow> ('w, 'm) servers_scheme \<Rightarrow> bool" where
  "adds_conn ls c s s' \<longleftrightarrow>
     (\<exists>p b. rt_bfevents s p = None \<and> rt_bfevents s' = (rt_bfevents s)(p \<mapsto> b) \<and> accepted ls s c b \<and>
        (\<exists>lp. rt_server s' = (rt_server s)\<lparr>sv_pool := lp, sv_events := sv_events (rt_server s) @ [p]\<rparr>))"

lemma acceptcb_adds:
  assumes S: "epoll_ctl_spec S interest" "ctl_silent S pending" and ty: "typed interest ls s"
  shows "\<exists>s'. acceptcb S c s = Inr s' \<and> typed interest ls s' \<and> rt_acceptors s' = rt_acceptors s \<and> adds_conn ls c s s' \<and>
    pending (rt_world s') = pending (rt_world s) \<and> (ctl_silent S flags \<longrightarrow> flags (rt_world s') = flags (rt_world s))"
proof -
  let ?p = "rt_next s"
  have h: "heap_typed interest ls (closing ls s) s" by (rule typed_heap [OF ty])
  obtain l lp where d: "dispatch s = Inr (l, upd_server (\<lambda>v. v\<lparr>sv_pool := lp\<rparr>) s)" "l \<in> ls"
    using dispatch_typed [OF h] by blast
  obtain L where L: "l \<noteq> NULL" "rt_loops s l = Some L" using heap_typed_loopE [OF h d(2)] by blast
  have fresh: "0 < ?p" "rt_bfevents s ?p = None" using h by (auto simp: heap_typed_def)
  obtain s' b r1 w1 r2 and e :: event where s': "acceptcb S c s = Inr s'" "rt_acceptors s' = rt_acceptors s"
      "rt_bfevents s' = (rt_bfevents s)(?p \<mapsto> b)"
      "rt_server s' = (rt_server s)\<lparr>sv_pool := lp, sv_events := sv_events (rt_server s) @ [?p]\<rparr>"
    and b: "bf_fd b = c" "bf_loop b = l" "bf_readcb b = sv_readcb (rt_server s)" "bf_writecb b = sv_writecb (rt_server s)"
      "bf_inbuff b = new_buffer" "bf_outbuff b = new_buffer"
    and ctl: "sys_epoll_ctl S (el_epfd L) EPOLL_CTL_ADD c (Some (ev_events e, Suc ?p)) (rt_world s) = (r1, w1)"
      "sys_epoll_ctl S (el_epfd L) EPOLL_CTL_MOD c (Some (ev_events e, Suc ?p)) w1 = (r2, rt_world s')"
    using acceptcb_result [OF d(1) L fresh(1), of S c] by blast
  have "typed interest ls s'"
    using acceptcb_good [OF S(1) _ ty, of "\<lambda>_ _. 0" c] s'(1) by (simp add: good_def ctl_silent_def)
  moreover have "adds_conn ls c s s'"
    unfolding adds_conn_def accepted_def using s'(3,4) b d(2) fresh(2) new_buffer_ok(2)
    by (intro exI [of _ ?p] exI [of _ b]) auto
  moreover have "pending (rt_world s') = pending (rt_world s)"
    using S(2) [unfolded ctl_silent_def] ctl by (metis snd_conv)
  moreover have "flags (rt_world s') = flags (rt_world s)" if "ctl_silent S flags"
    using that [unfolded ctl_silent_def] ctl by (metis snd_conv)
  ultimately show ?thesis using s'(1,2) by blast
qed

section \<open>A turn\<close>

text \<open>
  A turn takes the first connection and hands it on, or ends the loop because \<^verbatim>\<open>accept\<close> failed, or
  the program because \<^verbatim>\<open>TCP_NODELAY\<close> could not be set.
\<close>

definition accept_step ::
  "'w sys \<Rightarrow> ('w \<Rightarrow> fd \<Rightarrow> fd list) \<Rightarrow> ('w \<Rightarrow> fd \<Rightarrow> u32) \<Rightarrow> addr set \<Rightarrow> fd \<Rightarrow> bool \<Rightarrow>
   ('w, 'm) servers_scheme \<Rightarrow> ('w, 'm) servers_scheme \<Rightarrow> bool" where
  "accept_step S pending flags ls lfd go s s' \<longleftrightarrow>
     (if go
      then \<exists>c. pending (rt_world s) lfd = c # pending (rt_world s') lfd \<and> adds_conn ls c s s' \<and>
        (flags_wire S flags \<longrightarrow> nonblocking flags (rt_world s') c \<and>
           (\<forall>x. nonblocking flags (rt_world s) x \<longrightarrow> nonblocking flags (rt_world s') x))
      else \<exists>e. sys_accept S lfd (rt_world s) = (Inl e, rt_world s') \<and> rt_bfevents s' = rt_bfevents s \<and> rt_server s' = rt_server s)"

lemma settcpnodelay_result:
  assumes "accept_wire S pending"
  shows "case settcpnodelay S fd w of Inl e \<Rightarrow> e = Exit 1 \<and> \<not> nodelay_ok S
    | Inr w' \<Rightarrow> pending w' = pending w \<and> (flags_spec S flags \<longrightarrow> flags w' = flags w)"
proof -
  obtain r w' where w': "sys_setsockopt S fd TCP_NODELAY w = (r, w')" by fastforce
  have "pending w' = pending w" using assms keepsD [of pending "sys_setsockopt S fd TCP_NODELAY"] w' by (auto simp: accept_wire_def)
  moreover have "flags w' = flags w" if "flags_spec S flags" using that w' unfolding flags_spec_def by (metis snd_conv)
  moreover have "\<not> nodelay_ok S" if "r = Inl x" for x using that w' unfolding nodelay_ok_def by (metis Inl_Inr_False fst_conv)
  ultimately show ?thesis using w' by (cases r) (auto simp: settcpnodelay_def perr_exit_def)
qed

lemma handle_accept_turn_result:
  assumes K: "kernel_ok S interest unread n" and W: "accept_wire S pending" and ty: "typed interest ls s"
    and a: "a \<noteq> NULL" "rt_acceptors s a = Some A" "ac_lfd A = Some lfd" "ac_cb A = Some Server_acceptcb"
  shows "case handle_accept_turn S (run_user S user) a s of Inl e \<Rightarrow> e = Exit 1 \<and> \<not> nodelay_ok S
    | Inr (go, s') \<Rightarrow> typed interest ls s' \<and> rt_acceptors s' = rt_acceptors s \<and> accept_step S pending flags ls lfd go s s'"
proof -
  have S: "epoll_ctl_spec S interest" using K by (simp add: kernel_ok_def)
  have ki: "keeps interest (sys_accept S fd)" "keeps interest (sys_setsockopt S fd opt)"
      "keeps interest (sys_fcntl_getfl S fd)" "keeps interest (sys_fcntl_setfl S fd fl)" for fd opt fl
    using K by (simp_all add: kernel_ok_def interest_kept_def)
  obtain r w where w: "sys_accept S lfd (rt_world s) = (r, w)" by fastforce
  have iw: "interest w = interest (rt_world s)" by (rule keepsD [OF ki(1) w])
  show ?thesis
  proof (cases r)
    case (Inl e)
    have "good interest (\<lambda>_ _. 0) ls s (s\<lparr>rt_world := w\<rparr>)" by (rule good_world [OF ty iw]) simp
    then show ?thesis using a w Inl by (simp add: handle_accept_turn_def member_def call_def good_def accept_step_def)
  next
    case (Inr c)
    let ?w = "setnonblock S c w"
    have pw: "pending (rt_world s) lfd = c # pending w lfd" "pending ?w = pending w"
      using W w Inr keeps_setnonblock [of pending S] unfolding accept_wire_def accept_spec_def by fastforce+
    have iw2: "interest ?w = interest w" using keeps_setnonblock [of interest S] ki by simp
    note nd = settcpnodelay_result [OF W, where fd = c and w = ?w and flags = flags]
    show ?thesis
    proof (cases "settcpnodelay S c ?w")
      case Inl2: (Inl e)
      then show ?thesis using nd a w Inr by (simp add: handle_accept_turn_def member_def call_def via_world_def)
    next
      case Inr2: (Inr w')
      let ?s = "s\<lparr>rt_world := w'\<rparr>"
      have iw3: "interest w' = interest ?w" using keeps_nodelay [where data = interest and S = S and fd = c and w = ?w] ki(2) Inr2 by simp
      have "good interest (\<lambda>_ _. 0) ls s ?s" by (rule good_world [OF ty]) (simp_all add: iw iw2 iw3)
      then have "typed interest ls ?s" by (simp add: good_def)
      from acceptcb_adds [OF S _ this, where c = c and pending = pending and flags = flags] obtain s' where s': "acceptcb S c ?s = Inr s'" "typed interest ls s'"
          "rt_acceptors s' = rt_acceptors s" "adds_conn ls c ?s s'" "pending (rt_world s') = pending w'"
          "ctl_silent S flags \<longrightarrow> flags (rt_world s') = flags w'"
        using W by (auto simp: accept_wire_def)
      have eq: "handle_accept_turn S (run_user S user) a s = Inr (True, s')"
        using a w Inr Inr2 s'(1) by (simp add: handle_accept_turn_def member_def call_def via_world_def run_user_def)
      have "adds_conn ls c s s'" using s'(4) by (simp add: adds_conn_def accepted_def)
      moreover have "nonblocking flags (rt_world s') x"
        if F: "flags_wire S flags" and x: "x = c \<or> nonblocking flags (rt_world s) x" for x
      proof -
        have "flags (rt_world s') = flags ?w" using F s'(6) nd Inr2 by (simp add: flags_wire_def)
        moreover have "x \<noteq> c \<Longrightarrow> flags w x = flags (rt_world s) x"
          using conjunct2 [OF conjunct2 [OF F [unfolded flags_wire_def]], rule_format, of lfd "rt_world s" r w x] w Inr by simp
        ultimately show ?thesis
          using F x or_nonblock [of "flags w c"] by (auto simp: nonblocking_def flags_wire_def setnonblock_flags)
      qed
      ultimately have "accept_step S pending flags ls lfd True s s'"
        using pw s'(5) nd Inr2 by (simp add: accept_step_def)
      then show ?thesis using eq s'(2,3) by simp
    qed
  qed
qed

section \<open>The loop\<close>

text \<open>The connections \<open>ps\<close> are for the descriptors \<open>cs\<close>, one each, in order.\<close>

definition conns_for :: "addr set \<Rightarrow> ('w, 'm) servers_scheme \<Rightarrow> ('w, 'm) servers_scheme \<Rightarrow> addr list \<Rightarrow> fd list \<Rightarrow> bool" where
  "conns_for ls s s' ps cs \<longleftrightarrow> list_all2 (\<lambda>p c. \<exists>b. rt_bfevents s' p = Some b \<and> accepted ls s c b) ps cs"

lemma conns_for_step:
  assumes "adds_conn ls c s1 s2" "conns_for ls s s1 ps cs" "sv_readcb (rt_server s1) = sv_readcb (rt_server s)"
    "sv_writecb (rt_server s1) = sv_writecb (rt_server s)"
  shows "\<exists>p. sv_events (rt_server s2) = sv_events (rt_server s1) @ [p] \<and> conns_for ls s s2 (ps @ [p]) (cs @ [c])"
proof -
  obtain p b lp where p: "rt_bfevents s1 p = None" "rt_bfevents s2 = (rt_bfevents s1)(p \<mapsto> b)" "accepted ls s1 c b"
      "rt_server s2 = (rt_server s1)\<lparr>sv_pool := lp, sv_events := sv_events (rt_server s1) @ [p]\<rparr>"
    using assms(1) unfolding adds_conn_def by blast
  have "accepted ls s c b" using p(3) assms(3,4) by (auto simp: accepted_def)
  moreover have "conns_for ls s s2 ps cs"
    using assms(2) unfolding conns_for_def by (rule list_all2_mono) (use p(1,2) in auto)
  ultimately show ?thesis using p(2,4) by (auto simp: conns_for_def intro: list_all2_appendI)
qed

text \<open>How far the loop has come since \<open>s\<close>.\<close>

definition accept_progress ::
  "'w sys \<Rightarrow> ('w \<Rightarrow> fd \<Rightarrow> fd list) \<Rightarrow> ('w \<Rightarrow> fd \<Rightarrow> u32) \<Rightarrow> addr set \<Rightarrow> fd \<Rightarrow> ('w, 'm) servers_scheme \<Rightarrow>
   fd list \<Rightarrow> addr list \<Rightarrow> ('w, 'm) servers_scheme \<Rightarrow> bool" where
  "accept_progress S pending flags ls lfd s cs ps s' \<longleftrightarrow>
     pending (rt_world s) lfd = cs @ pending (rt_world s') lfd \<and> sv_events (rt_server s') = sv_events (rt_server s) @ ps \<and>
     conns_for ls s s' ps cs \<and> (flags_wire S flags \<longrightarrow> (\<forall>c \<in> set cs. nonblocking flags (rt_world s') c)) \<and>
     sv_readcb (rt_server s') = sv_readcb (rt_server s) \<and> sv_writecb (rt_server s') = sv_writecb (rt_server s)"

lemma accept_progress_refl: "accept_progress S pending flags ls lfd s [] [] s"
  by (simp add: accept_progress_def conns_for_def)

lemma accept_progress_go:
  assumes "accept_progress S pending flags ls lfd s cs ps s1" "accept_step S pending flags ls lfd True s1 s'"
  shows "length (pending (rt_world s') lfd) < length (pending (rt_world s1) lfd) \<and>
    (\<exists>cs ps. accept_progress S pending flags ls lfd s cs ps s')"
proof -
  obtain c where c: "pending (rt_world s1) lfd = c # pending (rt_world s') lfd" "adds_conn ls c s1 s'"
      "flags_wire S flags \<longrightarrow> nonblocking flags (rt_world s') c \<and>
         (\<forall>x. nonblocking flags (rt_world s1) x \<longrightarrow> nonblocking flags (rt_world s') x)"
    using assms(2) by (auto simp: accept_step_def)
  obtain p where p: "sv_events (rt_server s') = sv_events (rt_server s1) @ [p]" "conns_for ls s s' (ps @ [p]) (cs @ [c])"
    using conns_for_step [OF c(2)] assms(1) unfolding accept_progress_def by blast
  have "sv_readcb (rt_server s') = sv_readcb (rt_server s)" "sv_writecb (rt_server s') = sv_writecb (rt_server s)"
    using c(2) assms(1) by (auto simp: adds_conn_def accept_progress_def)
  then have "accept_progress S pending flags ls lfd s (cs @ [c]) (ps @ [p]) s'"
    using assms(1) c p by (auto simp: accept_progress_def)
  then show ?thesis using c(1) by auto
qed

lemma accept_progress_stop:
  assumes W: "accept_wire S pending" and J: "accept_progress S pending flags ls lfd s cs ps s1"
    and stop: "accept_step S pending flags ls lfd False s1 s'"
  shows "\<exists>cs ps e w. pending (rt_world s) lfd = cs @ pending w lfd \<and> sys_accept S lfd w = (Inl e, rt_world s') \<and>
    (e = EAGAIN \<longrightarrow> cs = pending (rt_world s) lfd \<and> pending (rt_world s') lfd = []) \<and>
    sv_events (rt_server s') = sv_events (rt_server s) @ ps \<and> conns_for ls s s' ps cs \<and>
    (flags_wire S flags \<longrightarrow> (\<forall>c \<in> set cs. nonblocking flags (rt_world s') c))"
proof -
  obtain e where e: "sys_accept S lfd (rt_world s1) = (Inl e, rt_world s')" "rt_bfevents s' = rt_bfevents s1"
      "rt_server s' = rt_server s1"
    using stop by (auto simp: accept_step_def)
  have "e = EAGAIN \<longrightarrow> pending (rt_world s1) lfd = [] \<and> pending (rt_world s') lfd = []"
    using W e(1) unfolding accept_wire_def accept_spec_def by fastforce
  moreover have "flags_wire S flags \<longrightarrow> flags (rt_world s') = flags (rt_world s1)"
    using e(1) unfolding flags_wire_def fun_eq_iff by blast
  ultimately show ?thesis
    using J e unfolding accept_progress_def
    by (intro exI [of _ cs] exI [of _ ps] exI [of _ e] exI [of _ "rt_world s1"]) (simp add: conns_for_def nonblocking_def)
qed

text \<open>
  C20. Accepting on an edge-triggered socket: the accepting loop of the server returns. It has
  taken connections from the front of the queue, in order, and has one connection object for
  each, with that descriptor, the callbacks of the server, empty buffers and one of the
  server's loops, appended to the server's list; the descriptors are non-blocking. It stops
  when \<^verbatim>\<open>accept\<close> fails. If that is because nothing is left, every connection that waited has been
  taken; if it is for another reason (no descriptors left, an aborted connection, a signal),
  the loop stops all the same and what is queued stays there. The one other way to end is the
  \<^verbatim>\<open>exit(1)\<close> of \<^verbatim>\<open>settcpnodelay\<close> when the socket option cannot be set.
\<close>

theorem handle_accept_takes_pending:
  assumes "kernel_ok S interest unread (\<lambda>w fd. length (pending w fd))" and "accept_wire S pending"
    and "typed interest ls s" and "acceptor_typed a s" and "rt_acceptors s a = Some A" and "ac_lfd A = Some lfd"
  shows "\<exists>r. handle_accept S (run_user S user) a s = Some r \<and>
    (case r of
       Inl e \<Rightarrow> e = Exit 1 \<and> \<not> nodelay_ok S
     | Inr s' \<Rightarrow> typed interest ls s' \<and> (\<exists>cs ps e w.
         pending (rt_world s) lfd = cs @ pending w lfd \<and> sys_accept S lfd w = (Inl e, rt_world s') \<and>
         (e = EAGAIN \<longrightarrow> cs = pending (rt_world s) lfd \<and> pending (rt_world s') lfd = []) \<and>
         sv_events (rt_server s') = sv_events (rt_server s) @ ps \<and> conns_for ls s s' ps cs \<and>
         (flags_wire S flags \<longrightarrow> (\<forall>c \<in> set cs. nonblocking flags (rt_world s') c))))"
proof -
  let ?P = "accept_progress S pending flags ls lfd s"
  let ?I = "\<lambda>s'. typed interest ls s' \<and> rt_acceptors s' = rt_acceptors s \<and> (\<exists>cs ps. ?P cs ps s')"
  have A: "a \<noteq> NULL" "ac_cb A = Some Server_acceptcb" using assms(4,5) by (auto simp: acceptor_typed_def)
  show ?thesis
    unfolding handle_accept_def
  proof (rule repeat_turn_result [where I = ?I and m = "\<lambda>s. length (pending (rt_world s) lfd)"], goal_cases)
    case 1
    then show ?case using assms(3) accept_progress_refl by blast
  next
    case (2 s1)
    then obtain cs ps where J: "?P cs ps s1" by blast
    have turn: "case handle_accept_turn S (run_user S user) a s1 of Inl e \<Rightarrow> e = Exit 1 \<and> \<not> nodelay_ok S
      | Inr (go, s') \<Rightarrow> typed interest ls s' \<and> rt_acceptors s' = rt_acceptors s1 \<and> accept_step S pending flags ls lfd go s1 s'"
      using handle_accept_turn_result [OF assms(1,2) _ A(1) _ assms(6) A(2), where ls = ls and s = s1 and user = user and flags = flags] 2 assms(5) by simp
    show ?case
    proof (cases "handle_accept_turn S (run_user S user) a s1")
      case (Inr x)
      obtain g s' where x: "x = (g, s')" by fastforce
      then show ?thesis
        using turn 2 accept_progress_go [OF J, of s'] accept_progress_stop [OF assms(2) J, of s'] Inr
        by (cases g) simp_all
    qed (use turn in simp)
  qed
qed

section \<open>A sample run\<close>

definition accept_start :: "kernel servers" where
  "accept_start = server_sample\<lparr>rt_world := kernel0\<lparr>k_pending := (\<lambda>_. [])(8 := [20, 21])\<rparr>,
     rt_acceptors := [4 \<mapsto> \<lparr>ac_lfd = Some 8, ac_loop = 1, ac_ev = None, ac_cb = Some Server_acceptcb, ac_shutdown = True\<rparr>]\<rparr>"

lemma echo_accept_wire: "accept_wire echo_sys k_pending"
  by (auto simp: accept_wire_def accept_spec_def ctl_silent_def keeps_def echo_sys_def closing_sys_def sample_sys_def
      k_accept_def k_ctl_def split: list.splits)

lemma echo_flags_wire: "flags_wire echo_sys k_flags"
  by (auto simp: flags_wire_def flags_spec_def ctl_silent_def echo_sys_def closing_sys_def sample_sys_def
      k_accept_def k_ctl_def split: list.splits)

lemma accept_start_typed: "typed k_interest {1} accept_start" "acceptor_typed 4 accept_start"
  by (simp_all add: typed_def heap_typed_def closing_def server_sample_def loop_typed_def watched_def server_typed_def
        pool_typed_def plain_def sample_eventloop_def kernel0_def accept_start_def acceptor_typed_def)

theorem handle_accept_takes_pending_witness:
  "\<exists>s' p q b c. handle_accept echo_sys (run_user echo_sys (echo_user echo_sys)) 4 accept_start = Some (Inr s') \<and>
     sv_events (rt_server s') = [p, q] \<and> rt_bfevents s' p = Some b \<and> bf_fd b = 20 \<and> rt_bfevents s' q = Some c \<and> bf_fd c = 21 \<and>
     nonblocking k_flags (rt_world s') 20 \<and> nonblocking k_flags (rt_world s') 21 \<and> k_pending (rt_world s') 8 = []"
proof -
  let ?h = "handle_accept echo_sys (run_user echo_sys (echo_user echo_sys)) 4 accept_start"
  have nd: "nodelay_ok echo_sys" by (simp add: nodelay_ok_def echo_sys_def closing_sys_def sample_sys_def)
  have a: "\<exists>A. rt_acceptors accept_start 4 = Some A \<and> ac_lfd A = Some 8" by (simp add: accept_start_def)
  have start: "k_pending (rt_world accept_start) 8 = [20, 21]" "sv_events (rt_server accept_start) = []"
    by (simp_all add: accept_start_def server_sample_def)
  obtain r where r: "?h = Some r" and
    Q: "case r of Inl e \<Rightarrow> e = Exit 1 \<and> \<not> nodelay_ok echo_sys
     | Inr s' \<Rightarrow> typed k_interest {1} s' \<and> (\<exists>cs ps e w.
         k_pending (rt_world accept_start) 8 = cs @ k_pending w 8 \<and> sys_accept echo_sys 8 w = (Inl e, rt_world s') \<and>
         (e = EAGAIN \<longrightarrow> cs = k_pending (rt_world accept_start) 8 \<and> k_pending (rt_world s') 8 = []) \<and>
         sv_events (rt_server s') = sv_events (rt_server accept_start) @ ps \<and> conns_for {1} accept_start s' ps cs \<and>
         (flags_wire echo_sys k_flags \<longrightarrow> (\<forall>c \<in> set cs. nonblocking k_flags (rt_world s') c)))"
    using handle_accept_takes_pending [OF echo_kernel_ok echo_accept_wire accept_start_typed, where lfd = 8
        and user = "echo_user echo_sys" and flags = k_flags] a by blast
  from Q nd obtain s' where s0: "r = Inr s'" by (cases r) auto
  obtain cs ps e w where s': "sys_accept echo_sys 8 w = (Inl e, rt_world s')"
      "e = EAGAIN \<longrightarrow> cs = [20, 21] \<and> k_pending (rt_world s') 8 = []" "sv_events (rt_server s') = ps"
      "conns_for {1} accept_start s' ps cs" "\<forall>c \<in> set cs. nonblocking k_flags (rt_world s') c"
    using Q echo_flags_wire unfolding s0 sum.case start append_Nil by blast
  have "e = EAGAIN"
    using s'(1) by (auto simp: echo_sys_def closing_sys_def sample_sys_def k_accept_def split: list.splits)
  then show ?thesis
    using s' r s0 by (auto simp: conns_for_def accepted_def list_all2_Cons2)
qed

end
