(* ===== verification/Server_Setup.thy ===== *)
theory Server_Setup
  imports Server_Steps Server_Safety
begin

text \<open>
  How a server comes to have well-typed heaps: the calls a program makes before it starts the
  loop (\<^verbatim>\<open>src/server.cpp\<close>, \<^verbatim>\<open>src/acceptor.cpp\<close>, \<^verbatim>\<open>src/looptpool.cpp\<close>) create its loops, wake-up
  events, listening socket and pool one after the other, and each keeps what is there.
\<close>

section \<open>What is asked of the kernel\<close>

text \<open>\<open>opened w\<close> are the descriptors in use. A new epoll instance has a new descriptor and watches nothing.\<close>

definition setup_calls :: "'w sys \<Rightarrow> 'w interest \<Rightarrow> ('w \<Rightarrow> fd set) \<Rightarrow> bool" where
  "setup_calls S interest opened \<longleftrightarrow>
     (\<forall>w ep w'. sys_epoll_create1 S w = (Inr ep, w') \<longrightarrow>
        ep \<notin> opened w \<and> opened w' = insert ep (opened w) \<and> interest w' = (interest w)(ep := Map.empty)) \<and>
     (\<forall>w fd w'. sys_eventfd S w = (Inr fd, w') \<longrightarrow> opened w \<subseteq> opened w' \<and> interest w' = interest w) \<and>
     (\<forall>t w fd w'. sys_socket S t w = (Inr fd, w') \<longrightarrow> opened w \<subseteq> opened w' \<and> interest w' = interest w) \<and>
     ctl_silent S opened \<and>
     (\<forall>fd sa. keeps (\<lambda>w. (interest w, opened w)) (sys_bind S fd sa)) \<and>
     (\<forall>fd n. keeps (\<lambda>w. (interest w, opened w)) (sys_listen S fd n)) \<and>
     (\<forall>fd opt. keeps (\<lambda>w. (interest w, opened w)) (sys_setsockopt S fd opt)) \<and>
     (\<forall>fd. keeps (\<lambda>w. (interest w, opened w)) (sys_fcntl_getfl S fd)) \<and>
     (\<forall>fd fl. keeps (\<lambda>w. (interest w, opened w)) (sys_fcntl_setfl S fd fl))"

lemma setup_callsD:
  assumes "setup_calls S interest opened"
  shows "sys_epoll_create1 S w = (Inr ep, w') \<Longrightarrow>
      ep \<notin> opened w \<and> opened w' = insert ep (opened w) \<and> interest w' = (interest w)(ep := Map.empty)"
    and "sys_eventfd S w = (Inr fd, w') \<Longrightarrow> opened w \<subseteq> opened w' \<and> interest w' = interest w"
    and "sys_socket S t w = (Inr fd, w') \<Longrightarrow> opened w \<subseteq> opened w' \<and> interest w' = interest w"
  using assms by (simp_all add: setup_calls_def)

section \<open>A program that sets up its server\<close>

text \<open>\<open>ls\<close> are the loops so far; there are no connections yet.\<close>

definition setting_up :: "'w interest \<Rightarrow> ('w \<Rightarrow> fd set) \<Rightarrow> addr set \<Rightarrow> ('w, 'm) servers_scheme \<Rightarrow> bool" where
  "setting_up interest opened ls s \<longleftrightarrow>
     NULL < rt_next s \<and> rt_bfevents s = Map.empty \<and>
     (\<forall>q \<ge> rt_next s. rt_events s q = None \<and> rt_acceptors s q = None) \<and>
     (\<forall>l \<in> ls. loop_typed l s \<and> watched interest l s \<and> l < rt_next s \<and>
        el_delque (the (rt_loops s l)) = [] \<and> el_epfd (the (rt_loops s l)) \<in> opened (rt_world s)) \<and>
     inj_on (\<lambda>l. el_epfd (the (rt_loops s l))) ls"

lemma setting_up_typed:
  assumes "setting_up interest opened ls s" "server_typed ls s" "sv_events (rt_server s) = []"
  shows "typed interest ls s"
proof -
  have cl: "closing ls s = {}" using assms(1) by (simp add: closing_def setting_up_def)
  have "heap_typed interest ls {} s" using assms by (simp add: heap_typed_def setting_up_def)
  then show ?thesis using assms(1) by (simp add: typed_def cl setting_up_def)
qed

text \<open>Steps that leave the events and what the typing sees of the loops alone.\<close>

lemma setting_up_step:
  assumes s: "setting_up interest opened ls s" and s': "rt_events s' = rt_events s" "rt_bfevents s' = rt_bfevents s"
    and L: "\<And>l L. l \<in> ls \<Longrightarrow> rt_loops s l = Some L \<Longrightarrow>
      \<exists>L'. rt_loops s' l = Some L' \<and> el_epfd L' = el_epfd L \<and> el_evlist L' = el_evlist L \<and> el_delque L' = el_delque L \<and>
        el_nevents L' = el_nevents L"
    and n: "rt_next s \<le> rt_next s'" and a: "\<And>a. acceptor_typed a s \<Longrightarrow> acceptor_typed a s'"
      "\<And>q. rt_next s' \<le> q \<Longrightarrow> rt_acceptors s' q = None"
    and w: "\<And>l L. l \<in> ls \<Longrightarrow> rt_loops s l = Some L \<Longrightarrow> interest (rt_world s') (el_epfd L) = interest (rt_world s) (el_epfd L)"
      "opened (rt_world s) \<subseteq> opened (rt_world s')"
  shows "setting_up interest opened ls s'"
proof -
  have ev: "ev_typed l q s'" if "ev_typed l q s" for l q
    by (rule ev_typed_mono [OF that]) (use s' a(1) in simp_all)
  have same: "\<exists>L'. rt_loops s' l = Some L' \<and> loop_typed l s' \<and> watched interest l s' \<and> el_delque L' = [] \<and>
      el_epfd L' = el_epfd (the (rt_loops s l)) \<and> el_epfd L' \<in> opened (rt_world s')" if l: "l \<in> ls" for l
  proof -
    have sl: "loop_typed l s" "watched interest l s" "el_delque (the (rt_loops s l)) = []"
        "el_epfd (the (rt_loops s l)) \<in> opened (rt_world s)"
      using s l by (simp_all add: setting_up_def)
    obtain K where K: "l \<noteq> NULL" "rt_loops s l = Some K" "MAX_EVENTS \<le> el_nevents K" "distinct (el_evlist K)"
        "\<forall>q \<in> set (el_evlist K). ev_typed l q s"
      using sl(1) by (auto simp: loop_typed_def)
    obtain L' where L': "rt_loops s' l = Some L'" "el_epfd L' = el_epfd K" "el_evlist L' = el_evlist K"
        "el_delque L' = el_delque K" "el_nevents L' = el_nevents K"
      using L [OF l K(2)] by blast
    have "loop_typed l s'" using K ev L' by (auto simp: loop_typed_def)
    moreover have "watched interest l s'" using sl(2) K(2) L' w(1) [OF l K(2)] by (simp add: watched_def s')
    ultimately show ?thesis using sl(3,4) K(2) L' w(2) by auto
  qed
  then have "inj_on (\<lambda>l. el_epfd (the (rt_loops s' l))) ls"
    using s unfolding setting_up_def inj_on_def by (metis option.sel)
  moreover have "loop_typed l s' \<and> watched interest l s' \<and> l < rt_next s' \<and>
        el_delque (the (rt_loops s' l)) = [] \<and> el_epfd (the (rt_loops s' l)) \<in> opened (rt_world s')" if l: "l \<in> ls" for l
    using same [OF l] s l n by (auto simp: setting_up_def)
  ultimately show ?thesis using s n a(2) unfolding setting_up_def s' by auto
qed

lemma setting_up_world:
  assumes "setting_up interest opened ls s" "interest w = interest (rt_world s)" "opened (rt_world s) \<subseteq> opened w"
  shows "setting_up interest opened ls (s\<lparr>rt_world := w\<rparr>)"
  by (rule setting_up_step [OF assms(1)]) (use assms in \<open>auto simp: acceptor_typed_def setting_up_def\<close>)

text \<open>A new event in the list of a loop, whatever epoll answers.\<close>

lemma new_watch:
  assumes S: "epoll_ctl_spec S interest" "ctl_silent S opened" and s: "setting_up interest opened ls s" and l: "l \<in> ls"
    and c: "c = Read_eventfd l \<or> (\<exists>a. c = Acceptor_handle_accept a \<and> acceptor_typed a s)"
  shows "\<exists>s'. bindR (setcb (rt_next s) (Some c) None None (snd (new_event l fd m s))) (add_event S l (rt_next s)) = Inr s' \<and>
    setting_up interest opened ls s' \<and> rt_next s' = Suc (rt_next s) \<and> rt_server s' = rt_server s \<and>
    rt_acceptors s' = rt_acceptors s \<and> rt_loopthreads s' = rt_loopthreads s"
proof -
  let ?q = "rt_next s"
  let ?e = "\<lparr>ev_loop = l, ev_fd = fd, ev_events = m, ev_revents = None,
      ev_readcb = Some c, ev_writecb = None, ev_eventcb = None\<rparr>"
  have sl: "loop_typed k s" "watched interest k s" "k < rt_next s" "el_delque (the (rt_loops s k)) = []"
      "el_epfd (the (rt_loops s k)) \<in> opened (rt_world s)" if "k \<in> ls" for k
    using s that by (simp_all add: setting_up_def)
  obtain L where L: "l \<noteq> NULL" "rt_loops s l = Some L" using sl(1) [OF l] by (auto simp: loop_typed_def)
  have fresh: "0 < ?q" "rt_events s ?q = None" "\<And>r. ?q \<le> r \<Longrightarrow> rt_events s r = None" using s by (simp_all add: setting_up_def)
  obtain r w where w: "sys_epoll_ctl S (el_epfd L) EPOLL_CTL_ADD fd (Some (m, ?q)) (rt_world s) = (r, w)" by fastforce
  let ?L = "L\<lparr>el_load := el_load L + 1, el_evlist := el_evlist L @ [?q]\<rparr>"
  let ?s = "s\<lparr>rt_next := Suc ?q, rt_events := (rt_events s)(?q \<mapsto> ?e), rt_loops := (rt_loops s)(l \<mapsto> ?L), rt_world := w\<rparr>"
  have eq: "bindR (setcb ?q (Some c) None None (snd (new_event l fd m s))) (add_event S l ?q) = Inr ?s"
    using L fresh(1) w by (simp add: new_event_def setcb_def upd_event_def put_event_def add_event_def upd_loop_def put_loop_def call_def)
  have evs: "evs k ?s = (if k = l then insert ?q (evs k s) else evs k s)"
      "el_epfd (the (rt_loops ?s k)) = el_epfd (the (rt_loops s k))"
      "el_delque (the (rt_loops ?s k)) = el_delque (the (rt_loops s k))" for k
    using L(2) by simp_all
  have ev: "ev_typed k r ?s" if "ev_typed k r s" for k r
    by (rule ev_typed_cong [OF that]) (use that fresh(2) in \<open>auto simp: ev_typed_def\<close>)
  have new: "ev_typed l ?q ?s" using c fresh(1) by (auto simp: ev_typed_def ev_role_def acceptor_typed_def)
  have "?q \<notin> set (el_evlist L)" using sl(1) [OF l] fresh(2) L(2) by (auto simp: loop_typed_def ev_typed_def)
  then have loop: "loop_typed k ?s" if "k \<in> ls" for k
    using sl(1) [OF that] ev new L unfolding loop_typed_def by auto
  have old: "ev_fd (the (rt_events ?s r)) = ev_fd (the (rt_events s r))" if "k \<in> ls" "r \<in> evs k s" for k r
  proof -
    have "ev_typed k r s" using sl(1) [OF that(1)] that(2) by (auto simp: loop_typed_def)
    then show ?thesis using fresh(2) by (auto simp: ev_typed_def)
  qed
  have inj: "inj_on (\<lambda>l. el_epfd (the (rt_loops s l))) ls" using s by (simp add: setting_up_def)
  have watch: "watched interest k ?s" if k: "k \<in> ls" for k
    by (rule watched_ctl [OF S(1) inj k l, of EPOLL_CTL_ADD fd "Some (m, ?q)" r w m ?q])
      (use w L(2) sl(2) [OF k] old [OF k] evs in auto)
  have op: "opened w = opened (rt_world s)"
    using S(2) [unfolded ctl_silent_def, rule_format, of "el_epfd L" EPOLL_CTL_ADD fd "Some (m, ?q)" "rt_world s"] w by simp
  have "setting_up interest opened ls ?s"
    unfolding setting_up_def
  proof (intro conjI ballI)
    show "inj_on (\<lambda>l. el_epfd (the (rt_loops ?s l))) ls" unfolding evs by (rule inj)
    fix k
    assume k: "k \<in> ls"
    show "loop_typed k ?s" "watched interest k ?s" by (rule loop [OF k], rule watch [OF k])
    show "k < rt_next ?s" "el_delque (the (rt_loops ?s k)) = []" "el_epfd (the (rt_loops ?s k)) \<in> opened (rt_world ?s)"
      using sl [OF k] op unfolding evs by simp_all
  qed (use s in \<open>auto simp: setting_up_def\<close>)
  with eq show ?thesis by auto
qed

section \<open>Event loops\<close>

text \<open>What a setup step leaves alone, apart from the loops and their events.\<close>

definition rest_same :: "('w, 'm) servers_scheme \<Rightarrow> ('w, 'm) servers_scheme \<Rightarrow> bool" where
  "rest_same s s' \<longleftrightarrow> rt_server s' = rt_server s \<and> rt_acceptors s' = rt_acceptors s \<and> rt_loopthreads s' = rt_loopthreads s"

lemma add_loop:
  assumes s: "setting_up interest opened ls s" and ep: "ep \<notin> opened (rt_world s)"
    and w: "opened w = insert ep (opened (rt_world s))" "interest w = (interest (rt_world s))(ep := Map.empty)"
    and L: "el_epfd L = ep" "el_evlist L = []" "el_delque L = []" "el_nevents L = MAX_EVENTS"
  shows "setting_up interest opened (insert (rt_next s) ls)
    (s\<lparr>rt_world := w, rt_next := Suc (rt_next s), rt_loops := (rt_loops s)(rt_next s \<mapsto> L)\<rparr>)" (is "setting_up _ _ _ ?s")
proof -
  let ?l = "rt_next s"
  have sl: "el_epfd (the (rt_loops s k)) \<in> opened (rt_world s)" "k \<noteq> ?l" if "k \<in> ls" for k
    using s that by (auto simp: setting_up_def)
  have old: "setting_up interest opened ls ?s"
  proof (rule setting_up_step [OF s])
    fix k K
    assume k: "k \<in> ls" "rt_loops s k = Some K"
    then have "el_epfd K \<noteq> ep" using sl(1) [OF k(1)] ep by auto
    then show "interest (rt_world ?s) (el_epfd K) = interest (rt_world s) (el_epfd K)" using w(2) by simp
    show "\<exists>L'. rt_loops ?s k = Some L' \<and> el_epfd L' = el_epfd K \<and> el_evlist L' = el_evlist K \<and>
        el_delque L' = el_delque K \<and> el_nevents L' = el_nevents K"
      using k sl(2) [OF k(1)] by auto
  qed (use s w(1) in \<open>auto simp: setting_up_def acceptor_typed_def\<close>)
  have "loop_typed ?l ?s" "watched interest ?l ?s" using s L w(2) by (simp_all add: setting_up_def loop_typed_def watched_def)
  moreover have "inj_on (\<lambda>l. el_epfd (the (rt_loops ?s l))) (insert ?l ls)"
    unfolding inj_on_insert
  proof
    show "inj_on (\<lambda>l. el_epfd (the (rt_loops ?s l))) ls" using old by (simp add: setting_up_def)
    have "el_epfd (the (rt_loops ?s ?l)) \<noteq> el_epfd (the (rt_loops ?s k))" if "k \<in> ls" for k
      using sl [OF that] ep L(1) by auto
    then show "el_epfd (the (rt_loops ?s ?l)) \<notin> (\<lambda>l. el_epfd (the (rt_loops ?s l))) ` (ls - {?l})" by blast
  qed
  ultimately show ?thesis using old L w(1) by (simp add: setting_up_def)
qed

lemma new_eventloop_safe:
  assumes S: "epoll_ctl_spec S interest" "setup_calls S interest opened" and s: "setting_up interest opened ls s"
  shows "safe (\<lambda>(l, s'). l = rt_next s \<and> setting_up interest opened (insert l ls) s' \<and> rest_same s s' \<and> rt_next s < rt_next s')
    (new_eventloop S base timeout s)"
proof -
  let ?l = "rt_next s"
  obtain r w where w: "sys_epoll_create1 S (rt_world s) = (r, w)" by fastforce
  show ?thesis
  proof (cases r)
    case (Inl e)
    then show ?thesis using w by (simp add: new_eventloop_def call_def)
  next
    case (Inr ep)
    let ?L = "\<lparr>el_epfd = ep, el_eventfd = -1, el_timeout = timeout, el_load = 0, el_shutdown = False, el_evlist = [],
        el_nevents = MAX_EVENTS, el_delque = [], el_baseloop = base\<rparr>"
    let ?s1 = "s\<lparr>rt_world := w, rt_next := Suc ?l, rt_loops := (rt_loops s)(?l \<mapsto> ?L)\<rparr>"
    have ep: "ep \<notin> opened (rt_world s)" "opened w = insert ep (opened (rt_world s))"
        "interest w = (interest (rt_world s))(ep := Map.empty)"
      using setup_callsD(1) [OF S(2) w [unfolded Inr]] by blast+
    have s1: "setting_up interest opened (insert ?l ls) ?s1" by (rule add_loop [OF s ep]) simp_all
    obtain r2 w2 where w2: "sys_eventfd S w = (r2, w2)" by fastforce
    show ?thesis
    proof (cases r2)
      case (Inl e)
      then show ?thesis
        using w Inr w2 by (simp add: new_eventloop_def call_def Let_def create_eventfd_def put_loop_def)
    next
      case fd: (Inr fd)
      let ?s2 = "?s1\<lparr>rt_world := w2, rt_loops := (rt_loops ?s1)(?l \<mapsto> ?L\<lparr>el_eventfd := fd\<rparr>)\<rparr>"
      have "opened w \<subseteq> opened w2" "interest w2 = interest w" using setup_callsD(2) [OF S(2) w2 [unfolded fd]] by blast+
      then have s2: "setting_up interest opened (insert ?l ls) ?s2"
        by (intro setting_up_step [OF s1]) (use s in \<open>auto simp: setting_up_def acceptor_typed_def\<close>)
      have "ctl_silent S opened" using S(2) by (simp add: setup_calls_def)
      from new_watch [OF S(1) this s2, of ?l "Read_eventfd ?l" fd EPOLLIN]
      obtain s' where s': "bindR (setcb (Suc ?l) (Some (Read_eventfd ?l)) None None (snd (new_event ?l fd EPOLLIN ?s2)))
          (add_event S ?l (Suc ?l)) = Inr s'" "setting_up interest opened (insert ?l ls) s'" "rt_next s' = Suc (Suc ?l)"
          "rest_same ?s2 s'" by (auto simp: rest_same_def)
      have "0 < ?l" using s by (simp add: setting_up_def)
      then have "new_eventloop S base timeout s = Inr (?l, s')"
        using w Inr w2 fd s'(1)
        by (simp add: new_eventloop_def call_def Let_def create_eventfd_def put_loop_def upd_loop_def new_event_def)
      then show ?thesis using s' by (simp add: rest_same_def)
    qed
  qed
qed

section \<open>The pool\<close>

lemma start_loop_safe:
  assumes S: "epoll_ctl_spec S interest" "setup_calls S interest opened" and s: "setting_up interest opened ls s"
  shows "safe (\<lambda>(l, s'). setting_up interest opened (insert l ls) s' \<and> rt_server s' = rt_server s \<and>
      rt_acceptors s' = rt_acceptors s) (start_loop S seen timeout s)"
proof -
  let ?t = "rt_next s" and ?s1 = "snd (new_loopthread timeout s)"
  have t: "?t \<noteq> NULL" "rt_loopthreads ?s1 ?t \<noteq> None" "lh_loop (the (rt_loopthreads ?s1 ?t)) = NULL"
      "rt_server ?s1 = rt_server s" "rt_acceptors ?s1 = rt_acceptors s"
    using s by (simp_all add: setting_up_def new_loopthread_def Let_def)
  have s1: "setting_up interest opened ls ?s1"
    by (rule setting_up_step [OF s]) (use s in \<open>auto simp: new_loopthread_def Let_def setting_up_def acceptor_typed_def\<close>)
  have eq: "start_loop S seen timeout s = bindR (new_eventloop S ?t (seen ?t) ?s1) (\<lambda>(l, s).
      bindR (upd_loopthread ?t (\<lambda>t. t\<lparr>lh_loop := l\<rparr>) s) (\<lambda>s. bindR (deref (rt_loopthreads s) ?t) (\<lambda>t. Inr (lh_loop t, s))))"
    using t by (auto simp: start_loop_def lh_getloop_def lh_init_def new_loopthread_def Let_def bindR_assoc case_prod_unfold)
  show ?thesis
    unfolding eq
  proof (rule safe_bind [OF new_eventloop_safe [OF S s1]], clarify)
    fix l s2
    assume s2: "setting_up interest opened (insert (rt_next ?s1) ls) s2" "rest_same ?s1 s2"
    let ?l = "rt_next ?s1"
    obtain th where th: "rt_loopthreads s2 ?t = Some th" using s2(2) t(2) by (auto simp: rest_same_def)
    let ?s3 = "s2\<lparr>rt_loopthreads := (rt_loopthreads s2)(?t \<mapsto> th\<lparr>lh_loop := ?l\<rparr>)\<rparr>"
    have "setting_up interest opened (insert ?l ls) ?s3"
      by (rule setting_up_step [OF s2(1)]) (use s2(1) in \<open>auto simp: setting_up_def acceptor_typed_def\<close>)
    then show "safe (\<lambda>(l, s'). setting_up interest opened (insert l ls) s' \<and> rt_server s' = rt_server s \<and>
          rt_acceptors s' = rt_acceptors s)
        (bindR (upd_loopthread ?t (\<lambda>t. t\<lparr>lh_loop := ?l\<rparr>) s2) (\<lambda>s. bindR (deref (rt_loopthreads s) ?t) (\<lambda>t. Inr (lh_loop t, s))))"
      using t th s2(2) by (simp add: upd_loopthread_def rest_same_def)
  qed
qed

lemma start_loops_safe:
  fixes s :: "('w, 'm) servers_scheme"
  assumes S: "epoll_ctl_spec S interest" "setup_calls S interest opened"
  shows "setting_up interest opened ls s \<Longrightarrow>
    safe (\<lambda>(new, s'). length new = n \<and> setting_up interest opened (ls \<union> set new) s' \<and> rt_server s' = rt_server s \<and>
      rt_acceptors s' = rt_acceptors s) (start_loops S seen timeout n s)"
proof (induction n arbitrary: ls s)
  case (Suc n)
  show ?case
    unfolding start_loops.simps
  proof (rule safe_bind [OF start_loop_safe [OF S Suc.prems]], clarify)
    fix l and s1 :: "('w, 'm) servers_scheme"
    assume s1: "setting_up interest opened (insert l ls) s1" "rt_server s1 = rt_server s" "rt_acceptors s1 = rt_acceptors s"
    show "safe (\<lambda>(new, s'). length new = Suc n \<and> setting_up interest opened (ls \<union> set new) s' \<and> rt_server s' = rt_server s \<and>
        rt_acceptors s' = rt_acceptors s) (bindR (start_loops S seen timeout n s1) (\<lambda>(ls, s). Inr (l # ls, s)))"
      by (rule safe_bind [OF Suc.IH [OF s1(1)]]) (use s1 in auto)
  qed
qed simp

section \<open>The listening socket\<close>

lemma keeps_socket_calls:
  assumes "\<And>fd opt. keeps data (sys_setsockopt S fd opt)" "\<And>fd sa. keeps data (sys_bind S fd sa)"
    "\<And>fd n. keeps data (sys_listen S fd n)"
  shows "safe (\<lambda>w'. data w' = data w) (setreuse S fd w)" "safe (\<lambda>w'. data w' = data w) (Bind S fd sa w)"
    "safe (\<lambda>w'. data w' = data w) (Listen S fd n w)"
  using assms [THEN keepsD]
  by (auto simp: setreuse_def Bind_def Listen_def perr_exit_def split: prod.splits sum.splits)

lemma ac_init_sock_safe:
  assumes S: "setup_calls S interest opened" and s: "setting_up interest opened ls s"
    and a: "a \<noteq> NULL" "rt_acceptors s a = Some A"
  shows "safe (\<lambda>s'. setting_up interest opened ls s' \<and> rt_server s' = rt_server s \<and>
      (\<exists>fd. rt_acceptors s' = (rt_acceptors s)(a \<mapsto> A\<lparr>ac_lfd := Some fd\<rparr>))) (ac_init_sock S a port s)" (is "safe ?Q _")
proof -
  let ?d = "\<lambda>w. (interest w, opened w)"
  have k: "keeps ?d (sys_setsockopt S fd opt)" "keeps ?d (sys_bind S fd sa)" "keeps ?d (sys_listen S fd n)"
      "keeps ?d (sys_fcntl_getfl S fd)" "keeps ?d (sys_fcntl_setfl S fd fl)" for fd opt sa n fl
    using S unfolding setup_calls_def by blast+
  note calls = keeps_socket_calls [of ?d S, OF k(1-3)]
  have fin: "safe ?Q (upd_acceptor a (\<lambda>a. a\<lparr>ac_lfd := Some fd\<rparr>) (s\<lparr>rt_world := w\<rparr>))"
    if w: "interest w = interest (rt_world s)" "opened (rt_world s) \<subseteq> opened w" for fd w
  proof -
    let ?s = "s\<lparr>rt_world := w, rt_acceptors := (rt_acceptors s)(a \<mapsto> A\<lparr>ac_lfd := Some fd\<rparr>)\<rparr>"
    have "a < rt_next s" using s a(2) by (simp add: setting_up_def) (metis not_le option.distinct(1))
    then have "setting_up interest opened ls ?s"
      by (intro setting_up_step [OF s]) (use s a w in \<open>auto simp: setting_up_def acceptor_typed_def\<close>)
    then show ?thesis using a by (auto simp: upd_acceptor_def)
  qed
  have sock: "safe (\<lambda>(fd, w). opened (rt_world s) \<subseteq> opened w \<and> interest w = interest (rt_world s)) (Socket S SOCK_STREAM (rt_world s))"
    using setup_callsD(3) [OF S, of SOCK_STREAM "rt_world s"]
    by (auto simp: Socket_def perr_exit_def split: prod.splits sum.splits)
  have chain: "safe ?Q (bindR (setreuse S fd (setnonblock S fd w)) (\<lambda>w. bindR (Bind S fd (any_addr port) w) (\<lambda>w.
      bindR (Listen S fd SOMAXCONN w) (\<lambda>w. upd_acceptor a (\<lambda>a. a\<lparr>ac_lfd := Some fd\<rparr>) (s\<lparr>rt_world := w\<rparr>)))))"
    if w: "interest w = interest (rt_world s)" "opened (rt_world s) \<subseteq> opened w" for fd w
  proof -
    have nb: "?d (setnonblock S fd w) = ?d w" by (rule keeps_setnonblock [of ?d S]) (use k in blast)+
    show ?thesis
      by (rule safe_bind [OF calls(1)], rule safe_bind [OF calls(2)], rule safe_bind [OF calls(3)], rule fin)
        (use nb w in auto)
  qed
  have "ac_init_sock S a port s = bindR (Socket S SOCK_STREAM (rt_world s)) (\<lambda>(fd, w).
      bindR (setreuse S fd (setnonblock S fd w)) (\<lambda>w. bindR (Bind S fd (any_addr port) w) (\<lambda>w.
      bindR (Listen S fd SOMAXCONN w) (\<lambda>w. upd_acceptor a (\<lambda>a. a\<lparr>ac_lfd := Some fd\<rparr>) (s\<lparr>rt_world := w\<rparr>)))))"
    by (simp add: ac_init_sock_def via_world_def bindR_assoc case_prod_unfold)
  then show ?thesis using chain by (auto intro!: safe_bind [OF sock])
qed

lemma new_acceptor_safe:
  assumes S: "setup_calls S interest opened" and s: "setting_up interest opened ls s"
  shows "safe (\<lambda>(a, s'). a \<noteq> NULL \<and> setting_up interest opened ls s' \<and> rt_server s' = rt_server s \<and>
      (\<exists>A. rt_acceptors s' a = Some A \<and> ac_loop A = base)) (new_acceptor S port base s)"
proof -
  let ?a = "rt_next s"
  let ?A = "\<lparr>ac_lfd = None, ac_loop = base, ac_ev = None, ac_cb = None, ac_shutdown = True\<rparr>"
  let ?s = "s\<lparr>rt_next := Suc ?a, rt_acceptors := (rt_acceptors s)(?a \<mapsto> ?A)\<rparr>"
  have a: "?a \<noteq> NULL" "rt_acceptors s ?a = None" using s by (simp_all add: setting_up_def)
  have s1: "setting_up interest opened ls ?s"
    by (rule setting_up_step [OF s]) (use s a in \<open>auto simp: setting_up_def acceptor_typed_def\<close>)
  show ?thesis
  proof (cases "port = -1")
    case True
    then show ?thesis using s1 a by (simp add: new_acceptor_def Let_def)
  next
    case False
    have "safe (\<lambda>(a, s'). a \<noteq> NULL \<and> setting_up interest opened ls s' \<and> rt_server s' = rt_server s \<and>
        (\<exists>A. rt_acceptors s' a = Some A \<and> ac_loop A = base)) (bindR (ac_init_sock S ?a port ?s) (\<lambda>s. Inr (?a, s)))"
      by (rule safe_bind [OF ac_init_sock_safe [OF S s1 a(1), of ?A]]) (use a in auto)
    then show ?thesis using False by (simp add: new_acceptor_def Let_def)
  qed
qed

section \<open>The server\<close>

text \<open>A server that is set up: its parts are there and in \<open>ls\<close>.\<close>

definition configured :: "'w interest \<Rightarrow> ('w \<Rightarrow> fd set) \<Rightarrow> addr set \<Rightarrow> ('w, 'm) servers_scheme \<Rightarrow> bool" where
  "configured interest opened ls s \<longleftrightarrow>
     setting_up interest opened ls s \<and> server_typed ls s \<and> sv_events (rt_server s) = [] \<and> sv_base (rt_server s) \<in> ls \<and>
     (\<exists>A. rt_acceptors s (sv_acceptor (rt_server s)) = Some A \<and> ac_loop A \<in> ls)"

lemma ac_listen_ok:
  assumes S: "epoll_ctl_spec S interest" "setup_calls S interest opened" and s: "setting_up interest opened ls s"
    and a: "a \<noteq> NULL" "rt_acceptors s a = Some A" "ac_loop A \<in> ls" "ac_lfd A = Some lfd" "ac_cb A = Some Server_acceptcb"
  shows "\<exists>s'. ac_listen S a s = Inr s' \<and> setting_up interest opened ls s' \<and> rt_server s' = rt_server s \<and>
      (\<exists>A'. rt_acceptors s' a = Some A' \<and> ac_loop A' = ac_loop A)"
proof (cases "ac_shutdown A")
  case False
  then show ?thesis using a s by (simp add: ac_listen_def)
next
  case True
  let ?q = "rt_next s"
  have silent: "ctl_silent S opened" using S(2) by (simp add: setup_calls_def)
  have "acceptor_typed a s" using a by (simp add: acceptor_typed_def)
  then have role: "Acceptor_handle_accept a = Read_eventfd (ac_loop A) \<or>
      (\<exists>b. Acceptor_handle_accept a = Acceptor_handle_accept b \<and> acceptor_typed b s)" by blast
  obtain s1 where s1: "bindR (setcb ?q (Some (Acceptor_handle_accept a)) None None
        (snd (new_event (ac_loop A) lfd (EPOLLIN OR EPOLLET) s))) (add_event S (ac_loop A) ?q) = Inr s1"
      "setting_up interest opened ls s1" "rt_server s1 = rt_server s" "rt_acceptors s1 = rt_acceptors s"
    using new_watch [OF S(1) silent s a(3) role] by blast
  let ?A = "A\<lparr>ac_ev := Some ?q, ac_shutdown := False\<rparr>"
  let ?s = "s1\<lparr>rt_acceptors := (rt_acceptors s1)(a \<mapsto> ?A)\<rparr>"
  have "a < rt_next s1" using s1(2,4) a(2) by (simp add: setting_up_def) (metis not_le option.distinct(1))
  then have "setting_up interest opened ls ?s"
    by (intro setting_up_step [OF s1(2)]) (use s1(2,4) a in \<open>auto simp: setting_up_def acceptor_typed_def\<close>)
  moreover have "ac_listen S a s = Inr ?s"
    using a True s1(1,4)
    by (simp add: ac_listen_def member_def new_event_def bindR_assoc [symmetric] upd_acceptor_def)
  ultimately show ?thesis using s1(3) by simp
qed

lemma enable_tcp_safe:
  fixes s :: "('w, 'm) servers_scheme"
  assumes S: "epoll_ctl_spec S interest" "setup_calls S interest opened" and c: "configured interest opened ls s"
  shows "safe (\<lambda>s'. configured interest opened ls s' \<and> sv_pool (rt_server s') = sv_pool (rt_server s) \<and>
      sv_base (rt_server s') = sv_base (rt_server s)) (enable_tcp S port s)" (is "safe ?C _")
proof (cases "sv_tcp_enable (rt_server s)")
  case True
  then show ?thesis using c by (simp add: enable_tcp_def)
next
  case False
  let ?s0 = "upd_server (\<lambda>v. v\<lparr>sv_port := port\<rparr>) s" and ?a = "sv_acceptor (rt_server s)"
  have s: "setting_up interest opened ls s" "server_typed ls s" using c by (simp_all add: configured_def)
  have a: "?a \<noteq> NULL" using s(2) by (simp add: server_typed_def)
  obtain A where A: "rt_acceptors s ?a = Some A" "ac_loop A \<in> ls" using c by (auto simp: configured_def)
  have s0: "setting_up interest opened ls ?s0"
    by (rule setting_up_step [OF s(1)]) (use s(1) in \<open>auto simp: setting_up_def acceptor_typed_def\<close>)
  let ?P = "\<lambda>s'. setting_up interest opened ls s' \<and> rt_server s' = rt_server ?s0 \<and>
      (\<exists>A'. rt_acceptors s' ?a = Some A' \<and> ac_loop A' \<in> ls)"
  have listen: "safe ?P (bindR (ac_setcb ?a (Some Server_acceptcb) s1) (ac_listen S ?a))"
    if s1: "setting_up interest opened ls s1" "rt_server s1 = rt_server ?s0"
      "rt_acceptors s1 = (rt_acceptors s)(?a \<mapsto> A\<lparr>ac_lfd := Some fd\<rparr>)" for s1 fd
  proof -
    let ?A = "A\<lparr>ac_lfd := Some fd, ac_cb := Some Server_acceptcb\<rparr>"
    let ?s2 = "s1\<lparr>rt_acceptors := (rt_acceptors s1)(?a \<mapsto> ?A)\<rparr>"
    have "?a < rt_next s1" using s1(1,3) by (simp add: setting_up_def) (metis not_le option.distinct(1))
    then have s2: "setting_up interest opened ls ?s2"
      by (intro setting_up_step [OF s1(1)]) (use s1 in \<open>auto simp: setting_up_def acceptor_typed_def\<close>)
    have "safe ?P (ac_listen S ?a ?s2)"
      using ac_listen_ok [OF S s2 a, of ?A fd] A(2) s1(2) by auto
    then show ?thesis using a s1(3) by (simp add: ac_setcb_def upd_acceptor_def)
  qed
  have eq: "enable_tcp S port s = bindR (bindR (ac_init_sock S ?a port ?s0) (\<lambda>s.
      bindR (ac_setcb ?a (Some Server_acceptcb) s) (ac_listen S ?a))) (\<lambda>s. Inr (upd_server (\<lambda>v. v\<lparr>sv_tcp_enable := True\<rparr>) s))"
    using False by (simp add: enable_tcp_def Let_def bindR_assoc)
  have init: "safe ?P (bindR (ac_init_sock S ?a port ?s0) (\<lambda>s. bindR (ac_setcb ?a (Some Server_acceptcb) s) (ac_listen S ?a)))"
    by (rule safe_bind [OF ac_init_sock_safe [OF S(2) s0 a, of A]]) (use A(1) listen in auto)
  show ?thesis
    unfolding eq
  proof (rule safe_bind [OF init], elim conjE)
    fix s3 :: "('w, 'm) servers_scheme"
    assume s3: "setting_up interest opened ls s3" "rt_server s3 = rt_server ?s0"
      "\<exists>A'. rt_acceptors s3 ?a = Some A' \<and> ac_loop A' \<in> ls"
    have "setting_up interest opened ls (upd_server (\<lambda>v. v\<lparr>sv_tcp_enable := True\<rparr>) s3)"
      by (rule setting_up_step [OF s3(1)]) (use s3(1) in \<open>auto simp: setting_up_def acceptor_typed_def\<close>)
    then show "safe ?C (Inr (upd_server (\<lambda>v. v\<lparr>sv_tcp_enable := True\<rparr>) s3))"
      using c s3(2,3) by (simp add: configured_def server_typed_def)
  qed
qed

lemma new_server_safe:
  assumes S: "epoll_ctl_spec S interest" "setup_calls S interest opened" and s: "setting_up interest opened {} s"
  shows "safe (\<lambda>s'. configured interest opened {sv_base (rt_server s')} s' \<and> lo_loadvec (sv_pool (rt_server s')) = [] \<and>
      \<not> lo_manager (sv_pool (rt_server s'))) (new_server S (-1) s)"
proof -
  obtain lp where lp: "new_looptpool l False = Inr (lp l)" "lo_tnum (lp l) = 0" "lo_loadvec (lp l) = []" "lo_next (lp l) = 0"
      "lo_baseloop (lp l) = l" "\<not> lo_manager (lp l)" for l by (simp add: new_looptpool_def Let_def)
  show ?thesis
    unfolding new_server_def
  proof (rule safe_bind [OF new_eventloop_safe [OF S s]], clarsimp simp: lp(1),
      rule safe_bind [OF new_acceptor_safe [OF S(2)]], assumption, clarsimp simp: Let_def)
    fix s1 a s2 A
    assume s2: "0 < a" "setting_up interest opened {rt_next s} s2" "rt_acceptors s2 a = Some A" "ac_loop A = rt_next s"
    let ?v = "\<lparr>sv_base = rt_next s, sv_pool = lp (rt_next s), sv_acceptor = a, sv_port = - 1, sv_tcp_enable = False,
        sv_events = [], sv_readcb = None, sv_writecb = None, sv_eventcb = None\<rparr>"
    have "setting_up interest opened {rt_next s} (s2\<lparr>rt_server := ?v\<rparr>)"
      by (rule setting_up_step [OF s2(2)]) (use s2(2) in \<open>auto simp: setting_up_def acceptor_typed_def\<close>)
    then show "configured interest opened {rt_next s} (s2\<lparr>rt_server := ?v\<rparr>) \<and> lo_loadvec (lp (rt_next s)) = [] \<and>
        \<not> lo_manager (lp (rt_next s))"
      using s2 lp by (simp add: configured_def server_typed_def pool_typed_def plain_def)
  qed
qed

text \<open>The loops that run once the server is started: the base loop and those of the pool.\<close>

definition server_loops :: "('w, 'm) servers_scheme \<Rightarrow> addr set" where
  "server_loops s = insert (sv_base (rt_server s)) (set (lo_loadvec (sv_pool (rt_server s))))"

text \<open>
  \<open>f\<close> is what a way of creating the pool does to it before the loops are started, \<open>g\<close> afterwards.
\<close>

definition sets_size :: "int \<Rightarrow> (looptpool \<Rightarrow> looptpool) \<Rightarrow> bool" where
  "sets_size n f \<longleftrightarrow> (\<forall>lp. lo_tnum (f lp) = n \<and> lo_loadvec (f lp) = lo_loadvec lp \<and> lo_next (f lp) = lo_next lp \<and>
     lo_baseloop (f lp) = lo_baseloop lp)"

definition keeps_size :: "(looptpool \<Rightarrow> looptpool) \<Rightarrow> bool" where
  "keeps_size g \<longleftrightarrow> (\<forall>lp. lo_tnum (g lp) = lo_tnum lp \<and> lo_loadvec (g lp) = lo_loadvec lp \<and> lo_next (g lp) = lo_next lp \<and>
     lo_baseloop (g lp) = lo_baseloop lp)"

lemma start_pool_safe:
  assumes S: "epoll_ctl_spec S interest" "setup_calls S interest opened" and c: "configured interest opened (server_loops s) s"
    and lp: "lo_loadvec (sv_pool (rt_server s)) = []" and n: "0 \<le> n" "n < 2 ^ 31" and f: "sets_size n f" and g: "keeps_size g"
  shows "safe (\<lambda>s'. configured interest opened (server_loops s') s')
    (on_pool (\<lambda>lp s. bindR (init_pool S seen timeout (f lp) s) (\<lambda>(lp, s). Inr (g lp, s))) s)"
proof -
  let ?lp = "f (sv_pool (rt_server s))" and ?ls = "server_loops s"
  have s: "setting_up interest opened ?ls s" "server_typed ?ls s" using c by (simp_all add: configured_def)
  have eq: "on_pool (\<lambda>lp s. bindR (init_pool S seen timeout (f lp) s) (\<lambda>(lp, s). Inr (g lp, s))) s =
      bindR (start_loops S seen timeout (nat n) s) (\<lambda>(ls, s).
      Inr (upd_server (\<lambda>v. v\<lparr>sv_pool := g (?lp\<lparr>lo_timeout := timeout, lo_loadvec := ls\<rparr>)\<rparr>) s))"
    using lp f by (simp add: on_pool_def init_pool_def bindR_assoc case_prod_unfold sets_size_def)
  show ?thesis
    unfolding eq
  proof (rule safe_bind [OF start_loops_safe [OF S s(1)]], clarify)
    fix new s1
    assume s1: "length new = nat n" "setting_up interest opened (?ls \<union> set new) s1" "rt_server s1 = rt_server s"
      "rt_acceptors s1 = rt_acceptors s"
    let ?p = "g (?lp\<lparr>lo_timeout := timeout, lo_loadvec := new\<rparr>)"
    let ?s = "upd_server (\<lambda>v. v\<lparr>sv_pool := ?p\<rparr>) s1"
    have p: "lo_loadvec ?p = new" "lo_tnum ?p = n" "lo_next ?p = lo_next (sv_pool (rt_server s))"
        "lo_baseloop ?p = lo_baseloop (sv_pool (rt_server s))"
      using f g by (simp_all add: sets_size_def keeps_size_def)
    have ls: "server_loops ?s = ?ls \<union> set new" using s1(3) lp p(1) by (simp add: server_loops_def)
    have "setting_up interest opened (?ls \<union> set new) ?s"
      by (rule setting_up_step [OF s1(2)]) (use s1(2) in \<open>auto simp: setting_up_def acceptor_typed_def\<close>)
    then show "safe (\<lambda>s'. configured interest opened (server_loops s') s') (Inr ?s)"
      using c s1 n p unfolding safe_Inr ls by (auto simp: configured_def server_typed_def pool_typed_def)
  qed
qed

lemma init_pool_noadjust_safe:
  assumes S: "epoll_ctl_spec S interest" "setup_calls S interest opened" and c: "configured interest opened (server_loops s) s"
    and lp: "lo_loadvec (sv_pool (rt_server s)) = []" and n: "0 \<le> n" "n < 2 ^ 31"
  shows "safe (\<lambda>s'. configured interest opened (server_loops s') s') (init_pool_noadjust S seen n timeout s)"
proof -
  have "safe (\<lambda>s'. configured interest opened (server_loops s') s') (on_pool (\<lambda>lp s.
      bindR (init_pool S seen timeout (settnum_noadjust n lp) s) (\<lambda>(lp, s). Inr (stop_adjust lp, s))) s)"
    by (rule start_pool_safe [OF S c lp n]) (simp_all add: sets_size_def keeps_size_def settnum_noadjust_def stop_adjust_def)
  moreover have "on_pool (\<lambda>lp s. bindR (init_pool S seen timeout (settnum_noadjust n lp) s)
      (\<lambda>(lp, s). Inr (stop_adjust lp, s))) s = init_pool_noadjust S seen n timeout s"
    by (simp add: init_pool_noadjust_def create_pool_noadjust_def on_pool_def)
  ultimately show ?thesis by simp
qed

lemma sv_init_pool_n_safe:
  assumes S: "epoll_ctl_spec S interest" "setup_calls S interest opened" and c: "configured interest opened (server_loops s) s"
    and lp: "lo_loadvec (sv_pool (rt_server s)) = []" "\<not> lo_manager (sv_pool (rt_server s))" and n: "0 \<le> n" "n < 2 ^ 31"
  shows "safe (\<lambda>s'. configured interest opened (server_loops s') s') (sv_init_pool_n S seen n timeout s)"
proof -
  have "safe (\<lambda>s'. configured interest opened (server_loops s') s') (on_pool (\<lambda>lp s.
      bindR (init_pool S seen timeout (settnum_n n (lp\<lparr>lo_dispath := True\<rparr>)) s)
        (\<lambda>(lp, s). Inr (lp\<lparr>lo_manager := True\<rparr>, s))) s)"
    by (rule start_pool_safe [OF S c lp(1) n]) (simp_all add: sets_size_def keeps_size_def settnum_n_def)
  moreover have "on_pool (\<lambda>lp s. bindR (init_pool S seen timeout (settnum_n n (lp\<lparr>lo_dispath := True\<rparr>)) s)
      (\<lambda>(lp, s). Inr (lp\<lparr>lo_manager := True\<rparr>, s))) s = sv_init_pool_n S seen n timeout s"
    using lp(2) by (simp add: sv_init_pool_n_def create_pool_n_def on_pool_def init_pool_def settnum_n_def init_adjust_def
        bindR_assoc case_prod_unfold)
  ultimately show ?thesis by simp
qed

lemma set_tcpcb_configured:
  assumes c: "configured interest opened (server_loops s) s" and cb: "plain wcb" "plain ecb"
  shows "configured interest opened (server_loops (set_tcpcb rcb wcb ecb s)) (set_tcpcb rcb wcb ecb s)"
proof -
  have ls: "server_loops (set_tcpcb rcb wcb ecb s) = server_loops s" by (simp add: server_loops_def set_tcpcb_def)
  have s: "setting_up interest opened (server_loops s) s" using c by (simp add: configured_def)
  have "setting_up interest opened (server_loops s) (set_tcpcb rcb wcb ecb s)"
    by (rule setting_up_step [OF s]) (use s in \<open>auto simp: setting_up_def acceptor_typed_def set_tcpcb_def\<close>)
  then show ?thesis using c cb unfolding ls by (simp add: configured_def set_tcpcb_def server_typed_def)
qed

lemma configured_typed: "configured interest opened ls s \<Longrightarrow> typed interest ls s"
  using setting_up_typed [of interest opened ls s] by (simp add: configured_def)

end
