(* ===== verification/Echo_Program.thy ===== *)
theory Echo_Program
  imports Echo_Stream Server_Setup
begin

text \<open>
  The program \<^verbatim>\<open>bench/moonnet_test.cpp\<close> from its first call on: setting up the server, and then
  the turns of its five loops in any order, each turn taken as one step. No turn follows a pointer
  that is null, dangling or not set, however the system calls fail and whatever the clients send;
  the only memory fault left is that of \<^verbatim>\<open>sendout\<close> after a write that would block.
\<close>

section \<open>The program\<close>

text \<open>
  \<^verbatim>\<open>main\<close> up to the call of \<^verbatim>\<open>start\<close>; the callback number 0 is \<^verbatim>\<open>handle_read\<close>. \<open>seen\<close> is what the new
  threads read from the member that their constructor has not set yet.
\<close>

definition moonnet_test_setup ::
  "'w sys \<Rightarrow> (addr \<Rightarrow> int) \<Rightarrow> ('w, 'm) servers_scheme \<Rightarrow> ('w, 'm) servers_scheme res" where
  "moonnet_test_setup S seen s =
     bindR (new_server S (-1) s) (\<lambda>s.
     bindR (enable_tcp S 5005 s) (\<lambda>s.
     bindR (init_pool_noadjust S seen 4 (-1) s) (\<lambda>s.
       Inr (set_tcpcb (Some 0) None None s))))"

text \<open>The threads of the program run one loop each; a step is a turn of one of them.\<close>

inductive turns ::
  "'w sys \<Rightarrow> (callback \<Rightarrow> ('w, 'm) servers_scheme \<Rightarrow> ('w, 'm) servers_scheme res) \<Rightarrow> addr set \<Rightarrow>
   ('w, 'm) servers_scheme \<Rightarrow> ('w, 'm) servers_scheme \<Rightarrow> bool" for S user ls s where
  started: "turns S user ls s s"
| turn: "turns S user ls s s1 \<Longrightarrow> l \<in> ls \<Longrightarrow>
    loop_turn S (run_event S user) (sv_del S user) l s1 = Inr (go, s2) \<Longrightarrow> turns S user ls s s2"

text \<open>The state of a program that has done nothing yet.\<close>

definition boot :: "('w, 'm) servers_scheme \<Rightarrow> bool" where
  "boot s \<longleftrightarrow> NULL < rt_next s \<and> rt_events s = Map.empty \<and> rt_bfevents s = Map.empty \<and> rt_acceptors s = Map.empty"

section \<open>Setting up succeeds if the system calls do\<close>

definition calls_succeed :: "'w sys \<Rightarrow> bool" where
  "calls_succeed S \<longleftrightarrow>
     (\<forall>w. \<exists>ep w'. sys_epoll_create1 S w = (Inr ep, w')) \<and> (\<forall>w. \<exists>fd w'. sys_eventfd S w = (Inr fd, w')) \<and>
     (\<forall>t w. \<exists>fd w'. sys_socket S t w = (Inr fd, w')) \<and> (\<forall>fd opt w. \<exists>w'. sys_setsockopt S fd opt w = (Inr (), w')) \<and>
     (\<forall>fd sa w. \<exists>w'. sys_bind S fd sa w = (Inr (), w')) \<and> (\<forall>fd n w. \<exists>w'. sys_listen S fd n w = (Inr (), w'))"

lemma calls_succeedD:
  assumes "calls_succeed S"
  shows "\<exists>ep w'. sys_epoll_create1 S w = (Inr ep, w')" "\<exists>fd w'. sys_eventfd S w = (Inr fd, w')"
    "\<exists>fd w'. sys_socket S t w = (Inr fd, w')" "\<exists>w'. sys_setsockopt S fd opt w = (Inr (), w')"
    "\<exists>w'. sys_bind S fd sa w = (Inr (), w')" "\<exists>w'. sys_listen S fd n w = (Inr (), w')"
  using assms unfolding calls_succeed_def by blast+


lemma new_eventloop_returns:
  assumes C: "calls_succeed S" and n: "0 < rt_next s"
  shows "\<exists>x. new_eventloop S base timeout s = Inr x"
proof -
  obtain ep w where w: "sys_epoll_create1 S (rt_world s) = (Inr ep, w)" using calls_succeedD(1) [OF C] by blast
  obtain fd w2 where w2: "sys_eventfd S w = (Inr fd, w2)" using calls_succeedD(2) [OF C] by blast
  show ?thesis
    using w w2 n
    by (simp add: new_eventloop_def call_def Let_def create_eventfd_def put_loop_def upd_loop_def new_event_def setcb_def
        upd_event_def put_event_def add_event_def split: prod.split)
qed

lemma start_loop_returns:
  assumes C: "calls_succeed S" and S: "epoll_ctl_spec S interest" "setup_calls S interest opened"
    and s: "setting_up interest opened ls s"
  shows "\<exists>x. start_loop S seen timeout s = Inr x"
proof -
  let ?t = "rt_next s" and ?s1 = "snd (new_loopthread timeout s)"
  have t: "?t \<noteq> NULL" "rt_loopthreads ?s1 ?t \<noteq> None" "lh_loop (the (rt_loopthreads ?s1 ?t)) = NULL"
      "rt_next ?s1 = Suc ?t"
    using s by (simp_all add: setting_up_def new_loopthread_def Let_def)
  have s1: "setting_up interest opened ls ?s1"
    by (rule setting_up_step [OF s]) (use s in \<open>auto simp: new_loopthread_def Let_def setting_up_def acceptor_typed_def\<close>)
  obtain l s2 where s2: "new_eventloop S ?t (seen ?t) ?s1 = Inr (l, s2)"
    using new_eventloop_returns [OF C, of ?s1 ?t "seen ?t"] t(4) by auto
  then have "rest_same ?s1 s2" using new_eventloop_safe [OF S s1, of ?t "seen ?t"] by simp
  then obtain th where "rt_loopthreads s2 ?t = Some th" using t(2) by (auto simp: rest_same_def)
  then show ?thesis
    using t s2 by (auto simp: start_loop_def lh_getloop_def lh_init_def new_loopthread_def Let_def upd_loopthread_def)
qed

lemma start_loops_returns:
  assumes C: "calls_succeed S" and S: "epoll_ctl_spec S interest" "setup_calls S interest opened"
  shows "setting_up interest opened ls s \<Longrightarrow> \<exists>x. start_loops S seen timeout n s = Inr x"
proof (induction n arbitrary: ls s)
  case (Suc n)
  obtain l s1 where s1: "start_loop S seen timeout s = Inr (l, s1)" using start_loop_returns [OF C S Suc.prems] by fastforce
  then have "setting_up interest opened (insert l ls) s1"
    using start_loop_safe [OF S Suc.prems, of seen timeout] by simp
  from Suc.IH [OF this] show ?case using s1 by auto
qed simp

lemma ac_init_sock_returns:
  assumes C: "calls_succeed S" and a: "a \<noteq> NULL" "rt_acceptors s a = Some A"
  shows "\<exists>x. ac_init_sock S a port s = Inr x"
proof -
  have calls: "\<exists>w'. setreuse S fd w = Inr w'" "\<exists>w'. Bind S fd sa w = Inr w'" "\<exists>w'. Listen S fd n w = Inr w'" for fd sa n w
  proof -
    obtain w1 where w1: "sys_setsockopt S fd SO_REUSEADDR w = (Inr (), w1)" using calls_succeedD(4) [OF C] by blast
    obtain w2 where w2: "sys_setsockopt S fd SO_REUSEPORT w1 = (Inr (), w2)" using calls_succeedD(4) [OF C] by blast
    from w1 w2 show "\<exists>w'. setreuse S fd w = Inr w'" by (simp add: setreuse_def)
    show "\<exists>w'. Bind S fd sa w = Inr w'" "\<exists>w'. Listen S fd n w = Inr w'"
      using calls_succeedD(5) [OF C, of fd sa w] calls_succeedD(6) [OF C, of fd n w] by (auto simp: Bind_def Listen_def)
  qed
  obtain fd w where w: "Socket S SOCK_STREAM (rt_world s) = Inr (fd, w)"
    using calls_succeedD(3) [OF C, of SOCK_STREAM "rt_world s"] by (auto simp: Socket_def)
  obtain w1 where w1: "setreuse S fd (setnonblock S fd w) = Inr w1" using calls(1) by blast
  obtain w2 where w2: "Bind S fd (any_addr port) w1 = Inr w2" using calls(2) by blast
  obtain w3 where w3: "Listen S fd SOMAXCONN w2 = Inr w3" using calls(3) by blast
  show ?thesis using w w1 w2 w3 a by (simp add: ac_init_sock_def via_world_def upd_acceptor_def)
qed

lemma enable_tcp_returns:
  assumes C: "calls_succeed S" and S: "epoll_ctl_spec S interest" "setup_calls S interest opened"
    and c: "configured interest opened ls s"
  shows "\<exists>x. enable_tcp S port s = Inr x"
proof (cases "sv_tcp_enable (rt_server s)")
  case True
  then show ?thesis by (simp add: enable_tcp_def)
next
  case False
  let ?s0 = "upd_server (\<lambda>v. v\<lparr>sv_port := port\<rparr>) s" and ?a = "sv_acceptor (rt_server s)"
  have s: "setting_up interest opened ls s" "?a \<noteq> NULL" using c by (simp_all add: configured_def server_typed_def)
  obtain A where A: "rt_acceptors s ?a = Some A" "ac_loop A \<in> ls" using c by (auto simp: configured_def)
  have s0: "setting_up interest opened ls ?s0"
    by (rule setting_up_step [OF s(1)]) (use s(1) in \<open>auto simp: setting_up_def acceptor_typed_def\<close>)
  obtain s1 where s1: "ac_init_sock S ?a port ?s0 = Inr s1" using ac_init_sock_returns [OF C s(2), of ?s0 A port] A(1) by auto
  then obtain fd where fd: "setting_up interest opened ls s1"
      "rt_acceptors s1 = (rt_acceptors s)(?a \<mapsto> A\<lparr>ac_lfd := Some fd\<rparr>)"
    using ac_init_sock_safe [OF S(2) s0 s(2), of A port] A(1) by auto
  let ?A = "A\<lparr>ac_lfd := Some fd, ac_cb := Some Server_acceptcb\<rparr>"
  let ?s2 = "s1\<lparr>rt_acceptors := (rt_acceptors s1)(?a \<mapsto> ?A)\<rparr>"
  have "?a < rt_next s1" using fd by (simp add: setting_up_def) (metis not_le option.distinct(1))
  then have "setting_up interest opened ls ?s2"
    by (intro setting_up_step [OF fd(1)]) (use fd in \<open>auto simp: setting_up_def acceptor_typed_def\<close>)
  from ac_listen_ok [OF S this s(2), of ?A fd] A(2) obtain s3 where "ac_listen S ?a ?s2 = Inr s3" by auto
  then show ?thesis using False s1 s(2) fd(2) by (simp add: enable_tcp_def Let_def ac_setcb_def upd_acceptor_def)
qed

lemma new_server_returns:
  assumes C: "calls_succeed S" and n: "0 < rt_next s"
  shows "\<exists>x. new_server S (-1) s = Inr x"
  using new_eventloop_returns [OF C n, of NULL "-1"]
  by (auto simp: new_server_def new_looptpool_def Let_def new_acceptor_def)

lemma moonnet_test_setup_returns:
  assumes C: "calls_succeed S" and S: "epoll_ctl_spec S interest" "setup_calls S interest opened" and s: "boot s"
  shows "\<exists>s0. moonnet_test_setup S seen s = Inr s0"
proof -
  have s0: "setting_up interest opened {} s" "0 < rt_next s" using s by (simp_all add: setting_up_def boot_def)
  obtain s1 where s1: "new_server S (-1) s = Inr s1" using new_server_returns [OF C s0(2)] by blast
  then have c1: "configured interest opened {sv_base (rt_server s1)} s1" using new_server_safe [OF S s0(1)] by simp
  obtain s2 where s2: "enable_tcp S 5005 s1 = Inr s2" using enable_tcp_returns [OF C S c1] by blast
  then have "setting_up interest opened {sv_base (rt_server s1)} s2"
    using enable_tcp_safe [OF S c1, of 5005] by (simp add: configured_def)
  from start_loops_returns [OF C S this, of seen "-1" 4]
  show ?thesis
    using s1 s2
    by (auto simp: moonnet_test_setup_def init_pool_noadjust_def on_pool_def create_pool_noadjust_def init_pool_def
        settnum_noadjust_def)
qed

section \<open>Type safety\<close>

lemma turns_typed:
  assumes app: "tcp_app user faults" and K: "kernel_ok S interest unread pending" and ty: "typed interest ls s"
    and t: "turns S (user S) ls s s1"
  shows "typed interest ls s1"
  using t
proof induction
  case (turn s1 l go s2)
  from tcp_app.loop_turn_safe [OF app K turn.IH turn.hyps(2)] turn.hyps(3) show ?case by simp
qed (rule ty)

lemma moonnet_test_setup_safe:
  assumes S: "epoll_ctl_spec S interest" "setup_calls S interest opened" and s: "boot s"
  shows "safe (\<lambda>s. typed interest (server_loops s) s) (moonnet_test_setup S seen s)"
proof -
  have s0: "setting_up interest opened {} s" using s by (simp add: setting_up_def boot_def)
  show ?thesis
    unfolding moonnet_test_setup_def
  proof (rule safe_bind [OF new_server_safe [OF S s0]], elim conjE)
    fix s1
    assume s1: "configured interest opened {sv_base (rt_server s1)} s1" "lo_loadvec (sv_pool (rt_server s1)) = []"
    then have c1: "configured interest opened (server_loops s1) s1" by (simp add: server_loops_def)
    show "safe (\<lambda>s. typed interest (server_loops s) s) (bindR (enable_tcp S 5005 s1) (\<lambda>s.
        bindR (init_pool_noadjust S seen 4 (-1) s) (\<lambda>s. Inr (set_tcpcb (Some 0) None None s))))"
    proof (rule safe_bind [OF enable_tcp_safe [OF S c1]], elim conjE)
      fix s2
      assume s2: "configured interest opened (server_loops s1) s2" "sv_pool (rt_server s2) = sv_pool (rt_server s1)"
        "sv_base (rt_server s2) = sv_base (rt_server s1)"
      then have c2: "configured interest opened (server_loops s2) s2" by (simp add: server_loops_def)
      show "safe (\<lambda>s. typed interest (server_loops s) s) (bindR (init_pool_noadjust S seen 4 (-1) s2)
          (\<lambda>s. Inr (set_tcpcb (Some 0) None None s)))"
        by (rule safe_bind [OF init_pool_noadjust_safe [OF S c2]])
          (use s1(2) s2(2) in \<open>auto intro!: configured_typed set_tcpcb_configured simp: plain_def\<close>)
    qed
  qed
qed

text \<open>
  C2. Type safety of a running server, for any application that keeps the contract \<open>tcp_app\<close>: from
  well-typed heaps, after any interleaving of turns of the loops, every further turn of every
  loop returns well-typed heaps, ends in one of the two orderly ways, or raises a fault that the
  application itself admits for its callbacks. The types say that
  every pointer in the lists of the loops, in epoll's interest lists, among the pending
  deletions and in the server refers to a live object of the right class with the right
  callbacks. Nothing is assumed of which calls succeed.
\<close>

theorem server_turn_type_safe:
  assumes "tcp_app user faults" and "kernel_ok S interest unread pending" and "typed interest ls s"
    and "turns S (user S) ls s s1" and "l \<in> ls"
  shows "safe_for (faults S) (\<lambda>(_, s2). typed interest ls s2) (loop_turn S (run_event S (user S)) (sv_del S (user S)) l s1)"
  by (rule tcp_app.loop_turn_safe [OF assms(1,2) turns_typed [OF assms(1-4)] assms(5)])

text \<open>
  C1. Memory safety of the echo server of \<^verbatim>\<open>bench/moonnet_test.cpp\<close>, up to one fault. Setting it up
  either ends in the orderly ways the sources provide for (\<^verbatim>\<open>exit(1)\<close> after a failed system call,
  the exception of a vector that cannot grow) or gives a server from which, after any
  interleaving of turns of its loops, every further turn of every loop returns, ends in an
  orderly way, or raises \<open>Underrun\<close>, and the last only on a system where a write may fail because
  it would block: then \<^verbatim>\<open>sendout\<close> goes on from a pointer in front of the string. No null, dangling
  or uninitialised pointer is followed, no other index is out of bounds, and no handler
  loops forever. This holds whatever events epoll reports, whichever system calls fail, and
  whatever the clients send. A turn of a loop is one step here: what the threads do to the
  lists they share while they run at the same time is not covered.
\<close>

theorem echo_server_memory_safe:
  assumes "kernel_ok S interest unread pending" and "setup_calls S interest opened" and "boot s"
  shows "safe (\<lambda>s0. \<forall>s1 l. turns S (echo_user S) (server_loops s0) s0 s1 \<longrightarrow> l \<in> server_loops s0 \<longrightarrow>
      safe_for (if write_ready S then {} else {Underrun}) (\<lambda>_. True)
        (loop_turn S (run_event S (echo_user S)) (sv_del S (echo_user S)) l s1))
    (moonnet_test_setup S seen s)"
proof (rule safe_mono [OF moonnet_test_setup_safe [OF _ assms(2,3)]])
  show "epoll_ctl_spec S interest" using assms(1) by (simp add: kernel_ok_def)
  fix s0
  assume ty: "typed interest (server_loops s0) s0"
  have "safe_for (sendout_faults S) (\<lambda>_. True) (loop_turn S (run_event S (echo_user S)) (sv_del S (echo_user S)) l s1)"
    if "turns S (echo_user S) (server_loops s0) s0 s1" "l \<in> server_loops s0" for s1 l
    using echo.loop_turn_safe [OF assms(1) turns_typed [OF echo.tcp_app_axioms assms(1) ty that(1)] that(2)]
    by (rule safe_mono) simp
  then show "\<forall>s1 l. turns S (echo_user S) (server_loops s0) s0 s1 \<longrightarrow> l \<in> server_loops s0 \<longrightarrow>
      safe_for (if write_ready S then {} else {Underrun}) (\<lambda>_. True)
        (loop_turn S (run_event S (echo_user S)) (sv_del S (echo_user S)) l s1)"
    unfolding sendout_faults_def by blast
qed

section \<open>A sample run\<close>

definition echo_boot :: "kernel servers" where
  "echo_boot = server_sample\<lparr>rt_loops := Map.empty, rt_next := 1\<rparr>"

lemma echo_setup_calls: "setup_calls echo_sys k_interest (\<lambda>k. {fd. fd < k_next k})"
  by (auto simp: setup_calls_def ctl_silent_def keeps_def echo_sys_def closing_sys_def sample_sys_def k_open_def k_ctl_def)

lemma echo_calls_succeed: "calls_succeed echo_sys"
  by (simp add: calls_succeed_def echo_sys_def closing_sys_def sample_sys_def k_open_def)

theorem echo_server_memory_safe_witness:
  "\<exists>s0. moonnet_test_setup echo_sys (\<lambda>_. -1) echo_boot = Inr s0 \<and>
     safe (\<lambda>_. True) (loop_turn echo_sys (run_event echo_sys (echo_user echo_sys)) (sv_del echo_sys (echo_user echo_sys))
       (sv_base (rt_server s0)) s0)"
proof -
  have b: "boot echo_boot" by (simp add: boot_def echo_boot_def server_sample_def)
  have "epoll_ctl_spec echo_sys k_interest" using echo_kernel_ok by (simp add: kernel_ok_def)
  from moonnet_test_setup_returns [OF echo_calls_succeed this echo_setup_calls b]
  obtain s0 where s0: "moonnet_test_setup echo_sys (\<lambda>_. -1) echo_boot = Inr s0" by blast
  have "sv_base (rt_server s0) \<in> server_loops s0" by (simp add: server_loops_def)
  with echo_server_memory_safe [OF echo_kernel_ok echo_setup_calls b, of "\<lambda>_. -1"] s0 turns.started show ?thesis
    using echo_writes(2) by fastforce
qed

theorem server_turn_type_safe_witness:
  "\<exists>s. acceptcb echo_sys 9 echo_start = Inr s \<and> rt_bfevents s 5 \<noteq> None \<and> k_input (rt_world s) 9 = [5, 6, 7] \<and>
     safe (\<lambda>(_, s2). typed k_interest {1} s2)
       (loop_turn echo_sys (run_event echo_sys (echo_user echo_sys)) (sv_del echo_sys (echo_user echo_sys)) 1 s)"
proof -
  obtain s where s: "acceptcb echo_sys 9 echo_start = Inr s" "typed k_interest {1} s" "at_rest 5 9 s"
      "k_input (rt_world s) 9 = [5, 6, 7]"
    using echo_accepted by blast
  have "sendout_faults echo_sys = {}" using echo_writes(2) by (simp add: sendout_faults_def)
  then show ?thesis
    using server_turn_type_safe [OF echo.tcp_app_axioms echo_kernel_ok s(2) turns.started, of 1] s(1,3,4)
    by (auto simp: at_rest_def)
qed

end
