(* ===== verification/Server_Stop.thy ===== *)
theory Server_Stop
  imports Echo_Program
begin

text \<open>
  Stopping a loop of the server. \<^verbatim>\<open>loopbreak\<close> writes to the eventfd of the loop; the loop then
  returns, whatever other events are reported with the wake-up, whatever their handlers do, and
  however often \<^verbatim>\<open>epoll_wait\<close> is interrupted before.
\<close>

section \<open>The wake-up\<close>

text \<open>
  What eventfd(2), epoll(7) and epoll_wait(2) document for the eventfd \<open>fd\<close> and the epoll instance
  \<open>ep\<close>: a write makes the eventfd readable; while it is readable and watched for input, \<^verbatim>\<open>epoll_wait\<close>
  fails only if a signal interrupts it, and reports the event if it has room for all that the
  instance watches. \<open>sigs\<close> bounds the signals that still come.
\<close>

definition wake_spec ::
  "'w sys \<Rightarrow> 'w interest \<Rightarrow> ('w \<Rightarrow> bool) \<Rightarrow> ('w \<Rightarrow> nat) \<Rightarrow> fd \<Rightarrow> fd \<Rightarrow> bool" where
  "wake_spec S interest readable_fd sigs ep fd \<longleftrightarrow>
     (\<forall>w n w'. sys_write S fd eventfd_one w = (Inr n, w') \<longrightarrow> readable_fd w') \<and>
     (\<forall>n t w r w' m p.
        sys_epoll_wait S ep n t w = (r, w') \<and> readable_fd w \<and> interest w ep fd = Some (m, p) \<and> m AND EPOLLIN \<noteq> 0 \<longrightarrow>
        (case r of
           Inl e \<Rightarrow> e = EINTR \<and> sigs w' < sigs w \<and> readable_fd w'
         | Inr es \<Rightarrow> finite (dom (interest w ep)) \<and> card (dom (interest w ep)) \<le> n \<longrightarrow>
             (\<exists>m'. (m', p) \<in> set es \<and> m' AND EPOLLIN \<noteq> 0)))"

lemma wake_specD:
  assumes "wake_spec S interest readable_fd sigs ep fd"
  shows "sys_write S fd eventfd_one w = (Inr k, w') \<Longrightarrow> readable_fd w'"
    and "sys_epoll_wait S ep n t w = (Inl e, w') \<Longrightarrow> readable_fd w \<Longrightarrow> interest w ep fd = Some (m, p) \<Longrightarrow>
      m AND EPOLLIN \<noteq> 0 \<Longrightarrow> e = EINTR \<and> sigs w' < sigs w \<and> readable_fd w'"
    and "sys_epoll_wait S ep n t w = (Inr es, w') \<Longrightarrow> readable_fd w \<Longrightarrow> interest w ep fd = Some (m, p) \<Longrightarrow>
      m AND EPOLLIN \<noteq> 0 \<Longrightarrow> finite (dom (interest w ep)) \<Longrightarrow> card (dom (interest w ep)) \<le> n \<Longrightarrow>
      \<exists>m'. (m', p) \<in> set es \<and> m' AND EPOLLIN \<noteq> 0"
proof -
  note W = assms [unfolded wake_spec_def]
  show "sys_write S fd eventfd_one w = (Inr k, w') \<Longrightarrow> readable_fd w'" using W by blast
  note wait = conjunct2 [OF W, rule_format, of n t w _ w' m p]
  show "sys_epoll_wait S ep n t w = (Inl e, w') \<Longrightarrow> readable_fd w \<Longrightarrow> interest w ep fd = Some (m, p) \<Longrightarrow>
      m AND EPOLLIN \<noteq> 0 \<Longrightarrow> e = EINTR \<and> sigs w' < sigs w \<and> readable_fd w'"
    using wait [of "Inl e"] by simp
  show "sys_epoll_wait S ep n t w = (Inr es, w') \<Longrightarrow> readable_fd w \<Longrightarrow> interest w ep fd = Some (m, p) \<Longrightarrow>
      m AND EPOLLIN \<noteq> 0 \<Longrightarrow> finite (dom (interest w ep)) \<Longrightarrow> card (dom (interest w ep)) \<le> n \<Longrightarrow>
      \<exists>m'. (m', p) \<in> set es \<and> m' AND EPOLLIN \<noteq> 0"
    using wait [of "Inr es"] by simp
qed

text \<open>The wake-up event of loop \<open>l\<close> is registered as \<^verbatim>\<open>create_eventfd\<close> leaves it, and a report has room for all events.\<close>

definition wakeable :: "'w interest \<Rightarrow> addr \<Rightarrow> addr \<Rightarrow> ('w, 'm) reactor_scheme \<Rightarrow> bool" where
  "wakeable interest l p s \<longleftrightarrow>
     (\<exists>L e m. rt_loops s l = Some L \<and> rt_events s p = Some e \<and> ev_readcb e = Some (Read_eventfd l) \<and>
        interest (rt_world s) (el_epfd L) (el_eventfd L) = Some (m, p) \<and> m AND EPOLLIN \<noteq> 0 \<and>
        finite (dom (interest (rt_world s) (el_epfd L))) \<and>
        card (dom (interest (rt_world s) (el_epfd L))) \<le> MAX_EVENTS)"

context tcp_app
begin

lemma read_eventfd_stops_safe:
  assumes K: "kernel_ok S interest unread pending" and ty: "typed interest ls s" and l: "l \<in> ls"
  shows "safe_for (faults S) (\<lambda>s'. good interest (\<lambda>_ _. 0) ls s s' \<and> stopped l s') (read_eventfd S l s)"
  using read_eventfd_safe [OF K ty l] read_eventfd_stops [of S l s] by (cases "read_eventfd S l s") auto

text \<open>The handlers of the wake-up event: the first one sets the flag, nothing takes it back.\<close>

lemma handle_cb_stops:
  assumes K: "kernel_ok S interest unread pending" and ty: "typed interest ls s" and l: "l \<in> ls"
    and p: "p \<in> evs l s" "rt_events s p = Some e" "ev_revents e = Some m" "read_mask m" "ev_readcb e = Some (Read_eventfd l)"
  shows "safe_for (faults S) (\<lambda>s'. good interest (\<lambda>_ _. 0) ls s s' \<and> stopped l s') (handle_cb (step S) p s)"
proof -
  let ?P = "\<lambda>s'. good interest (\<lambda>_ _. 0) ls s s' \<and> reported l p s' \<and> stopped l s'"
  have rep: "reported l p s" using p by blast
  have "p \<noteq> NULL" using heap_typed_ev [OF typed_heap [OF ty] l p(1)] by (simp add: ev_typed_def)
  then have "call_if (step S) read_mask ev_readcb p s = read_eventfd S l s"
    using p by (simp add: call_if_def call_cb_def run_event_def)
  then have first: "safe_for (faults S) ?P (call_if (step S) read_mask ev_readcb p s)"
    using good_reported [OF _ l rep] by (auto intro: safe_mono [OF read_eventfd_stops_safe [OF K ty l]])
  have after: "safe_for (faults S) ?P (call_if (step S) test cb p s1)"
    if s1: "?P s1" and cb: "cb = ev_writecb \<or> cb = ev_eventcb" for s1 test cb
  proof -
    have "typed interest ls s1" using s1 by (simp add: good_def)
    from call_if_safe [OF K this l _, of p cb test] s1 cb
    have "safe_for (faults S) (\<lambda>s'. good interest (\<lambda>_ _. 0) ls s1 s' \<and> reported l p s') (call_if (step S) test cb p s1)"
      by blast
    then show ?thesis
    proof (rule safe_mono)
      fix s'
      assume s': "good interest (\<lambda>_ _. 0) ls s1 s' \<and> reported l p s'"
      then have "stopped l s'" using s1 by (simp add: good_def kept_def)
      then show "?P s'" using s' s1 good_trans by metis
    qed
  qed
  have "safe_for (faults S) ?P (handle_cb (step S) p s)"
    unfolding handle_cb_def by (intro safe_bind [OF first] safe_bind [OF after] after) auto
  then show ?thesis by (rule safe_mono) simp
qed

text \<open>A reported wake-up stops the loop, wherever it stands among the reported events.\<close>

lemma handle_events_stops:
  assumes K: "kernel_ok S interest unread pending" and l: "l \<in> ls"
  shows "typed interest ls s \<Longrightarrow> snd ` set es \<subseteq> evs l s \<Longrightarrow> (m, p) \<in> set es \<Longrightarrow> m AND EPOLLIN \<noteq> 0 \<Longrightarrow>
    map_option ev_readcb (rt_events s p) = Some (Some (Read_eventfd l)) \<Longrightarrow>
    safe_for (faults S) (\<lambda>s'. typed interest ls s' \<and> stopped l s') (handle_events (step S) es s)"
proof (induction es arbitrary: s)
  case (Cons x es)
  obtain n q where x: "x = (n, q)" by fastforce
  obtain s1 e where s1: "setrevents q n s = Inr s1" "typed interest ls s1" "grows ls s s1"
      "rt_events s1 q = Some e" "ev_revents e = Some n"
      "map_option ev_readcb \<circ> rt_events s1 = map_option ev_readcb \<circ> rt_events s"
    using setrevents_typed [OF Cons.prems(1) l, of q n] Cons.prems(2) x by auto
  have "evs l s \<subseteq> evs l s1" using s1(3) l by (simp add: grows_def)
  then have q: "q \<in> evs l s1" and es: "snd ` set es \<subseteq> evs l s1" using Cons.prems(2) x by auto
  have p: "map_option ev_readcb (rt_events s1 p) = Some (Some (Read_eventfd l))"
    using Cons.prems(5) fun_cong [OF s1(6), of p] by simp
  have "safe_for (faults S) (\<lambda>s'. typed interest ls s' \<and> stopped l s') (bindR (handle_cb (step S) q s1) (handle_events (step S) es))"
  proof (cases "x = (m, p)")
    case True
    have "read_mask n" using True x Cons.prems(4) by (simp add: read_mask_def)
    with handle_cb_stops [OF K s1(2) l q s1(4,5)] p True x s1(4)
    have "safe_for (faults S) (\<lambda>s'. good interest (\<lambda>_ _. 0) ls s1 s' \<and> stopped l s') (handle_cb (step S) q s1)" by simp
    then show ?thesis
    proof (rule safe_bind)
      fix s2
      assume s2: "good interest (\<lambda>_ _. 0) ls s1 s2 \<and> stopped l s2"
      then have "typed interest ls s2" "snd ` set es \<subseteq> evs l s2"
        using l es by (auto simp: good_def kept_def grows_def)
      then show "safe_for (faults S) (\<lambda>s'. typed interest ls s' \<and> stopped l s') (handle_events (step S) es s2)"
        by (rule safe_mono [OF handle_events_safe [OF K l]]) (use s2 in blast)
    qed
  next
    case False
    have "reported l q s1" using q s1(4,5) by blast
    from handle_cb_safe [OF K s1(2) l this] show ?thesis
    proof (rule safe_bind)
      fix s2
      assume s2: "good interest (\<lambda>_ _. 0) ls s1 s2"
      then have "map_option ev_readcb (rt_events s2 p) = Some (Some (Read_eventfd l))"
        using p by (fastforce simp: good_def kept_def)
      moreover have "typed interest ls s2" "snd ` set es \<subseteq> evs l s2"
        using l s2 es by (auto simp: good_def kept_def grows_def)
      ultimately show "safe_for (faults S) (\<lambda>s'. typed interest ls s' \<and> stopped l s') (handle_events (step S) es s2)"
        using Cons.IH [of s2] Cons.prems(3,4) False by auto
    qed
  qed
  then show ?case using x s1(1) by simp
qed simp

text \<open>
  The turn in which \<^verbatim>\<open>epoll_wait\<close> is not interrupted is the last one; an interrupted one leaves the
  loop as it was.
\<close>

lemma woken_turn:
  assumes K: "kernel_ok S interest unread pending" and ty: "typed interest ls s" and l: "l \<in> ls"
    and p: "wakeable interest l p s" and L: "rt_loops s l = Some L" "\<not> el_shutdown L"
    and W: "wake_spec S interest readable_fd sigs (el_epfd L) (el_eventfd L)" "readable_fd (rt_world s)"
  shows "(\<exists>w. loop_turn S (step S) (sv_del S (user S)) l s = Inr (True, s\<lparr>rt_world := w\<rparr>) \<and> sigs w < sigs (rt_world s) \<and>
      interest w = interest (rt_world s) \<and> readable_fd w) \<or>
    safe_for (faults S) (\<lambda>(_, s'). typed interest ls s' \<and> stopped l s') (loop_turn S (step S) (sv_del S (user S)) l s)"
proof -
  obtain e m where e: "rt_events s p = Some e" "ev_readcb e = Some (Read_eventfd l)"
      "interest (rt_world s) (el_epfd L) (el_eventfd L) = Some (m, p)" "m AND EPOLLIN \<noteq> 0"
      "finite (dom (interest (rt_world s) (el_epfd L)))" "card (dom (interest (rt_world s) (el_epfd L))) \<le> MAX_EVENTS"
    using p L(1) by (auto simp: wakeable_def)
  have l0: "l \<noteq> NULL" using typed_loopE [OF ty l] by blast
  have n: "MAX_EVENTS \<le> el_nevents L" using typed_parts [OF typed_heap [OF ty]] l L(1) by (auto simp: parts_ok_def)
  have S: "epoll_ctl_spec S interest" "close_spec S interest" "epoll_wait_spec S interest"
    using K by (simp_all add: kernel_ok_def)
  obtain r w where w: "sys_epoll_wait S (el_epfd L) MAX_EVENTS (el_timeout L) (rt_world s) = (r, w)" by fastforce
  have iw: "interest w = interest (rt_world s)"
    and es: "r = Inr es \<Longrightarrow> length es \<le> MAX_EVENTS \<and> (\<forall>(m, p) \<in> set es. \<exists>fd m'. interest (rt_world s) (el_epfd L) fd = Some (m', p))"
    for es using S(3) w unfolding epoll_wait_spec_def by blast+
  let ?s = "s\<lparr>rt_world := w\<rparr>"
  show ?thesis
  proof (cases r)
    case (Inl x)
    have "x = EINTR \<and> sigs w < sigs (rt_world s) \<and> readable_fd w"
      using wake_specD(2) [OF W(1) _ W(2) e(3,4)] w Inl by blast
    then show ?thesis using l0 L w iw Inl by (intro disjI1 exI [of _ w]) (simp add: loop_turn_def call_def)
  next
    case (Inr evl)
    have "good interest (\<lambda>_ _. 0) ls s ?s" by (rule good_world [OF ty iw]) simp
    then have ty1: "typed interest ls ?s" by (simp add: good_def)
    have "q \<in> evs l s" if "(m, q) \<in> set evl" for m q
      using heap_typed_watched [OF typed_heap [OF ty] l] es [OF Inr] that L(1) unfolding watched_def by fastforce
    then have sub: "snd ` set evl \<subseteq> evs l ?s" by auto
    obtain m' where m': "(m', p) \<in> set evl" "m' AND EPOLLIN \<noteq> 0"
      using wake_specD(3) [OF W(1) _ W(2) e(3-6)] w Inr by blast
    have flush: "safe_for (faults S) (\<lambda>(_, s'). typed interest ls s' \<and> stopped l s')
        (bindR (flush_delque (sv_del S (user S)) l s2) (\<lambda>s. Inr (True, s)))"
      if "typed interest ls s2" "stopped l s2" for s2
      using flush_delque_typed [OF S(1,2) that(1) l, of "run S"] that(2) by auto
    have "safe_for (faults S) (\<lambda>(_, s'). typed interest ls s' \<and> stopped l s') (bindR (handle_events (step S) evl ?s) (\<lambda>s.
        bindR (resize_events l (length evl) s) (\<lambda>s. bindR (flush_delque (sv_del S (user S)) l s) (\<lambda>s. Inr (True, s)))))"
      by (rule safe_bind [OF handle_events_stops [OF K l ty1 sub m']], simp add: e(1,2),
          rule safe_bind [OF resize_events_safe [OF conjunct1 l]]) (use flush in auto)
    then show ?thesis using l0 L w Inr n es [OF Inr] by (simp add: loop_turn_def call_def)
  qed
qed

lemma woken_loop:
  assumes K: "kernel_ok S interest unread pending" and l: "l \<in> ls"
  shows "typed interest ls s \<Longrightarrow> wakeable interest l p s \<Longrightarrow> rt_loops s l = Some L \<Longrightarrow>
    wake_spec S interest readable_fd sigs (el_epfd L) (el_eventfd L) \<Longrightarrow> readable_fd (rt_world s) \<Longrightarrow>
    \<exists>r. loop S (step S) (sv_del S (user S)) l s = Some r \<and> safe_for (faults S) (\<lambda>s'. typed interest ls s' \<and> stopped l s') r"
proof (induction "sigs (rt_world s)" arbitrary: s rule: less_induct)
  case less
  have l0: "l \<noteq> NULL" using typed_loopE [OF less.prems(1) l] by blast
  show ?case
  proof (cases "el_shutdown L")
    case True
    then have "stopped l s" using l0 less.prems(3) by (simp add: stopped_def)
    then show ?thesis using less.prems(1) loop_stopped [of l s] by simp
  next
    case False
    from woken_turn [OF K less.prems(1) l less.prems(2,3) False less.prems(4,5)] show ?thesis
    proof (elim disjE exE conjE)
      fix w
      assume t: "loop_turn S (step S) (sv_del S (user S)) l s = Inr (True, s\<lparr>rt_world := w\<rparr>)" "sigs w < sigs (rt_world s)"
        "interest w = interest (rt_world s)" "readable_fd w"
      have "good interest (\<lambda>_ _. 0) ls s (s\<lparr>rt_world := w\<rparr>)" by (rule good_world [OF less.prems(1) t(3)]) simp
      then have "typed interest ls (s\<lparr>rt_world := w\<rparr>)" by (simp add: good_def)
      with less.hyps [of "s\<lparr>rt_world := w\<rparr>"] t less.prems show ?thesis
        by (subst loop.simps) (simp add: wakeable_def)
    next
      assume t: "safe_for (faults S) (\<lambda>(_, s'). typed interest ls s' \<and> stopped l s') (loop_turn S (step S) (sv_del S (user S)) l s)"
      show ?thesis
      proof (cases "loop_turn S (step S) (sv_del S (user S)) l s")
        case (Inl x)
        then show ?thesis using t by (subst loop.simps) simp
      next
        case (Inr x)
        then obtain go s' where s': "loop_turn S (step S) (sv_del S (user S)) l s = Inr (go, s')" "typed interest ls s'" "stopped l s'"
          using t by auto
        then show ?thesis using loop_stopped [of l s'] by (subst loop.simps) simp
      qed
    qed
  qed
qed

end

text \<open>
  C18. Shutdown: after \<^verbatim>\<open>loopbreak\<close> has written to the eventfd, the loop of a running server
  returns with \<^verbatim>\<open>shutdown_\<close> set and well-typed heaps, unless a handler ends the program in an orderly
  way or raises a fault that the application admits. This holds for every application that
  keeps the contract \<open>tcp_app\<close>, whichever other events are reported together with the wake-up and
  wherever it stands among them, and however often a signal interrupts \<^verbatim>\<open>epoll_wait\<close>. The loop
  must have its wake-up event registered, as its constructor leaves it, and watch at most
  \<^verbatim>\<open>MAX_EVENTS\<close> descriptors, so that one report has room for all of them.
\<close>

theorem loopbreak_ends_loop:
  assumes "tcp_app user faults" and "kernel_ok S interest unread pending" and "typed interest ls s" and "l \<in> ls"
    and "wakeable interest l p s" and "rt_loops s l = Some L"
    and "wake_spec S interest readable_fd sigs (el_epfd L) (el_eventfd L)"
    and "sys_write S (el_eventfd L) eventfd_one (rt_world s) = (Inr n, w)"
  shows "\<exists>s1 r. loopbreak S l s = Inr s1 \<and> loop S (run_event S (user S)) (sv_del S (user S)) l s1 = Some r \<and>
    safe_for (faults S) (\<lambda>s'. typed interest ls s' \<and> stopped l s') r"
proof (cases "el_shutdown L")
  case True
  have "l \<noteq> NULL" using typed_loopE [OF assms(3,4)] by blast
  then have "loopbreak S l s = Inr s" "stopped l s" using assms(6) True by (simp_all add: loopbreak_def stopped_def)
  then show ?thesis using assms(3) loop_stopped [of l s] by simp
next
  case False
  have "l \<noteq> NULL" using typed_loopE [OF assms(3,4)] by blast
  then have lb: "loopbreak S l s = Inr (s\<lparr>rt_world := w\<rparr>)"
    using assms(6,8) False by (simp add: loopbreak_def write_eventfd_def call_simps)
  have iw: "interest w = interest (rt_world s)"
    using assms(2,8) keepsD [of interest "sys_write S (el_eventfd L) eventfd_one"] by (auto simp: kernel_ok_def interest_kept_def)
  have "good interest (\<lambda>_ _. 0) ls s (s\<lparr>rt_world := w\<rparr>)" by (rule good_world [OF assms(3) iw]) simp
  then have ty: "typed interest ls (s\<lparr>rt_world := w\<rparr>)" by (simp add: good_def)
  have "readable_fd w" by (rule wake_specD(1) [OF assms(7,8)])
  with tcp_app.woken_loop [OF assms(1,2,4) ty, of p L readable_fd sigs] assms(5-7) iw lb
  show ?thesis by (simp add: wakeable_def)
qed

section \<open>A sample run\<close>

text \<open>
  A server right after its construction, on a kernel that interrupts the first calls of
  \<^verbatim>\<open>epoll_wait\<close> and reports the eventfd, descriptor 4, once something has been written to it.
\<close>

definition stop_sys :: "kernel sys" where
  "stop_sys = echo_sys\<lparr>sys_epoll_wait := \<lambda>ep n t k.
     if 0 < k_room k then (Inl EINTR, k\<lparr>k_room := k_room k - 1\<rparr>)
     else (Inr (take n (case k_interest k ep 4 of
                          None \<Rightarrow> []
                        | Some (m, q) \<Rightarrow> if k_output k 4 \<noteq> [] then [(EPOLLIN, q)] else [])), k)\<rparr>"

lemma stop_kernel_ok: "kernel_ok stop_sys k_interest k_input (\<lambda>k fd. length (k_pending k fd))"
proof -
  have "epoll_wait_spec stop_sys k_interest"
    by (auto simp: epoll_wait_spec_def stop_sys_def dest!: in_set_takeD split: if_splits option.splits) blast
  then show ?thesis
    using echo_kernel_ok
    by (simp add: kernel_ok_def epoll_ctl_spec_def close_spec_def interest_kept_def write_bounds_def
        readv_spec_def output_silent_def ctl_silent_def accept_counts_def keeps_def stop_sys_def)
qed

lemma stop_wake_spec: "wake_spec stop_sys k_interest (\<lambda>k. k_output k 4 \<noteq> []) k_room 3 4"
  unfolding wake_spec_def
proof (intro conjI allI impI, goal_cases)
  case (2 n t w r w' m p)
  have n: "n \<noteq> 0" if "finite (dom (k_interest w 3))" "card (dom (k_interest w 3)) \<le> n"
  proof -
    have "4 \<in> dom (k_interest w 3)" using 2 by blast
    then show ?thesis using that card_gt_0_iff [of "dom (k_interest w 3)"] by auto
  qed
  show ?case
  proof (cases "0 < k_room w")
    case True
    then show ?thesis using 2 by (auto simp: stop_sys_def)
  next
    case False
    then have "r = Inr (take n [(EPOLLIN, p)])" using 2 by (auto simp: stop_sys_def)
    then show ?thesis using n by (cases n) (auto simp: EPOLLIN_def card_gt_0_iff)
  qed
qed (auto simp: stop_sys_def echo_sys_def eventfd_one_def)

lemma stop_server:
  "\<exists>s0. new_server stop_sys (-1) echo_boot = Inr s0 \<and> typed k_interest {1} s0 \<and> wakeable k_interest 1 2 s0 \<and>
     rt_loops s0 1 = Some sample_eventloop"
proof -
  have S: "epoll_ctl_spec stop_sys k_interest" "setup_calls stop_sys k_interest (\<lambda>k. {fd. fd < k_next k})"
    using stop_kernel_ok echo_setup_calls by (simp_all add: kernel_ok_def setup_calls_def ctl_silent_def keeps_def stop_sys_def)
  have s: "setting_up k_interest (\<lambda>k. {fd. fd < k_next k}) {} echo_boot"
    by (simp add: setting_up_def echo_boot_def server_sample_def)
  obtain s0 where s0: "new_server stop_sys (-1) echo_boot = Inr s0" "rt_loops s0 1 = Some sample_eventloop"
      "rt_events s0 2 = Some sample_event" "sv_base (rt_server s0) = 1" "k_interest (rt_world s0) 3 = [4 \<mapsto> (EPOLLIN, 2)]"
    by (simp add: new_server_def new_looptpool_def new_acceptor_def new_eventloop_def create_eventfd_def new_event_def setcb_def
        add_event_def upd_loop_def upd_event_def put_loop_def put_event_def deref_def call_def stop_sys_def echo_sys_def
        closing_sys_def sample_sys_def k_open_def k_ctl_def kernel0_def echo_boot_def server_sample_def sample_event_def
        sample_eventloop_def set_interest_def Let_def numeral_2_eq_2 numeral_3_eq_3 fun_eq_iff)
  have "typed k_interest {1} s0"
    using new_server_safe [OF S s] s0(1,4) by (auto intro: configured_typed)
  moreover have "wakeable k_interest 1 2 s0"
    using s0(2,3,5) by (simp add: wakeable_def sample_eventloop_def sample_event_def EPOLLIN_def)
  ultimately show ?thesis using s0(1,2) by blast
qed

theorem loopbreak_ends_loop_witness:
  "\<exists>s0 s1 r. new_server stop_sys (-1) echo_boot = Inr s0 \<and> loopbreak stop_sys 1 s0 = Inr s1 \<and>
     loop stop_sys (run_event stop_sys (echo_user stop_sys)) (sv_del stop_sys (echo_user stop_sys)) 1 s1 = Some r \<and>
     safe (\<lambda>s'. typed k_interest {1} s' \<and> stopped 1 s') r"
proof -
  obtain s0 where s0: "new_server stop_sys (-1) echo_boot = Inr s0" "typed k_interest {1} s0" "wakeable k_interest 1 2 s0"
      "rt_loops s0 1 = Some sample_eventloop"
    using stop_server by blast
  have L: "el_epfd sample_eventloop = 3" "el_eventfd sample_eventloop = 4" by (simp_all add: sample_eventloop_def)
  have "sendout_faults stop_sys = {}" by (simp add: sendout_faults_def write_ready_def stop_sys_def echo_sys_def)
  with loopbreak_ends_loop [OF echo.tcp_app_axioms stop_kernel_ok s0(2) _ s0(3,4), of "\<lambda>k. k_output k 4 \<noteq> []" k_room 8]
    stop_wake_spec L s0(1)
  show ?thesis by (fastforce simp: stop_sys_def echo_sys_def eventfd_one_def)
qed

end
