(* ===== verification/Udp_Example.thy ===== *)
theory Udp_Example
  imports Udpevent_Laws Server_Laws
begin

text \<open>
  The UDP echo server \<^verbatim>\<open>example/udpserver.cpp\<close> (its callback is also that of \<^verbatim>\<open>example/tcpserver.cpp\<close>):
  what it answers, and what an empty datagram does to it.
\<close>

section \<open>The program\<close>

text \<open>The bytes of \<^verbatim>\<open>"Echo: "\<close>.\<close>

definition echo_prefix :: "byte list" where
  "echo_prefix = [69, 99, 104, 111, 58, 32]"

definition on_udp_receive ::
  "'w sys \<Rightarrow> sockaddr \<Rightarrow> addr \<Rightarrow> ('w, 'm) udps_scheme \<Rightarrow> ('w, 'm) udps_scheme res" where
  "on_udp_receive S sa uev s =
     bindR (ud_receive_all uev s) (\<lambda>(data, s).
       if data \<noteq> [] then send_to S (echo_prefix @ data) sa uev s else Inr s)"

text \<open>The program's callbacks; \<^verbatim>\<open>on_udp_event\<close> only prints.\<close>

definition udp_user ::
  "'w sys \<Rightarrow> callback \<Rightarrow> ('w, 'm) servers_scheme \<Rightarrow> ('w, 'm) servers_scheme res" where
  "udp_user S c s = (case c of User_udp _ sa p \<Rightarrow> on_udp_receive S sa p s | _ \<Rightarrow> Inr s)"

text \<open>\<^verbatim>\<open>main\<close> up to the call of \<^verbatim>\<open>start\<close>; the callback number 0 is \<^verbatim>\<open>on_udp_receive\<close>.\<close>

definition udpserver_setup ::
  "'w sys \<Rightarrow> ('w, 'm) servers_scheme \<Rightarrow> (addr \<times> ('w, 'm) servers_scheme) res" where
  "udpserver_setup S s = bindR (new_server S (-1) s) (add_udpev S 5005 (Some 0))"

section \<open>Answering\<close>

text \<open>\<open>answers w\<close> are the datagrams handed to \<^verbatim>\<open>sendto\<close> so far.\<close>

definition udp_wire ::
  "'w sys \<Rightarrow> ('w \<Rightarrow> fd \<Rightarrow> (byte list \<times> sockaddr) list) \<Rightarrow> ('w \<Rightarrow> (fd \<times> sockaddr \<times> byte list) list) \<Rightarrow> bool" where
  "udp_wire S dgrams answers \<longleftrightarrow>
     recvfrom_spec S dgrams \<and> (\<forall>fd n w. answers (snd (sys_recvfrom S fd n w)) = answers w) \<and>
     (\<forall>fd bs sa w. answers (snd (sys_sendto S fd bs sa w)) = answers w @ [(fd, sa, bs)] \<and>
        dgrams (snd (sys_sendto S fd bs sa w)) = dgrams w)"

text \<open>The socket between two turns of the receiving loop.\<close>

definition udp_idle :: "nat \<Rightarrow> callback option \<Rightarrow> addr \<Rightarrow> fd \<Rightarrow> ('w, 'm) servers_scheme \<Rightarrow> bool" where
  "udp_idle f ecb p fd s \<longleftrightarrow>
     p \<noteq> NULL \<and> (\<exists>u. rt_udpevents s p = Some u \<and> ud_fd u = fd \<and> ud_receive_cb u = Some f \<and> ud_event_cb u = ecb \<and>
        buf_inv (ud_inbuff u) \<and> contents (ud_inbuff u) = [])"

text \<open>A program whose callback for datagrams is \<^verbatim>\<open>on_udp_receive\<close>.\<close>

definition answering :: "'w sys \<Rightarrow> (callback \<Rightarrow> ('w, 'm) servers_scheme \<Rightarrow> ('w, 'm) servers_scheme res) \<Rightarrow> bool" where
  "answering S user \<longleftrightarrow> (\<forall>f sa p s. user (User_udp f sa p) s = on_udp_receive S sa p s)"

lemma udp_answers_one:
  assumes U: "answering S user" and W: "udp_wire S dgrams answers" and i: "udp_idle f ecb p fd s"
    and d: "dgrams (rt_world s) fd = (bs, sa) # ds" "bs \<noteq> []"
  shows "\<exists>s'. handle_receive_turn S (run_user S user) p s = Inr (True, s') \<and> udp_idle f ecb p fd s' \<and> dgrams (rt_world s') fd = ds \<and>
    answers (rt_world s') = answers (rt_world s) @ [(fd, sa, echo_prefix @ take BUFSIZE bs)]"
proof -
  obtain u where u: "p \<noteq> NULL" "rt_udpevents s p = Some u" "ud_fd u = fd" "ud_receive_cb u = Some f" "ud_event_cb u = ecb"
      "buf_inv (ud_inbuff u)" "contents (ud_inbuff u) = []"
    using i by (auto simp: udp_idle_def)
  obtain w where w: "sys_recvfrom S fd BUFSIZE (rt_world s) = (Inr (take BUFSIZE bs, sa), w)" "dgrams w fd = ds"
    using W d(1) unfolding udp_wire_def recvfrom_spec_def by blast
  have aw: "answers w = answers (rt_world s)"
    using W w(1) unfolding udp_wire_def by (metis snd_conv)
  obtain ib where ib: "append (take BUFSIZE bs) (ud_inbuff u) = Inr ib" "buf_inv ib" "contents ib = take BUFSIZE bs"
    using append_ok [OF u(6), of "take BUFSIZE bs"] u(7) by (force simp: VECTOR_MAX_def)
  obtain ib2 where ib2: "remove_all ib = Inr (take BUFSIZE bs, ib2)" "buf_inv ib2" "contents ib2 = []"
    using remove_everything [OF ib(2)] ib(3) by auto
  let ?s = "put_udp p (u\<lparr>ud_inbuff := ib2\<rparr>) (s\<lparr>rt_world := w\<rparr>)"
  let ?w = "snd (sys_sendto S fd (echo_prefix @ take BUFSIZE bs) sa w)"
  have w2: "answers ?w = answers w @ [(fd, sa, echo_prefix @ take BUFSIZE bs)]" "dgrams ?w = dgrams w"
    using W unfolding udp_wire_def by blast+
  have U': "user (User_udp f sa p) t = on_udp_receive S sa p t" for t using U unfolding answering_def by blast
  have "handle_receive_turn S (run_user S user) p s = Inr (True, ?s\<lparr>rt_world := ?w\<rparr>)"
    using U' u w(1) ib(1) ib2(1) d(2)
    by (simp add: handle_receive_turn_def call_def Let_def run_user_def on_udp_receive_def ud_receive_all_def
        put_udp_def send_to_def split: prod.split)
  then show ?thesis using u ib2 w2 w(2) aw by (auto simp: udp_idle_def put_udp_def)
qed

lemma udp_empty_one:
  assumes W: "udp_wire S dgrams answers" and i: "udp_idle f (Some Dangling_closure) p fd s"
    and d: "dgrams (rt_world s) fd = ([], sa) # ds"
  shows "handle_receive_turn S (run_user S user) p s = Inl Dangling_pointer"
proof -
  obtain w where "sys_recvfrom S fd BUFSIZE (rt_world s) = (Inr ([], sa), w)"
    using W d unfolding udp_wire_def recvfrom_spec_def by (metis take_Nil)
  then show ?thesis
    using i by (auto simp: udp_idle_def handle_receive_turn_def call_def ud_call_eventcb_def call_cb_def run_user_def)
qed

lemma udp_none_left:
  assumes W: "udp_wire S dgrams answers" and i: "udp_idle f ecb p fd s" and d: "dgrams (rt_world s) fd = []"
  shows "\<exists>s'. handle_receive_turn S (run_user S user) p s = Inr (False, s') \<and> dgrams (rt_world s') fd = [] \<and> answers (rt_world s') = answers (rt_world s)"
proof -
  obtain w where w: "sys_recvfrom S fd BUFSIZE (rt_world s) = (Inl EAGAIN, w)" "dgrams w fd = []"
    using W d unfolding udp_wire_def recvfrom_spec_def by blast
  moreover have "answers w = answers (rt_world s)" using W w(1) unfolding udp_wire_def by (metis snd_conv)
  ultimately show ?thesis using i by (auto simp: udp_idle_def handle_receive_turn_def call_def)
qed

lemma udp_run:
  assumes U: "answering S user" and W: "udp_wire S dgrams answers"
  shows "udp_idle f ecb p fd s \<Longrightarrow> \<forall>(bs, sa) \<in> set (dgrams (rt_world s) fd). bs \<noteq> [] \<Longrightarrow>
      \<exists>s'. handle_receive S (run_user S user) p s = Some (Inr s') \<and> dgrams (rt_world s') fd = [] \<and>
        answers (rt_world s') = answers (rt_world s) @ map (\<lambda>(bs, sa). (fd, sa, echo_prefix @ take BUFSIZE bs)) (dgrams (rt_world s) fd)"
    and "udp_idle f (Some Dangling_closure) p fd s \<Longrightarrow> \<exists>(bs, sa) \<in> set (dgrams (rt_world s) fd). bs = [] \<Longrightarrow>
      handle_receive S (run_user S user) p s = Some (Inl Dangling_pointer)"
proof (induction "dgrams (rt_world s) fd" arbitrary: s)
  case Nil
  {
    case 1
    then show ?case using udp_none_left [OF W 1(1), of user] Nil unfolding handle_receive_def by (auto dest: repeat_turn_done)
  next
    case 2
    then show ?case using Nil by simp
  }
next
  case (Cons d ds)
  obtain bs sa where d: "d = (bs, sa)" by (rule prod.exhaust)
  note q = Cons.hyps(3) [symmetric]
  {
    case 1
    then obtain s' where s': "handle_receive_turn S (run_user S user) p s = Inr (True, s')" "udp_idle f ecb p fd s'" "dgrams (rt_world s') fd = ds"
        "answers (rt_world s') = answers (rt_world s) @ [(fd, sa, echo_prefix @ take BUFSIZE bs)]"
      using udp_answers_one [OF U W 1(1), of bs sa ds] q d by auto
    from Cons.hyps(1) [OF s'(3) [symmetric] s'(2)] 1(2) show ?case
      using s'(3,4) q d repeat_turn_again [of "handle_receive_turn S (run_user S user) p" s s', OF s'(1)] by (auto simp: handle_receive_def)
  next
    case 2
    show ?case
    proof (cases "bs = []")
      case True
      from udp_empty_one [OF W 2(1), of _ _ user] q d True have "handle_receive_turn S (run_user S user) p s = Inl Dangling_pointer" by blast
      then show ?thesis unfolding handle_receive_def by (subst repeat_turn.simps) simp
    next
      case False
      then obtain s' where s': "handle_receive_turn S (run_user S user) p s = Inr (True, s')" "udp_idle f (Some Dangling_closure) p fd s'"
          "dgrams (rt_world s') fd = ds"
        using udp_answers_one [OF U W 2(1), of bs sa ds] q d by auto
      from Cons.hyps(2) [OF s'(3) [symmetric] s'(2)] 2(2) show ?thesis
        using s'(3) q d False repeat_turn_again [of "handle_receive_turn S (run_user S user) p" s s', OF s'(1)] by (auto simp: handle_receive_def)
    qed
  }
qed

lemma udp_user_answering: "answering S (udp_user S)"
  by (simp add: answering_def udp_user_def)

section \<open>The set up socket\<close>

lemma udps_call: "rt_udpevents (snd (call f s)) = rt_udpevents s"
  by (simp add: call_def split: prod.split)

lemma udps_kept:
  "upd_event q g s = Inr s' \<Longrightarrow> rt_udpevents s' = rt_udpevents s"
  "update_ep S q s = Inr s' \<Longrightarrow> rt_udpevents s' = rt_udpevents s"
  "enable_listen S q s = Inr s' \<Longrightarrow> rt_udpevents s' = rt_udpevents s"
  by (auto simp: upd_event_def put_event_def update_ep_def mod_event_def enable_listen_def add_event_def upd_loop_def
      put_loop_def bindR_eq_Inr udps_call)

lemma new_udpevent_udp:
  assumes "new_udpevent S l port s = Inr (p, s')"
  shows "\<exists>u. rt_udpevents s' p = Some u \<and> ud_inbuff u = new_buffer"
  using assms
  by (auto simp: new_udpevent_def Let_def bindR_eq_Inr ud_init_sock_def call_def via_world_def upd_udp_def put_udp_def
      new_event_def put_event_def setcb_def deref_eq_Inr dest!: udps_kept split: prod.splits sum.splits if_splits)

lemma ud_setcb_udp:
  assumes "ud_setcb S p rcb ecb s = Inr s'" "rt_udpevents s p = Some u"
  shows "p \<noteq> NULL \<and> rt_udpevents s' p = Some (u\<lparr>ud_receive_cb := rcb, ud_event_cb := ecb\<rparr>)"
  using assms
  by (auto simp: ud_setcb_def upd_udp_def put_udp_def bindR_eq_Inr deref_eq_Inr ud_update_ep_def dest!: udps_kept
      split: if_splits)

lemma ud_enable_listen_udp:
  assumes "ud_enable_listen S p s = Inr s'" "rt_udpevents s p = Some u"
  shows "rt_udpevents s' p = Some (u\<lparr>ud_started := True\<rparr>)"
  using assms
  by (auto simp: ud_enable_listen_def upd_udp_def put_udp_def bindR_eq_Inr deref_eq_Inr dest!: udps_kept split: if_splits)

lemma add_udpev_idle:
  assumes a: "add_udpev S port (Some f) s = Inr (p, s')"
  shows "udp_idle f (Some Dangling_closure) p (ud_fd (the (rt_udpevents s' p))) s'"
proof -
  obtain l s1 s2 s3 s4 where st: "dispatch s = Inr (l, s1)" "new_udpevent S l port s1 = Inr (p, s2)"
      "ud_setcb S p (Some f) (Some Dangling_closure) s2 = Inr s3" "ud_enable_listen S p s3 = Inr s4" "s' = remember p s4"
    using a by (auto simp: add_udpev_def bindR_eq_Inr)
  obtain u where u: "rt_udpevents s2 p = Some u" "ud_inbuff u = new_buffer" using new_udpevent_udp [OF st(2)] by blast
  note cb = ud_setcb_udp [OF st(3) u(1)]
  from ud_enable_listen_udp [OF st(4) cb [THEN conjunct2]] u(2) cb show ?thesis
    by (simp add: st(5) remember_def upd_server_def udp_idle_def new_buffer_ok)
qed

lemma udpserver_idle:
  assumes "udpserver_setup S s0 = Inr (p, s)" "rt_udpevents s p = Some u"
  shows "udp_idle 0 (Some Dangling_closure) p (ud_fd u) s"
proof -
  obtain s1 where "add_udpev S 5005 (Some 0) s1 = Inr (p, s)"
    using assms(1) by (auto simp: udpserver_setup_def bindR_eq_Inr)
  from add_udpev_idle [OF this] assms(2) show ?thesis by simp
qed

section \<open>Properties\<close>

text \<open>
  C22. The UDP echo server answers: with no empty datagram among those that wait, its receiving
  handler returns and has answered each, in order, to its sender, with \<^verbatim>\<open>"Echo: "\<close> and the
  datagram's bytes (at most \<^verbatim>\<open>BUFSIZE\<close>), and nothing is left in the socket.
\<close>

theorem udpserver_answers:
  assumes "udp_wire S dgrams answers" and "udpserver_setup S s0 = Inr (p, s)"
    and "rt_udpevents s p = Some u" and "\<forall>(bs, sa) \<in> set (dgrams (rt_world s) (ud_fd u)). bs \<noteq> []"
  shows "\<exists>s'. handle_receive S (run_user S (udp_user S)) p s = Some (Inr s') \<and> dgrams (rt_world s') (ud_fd u) = [] \<and>
    answers (rt_world s') = answers (rt_world s) @
      map (\<lambda>(bs, sa). (ud_fd u, sa, echo_prefix @ take BUFSIZE bs)) (dgrams (rt_world s) (ud_fd u))"
proof -
  have "udp_idle 0 (Some Dangling_closure) p (ud_fd u) s" by (rule udpserver_idle [OF assms(2,3)])
  then show ?thesis using udp_run(1) [OF udp_user_answering assms(1) _ assms(4)] by blast
qed

text \<open>
  C31. An empty datagram takes the UDP echo server down: \<^verbatim>\<open>add_udpev\<close> sets as event callback a lambda
  that refers to the parameters and locals of the call that has returned, and the receiving
  handler calls it when it reads an empty datagram, which anyone can send.
\<close>

theorem udpserver_empty_datagram_dangles:
  assumes "udp_wire S dgrams answers" and "udpserver_setup S s0 = Inr (p, s)"
    and "rt_udpevents s p = Some u" and "([], sa) \<in> set (dgrams (rt_world s) (ud_fd u))"
  shows "handle_receive S (run_user S (udp_user S)) p s = Some (Inl Dangling_pointer)"
proof -
  have "udp_idle 0 (Some Dangling_closure) p (ud_fd u) s" by (rule udpserver_idle [OF assms(2,3)])
  then show ?thesis using udp_run(2) [OF udp_user_answering assms(1)] assms(4) by blast
qed

section \<open>A sample run\<close>

text \<open>A kernel with queues of datagrams and a log of what is sent.\<close>

record udp_kernel =
  uk_dgrams :: "fd \<Rightarrow> (byte list \<times> sockaddr) list"
  uk_answers :: "(fd \<times> sockaddr \<times> byte list) list"
  uk_next :: fd

definition uk_open :: "(udp_kernel, fd) syscall" where
  "uk_open k = (Inr (uk_next k), k\<lparr>uk_next := uk_next k + 1\<rparr>)"

definition udp_sys :: "udp_kernel sys" where
  "udp_sys =
     \<lparr>sys_epoll_create1 = uk_open, sys_epoll_ctl = \<lambda>_ _ _ _ k. (Inr (), k), sys_epoll_wait = \<lambda>_ _ _ k. (Inr [], k),
      sys_eventfd = uk_open, sys_read = \<lambda>_ _ k. (Inl EAGAIN, k), sys_readv = \<lambda>_ _ k. (Inl EAGAIN, k),
      sys_write = \<lambda>_ bs k. (Inr (length bs), k), sys_writev = \<lambda>_ bss k. (Inr (length (concat bss)), k),
      sys_close = \<lambda>_ k. (Inr (), k), sys_socket = \<lambda>_. uk_open, sys_setsockopt = \<lambda>_ _ k. (Inr (), k),
      sys_fcntl_getfl = \<lambda>_ k. (Inr 0, k), sys_fcntl_setfl = \<lambda>_ _ k. (Inr (), k),
      sys_bind = \<lambda>_ _ k. (Inr (), k), sys_listen = \<lambda>_ _ k. (Inr (), k), sys_connect = \<lambda>_ _ k. (Inr (), k),
      sys_accept = \<lambda>_ k. (Inl EAGAIN, k),
      sys_recvfrom = \<lambda>fd n k. (case uk_dgrams k fd of
          [] \<Rightarrow> (Inl EAGAIN, k)
        | (bs, sa) # ds \<Rightarrow> (Inr (take n bs, sa), k\<lparr>uk_dgrams := (uk_dgrams k)(fd := ds)\<rparr>)),
      sys_sendto = \<lambda>fd bs sa k. (Inr (length bs), k\<lparr>uk_answers := uk_answers k @ [(fd, sa, bs)]\<rparr>),
      sys_timerfd_create = uk_open, sys_timerfd_settime = \<lambda>_ _ k. (Inr (), k),
      sys_pipe = \<lambda>k. (Inl EAGAIN, k), sys_sigaction = \<lambda>_ k. (Inr (), k)\<rparr>"

lemma udp_sys_wire: "udp_wire udp_sys uk_dgrams uk_answers"
  by (auto simp: udp_wire_def recvfrom_spec_def udp_sys_def split: list.split)

definition udp_boot :: "(byte list \<times> sockaddr) list \<Rightarrow> udp_kernel servers" where
  "udp_boot ds =
     \<lparr>rt_events = Map.empty, rt_loops = Map.empty,
      rt_world = \<lparr>uk_dgrams = (\<lambda>_. [])(5 := ds), uk_answers = [], uk_next = 3\<rparr>,
      rt_next = 1, rt_bfevents = Map.empty, rt_timerevents = Map.empty, rt_signalevents = Map.empty,
      rt_sigev = NULL, rt_udpevents = Map.empty, rt_acceptors = Map.empty, rt_loopthreads = Map.empty,
      rt_server = rt_server server_sample\<rparr>"

lemma udp_boot_runs:
  "\<exists>p s u. udpserver_setup udp_sys (udp_boot ds) = Inr (p, s) \<and> rt_udpevents s p = Some u \<and> ud_fd u = 5 \<and>
     uk_dgrams (rt_world s) 5 = ds \<and> uk_answers (rt_world s) = []"
  by (simp add: udpserver_setup_def new_server_def new_eventloop_def create_eventfd_def udp_boot_def udp_sys_def uk_open_def
      call_def upd_loop_def put_loop_def new_event_def put_event_def setcb_def upd_event_def add_event_def new_looptpool_def
      new_acceptor_def add_udpev_def dispatch_def ev_dispatch_def upd_server_def new_udpevent_def put_udp_def ud_init_sock_def
      via_world_def setreuse_def setnonblock_def upd_udp_def ud_setcb_def ud_update_ep_def ud_enable_listen_def
      enable_listen_def remember_def Let_def)

theorem udpserver_answers_witness:
  "\<exists>p s s'. udpserver_setup udp_sys (udp_boot [([7, 8], (1, 2)), ([9], (3, 4))]) = Inr (p, s) \<and>
     handle_receive udp_sys (run_user udp_sys (udp_user udp_sys)) p s = Some (Inr s') \<and>
     uk_answers (rt_world s') = [(5, (1, 2), echo_prefix @ [7, 8]), (5, (3, 4), echo_prefix @ [9])]"
proof -
  let ?ds = "[([7, 8], (1, 2)), ([9], (3, 4))] :: (byte list \<times> sockaddr) list"
  obtain p s u where s: "udpserver_setup udp_sys (udp_boot ?ds) = Inr (p, s)" "rt_udpevents s p = Some u" "ud_fd u = 5"
      "uk_dgrams (rt_world s) 5 = ?ds" "uk_answers (rt_world s) = []"
    using udp_boot_runs by blast
  from udpserver_answers [OF udp_sys_wire s(1,2)] s show ?thesis by auto
qed

theorem udpserver_empty_datagram_dangles_witness:
  "\<exists>p s. udpserver_setup udp_sys (udp_boot [([7], (1, 2)), ([], (3, 4))]) = Inr (p, s) \<and>
     handle_receive udp_sys (run_user udp_sys (udp_user udp_sys)) p s = Some (Inl Dangling_pointer)"
proof -
  let ?ds = "[([7], (1, 2)), ([], (3, 4))] :: (byte list \<times> sockaddr) list"
  obtain p s u where s: "udpserver_setup udp_sys (udp_boot ?ds) = Inr (p, s)" "rt_udpevents s p = Some u" "ud_fd u = 5"
      "uk_dgrams (rt_world s) 5 = ?ds"
    using udp_boot_runs by blast
  from udpserver_empty_datagram_dangles [OF udp_sys_wire s(1,2), of "(3, 4)"] s show ?thesis by auto
qed

end
