(* ===== verification/Example_Programs.thy ===== *)
theory Example_Programs
  imports Ringbuff Udp_Example Echo_Program
begin

text \<open>
  The other programs that come with the library: \<^verbatim>\<open>example/ringbuff_test.cpp\<close>,
  \<^verbatim>\<open>example/timerevent_test.cpp\<close>, \<^verbatim>\<open>example/tcpserver.cpp\<close> and \<^verbatim>\<open>bench/moonnet_dynamic_test.cpp\<close>, up to
  their calls of \<^verbatim>\<open>start\<close>. What they print is the result.
\<close>

section \<open>The ring buffer\<close>

text \<open>
  \<open>a\<close> and \<open>b\<close> are the two strings, \<open>e\<close> the empty one, \<open>mv\<close> what a move leaves behind. The result
  holds the popped string, size, capacity, the two flags and the exported strings.
\<close>

definition ringbuff_test_main ::
  "nat \<Rightarrow> ('a \<Rightarrow> 'a) \<Rightarrow> 'a \<Rightarrow> 'a \<Rightarrow> 'a \<Rightarrow> ('a option \<times> size_t \<times> size_t \<times> bool \<times> bool \<times> 'a list) res" where
  "ringbuff_test_main max_size mv e a b =
     bindR (push a (new_ringbuff e 32)) (\<lambda>(_, buffer).
     bindR (push_move mv b buffer) (\<lambda>(_, _, buffer).
     bindR (pop e buffer) (\<lambda>(ok, data, buffer).
     bindR (swap_to_vector max_size mv [] buffer) (\<lambda>(vec, _).
       Inr (if ok then Some data else None, rb_size buffer, rb_capacity buffer, rb_empty buffer, rb_full buffer, vec)))))"

lemma adj_size_32: "adj_size 32 = 32"
  by (simp add: adj_size_def is_powtwo_def)

lemma ringbuff_test_prints:
  "0 < max_size \<Longrightarrow> ringbuff_test_main max_size mv e a b = Inr (Some a, 1, 32, False, False, [b])"
  by (simp add: ringbuff_test_main_def new_ringbuff_def adj_size_32 push_def push_move_def pop_def swap_to_vector_def
      reserve_size_def rb_size_def rb_empty_def rb_full_def move_range.simps Let_def)

section \<open>The echo server with a pool that adjusts itself\<close>

definition moonnet_dynamic_test_setup ::
  "'w sys \<Rightarrow> (addr \<Rightarrow> int) \<Rightarrow> ('w, 'm) servers_scheme \<Rightarrow> ('w, 'm) servers_scheme res" where
  "moonnet_dynamic_test_setup S seen s =
     bindR (new_server S (-1) s) (\<lambda>s.
     bindR (enable_tcp S 5005 s) (\<lambda>s.
     bindR (sv_init_pool_n S seen 2 (-1) s) (\<lambda>s.
       Inr (set_tcpcb (Some 0) None None s))))"

text \<open>It starts with well-typed heaps, so the turns of its loops are memory safe as well.\<close>

lemma moonnet_dynamic_test_setup_safe:
  assumes S: "epoll_ctl_spec S interest" "setup_calls S interest opened" and s: "boot s"
  shows "safe (\<lambda>s. typed interest (server_loops s) s) (moonnet_dynamic_test_setup S seen s)"
proof -
  have s0: "setting_up interest opened {} s" using s by (simp add: setting_up_def boot_def)
  show ?thesis
    unfolding moonnet_dynamic_test_setup_def
  proof (rule safe_bind [OF new_server_safe [OF S s0]], elim conjE)
    fix s1
    assume s1: "configured interest opened {sv_base (rt_server s1)} s1" "lo_loadvec (sv_pool (rt_server s1)) = []"
      "\<not> lo_manager (sv_pool (rt_server s1))"
    then have c1: "configured interest opened (server_loops s1) s1" by (simp add: server_loops_def)
    show "safe (\<lambda>s. typed interest (server_loops s) s) (bindR (enable_tcp S 5005 s1) (\<lambda>s.
        bindR (sv_init_pool_n S seen 2 (-1) s) (\<lambda>s. Inr (set_tcpcb (Some 0) None None s))))"
    proof (rule safe_bind [OF enable_tcp_safe [OF S c1]], elim conjE)
      fix s2
      assume s2: "configured interest opened (server_loops s1) s2" "sv_pool (rt_server s2) = sv_pool (rt_server s1)"
        "sv_base (rt_server s2) = sv_base (rt_server s1)"
      then have c2: "configured interest opened (server_loops s2) s2" by (simp add: server_loops_def)
      show "safe (\<lambda>s. typed interest (server_loops s) s) (bindR (sv_init_pool_n S seen 2 (-1) s2)
          (\<lambda>s. Inr (set_tcpcb (Some 0) None None s)))"
        by (rule safe_bind [OF sv_init_pool_n_safe [OF S c2]])
          (use s1(2,3) s2(2) in \<open>auto intro!: configured_typed set_tcpcb_configured simp: plain_def\<close>)
    qed
  qed
qed

section \<open>The server with TCP, UDP and signals\<close>

text \<open>
  \<^verbatim>\<open>handle_signal\<close> prints and calls \<^verbatim>\<open>stop\<close> of the server; \<open>stop\<close> is what that does, together with the
  other threads, which it waits for.
\<close>

definition tcpserver_handle_signal :: "('s \<Rightarrow> 's res) \<Rightarrow> int \<Rightarrow> 's \<Rightarrow> 's res" where
  "tcpserver_handle_signal stop signo s = stop s"

definition tcpserver_user ::
  "(('w, 'm) servers_scheme \<Rightarrow> ('w, 'm) servers_scheme res) \<Rightarrow> 'w sys \<Rightarrow> callback \<Rightarrow>
   ('w, 'm) servers_scheme \<Rightarrow> ('w, 'm) servers_scheme res" where
  "tcpserver_user stop S c s =
     (case c of
        User_obj _ p \<Rightarrow> echo_handle_read S p s
      | User_udp _ sa p \<Rightarrow> on_udp_receive S sa p s
      | User_int _ signo \<Rightarrow> tcpserver_handle_signal stop signo s
      | _ \<Rightarrow> Inr s)"

text \<open>
  \<^verbatim>\<open>main\<close> up to \<^verbatim>\<open>start\<close>; the callbacks are numbered: 0 \<^verbatim>\<open>handle_read\<close>, 1 \<^verbatim>\<open>handle_write\<close>, 2
  \<^verbatim>\<open>handle_signal\<close>, 3 \<^verbatim>\<open>on_udp_receive\<close>. The signals are SIGABRT, SIGFPE, SIGILL, SIGINT, SIGSEGV and
  SIGTERM.
\<close>

definition tcpserver_setup ::
  "'w sys \<Rightarrow> (addr \<Rightarrow> int) \<Rightarrow> nat \<Rightarrow> ('w, 'm) servers_scheme \<Rightarrow> (addr \<times> ('w, 'm) servers_scheme) res" where
  "tcpserver_setup S seen hc s =
     bindR (new_server S (-1) s) (\<lambda>s.
     bindR (enable_tcp S 5005 s) (\<lambda>s.
     bindR (sv_init_pool S seen hc (-1) s) (\<lambda>s.
     bindR (add_sevs S [6, 8, 4, 2, 11, 15] (Some 2) (set_tcpcb (Some 0) (Some (User 1)) None s)) (\<lambda>(_, s).
       add_udpev S 5006 (Some 3) s))))"

text \<open>Its UDP socket has the same flaw as that of \<^verbatim>\<open>udpserver.cpp\<close>.\<close>

lemma tcpserver_empty_datagram_dangles:
  assumes "udp_wire S dgrams answers" "tcpserver_setup S seen hc s0 = Inr (p, s)"
    and "rt_udpevents s p = Some u" "([], sa) \<in> set (dgrams (rt_world s) (ud_fd u))"
  shows "handle_receive S (run_user S (tcpserver_user stop S)) p s = Some (Inl Dangling_pointer)"
proof -
  have U: "answering S (tcpserver_user stop S)" by (simp add: answering_def tcpserver_user_def)
  obtain s1 where "add_udpev S 5006 (Some 3) s1 = Inr (p, s)" using assms(2) by (auto simp: tcpserver_setup_def bindR_eq_Inr)
  from add_udpev_idle [OF this] assms(3) have "udp_idle 3 (Some Dangling_closure) p (ud_fd u) s" by simp
  then show ?thesis using udp_run(2) [OF U assms(1)] assms(4) by blast
qed

section \<open>The timer\<close>

text \<open>\<^verbatim>\<open>on_timer\<close> (callback 0) prints. The timer is armed for every second.\<close>

definition timerevent_test_setup ::
  "'w sys \<Rightarrow> ('w, 'm) servers_scheme \<Rightarrow> (addr \<times> ('w, 'm) servers_scheme) res" where
  "timerevent_test_setup S s = bindR (new_server S (-1) s) (add_timeev S 1000 True (Some (User 0)))"

lemma timers_kept:
  "upd_event q g s = Inr s' \<Longrightarrow> rt_timerevents s' = rt_timerevents s"
  "enable_listen S q s = Inr s' \<Longrightarrow> rt_timerevents s' = rt_timerevents s"
proof -
  have "rt_timerevents (snd (call f s)) = rt_timerevents s" for f by (simp add: call_def split: prod.split)
  then show "upd_event q g s = Inr s' \<Longrightarrow> rt_timerevents s' = rt_timerevents s"
    and "enable_listen S q s = Inr s' \<Longrightarrow> rt_timerevents s' = rt_timerevents s"
    by (auto simp: upd_event_def put_event_def enable_listen_def add_event_def upd_loop_def put_loop_def bindR_eq_Inr)
qed

lemma timerevent_test_timer:
  assumes "timerevent_test_setup S s0 = Inr (p, s)"
  shows "\<exists>t. rt_timerevents s p = Some t \<and> timer_spec (tm_timeout_ms t) (tm_periodic t) = ((1, 0), (1, 0)) \<and>
    tm_cb t = Some (User 0)"
proof -
  obtain l s1 s2 s3 s4 where st: "new_timerevent S l 1000 True s1 = Inr (p, s2)"
      "tm_setcb p (Some (User 0)) s2 = Inr s3" "tm_enable_listen S p s3 = Inr s4" "s = remember p s4"
    using assms by (auto simp: timerevent_test_setup_def add_timeev_def bindR_eq_Inr)
  obtain t where t: "rt_timerevents s2 p = Some t" "tm_timeout_ms t = 1000" "tm_periodic t"
    using st(1)
    by (auto simp: new_timerevent_def tm_init_def Let_def bindR_eq_Inr call_def new_event_def put_event_def upd_timer_def
        deref_eq_Inr setcb_def dest!: timers_kept split: prod.splits sum.splits)
  have "rt_timerevents s3 p = Some (t\<lparr>tm_cb := Some (User 0)\<rparr>)" using st(2) t(1) by (auto simp: tm_setcb_def upd_timer_def bindR_eq_Inr deref_eq_Inr)
  moreover have "rt_timerevents s4 = rt_timerevents s3"
    using st(3) by (auto simp: tm_enable_listen_def tm_on_ev_def bindR_eq_Inr dest!: timers_kept split: if_splits)
  ultimately show ?thesis using t(2,3) by (simp add: st(4) remember_def upd_server_def timer_spec_def Let_def)
qed

end
