(* ===== verification/Spec2Isabelle.thy ===== *)
theory Spec2Isabelle
  imports Ringbuff_Spsc Wrap_Windows Lfthread_Move Lfthreadpool_Runs Threadpool_Laws
    Signalevent_Laws Udpevent_Laws Looptpool_Laws Server_Turn Server_Teardown Server_Accept Server_Stop
    Example_Programs
begin

text \<open>
  MoonNet is a C++ network library for Linux: a reactor over epoll with buffered TCP connections,
  UDP sockets, timers and signals as events, a pool of event loops in threads of their own, a
  server that ties these together, and two thread pools for tasks, one with a locked queue and
  one with lock-free ring buffers. This development models the library (the files of
  \<^verbatim>\<open>include/moonnet\<close> and \<^verbatim>\<open>src\<close>) and the programs that come with it as functions and step
  relations and proves what makes them correct, or shows where they are not.

  \<^bold>\<open>How the code is modelled.\<close> A class is a record of its members. Objects that are reached through
  pointers live in heaps, one per class, maps from addresses to live objects, so that the use
  of a deleted object is a fault and not a value; the heaps, the next free address and the
  state of the outside world form one record that grows from theory to theory
  (\<open>reactor\<close>, \<open>conns\<close>, \<open>timers\<close>, \<open>signals\<close>, \<open>udps\<close>, \<open>acceptors\<close>, \<open>pools\<close>, \<open>servers\<close>). An operation takes the state and
  returns the new state or a fault (\<open>fault\<close>: an access out of bounds, a pointer in front of an array,
  a null or dangling pointer, an uninitialised member, an exception, the end of the program). Words are machine words where
  their width matters (\<open>size_t\<close>, \<open>u32\<close>, \<open>byte\<close>). A \<^verbatim>\<open>std::function\<close> is a value of the type
  \<open>callback\<close>; what callbacks of the user do is an argument of the operations that call one. The
  operating system is an argument too, a record of system calls on an arbitrary state of the
  world (\<open>Sys\<close>); what theorems assume of it are named predicates that state the manual pages
  (\<open>epoll_ctl_spec\<close>, \<open>write_spec\<close>, \<open>recvfrom_spec\<close> and so on), and \<open>Sample_Kernel\<close> is a kernel that
  meets them, on which every theorem with hypotheses is applied once. Loops that may not end
  are partial functions with the value \<open>None\<close> for not returning (\<open>repeat_turn\<close>, given the turn of
  the loop), and the theorems about them show that they return. The one loop with fuel is the
  \<^verbatim>\<open>while\<close> loop that empties a ring buffer (\<open>drain\<close>): one more than the number of elements is shown to
  be enough. Threads are interleaved steps: for the ring buffer with one producer and one consumer
  at the grain of its atomic loads and stores, with stale loads; for the locked pool at the
  grain of its critical sections; for the lock-free worker the test of the shutdown flag, the
  taking of a task and its run are steps of their own, and the queue operations are whole, which the
  ring buffer justifies; for the loops of a server whole turns. Messages on the error stream are
  left out.

  \<^bold>\<open>The theories and the code.\<close>

  \<^item> \<open>Moon_Prelude\<close>, \<open>Bounded_Fifo\<close>, \<open>Ring_Slice\<close>, \<open>Byte_Stream\<close>, \<open>Load_Scan\<close>, \<open>Drain_Loop\<close>: machine types, faults and
    loops; the contracts, as locales, of a bounded queue, of a byte stream, of a scan for the
    best load and of a loop that drains a queue. The ring buffer, the byte buffer, the pools and the
    loop of the UDP socket are their interpretations.
  \<^item> \<open>Ringbuff\<close>, \<open>Ringbuff_Spsc\<close>: \<^verbatim>\<open>ringbuff.h\<close>, \<^verbatim>\<open>ringbuff.tpp\<close>. Any sequence of operations is that of a
    bounded queue; every interleaving of a producer and a consumer refines it, without data
    races; the capacity is the least sufficient power of two.
  \<^item> \<open>Buffer\<close>: \<^verbatim>\<open>buffer.h\<close>, \<^verbatim>\<open>buffer.cpp\<close>. In any interleaving of appending and removing the bytes
    come out in order, in pieces of the sizes asked for.
  \<^item> \<open>Sys\<close>, \<open>Wrap\<close>, \<open>Wrap_Laws\<close>, \<open>Wrap_Windows\<close>: the system calls; \<^verbatim>\<open>wrap.cpp\<close>. Whole blocks and lines are
    read and written whatever sizes the calls deliver, and an error is one that a call reported; the Windows half of the file does the same
    as the POSIX half, but for \<^verbatim>\<open>Accept\<close> and the buffer of \<^verbatim>\<open>Readline\<close>.
  \<^item> \<open>Eventloop\<close>, \<open>Eventloop_Laws\<close>: \<^verbatim>\<open>event.cpp\<close>, \<^verbatim>\<open>eventloop.cpp\<close>. The loop's list, its load and epoll's
    interest list stay in step.
  \<^item> \<open>Bfevent\<close>, \<open>Bfevent_Laws\<close>: \<^verbatim>\<open>bfevent.h\<close>, \<^verbatim>\<open>bfevent.cpp\<close>. Reading and writing keep the streams;
    deletion leaves no trace; where \<^verbatim>\<open>sendout\<close> drops or shifts data.
  \<^item> \<open>Timerevent\<close>, \<open>Signalevent\<close>, \<open>Signalevent_Laws\<close>: \<^verbatim>\<open>timerevent.cpp\<close>, \<^verbatim>\<open>signalevent.cpp\<close>. The timeout is
    converted exactly; signals pass through the pipe in order; a deleted timer dangles.
  \<^item> \<open>Udpevent\<close>, \<open>Udpevent_Laws\<close>, \<open>Acceptor\<close>: \<^verbatim>\<open>udpevent.cpp\<close>, \<^verbatim>\<open>acceptor.cpp\<close>. Datagrams keep
    their boundaries and senders, up to an empty one.
  \<^item> \<open>Looptpool\<close>, \<open>Looptpool_Laws\<close>: \<^verbatim>\<open>loopthread.cpp\<close>, \<^verbatim>\<open>looptpool.cpp\<close>. How the pool chooses a loop.
  \<^item> \<open>Base_event\<close>, \<open>Server\<close>, \<open>Server_Laws\<close>, \<open>Server_Turn\<close>: \<^verbatim>\<open>base_event.h\<close>, \<^verbatim>\<open>server.cpp\<close>. A connection
    from its acceptance to its deferred deletion; the whole turn of a loop that takes down a
    connection whose peer is gone.
  \<^item> \<open>Safe_Calls\<close>, \<open>Server_Typing\<close>, \<open>Server_Steps\<close>, \<open>Server_Safety\<close>, \<open>Server_Loop\<close>, \<open>Server_Setup\<close>: type and memory
    safety of a TCP server. \<open>typed\<close> says that every pointer the loops, epoll, the pending deletions
    and the server hold refers to a live object of the right class; every step of a turn keeps it,
    whatever epoll reports and however the system calls fail, and none follows a null, dangling or
    unset pointer. The two orderly ends that the sources provide for, \<^verbatim>\<open>exit(1)\<close> and the exception of
    a vector that cannot grow, count as safe (\<open>safe\<close>); \<open>safe_for\<close> allows some faults more. The locale
    \<open>tcp_app\<close> is the contract with the application's callback, which says what faults the callback may
    raise; its laws hold for any application, and the echo server is its interpretation, with the
    one fault of \<^verbatim>\<open>sendout\<close> after a write that would block. The calls of a \<^verbatim>\<open>main\<close> before \<^verbatim>\<open>start\<close> establish the typing.
  \<^item> \<open>Server_Accept\<close>: the accepting loop with the server's callback. It takes the waiting connections in
    order and makes one object for each, and leaves some waiting only if \<^verbatim>\<open>accept\<close> fails.
  \<^item> \<open>Server_Stop\<close>: \<^verbatim>\<open>loopbreak\<close> ends a loop of a typed server, for any application.
  \<^item> \<open>Server_Teardown\<close>: the destructor of a listening TCP server. Once its loops have ended it frees the
    connections, the acceptor, the loops with their threads and all their events, each once. The
    typing above gives the shape it needs.
  \<^item> \<open>Echo_Server\<close>, \<open>Echo_Stream\<close>, \<open>Echo_Program\<close>: \<^verbatim>\<open>bench/moonnet_test.cpp\<close>. The program is memory safe from its
    first call on, in every interleaving of the turns of its loops, but for the fault of \<^verbatim>\<open>sendout\<close>;
    a client gets back of every chunk what one write takes, and all of its stream if writes take
    all; a client that does not read makes the server read in front of its string.
  \<^item> \<open>Udp_Example\<close>, \<open>Example_Programs\<close>: \<^verbatim>\<open>example/udpserver.cpp\<close>, which answers every datagram but
    follows a dangling reference after an empty one; \<^verbatim>\<open>bench/moonnet_dynamic_test.cpp\<close>,
    \<^verbatim>\<open>example/ringbuff_test.cpp\<close>, \<^verbatim>\<open>timerevent_test.cpp\<close>, \<^verbatim>\<open>tcpserver.cpp\<close>.
  \<^item> \<open>Lfthread\<close>, \<open>Lfthread_Move\<close>, \<open>Lfthreadpool\<close>, \<open>Lfthreadpool_Laws\<close>, \<open>Lfthreadpool_Runs\<close>: \<^verbatim>\<open>lfthread.cpp\<close>,
    \<^verbatim>\<open>lfthreadpool.cpp\<close>, \<^verbatim>\<open>example/lfthreadpool_test.cpp\<close>. Tasks run in order and are dealt out in turn or
    to the least loaded worker; in every interleaving of owner and workers none is lost or run
    twice; a shutdown runs of every worker's tasks a first part, how much depends on the schedule;
    what is lost when a worker is removed; why a worker cannot be moved.
  \<^item> \<open>Threadpool\<close>, \<open>Threadpool_Laws\<close>: \<^verbatim>\<open>threadpool.cpp\<close>. No task is lost or run twice, a shutdown runs all;
    the counters stop the pool from growing.

  \<^bold>\<open>Bounds.\<close> Sizes are 64-bit. Loads and numbers of threads that the code keeps in an \<^verbatim>\<open>int\<close> are
  assumed to fit where a theorem needs it (\<open>pool_ok\<close>, \<open>short_queues\<close>, \<open>loops_ok\<close>); signed sums that cannot
  come near the limits are not wrapped. \<open>VECTOR_MAX\<close> is the largest vector of bytes.

  \<^bold>\<open>Not modelled.\<close> The umbrella headers; the benchmarks written for libevent and muduo, which are not
  part of the repository; what programs print. The template files under \<^verbatim>\<open>include\<close> are copies of
  those under \<^verbatim>\<open>src\<close>. The mutex around the server's list of events is left out, as an operation of
  the server is one step. The turns of the manager threads are single steps. Loops of different
  threads interleave at the grain of whole turns, so data races between them on \<^verbatim>\<open>events_\<close> of the server
  and \<^verbatim>\<open>evlist_\<close> of a loop are outside the model; a join runs the loop of the joined thread to
  its end. The typing of a server covers its connections, its acceptor and the wake-up events of
  its loops; a server that also has timers, signals or UDP sockets is modelled, but its type
  safety is not shown.

  \<^bold>\<open>What is open.\<close> The removal of a loop from the pool (\<open>delloop_dispatch\<close>) and the call of \<^verbatim>\<open>stop\<close> are
  modelled, but are not among the interleaved steps of a server, so that the theorem on the
  destructor starts from loops that have ended. Deleting a connection whose unread input still
  has a callback runs that callback, which the theorem leaves out.
\<close>

end
